(* ===== verification/SD_Prelude.thy ===== *)
theory SD_Prelude imports Complex_Main "HOL-Library.AList" "HOL-Library.Product_Lexorder"
begin

text \<open>
  Shared vocabulary of the development.

  \<^item> Failing operations of the Python sources are values of \<open>pyexc + 'a\<close>: \<open>Inl\<close> is the raised
    exception with its message, \<open>Inr\<close> the returned value; \<open>bindE\<close> sequences them.
  \<^item> A Python \<open>dict\<close> is an association list with distinct keys, in insertion order:
    \<open>AList.update\<close> is \<open>d[k] = v\<close> (in place for an old key, at the end for a new one),
    \<open>AList.delete\<close> is \<open>d.pop(k, None)\<close>, \<open>map_of\<close> is \<open>d.get(k)\<close>.
  \<^item> A Python \<open>str\<close> is an Isabelle \<open>string\<close>, one character per code point below 256.
  \<^item> A Python \<open>float\<close> is a rational: the arithmetic of the sources is carried out exactly, and
    rounding to 53 bits is outside the model.
  \<^item> The collections \<open>dict_simps\<close> and \<open>except_simps\<close> hold the rewriting rules that the
    component theories use for dictionaries and for results.
\<close>

named_theorems dict_simps
named_theorems except_simps

section \<open>Exceptions and results\<close>

datatype pyexc =
    ValueError string
  | TypeError string
  | KeyError string
  | LookupError string
  | RuntimeError string
  | OverflowError
  | IndexError
  | SourceRoutingUnavailable string
  | ClientAbort string
  | QueueTimeout string
  | TaskCancelled
  | AttributeError string
  | TimeoutError string
  | PermissionError string
  | ZeroDivisionError
  | FileExistsError string
  | OSError string
  | TransferCanceled

type_synonym 'a result = "pyexc + 'a"

fun bindE :: "'a result \<Rightarrow> ('a \<Rightarrow> 'b result) \<Rightarrow> 'b result" where
  "bindE (Inl e) f = Inl e"
| "bindE (Inr x) f = f x"

fun is_ok :: "'a result \<Rightarrow> bool" where
  "is_ok (Inl e) = False"
| "is_ok (Inr x) = True"

text \<open>\<open>checkE b e\<close> is \<open>if not b: raise e\<close>.\<close>

definition checkE :: "bool \<Rightarrow> pyexc \<Rightarrow> unit result" where
  "checkE b e = (if b then Inr () else Inl e)"

text \<open>A \<open>for\<close> loop whose body may raise and whose state is threaded through.\<close>

fun foldE :: "('s \<Rightarrow> 'a \<Rightarrow> 's result) \<Rightarrow> 's \<Rightarrow> 'a list \<Rightarrow> 's result" where
  "foldE f s [] = Inr s"
| "foldE f s (x # xs) = bindE (f s x) (\<lambda>s'. foldE f s' xs)"

text \<open>A list comprehension whose element may raise.\<close>

fun mapE :: "('a \<Rightarrow> 'b result) \<Rightarrow> 'a list \<Rightarrow> 'b list result" where
  "mapE f [] = Inr []"
| "mapE f (x # xs) = bindE (f x) (\<lambda>y. bindE (mapE f xs) (\<lambda>ys. Inr (y # ys)))"

lemma bindE_Inr [except_simps]: "bindE m f = Inr y \<longleftrightarrow> (\<exists>x. m = Inr x \<and> f x = Inr y)"
  by (cases m) auto

lemma bindE_Inl [except_simps]:
  "bindE m f = Inl e \<longleftrightarrow> m = Inl e \<or> (\<exists>x. m = Inr x \<and> f x = Inl e)"
  by (cases m) auto

lemma checkE_Inr [except_simps, simp]: "checkE b e = Inr u \<longleftrightarrow> b"
  by (simp add: checkE_def)

lemma checkE_Inl [except_simps, simp]: "checkE b e = Inl e' \<longleftrightarrow> \<not> b \<and> e' = e"
  by (auto simp: checkE_def)

lemma is_ok_iff: "is_ok r \<longleftrightarrow> (\<exists>x. r = Inr x)"
  by (cases r) auto

lemma bindE_cong:
  "m = m' \<Longrightarrow> (\<And>x. m' = Inr x \<Longrightarrow> f x = g x) \<Longrightarrow> bindE m f = bindE m' g"
  by (cases m') auto

lemma foldE_append: "foldE f s (xs @ ys) = bindE (foldE f s xs) (\<lambda>s'. foldE f s' ys)"
proof (induction xs arbitrary: s)
  case (Cons x xs)
  then show ?case by (cases "f s x") auto
qed simp

text \<open>An invariant of the loop body is an invariant of the loop.\<close>

lemma foldE_invariant:
  assumes "foldE f s xs = Inr s'" and "P s"
    and "\<And>t x t'. P t \<Longrightarrow> x \<in> set xs \<Longrightarrow> f t x = Inr t' \<Longrightarrow> P t'"
  shows "P s'"
  using assms
proof (induction xs arbitrary: s)
  case (Cons x xs)
  from Cons.prems(1) obtain t where t: "f s x = Inr t" "foldE f t xs = Inr s'"
    by (auto simp: except_simps)
  have "P t" by (rule Cons.prems(3)[OF Cons.prems(2) _ t(1)]) simp
  then show ?case by (rule Cons.IH[OF t(2)]) (rule Cons.prems(3); simp)
qed simp

lemma mapE_Inr_map: "(\<And>x. x \<in> set xs \<Longrightarrow> f x = Inr (g x)) \<Longrightarrow> mapE f xs = Inr (map g xs)"
  by (induction xs) auto

lemma mapE_length: "mapE f xs = Inr ys \<Longrightarrow> length ys = length xs"
  by (induction xs arbitrary: ys) (auto simp: except_simps)

lemma mapE_set: "mapE f xs = Inr ys \<Longrightarrow> y \<in> set ys \<Longrightarrow> \<exists>x \<in> set xs. f x = Inr y"
  by (induction xs arbitrary: ys) (auto simp: except_simps)

section \<open>Duplicates\<close>

text \<open>\<open>list(dict.fromkeys(xs))\<close>: the first occurrences, in order.\<close>

fun uniq :: "'a list \<Rightarrow> 'a list" where
  "uniq [] = []"
| "uniq (x # xs) = x # filter (\<lambda>y. y \<noteq> x) (uniq xs)"

lemma set_uniq [simp]: "set (uniq xs) = set xs"
  by (induction xs) auto

lemma distinct_uniq [simp]: "distinct (uniq xs)"
  by (induction xs) auto

lemma uniq_distinct: "distinct xs \<Longrightarrow> uniq xs = xs"
  by (induction xs) (auto intro!: filter_True)

lemma uniq_Nil_iff [simp]: "uniq xs = [] \<longleftrightarrow> xs = []"
  by (cases xs) auto

section \<open>Dictionaries\<close>

type_synonym ('k, 'v) dict = "('k \<times> 'v) list"

text \<open>The keys of a Python dictionary are distinct, in every state the program reaches.\<close>

definition wf_dict :: "('k, 'v) dict \<Rightarrow> bool" where
  "wf_dict d \<longleftrightarrow> distinct (map fst d)"

abbreviation keys_of :: "('k, 'v) dict \<Rightarrow> 'k list" where
  "keys_of d \<equiv> map fst d"

lemma wf_dict_Nil [simp]: "wf_dict []"
  by (simp add: wf_dict_def)

lemma wf_dict_update [simp, intro]: "wf_dict d \<Longrightarrow> wf_dict (AList.update k v d)"
  by (simp add: wf_dict_def distinct_update)

lemma wf_dict_delete [simp, intro]: "wf_dict d \<Longrightarrow> wf_dict (AList.delete k d)"
  by (simp add: wf_dict_def distinct_delete)

lemma wf_dict_filter [simp, intro]: "wf_dict d \<Longrightarrow> wf_dict (filter P d)"
  unfolding wf_dict_def by (rule distinct_map_filter)

lemma wf_dict_snoc: "wf_dict d \<Longrightarrow> k \<notin> fst ` set d \<Longrightarrow> wf_dict (d @ [(k, v)])"
  by (auto simp: wf_dict_def)

lemma wf_dict_tl: "wf_dict d \<Longrightarrow> wf_dict (tl d)"
  by (cases d) (auto simp: wf_dict_def)

lemma wf_dict_drop: "wf_dict d \<Longrightarrow> wf_dict (drop n d)"
  unfolding wf_dict_def by (simp add: drop_map[symmetric])

lemma map_of_update [dict_simps]: "map_of (AList.update k v d) = (map_of d)(k \<mapsto> v)"
  by (rule update_conv')

lemma map_of_delete [dict_simps]: "map_of (AList.delete k d) = (map_of d)(k := None)"
  by (simp add: delete_conv fun_eq_iff)

lemma map_of_wf_iff: "wf_dict d \<Longrightarrow> map_of d k = Some v \<longleftrightarrow> (k, v) \<in> set d"
  by (simp add: wf_dict_def)

lemma map_of_filter_wf:
  "wf_dict d \<Longrightarrow> map_of (filter (\<lambda>(k, v). P k v) d) k
     = (case map_of d k of None \<Rightarrow> None | Some v \<Rightarrow> if P k v then Some v else None)"
  by (induction d) (auto simp: wf_dict_def split: option.splits dest: map_of_SomeD
      intro: rev_image_eqI)

lemma map_of_drop_wf:
  "wf_dict d \<Longrightarrow> map_of (drop n d) k = Some v \<Longrightarrow> map_of d k = Some v"
  by (metis map_of_wf_iff wf_dict_drop in_set_dropD)

lemma update_fresh: "k \<notin> fst ` set d \<Longrightarrow> AList.update k v d = d @ [(k, v)]"
  by (induction d) auto

text \<open>\<open>OrderedDict.move_to_end\<close> after an assignment: the key goes to the back.\<close>

definition put_last :: "'k \<Rightarrow> 'v \<Rightarrow> ('k, 'v) dict \<Rightarrow> ('k, 'v) dict" where
  "put_last k v d = AList.delete k d @ [(k, v)]"

lemma wf_put_last [simp, intro]: "wf_dict d \<Longrightarrow> wf_dict (put_last k v d)"
  unfolding put_last_def by (rule wf_dict_snoc) (auto simp: AList.delete_eq)

lemma map_of_put_last [dict_simps]:
  "map_of (put_last k v d) = (map_of d)(k \<mapsto> v)"
  by (auto simp: put_last_def map_add_def delete_conv fun_eq_iff split: option.splits)

lemma length_put_last: "length (put_last k v d) \<le> Suc (length d)"
  by (simp add: put_last_def AList.delete_eq)

lemma set_put_last: "set (put_last k v d) = insert (k, v) {e \<in> set d. fst e \<noteq> k}"
  by (auto simp: put_last_def AList.delete_eq)

section \<open>Lists\<close>

lemma filter_id_conv': "(\<And>x. x \<in> set xs \<Longrightarrow> P x) \<Longrightarrow> filter P xs = xs"
  by (simp add: filter_id_conv)

text \<open>The first element of a list with the least value of \<open>f\<close>: Python's \<open>min(xs, key=f)\<close>.\<close>

fun min_by :: "('a \<Rightarrow> 'b :: linorder) \<Rightarrow> 'a list \<Rightarrow> 'a option" where
  "min_by f [] = None"
| "min_by f (x # xs) =
     (case min_by f xs of None \<Rightarrow> Some x | Some y \<Rightarrow> if f x \<le> f y then Some x else Some y)"

lemma min_by_None [simp]: "min_by f xs = None \<longleftrightarrow> xs = []"
  by (cases xs) (auto split: option.splits)

lemma min_by_Some: "min_by f xs = Some m \<Longrightarrow> m \<in> set xs \<and> (\<forall>x \<in> set xs. f m \<le> f x)"
proof (induction xs arbitrary: m)
  case (Cons a xs)
  show ?case
  proof (cases "min_by f xs")
    case None
    with Cons.prems show ?thesis by simp
  next
    case (Some y)
    then have "y \<in> set xs" "\<forall>x \<in> set xs. f y \<le> f x" using Cons.IH by auto
    with Cons.prems Some show ?thesis by (auto split: if_splits)
  qed
qed simp

text \<open>Every window of \<open>n\<close> consecutive counter values meets each residue once.\<close>

lemma mod_window: "i < n \<Longrightarrow> \<exists>k < n. (c + k) mod n = (i :: nat)"
proof -
  assume i: "i < n"
  let ?k = "(i + (n - c mod n)) mod n"
  have c: "c mod n + (i + (n - c mod n)) = i + n"
    using i mod_less_divisor[of n c] by linarith
  have "(c + ?k) mod n = (c mod n + (i + (n - c mod n))) mod n"
    by (metis mod_add_left_eq mod_add_right_eq)
  also have "\<dots> = (i + n) mod n"
    unfolding c ..
  also have "\<dots> = i" using i by simp
  finally show ?thesis using i by (intro exI[of _ ?k]) simp
qed

end
