(* ===== verification/Fifo_Slots.thy ===== *)
theory Fifo_Slots imports SD_Prelude
begin

text \<open>
  The contract shared by the two admission controllers of the program, the prompt gate
  (\<open>sparkdeck/prompt_gate.py\<close>) and the inference admission queue (\<open>manager.py\<close>): requests wait in
  a FIFO queue, a granted request holds one slot, and after every change the controller settles,
  that is, it grants waiters from the front of the queue while a slot is free.

  The locale \<open>fifo_slots\<close> states what settling promises over an abstract view of a controller:
  the set of slot holders, the queue, and the capacity.  Its lemmas (bound on the holders, no
  lost wakeup, FIFO order, idempotence) are proved once here; the theories of the two
  controllers interpret it on their own definitions.
\<close>

text \<open>The number of waiters a settling controller grants.\<close>

definition grantable :: "nat \<Rightarrow> nat \<Rightarrow> nat \<Rightarrow> nat" where
  "grantable capacity held queued = min queued (capacity - held)"

locale fifo_slots =
  fixes holders :: "'s \<Rightarrow> nat set"
    and queue :: "'s \<Rightarrow> nat list"
    and capacity :: "'s \<Rightarrow> nat"
    and settle :: "'s \<Rightarrow> 's"
    and inv :: "'s \<Rightarrow> bool"
  assumes inv_finite: "inv s \<Longrightarrow> finite (holders s)"
    and inv_distinct: "inv s \<Longrightarrow> distinct (queue s)"
    and inv_disjoint: "inv s \<Longrightarrow> holders s \<inter> set (queue s) = {}"
    and inv_settle: "inv s \<Longrightarrow> inv (settle s)"
    and settle_capacity: "inv s \<Longrightarrow> capacity (settle s) = capacity s"
    and settle_queue: "inv s \<Longrightarrow>
      queue (settle s) = drop (grantable (capacity s) (card (holders s)) (length (queue s))) (queue s)"
    and settle_holders: "inv s \<Longrightarrow>
      holders (settle s) = holders s \<union>
        set (take (grantable (capacity s) (card (holders s)) (length (queue s))) (queue s))"
begin

lemma card_settle:
  assumes "inv s"
  shows "card (holders (settle s))
    = card (holders s) + grantable (capacity s) (card (holders s)) (length (queue s))"
proof -
  let ?k = "grantable (capacity s) (card (holders s)) (length (queue s))"
  have "card (holders s \<union> set (take ?k (queue s)))
      = card (holders s) + card (set (take ?k (queue s)))"
    using inv_finite[OF assms] inv_disjoint[OF assms] set_take_subset[of ?k "queue s"]
    by (intro card_Un_disjoint) auto
  also have "card (set (take ?k (queue s))) = ?k"
    using inv_distinct[OF assms] by (subst distinct_card) (auto simp: grantable_def)
  finally show ?thesis using settle_holders[OF assms] by simp
qed

text \<open>Settling never goes past the capacity; an oversubscribed controller is left alone.\<close>

lemma settle_bounded:
  "inv s \<Longrightarrow> card (holders (settle s)) \<le> max (card (holders s)) (capacity s)"
  by (simp add: card_settle grantable_def)

text \<open>No lost wakeup: whoever still waits does so because every slot is taken.\<close>

lemma settle_work_conserving:
  "inv s \<Longrightarrow> queue (settle s) \<noteq> [] \<Longrightarrow> capacity s \<le> card (holders (settle s))"
  by (auto simp: card_settle settle_queue grantable_def)

text \<open>FIFO: the granted requests are the oldest ones, and the others keep their order.\<close>

lemma settle_fifo:
  assumes "inv s"
  shows "\<exists>granted. queue s = granted @ queue (settle s) \<and>
    holders (settle s) = holders s \<union> set granted"
  using settle_queue[OF assms] settle_holders[OF assms] append_take_drop_id by metis

lemma settle_keeps_holders: "inv s \<Longrightarrow> x \<in> holders s \<Longrightarrow> x \<in> holders (settle s)"
  by (simp add: settle_holders)

lemma settle_idem_queue: "inv s \<Longrightarrow> queue (settle (settle s)) = queue (settle s)"
  by (simp add: settle_queue inv_settle settle_capacity card_settle grantable_def min_def)

text \<open>The oldest waiter is served as soon as one slot is free.\<close>

lemma settle_serves_head:
  assumes "inv s" "queue s = x # xs" "card (holders s) < capacity s"
  shows "x \<in> holders (settle s)"
  using assms by (auto simp: settle_holders grantable_def min_def split: if_splits
      simp del: take_Suc_Cons) (simp_all add: take_Cons')

end

end
