(* ===== verification/Py_Values.thy ===== *)
theory Py_Values imports SD_Prelude
begin

text \<open>
  The Python values that the sources receive from outside: request bodies, configuration files
  and agent answers, which \<open>json.loads\<close> turns into \<open>None\<close>, booleans, integers, floats, strings,
  lists and dictionaries with string keys.  The built-in operations the sources apply to them
  are defined here: truth value, \<open>get\<close>, \<open>str\<close>, \<open>int\<close>, \<open>float\<close>, comparison with an integer,
  and on strings \<open>strip\<close>, \<open>split\<close>, \<open>casefold\<close>, \<open>startswith\<close> and \<open>endswith\<close>.

  A float value carries the text \<open>repr\<close> prints for it, so that \<open>str(value)\<close> is determined.
\<close>

section \<open>Values\<close>

datatype pyfloat = Finite rat | PosInf | NegInf | NaN

datatype pyval =
    PNone
  | PBool bool
  | PInt int
  | PFloat pyfloat string
  | PStr string
  | PList "pyval list"
  | PDict "(string \<times> pyval) list"

fun py_truthy :: "pyval \<Rightarrow> bool" where
  "py_truthy PNone = False"
| "py_truthy (PBool b) = b"
| "py_truthy (PInt i) = (i \<noteq> 0)"
| "py_truthy (PFloat f r) = (f \<noteq> Finite 0)"
| "py_truthy (PStr s) = (s \<noteq> [])"
| "py_truthy (PList xs) = (xs \<noteq> [])"
| "py_truthy (PDict d) = (d \<noteq> [])"

text \<open>\<open>a or b\<close>\<close>

definition py_or :: "pyval \<Rightarrow> pyval \<Rightarrow> pyval" where
  "py_or a b = (if py_truthy a then a else b)"

text \<open>\<open>value.get(key)\<close> on a dictionary\<close>

definition dict_get :: "(string \<times> pyval) list \<Rightarrow> string \<Rightarrow> pyval" where
  "dict_get d k = (case map_of d k of None \<Rightarrow> PNone | Some v \<Rightarrow> v)"

definition has_key :: "(string \<times> pyval) list \<Rightarrow> string \<Rightarrow> bool" where
  "has_key d k \<longleftrightarrow> map_of d k \<noteq> None"

fun is_dict :: "pyval \<Rightarrow> bool" where
  "is_dict (PDict d) = True"
| "is_dict _ = False"

text \<open>\<open>value == n\<close> for an integer constant \<open>n\<close>; \<open>True == 1\<close> and \<open>1.0 == 1\<close> hold in Python.\<close>

fun py_eq_int :: "pyval \<Rightarrow> int \<Rightarrow> bool" where
  "py_eq_int (PInt i) n = (i = n)"
| "py_eq_int (PBool b) n = ((if b then 1 else 0) = n)"
| "py_eq_int (PFloat (Finite r) t) n = (r = of_int n)"
| "py_eq_int _ n = False"

section \<open>Characters and strings\<close>

text \<open>\<open>str.isspace\<close> on code points below 256.\<close>

definition py_space :: "char \<Rightarrow> bool" where
  "py_space c = (let n = (of_char c :: nat) in
     9 \<le> n \<and> n \<le> 13 \<or> 28 \<le> n \<and> n \<le> 32 \<or> n = 133 \<or> n = 160)"

definition py_lstrip :: "string \<Rightarrow> string" where
  "py_lstrip s = dropWhile py_space s"

definition py_strip :: "string \<Rightarrow> string" where
  "py_strip s = rev (dropWhile py_space (rev (dropWhile py_space s)))"

text \<open>\<open>str.casefold\<close> on code points below 256 (\<open>\<mu>\<close> at 181 folds to a Greek letter, which is not
  below 256; it stays itself here, and no constant the sources compare with contains it).\<close>

definition fold_char :: "char \<Rightarrow> string" where
  "fold_char c = (let n = (of_char c :: nat) in
     if 65 \<le> n \<and> n \<le> 90 then [char_of (n + 32)]
     else if 192 \<le> n \<and> n \<le> 222 \<and> n \<noteq> 215 then [char_of (n + 32)]
     else if n = 223 then ''ss''
     else [c])"

definition py_casefold :: "string \<Rightarrow> string" where
  "py_casefold s = concat (map fold_char s)"

text \<open>\<open>str.lower\<close> on code points below 256\<close>

definition lower_char :: "char \<Rightarrow> char" where
  "lower_char c = (let n = (of_char c :: nat) in
     if 65 \<le> n \<and> n \<le> 90 \<or> 192 \<le> n \<and> n \<le> 222 \<and> n \<noteq> 215 then char_of (n + 32) else c)"

definition py_lower :: "string \<Rightarrow> string" where
  "py_lower s = map lower_char s"

fun starts_with :: "string \<Rightarrow> string \<Rightarrow> bool" where
  "starts_with p [] = (p = [])"
| "starts_with [] (c # s) = True"
| "starts_with (d # p) (c # s) = (d = c \<and> starts_with p s)"

definition ends_with :: "string \<Rightarrow> string \<Rightarrow> bool" where
  "ends_with p s = starts_with (rev p) (rev s)"

text \<open>\<open>p in s\<close>\<close>

fun contains :: "string \<Rightarrow> string \<Rightarrow> bool" where
  "contains p [] = (p = [])"
| "contains p (c # s) = (starts_with p (c # s) \<or> contains p s)"

text \<open>\<open>s.split(sep)\<close> for a one-character separator: never empty.\<close>

fun split_on :: "char \<Rightarrow> string \<Rightarrow> string list" where
  "split_on c [] = [[]]"
| "split_on c (x # xs) =
     (if x = c then [] # split_on c xs
      else (case split_on c xs of [] \<Rightarrow> [[x]] | w # ws \<Rightarrow> (x # w) # ws))"

fun join_with :: "string \<Rightarrow> string list \<Rightarrow> string" where
  "join_with sep [] = []"
| "join_with sep [w] = w"
| "join_with sep (w # ws) = w @ sep @ join_with sep ws"

text \<open>\<open>s.split(sep, 1)[0]\<close> and \<open>s.partition(sep)\<close>\<close>

definition before_char :: "char \<Rightarrow> string \<Rightarrow> string" where
  "before_char c s = takeWhile (\<lambda>x. x \<noteq> c) s"

definition after_char :: "char \<Rightarrow> string \<Rightarrow> string" where
  "after_char c s = tl (dropWhile (\<lambda>x. x \<noteq> c) s)"

definition py_control :: "char \<Rightarrow> bool" where
  "py_control c = ((of_char c :: nat) < 32 \<or> (of_char c :: nat) = 127)"

section \<open>Numbers as text\<close>

definition digit_char :: "nat \<Rightarrow> char" where
  "digit_char d = char_of (48 + d)"

definition is_digit :: "char \<Rightarrow> bool" where
  "is_digit c = (48 \<le> (of_char c :: nat) \<and> (of_char c :: nat) \<le> 57)"

definition digit_val :: "char \<Rightarrow> nat" where
  "digit_val c = of_char c - 48"

fun dec_nat :: "nat \<Rightarrow> string" where
  "dec_nat n = (if n < 10 then [digit_char n] else dec_nat (n div 10) @ [digit_char (n mod 10)])"

declare dec_nat.simps [simp del]

definition dec_int :: "int \<Rightarrow> string" where
  "dec_int i = (if i < 0 then CHR ''-'' # dec_nat (nat (- i)) else dec_nat (nat i))"

definition dec_value :: "string \<Rightarrow> nat" where
  "dec_value s = foldl (\<lambda>a c. a * 10 + digit_val c) 0 s"

text \<open>Digits with single underscores between them, as \<open>int\<close> accepts.\<close>

fun parse_digits :: "string \<Rightarrow> nat \<Rightarrow> bool \<Rightarrow> nat option" where
  "parse_digits [] acc prev = (if prev then Some acc else None)"
| "parse_digits (c # cs) acc prev =
     (if is_digit c then parse_digits cs (acc * 10 + digit_val c) True
      else if c = CHR ''_'' \<and> prev then parse_digits cs acc False
      else None)"

text \<open>\<open>int(text)\<close>; more than 4300 digits is a \<open>ValueError\<close> since Python 3.11.\<close>

definition int_of_text :: "string \<Rightarrow> int result" where
  "int_of_text t = (let s = py_strip t;
       body = (case s of [] \<Rightarrow> [] | c # cs \<Rightarrow> if c = CHR ''-'' \<or> c = CHR ''+'' then cs else s);
       neg = (case s of [] \<Rightarrow> False | c # cs \<Rightarrow> c = CHR ''-'')
     in if 4300 < length (filter is_digit body) then Inl (ValueError ''Exceeds the limit for integer string conversion'')
        else case parse_digits body 0 False of
          None \<Rightarrow> Inl (ValueError ''invalid literal for int()'')
        | Some n \<Rightarrow> Inr (if neg then - int n else int n))"

text \<open>\<open>int(value)\<close>: a float is truncated towards zero.\<close>

definition trunc_rat :: "rat \<Rightarrow> int" where
  "trunc_rat r = (if r < 0 then - \<lfloor>- r\<rfloor> else \<lfloor>r\<rfloor>)"

fun py_int :: "pyval \<Rightarrow> int result" where
  "py_int (PBool b) = Inr (if b then 1 else 0)"
| "py_int (PInt i) = Inr i"
| "py_int (PFloat (Finite r) t) = Inr (trunc_rat r)"
| "py_int (PFloat NaN t) = Inl (ValueError ''cannot convert float NaN to integer'')"
| "py_int (PFloat f t) = Inl OverflowError"
| "py_int (PStr s) = int_of_text s"
| "py_int PNone = Inl (TypeError ''int() argument'')"
| "py_int (PList xs) = Inl (TypeError ''int() argument'')"
| "py_int (PDict d) = Inl (TypeError ''int() argument'')"

text \<open>\<open>float(value)\<close>; an integer beyond the largest float overflows.\<close>

fun py_float :: "(string \<Rightarrow> pyfloat option) \<Rightarrow> pyval \<Rightarrow> pyfloat result" where
  "py_float fl (PBool b) = Inr (Finite (if b then 1 else 0))"
| "py_float fl (PInt i) = (if \<bar>i\<bar> < 2 ^ 1024 then Inr (Finite (of_int i)) else Inl OverflowError)"
| "py_float fl (PFloat f t) = Inr f"
| "py_float fl (PStr s) = (case fl s of None \<Rightarrow> Inl (ValueError ''could not convert string to float'') | Some f \<Rightarrow> Inr f)"
| "py_float fl v = Inl (TypeError ''float() argument'')"

text \<open>\<open>round(x)\<close> and \<open>round(x, n)\<close>: to the nearest, ties to the even neighbour.\<close>

definition round_even :: "rat \<Rightarrow> int" where
  "round_even x = (let f = \<lfloor>x\<rfloor>; d = x - of_int f in
     if d < 1 / 2 then f else if d > 1 / 2 then f + 1 else if even f then f else f + 1)"

definition round_digits :: "nat \<Rightarrow> rat \<Rightarrow> rat" where
  "round_digits n x = of_int (round_even (x * 10 ^ n)) / 10 ^ n"

section \<open>\<open>str\<close> and \<open>repr\<close>\<close>

definition printable :: "char \<Rightarrow> bool" where
  "printable c = (let n = (of_char c :: nat) in
     32 \<le> n \<and> n \<le> 126 \<or> 161 \<le> n \<and> n \<noteq> 173)"

definition hex_digit :: "nat \<Rightarrow> char" where
  "hex_digit d = (if d < 10 then char_of (48 + d) else char_of (87 + d))"

definition repr_char :: "char \<Rightarrow> char \<Rightarrow> string" where
  "repr_char q c = (let n = (of_char c :: nat) in
     if c = q \<or> n = 92 then [char_of (92 :: nat), c]
     else if n = 9 then [char_of (92 :: nat), CHR ''t'']
     else if n = 10 then [char_of (92 :: nat), CHR ''n'']
     else if n = 13 then [char_of (92 :: nat), CHR ''r'']
     else if printable c then [c]
     else [char_of (92 :: nat), CHR ''x'', hex_digit (n div 16), hex_digit (n mod 16)])"

definition repr_str :: "string \<Rightarrow> string" where
  "repr_str s = (let sq = char_of (39 :: nat); dq = char_of (34 :: nat);
       q = (if sq \<in> set s \<and> dq \<notin> set s then dq else sq)
     in q # concat (map (repr_char q) s) @ [q])"

fun py_repr :: "pyval \<Rightarrow> string" where
  "py_repr PNone = ''None''"
| "py_repr (PBool b) = (if b then ''True'' else ''False'')"
| "py_repr (PInt i) = dec_int i"
| "py_repr (PFloat f t) = t"
| "py_repr (PStr s) = repr_str s"
| "py_repr (PList xs) = ''['' @ join_with '', '' (map py_repr xs) @ '']''"
| "py_repr (PDict d) =
     ''{'' @ join_with '', '' (map (\<lambda>(k, v). repr_str k @ '': '' @ py_repr v) d) @ ''}''"

fun py_str :: "pyval \<Rightarrow> string" where
  "py_str (PStr s) = s"
| "py_str v = py_repr v"

text \<open>\<open>str(value or "").strip()\<close>, the most frequent reading of a text field.\<close>

definition str_or_empty :: "pyval \<Rightarrow> string" where
  "str_or_empty v = py_str (py_or v (PStr []))"

definition text_field :: "pyval \<Rightarrow> string" where
  "text_field v = py_strip (str_or_empty v)"

section \<open>Lemmas\<close>

lemma of_char_lt_256: "(of_char c :: nat) < 256"
  by (metis UNIV_I atLeastLessThan_iff range_nat_of_char rangeI)

lemma dropWhile_idem: "dropWhile P (dropWhile P xs) = dropWhile P xs"
  by (induction xs) auto

lemma rev_dropWhile_prefix: "\<exists>ys. xs = rev (dropWhile P (rev xs)) @ ys"
  by (metis rev_append rev_rev_ident takeWhile_dropWhile_id)

lemma py_strip_Nil [simp]: "py_strip [] = []"
  by (simp add: py_strip_def)

lemma py_strip_idem [simp]: "py_strip (py_strip s) = py_strip s"
proof -
  let ?l = "dropWhile py_space s"
  let ?r = "rev (dropWhile py_space (rev ?l))"
  have "dropWhile py_space ?r = ?r"
  proof (cases ?r)
    case (Cons c cs)
    obtain ys where "?l = ?r @ ys" using rev_dropWhile_prefix[of ?l py_space] by blast
    then have "hd ?l = c" "?l \<noteq> []" using Cons by auto
    then have "\<not> py_space c" using hd_dropWhile[of py_space s] by simp
    then show ?thesis using Cons by simp
  next
    case Nil
    show ?thesis unfolding Nil by simp
  qed
  then show ?thesis by (simp add: py_strip_def dropWhile_idem)
qed

lemma round_even_mono: "x \<le> y \<Longrightarrow> round_even x \<le> round_even y"
proof -
  assume xy: "x \<le> y"
  have f: "\<lfloor>x\<rfloor> \<le> \<lfloor>y\<rfloor>" using xy by (rule floor_mono)
  show ?thesis
  proof (cases "\<lfloor>x\<rfloor> = \<lfloor>y\<rfloor>")
    case True
    then show ?thesis using xy by (auto simp: round_even_def Let_def)
  next
    case False
    then have "\<lfloor>x\<rfloor> + 1 \<le> \<lfloor>y\<rfloor>" using f by simp
    moreover have "round_even x \<le> \<lfloor>x\<rfloor> + 1" "\<lfloor>y\<rfloor> \<le> round_even y" by (auto simp: round_even_def Let_def)
    ultimately show ?thesis by simp
  qed
qed

lemma round_even_int [simp]: "round_even (of_int i) = i"
  by (simp add: round_even_def)

lemma round_even_bounds: "of_int a \<le> x \<Longrightarrow> x \<le> of_int b \<Longrightarrow> a \<le> round_even x \<and> round_even x \<le> b"
  using round_even_mono[of "of_int a" x] round_even_mono[of x "of_int b"] by simp

lemma round_digits_mono: "x \<le> y \<Longrightarrow> round_digits n x \<le> round_digits n y"
  using round_even_mono[of "x * 10 ^ n" "y * 10 ^ n"] by (simp add: round_digits_def divide_right_mono)

lemma text_field_PStr [simp]: "text_field (PStr s) = py_strip s"
  by (cases s) (simp_all add: text_field_def str_or_empty_def py_or_def)

lemma text_field_strip: "py_strip (text_field v) = text_field v"
  by (simp add: text_field_def)

lemma starts_with_iff: "starts_with p s \<longleftrightarrow> (\<exists>t. s = p @ t)"
  by (induction p s rule: starts_with.induct) auto

lemma ends_with_iff: "ends_with p s \<longleftrightarrow> (\<exists>t. s = t @ p)"
  unfolding ends_with_def starts_with_iff by (metis rev_append rev_rev_ident)

lemma contains_iff: "contains p s \<longleftrightarrow> (\<exists>a b. s = a @ p @ b)"
proof (induction p s rule: contains.induct)
  case (2 p c s)
  show ?case
  proof
    assume "contains p (c # s)"
    then consider "starts_with p (c # s)" | "contains p s" by auto
    then show "\<exists>a b. c # s = a @ p @ b"
    proof cases
      case 1
      then show ?thesis by (metis append_Nil starts_with_iff)
    next
      case 2
      then show ?thesis using "2.IH" by (metis append_Cons)
    qed
  next
    assume "\<exists>a b. c # s = a @ p @ b"
    then obtain a b where ab: "c # s = a @ p @ b" by blast
    show "contains p (c # s)"
    proof (cases a)
      case Nil
      then have "starts_with p (c # s)" using ab by (auto simp: starts_with_iff)
      then show ?thesis by simp
    next
      case (Cons d a')
      then have "contains p s" using ab "2.IH" by auto
      then show ?thesis by simp
    qed
  qed
qed simp

lemma split_on_nonempty [simp]: "split_on c s \<noteq> []"
  by (cases s) (auto split: list.splits)

lemma join_split_on: "join_with [c] (split_on c s) = s"
proof (induction s)
  case (Cons x xs)
  then show ?case
    by (cases "split_on c xs"; cases "tl (split_on c xs)") (auto split: list.splits)
qed simp

lemma split_on_no_sep: "w \<in> set (split_on c s) \<Longrightarrow> c \<notin> set w"
  by (induction s arbitrary: w) (auto split: if_splits list.splits)

lemma digit_char_props:
  "d < 10 \<Longrightarrow> is_digit (digit_char d)" "d < 10 \<Longrightarrow> digit_val (digit_char d) = d"
  by (auto simp: is_digit_def digit_char_def digit_val_def)

lemma dec_nat_digits: "c \<in> set (dec_nat n) \<Longrightarrow> is_digit c"
proof (induction n arbitrary: c rule: dec_nat.induct)
  case (1 n)
  show ?case
  proof (cases "n < 10")
    case True
    with "1.prems" show ?thesis by (subst (asm) dec_nat.simps) (auto simp: digit_char_props)
  next
    case False
    with "1.prems" have "c \<in> set (dec_nat (n div 10)) \<or> c = digit_char (n mod 10)"
      by (subst (asm) dec_nat.simps) auto
    then show ?thesis using "1.IH"[OF False] by (auto simp: digit_char_props)
  qed
qed

lemma dec_nat_value: "dec_value (dec_nat n) = n"
proof (induction n rule: dec_nat.induct)
  case (1 n)
  show ?case
  proof (cases "n < 10")
    case True
    then show ?thesis by (subst dec_nat.simps) (simp add: dec_value_def digit_char_props)
  next
    case False
    have "dec_value (dec_nat (n div 10)) = n div 10" using "1.IH"[OF False] .
    then show ?thesis using False
      by (subst dec_nat.simps) (simp add: dec_value_def digit_char_props)
  qed
qed

lemma dec_nat_inj: "dec_nat m = dec_nat n \<longleftrightarrow> m = n"
  by (metis dec_nat_value)

lemma dec_int_inj: "dec_int i = dec_int j \<longleftrightarrow> i = j"
proof -
  have minus: "CHR ''-'' # s \<noteq> dec_nat n" for s n
    using dec_nat_digits[of "CHR ''-''" n] by (auto simp: is_digit_def) (metis list.set_intros(1))
  show ?thesis
    using minus[symmetric] minus by (auto simp: dec_int_def dec_nat_inj)
qed

lemma after_char_shorter: "c \<in> set p \<Longrightarrow> length (after_char c p) < length p"
proof -
  assume "c \<in> set p"
  then have "dropWhile (\<lambda>x. x \<noteq> c) p \<noteq> []" by (simp add: dropWhile_eq_Nil_conv)
  then have "length (tl (dropWhile (\<lambda>x. x \<noteq> c) p)) < length (dropWhile (\<lambda>x. x \<noteq> c) p)"
    by (cases "dropWhile (\<lambda>x. x \<noteq> c) p") auto
  also have "\<dots> \<le> length p" by (rule length_dropWhile_le)
  finally show ?thesis by (simp add: after_char_def)
qed

lemma before_after_append:
  assumes "c \<in> set p"
  shows "before_char c (p @ q) = before_char c p" "after_char c (p @ q) = after_char c p @ q"
proof -
  have ne: "dropWhile (\<lambda>x. x \<noteq> c) p \<noteq> []" using assms by (simp add: dropWhile_eq_Nil_conv)
  show "before_char c (p @ q) = before_char c p"
    using assms by (simp add: before_char_def takeWhile_append1)
  show "after_char c (p @ q) = after_char c p @ q"
    using assms ne by (simp add: after_char_def dropWhile_append1)
qed

end
