(* ===== verification/Prompt_Gate.thy ===== *)
theory Prompt_Gate imports Fifo_Slots Py_Values
begin

text \<open>
  \<open>sparkdeck/prompt_gate.py\<close>: the FIFO gate that bounds how many requests of a serving group are
  in prompt processing, and the lease a request holds until its first generated output.

  The gate lives on one event loop, so the code between two \<open>await\<close>s runs without
  interleaving; each operation below is such an uninterrupted segment.  \<open>gate_step\<close> is the
  interleaving of the segments of all requests.  A future (and the lease set on it) is named by
  a number; \<open>asyncio.Future\<close> states are \<open>Pending\<close>, \<open>HasLease\<close> (a result was set) and
  \<open>FutCancelled\<close>.
\<close>

section \<open>State\<close>

datatype fut_state = Pending | HasLease | FutCancelled

record gate =
  limit_now :: int
  active :: int
  waiting :: "nat list"
  futs :: "nat \<Rightarrow> fut_state option"
  released :: "nat \<Rightarrow> bool"

definition new_gate :: "int \<Rightarrow> gate" where
  "new_gate n = \<lparr>limit_now = n, active = 0, waiting = [], futs = (\<lambda>_. None), released = (\<lambda>_. False)\<rparr>"

fun fut_done :: "fut_state option \<Rightarrow> bool" where
  "fut_done (Some HasLease) = True"
| "fut_done (Some FutCancelled) = True"
| "fut_done _ = False"

section \<open>Operations\<close>

text \<open>The \<open>while\<close> loop of \<open>PromptGate.refresh\<close>.\<close>

fun refresh_from :: "int \<Rightarrow> int \<Rightarrow> nat list \<Rightarrow> (nat \<Rightarrow> fut_state option) \<Rightarrow> (nat \<Rightarrow> bool)
    \<Rightarrow> int \<times> nat list \<times> (nat \<Rightarrow> fut_state option) \<times> (nat \<Rightarrow> bool)" where
  "refresh_from lmt act [] fs rel = (act, [], fs, rel)"
| "refresh_from lmt act (f # ws) fs rel =
     (if act < max 1 lmt then
        if fut_done (fs f) then refresh_from lmt act ws fs rel
        else refresh_from lmt (act + 1) ws (fs(f := Some HasLease)) (rel(f := False))
      else (act, f # ws, fs, rel))"

definition refresh :: "gate \<Rightarrow> gate" where
  "refresh g = (case refresh_from (limit_now g) (active g) (waiting g) (futs g) (released g) of
     (a, w, fs, rel) \<Rightarrow> g\<lparr>active := a, waiting := w, futs := fs, released := rel\<rparr>)"

text \<open>\<open>PromptLease.release\<close>\<close>

definition release :: "nat \<Rightarrow> gate \<Rightarrow> gate" where
  "release f g = (if released g f then g
     else refresh (g\<lparr>released := (released g)(f := True), active := active g - 1\<rparr>))"

text \<open>\<open>PromptGate.acquire\<close> up to its first \<open>await\<close>: \<open>cancel_set\<close> is \<open>cancel.is_set()\<close>.\<close>

definition acquire_begin :: "nat \<Rightarrow> bool \<Rightarrow> gate \<Rightarrow> gate result" where
  "acquire_begin f cancel_set g =
     (if cancel_set then Inl (ClientAbort [])
      else Inr (refresh (g\<lparr>waiting := waiting g @ [f], futs := (futs g)(f := Some Pending)\<rparr>)))"

text \<open>The \<open>except BaseException\<close> block of \<open>acquire\<close>.\<close>

definition acquire_cleanup :: "nat \<Rightarrow> gate \<Rightarrow> gate" where
  "acquire_cleanup f g =
     (if fut_done (futs g f) \<and> futs g f \<noteq> Some FutCancelled then release f g
      else g\<lparr>futs := (futs g)(f := Some FutCancelled), waiting := remove1 f (waiting g)\<rparr>)"

text \<open>\<open>acquire\<close> after it is resumed: \<open>interrupted\<close> says that the awaiting task was cancelled.\<close>

definition acquire_finish :: "nat \<Rightarrow> bool \<Rightarrow> bool \<Rightarrow> gate \<Rightarrow> gate \<times> nat result" where
  "acquire_finish f interrupted cancel_set g =
     (if interrupted then (acquire_cleanup f g, Inl TaskCancelled)
      else if cancel_set then (acquire_cleanup f g, Inl (ClientAbort []))
      else (g, Inr f))"

text \<open>A changed setting is followed by \<open>refresh\<close>.\<close>

definition retune :: "int \<Rightarrow> gate \<Rightarrow> gate" where
  "retune n g = refresh (g\<lparr>limit_now := n\<rparr>)"

section \<open>The interleaving of requests\<close>

inductive gate_step :: "gate \<Rightarrow> gate \<Rightarrow> bool" where
  arrive: "futs g f = None \<Longrightarrow> acquire_begin f c g = Inr g' \<Longrightarrow> gate_step g g'"
| resume: "futs g f \<noteq> None \<Longrightarrow> futs g f = Some HasLease \<or> i \<or> c \<Longrightarrow>
    acquire_finish f i c g = (g', r) \<Longrightarrow> gate_step g g'"
| finish: "futs g f = Some HasLease \<Longrightarrow> gate_step g (release f g)"
| setting: "gate_step g (retune n g)"

inductive gate_reachable :: "gate \<Rightarrow> bool" where
  init: "gate_reachable (new_gate n)"
| step: "gate_reachable g \<Longrightarrow> gate_step g g' \<Longrightarrow> gate_reachable g'"

section \<open>The abstract view\<close>

definition gate_holders :: "gate \<Rightarrow> nat set" where
  "gate_holders g = {f. futs g f = Some HasLease \<and> \<not> released g f}"

definition gate_capacity :: "gate \<Rightarrow> nat" where
  "gate_capacity g = nat (max 1 (limit_now g))"

text \<open>Bookkeeping that every operation keeps: \<open>active\<close> counts the unreleased leases, and the
  queue holds exactly the pending futures.\<close>

definition gate_ok :: "gate \<Rightarrow> bool" where
  "gate_ok g \<longleftrightarrow> finite (gate_holders g) \<and> active g = int (card (gate_holders g)) \<and>
     distinct (waiting g) \<and> set (waiting g) = {f. futs g f = Some Pending} \<and>
     (\<forall>f. released g f \<longrightarrow> futs g f = Some HasLease)"

text \<open>A settled gate leaves nobody waiting while a slot is free.\<close>

definition gate_settled :: "gate \<Rightarrow> bool" where
  "gate_settled g \<longleftrightarrow> (waiting g \<noteq> [] \<longrightarrow> max 1 (limit_now g) \<le> active g)"

lemma refresh_from_spec:
  assumes "distinct ws" "\<forall>f \<in> set ws. fs f = Some Pending" "0 \<le> act"
  shows "refresh_from lmt act ws fs rel =
    (let k = grantable (nat (max 1 lmt)) (nat act) (length ws)
     in (act + int k, drop k ws,
         (\<lambda>f. if f \<in> set (take k ws) then Some HasLease else fs f),
         (\<lambda>f. if f \<in> set (take k ws) then False else rel f)))"
  using assms
proof (induction lmt act ws fs rel rule: refresh_from.induct)
  case (2 lmt act f ws fs rel)
  show ?case
  proof (cases "act < max 1 lmt")
    case False
    then have "nat (max 1 lmt) - nat act = 0" using "2.prems" by linarith
    with False show ?thesis by (simp add: grantable_def Let_def)
  next
    case True
    have fd: "\<not> fut_done (fs f)" using "2.prems" by simp
    let ?k = "grantable (nat (max 1 lmt)) (nat (act + 1)) (length ws)"
    have k: "grantable (nat (max 1 lmt)) (nat act) (length (f # ws)) = Suc ?k"
      using True "2.prems"(3) by (simp add: grantable_def) linarith
    have "refresh_from lmt (act + 1) ws (fs(f := Some HasLease)) (rel(f := False)) =
      (act + 1 + int ?k, drop ?k ws,
         (\<lambda>h. if h \<in> set (take ?k ws) then Some HasLease else (fs(f := Some HasLease)) h),
         (\<lambda>h. if h \<in> set (take ?k ws) then False else (rel(f := False)) h))"
    proof -
      have "distinct ws" "\<forall>h \<in> set ws. (fs(f := Some HasLease)) h = Some Pending" "0 \<le> act + 1"
        using "2.prems" by auto
      from "2.IH"(2)[OF True fd this] show ?thesis by (simp only: Let_def)
    qed
    with True fd show ?thesis unfolding k by (auto simp: Let_def fun_eq_iff)
  qed
qed (simp add: grantable_def)

lemma refresh_view:
  assumes "gate_ok g"
  defines "k \<equiv> grantable (gate_capacity g) (card (gate_holders g)) (length (waiting g))"
  shows "waiting (refresh g) = drop k (waiting g)"
    and "gate_holders (refresh g) = gate_holders g \<union> set (take k (waiting g))"
    and "active (refresh g) = active g + int k"
    and "limit_now (refresh g) = limit_now g"
    and "futs (refresh g) = (\<lambda>f. if f \<in> set (take k (waiting g)) then Some HasLease else futs g f)"
    and "released (refresh g) = (\<lambda>f. if f \<in> set (take k (waiting g)) then False else released g f)"
proof -
  have pre: "distinct (waiting g)" "\<forall>f \<in> set (waiting g). futs g f = Some Pending" "0 \<le> active g"
    using assms(1) by (auto simp: gate_ok_def)
  have k: "k = grantable (nat (max 1 (limit_now g))) (nat (active g)) (length (waiting g))"
    using assms(1) by (simp add: k_def gate_ok_def gate_capacity_def)
  note spec = refresh_from_spec[OF pre, of "limit_now g" "released g", folded k, unfolded Let_def]
  show "waiting (refresh g) = drop k (waiting g)" "active (refresh g) = active g + int k"
    "limit_now (refresh g) = limit_now g"
    "futs (refresh g) = (\<lambda>f. if f \<in> set (take k (waiting g)) then Some HasLease else futs g f)"
    "released (refresh g) = (\<lambda>f. if f \<in> set (take k (waiting g)) then False else released g f)"
    by (simp_all add: refresh_def spec)
  then show "gate_holders (refresh g) = gate_holders g \<union> set (take k (waiting g))"
    by (auto simp: gate_holders_def)
qed

lemma gate_ok_disjoint: "gate_ok g \<Longrightarrow> gate_holders g \<inter> set (waiting g) = {}"
  by (auto simp: gate_ok_def gate_holders_def)

lemma gate_ok_refresh:
  assumes ok: "gate_ok g"
  shows "gate_ok (refresh g)"
proof -
  define k where "k = grantable (gate_capacity g) (card (gate_holders g)) (length (waiting g))"
  note v = refresh_view[OF ok, folded k_def]
  have fin: "finite (gate_holders g)" and dist: "distinct (waiting g)"
    and act: "active g = int (card (gate_holders g))"
    and pend: "set (waiting g) = {f. futs g f = Some Pending}"
    and rel: "\<And>f. released g f \<Longrightarrow> futs g f = Some HasLease"
    using ok by (auto simp: gate_ok_def)
  have sub: "set (take k (waiting g)) \<subseteq> set (waiting g)" by (rule set_take_subset)
  have dj: "gate_holders g \<inter> set (take k (waiting g)) = {}"
    using gate_ok_disjoint[OF ok] sub by auto
  have ck: "card (set (take k (waiting g))) = k"
    using dist by (subst distinct_card) (auto simp: k_def grantable_def)
  have "card (gate_holders (refresh g)) = card (gate_holders g) + k"
    unfolding v(2) using fin dj ck by (subst card_Un_disjoint) auto
  moreover have "set (drop k (waiting g)) = set (waiting g) - set (take k (waiting g))"
    using dist set_take_disj_set_drop_if_distinct[OF dist, of k k]
    by (subst append_take_drop_id[of k "waiting g", symmetric], subst set_append) auto
  ultimately show ?thesis
    unfolding gate_ok_def v(1,3,5,6) using v(2) fin act dist pend rel
    by (auto split: if_splits)
qed

interpretation pg: fifo_slots gate_holders waiting gate_capacity refresh gate_ok
proof unfold_locales
  show "\<And>s. gate_ok s \<Longrightarrow> gate_holders s \<inter> set (waiting s) = {}" by (rule gate_ok_disjoint)
  show "\<And>s. gate_ok s \<Longrightarrow> gate_ok (refresh s)" by (rule gate_ok_refresh)
qed (auto simp: gate_ok_def gate_capacity_def refresh_view)

lemma gate_settled_refresh: "gate_ok g \<Longrightarrow> gate_settled (refresh g)"
  using pg.settle_work_conserving[of g] gate_ok_refresh[of g] refresh_view(4)[of g]
  by (auto simp: gate_settled_def gate_ok_def gate_capacity_def)

section \<open>Every operation keeps the bookkeeping\<close>

lemma gate_enqueue_ok:
  assumes "gate_ok g" "futs g f = None"
  shows "gate_ok (g\<lparr>waiting := waiting g @ [f], futs := (futs g)(f := Some Pending)\<rparr>)"
proof -
  have "gate_holders (g\<lparr>waiting := waiting g @ [f], futs := (futs g)(f := Some Pending)\<rparr>)
      = gate_holders g"
    using assms(2) by (auto simp: gate_holders_def)
  then show ?thesis using assms by (auto simp: gate_ok_def)
qed

lemma unhold_ok:
  assumes "gate_ok g" "futs g f = Some HasLease" "\<not> released g f"
  shows "gate_ok (g\<lparr>released := (released g)(f := True), active := active g - 1\<rparr>)"
    and "gate_holders (g\<lparr>released := (released g)(f := True), active := active g - 1\<rparr>)
      = gate_holders g - {f}"
proof -
  show h: "gate_holders (g\<lparr>released := (released g)(f := True), active := active g - 1\<rparr>)
      = gate_holders g - {f}"
    by (auto simp: gate_holders_def)
  have "f \<in> gate_holders g" using assms by (simp add: gate_holders_def)
  then have "0 < card (gate_holders g)" "card (gate_holders g - {f}) = card (gate_holders g) - 1"
    using assms(1) by (auto simp: gate_ok_def card_gt_0_iff)
  then show "gate_ok (g\<lparr>released := (released g)(f := True), active := active g - 1\<rparr>)"
    using assms h by (auto simp: gate_ok_def)
qed

lemma release_ok:
  assumes "gate_ok g" "futs g f = Some HasLease"
  shows "gate_ok (release f g)"
  using assms unhold_ok(1) by (auto simp: release_def intro: gate_ok_refresh)

lemma release_settled:
  "gate_ok g \<Longrightarrow> gate_settled g \<Longrightarrow> futs g f = Some HasLease \<Longrightarrow> gate_settled (release f g)"
  using unhold_ok(1) by (auto simp: release_def intro: gate_settled_refresh)

lemma cleanup_pending_ok:
  assumes "gate_ok g" "futs g f \<noteq> Some HasLease"
  shows "gate_ok (g\<lparr>futs := (futs g)(f := Some FutCancelled), waiting := remove1 f (waiting g)\<rparr>)"
proof -
  have "gate_holders (g\<lparr>futs := (futs g)(f := Some FutCancelled), waiting := remove1 f (waiting g)\<rparr>)
      = gate_holders g"
    using assms(2) by (auto simp: gate_holders_def)
  then show ?thesis using assms by (auto simp: gate_ok_def)
qed

lemma fut_done_cases:
  "fut_done x \<and> x \<noteq> Some FutCancelled \<longleftrightarrow> x = Some HasLease"
  by (cases x rule: fut_done.cases) auto

lemma cleanup_ok:
  assumes "gate_ok g" "gate_settled g"
  shows "gate_ok (acquire_cleanup f g) \<and> gate_settled (acquire_cleanup f g)"
proof (cases "futs g f = Some HasLease")
  case True
  then show ?thesis
    unfolding acquire_cleanup_def fut_done_cases using assms release_ok release_settled by simp
next
  case False
  have "gate_settled (g\<lparr>futs := (futs g)(f := Some FutCancelled), waiting := remove1 f (waiting g)\<rparr>)"
    using assms(2) by (auto simp: gate_settled_def)
  with False show ?thesis
    unfolding acquire_cleanup_def fut_done_cases using cleanup_pending_ok[OF assms(1) False] by simp
qed

lemma gate_step_inv:
  assumes "gate_step g g'" "gate_ok g" "gate_settled g"
  shows "gate_ok g' \<and> gate_settled g'"
  using assms
proof (induction rule: gate_step.induct)
  case (arrive g f c g')
  then show ?case
    using gate_enqueue_ok[of g f]
    by (auto simp: acquire_begin_def split: if_splits intro: gate_ok_refresh gate_settled_refresh)
next
  case (resume g f i c g' r)
  then show ?case using cleanup_ok[of g f] by (auto simp: acquire_finish_def split: if_splits)
next
  case (finish g f)
  then show ?case using release_ok release_settled by blast
next
  case (setting g n)
  then have "gate_ok (g\<lparr>limit_now := n\<rparr>)" by (simp add: gate_ok_def gate_holders_def)
  then show ?case by (simp add: retune_def gate_ok_refresh gate_settled_refresh)
qed

lemma gate_reachable_inv: "gate_reachable g \<Longrightarrow> gate_ok g \<and> gate_settled g"
proof (induction rule: gate_reachable.induct)
  case (init n)
  show ?case by (simp add: new_gate_def gate_ok_def gate_settled_def gate_holders_def)
next
  case (step g g')
  then show ?case using gate_step_inv by blast
qed


section \<open>Service order\<close>

text \<open>A run of lease releases, each by a request that holds its lease at that moment.\<close>

fun release_run :: "nat list \<Rightarrow> gate \<Rightarrow> gate option" where
  "release_run [] g = Some g"
| "release_run (h # hs) g =
     (if futs g h = Some HasLease \<and> \<not> released g h then release_run hs (release h g) else None)"

lemma release_hands_over:
  assumes ok: "gate_ok g" and full: "active g = max 1 (limit_now g)"
    and h: "futs g h = Some HasLease" "\<not> released g h" and w: "waiting g = w # ws"
  shows "waiting (release h g) = ws" "futs (release h g) = (futs g)(w := Some HasLease)"
    "active (release h g) = active g" "limit_now (release h g) = limit_now g"
proof -
  let ?g = "g\<lparr>released := (released g)(h := True), active := active g - 1\<rparr>"
  note u = unhold_ok[OF ok h]
  have "active ?g = int (card (gate_holders ?g))" using u(1) unfolding gate_ok_def by blast
  then have "card (gate_holders ?g) = nat (active ?g)" by (metis nat_int)
  then have k: "grantable (gate_capacity ?g) (card (gate_holders ?g)) (length (waiting ?g)) = 1"
    using full w by (simp add: grantable_def gate_capacity_def)
  note v = refresh_view[OF u(1), unfolded k]
  show "waiting (release h g) = ws" "futs (release h g) = (futs g)(w := Some HasLease)"
    "active (release h g) = active g" "limit_now (release h g) = limit_now g"
    using h(2) w v by (auto simp: release_def fun_eq_iff)
qed

lemma refresh_grants_persist: "gate_ok g \<Longrightarrow> futs g f = Some HasLease \<Longrightarrow> futs (refresh g) f = Some HasLease"
  by (simp add: refresh_view)

lemma release_grants_persist:
  assumes "gate_ok g" "futs g h = Some HasLease" "futs g f = Some HasLease"
  shows "futs (release h g) f = Some HasLease"
proof (cases "released g h")
  case False
  then show ?thesis
    using refresh_grants_persist[OF unhold_ok(1)[OF assms(1,2) False]] assms(3)
    by (simp add: release_def)
qed (use assms in \<open>simp add: release_def\<close>)

lemma release_run_keeps_grant:
  "release_run hs g = Some g' \<Longrightarrow> gate_ok g \<Longrightarrow> futs g f = Some HasLease \<Longrightarrow> futs g' f = Some HasLease"
proof (induction hs arbitrary: g)
  case (Cons h hs)
  then show ?case
    using release_ok release_grants_persist by (auto split: if_splits)
qed simp

lemma release_run_serves:
  assumes "release_run hs g = Some g'" "gate_ok g" "active g = max 1 (limit_now g)"
    and "k < length (waiting g)" "length hs = Suc k"
  shows "futs g' (waiting g ! k) = Some HasLease"
  using assms
proof (induction hs arbitrary: g k)
  case (Cons h hs)
  then obtain w ws where w: "waiting g = w # ws" by (cases "waiting g") auto
  from Cons.prems(1) have h: "futs g h = Some HasLease" "\<not> released g h"
    and run: "release_run hs (release h g) = Some g'" by (auto split: if_splits)
  note r = release_hands_over[OF Cons.prems(2,3) h w]
  have ok: "gate_ok (release h g)" using Cons.prems(2) h(1) by (rule release_ok)
  show ?case
  proof (cases k)
    case 0
    then show ?thesis using release_run_keeps_grant[OF run ok, of w] r(2) w by simp
  next
    case (Suc j)
    then show ?thesis using Cons.IH[OF run ok, of j] r Cons.prems(3,4,5) w by simp
  qed
qed simp

section \<open>First-output detection\<close>

text \<open>
  \<open>_OutputDetector.feed\<close> on decoded text: complete lines are taken off the pending text, and the
  first \<open>data:\<close> line whose JSON payload carries output ends the scan.  \<open>loads\<close> is
  \<open>json.loads\<close>, with \<open>None\<close> for a \<open>ValueError\<close>.  Iterating a number raises \<open>TypeError\<close>.
\<close>

definition output_keys :: "string list" where
  "output_keys = [''content'', ''reasoning_content'', ''reasoning'', ''tool_calls'', ''function_call'']"

fun choice_has_output :: "pyval \<Rightarrow> bool" where
  "choice_has_output (PDict c) =
     (if py_truthy (dict_get c ''text'') then True
      else (case py_or (dict_get c ''delta'') (py_or (dict_get c ''message'') (PDict [])) of
          PDict d \<Rightarrow> list_ex (\<lambda>k. py_truthy (dict_get d k)) output_keys
        | _ \<Rightarrow> False))"
| "choice_has_output _ = False"

fun choices_have_output :: "pyval \<Rightarrow> bool result" where
  "choices_have_output (PList cs) = Inr (list_ex choice_has_output cs)"
| "choices_have_output (PStr s) = Inr False"
| "choices_have_output (PDict d) = Inr False"
| "choices_have_output _ = Inl (TypeError ''object is not iterable'')"

definition line_has_output :: "(string \<Rightarrow> pyval option) \<Rightarrow> string \<Rightarrow> bool result" where
  "line_has_output loads line =
     (if \<not> starts_with ''data:'' line then Inr False
      else (case loads (py_strip (drop 5 line)) of
          Some (PDict p) \<Rightarrow> choices_have_output (py_or (dict_get p ''choices'') (PList []))
        | _ \<Rightarrow> Inr False))"

abbreviation newline :: char where
  "newline \<equiv> CHR 0x0A"

function scan_lines :: "(string \<Rightarrow> pyval option) \<Rightarrow> string \<Rightarrow> string \<times> bool result" where
  "scan_lines loads p =
     (if newline \<in> set p then
        (case line_has_output loads (before_char newline p) of
          Inl e \<Rightarrow> (after_char newline p, Inl e)
        | Inr True \<Rightarrow> (after_char newline p, Inr True)
        | Inr False \<Rightarrow> scan_lines loads (after_char newline p))
      else (p, Inr False))"
  by pat_completeness auto

termination
  by (relation "measure (length \<circ> snd)") (auto simp: after_char_shorter)

declare scan_lines.simps [simp del]

definition max_pending :: nat where
  "max_pending = 1024 * 1024"

definition feed :: "(string \<Rightarrow> pyval option) \<Rightarrow> string \<Rightarrow> string \<Rightarrow> string \<times> bool result" where
  "feed loads pending chunk =
     (case scan_lines loads (pending @ chunk) of
        (p, Inr False) \<Rightarrow> (if max_pending < length p then ([], Inr False) else (p, Inr False))
      | (p, r) \<Rightarrow> (p, r))"

text \<open>Scanning in two portions sees the same lines as scanning at once.\<close>

lemma scan_lines_append:
  "scan_lines loads p = (r, Inr False) \<Longrightarrow> scan_lines loads (p @ q) = scan_lines loads (r @ q)"
proof (induction loads p arbitrary: r rule: scan_lines.induct)
  case (1 loads p)
  show ?case
  proof (cases "newline \<in> set p")
    case False
    with "1.prems" show ?thesis by (simp add: scan_lines.simps[of loads p])
  next
    case True
    with "1.prems" have l: "line_has_output loads (before_char newline p) = Inr False"
      and s: "scan_lines loads (after_char newline p) = (r, Inr False)"
      by (auto simp: scan_lines.simps[of loads p] split: sum.splits bool.splits)
    have "scan_lines loads (p @ q) = scan_lines loads (after_char newline p @ q)"
      using True l by (simp add: scan_lines.simps[of loads "p @ q"] before_after_append)
    also have "\<dots> = scan_lines loads (r @ q)"
      using "1.IH"[OF True l _ s] by simp
    finally show ?thesis .
  qed
qed

lemma feed_split:
  assumes "feed loads pending a = (p, Inr False)" "length p \<le> max_pending" "a @ pending = [] \<or> p \<noteq> []"
  shows "feed loads p b = feed loads pending (a @ b)"
proof -
  obtain r where r: "scan_lines loads (pending @ a) = (r, Inr False)"
    using assms(1) by (auto simp: feed_def split: prod.splits sum.splits bool.splits)
  have "p = r \<or> max_pending < length r \<and> p = []"
    using assms(1) r by (auto simp: feed_def split: if_splits)
  then have "p = r"
  proof
    assume big: "max_pending < length r \<and> p = []"
    with assms(3) have "pending @ a = []" by simp
    with r big show ?thesis by (simp add: scan_lines.simps max_pending_def)
  qed
  then show ?thesis using scan_lines_append[OF r, of b] by (simp add: feed_def)
qed

section \<open>A request under the gate\<close>

text \<open>
  \<open>_PromptStream._produce\<close>: every upstream chunk is forwarded; the lease is released with the
  first chunk in which output is detected, and in any case when the stream ends.  \<open>ending\<close> is
  the exception that ended the upstream (or the cancellation of the producer), if any.
\<close>

fun produce :: "(string \<Rightarrow> pyval option) \<Rightarrow> nat \<Rightarrow> string list \<Rightarrow> pyexc option \<Rightarrow> string
    \<Rightarrow> gate \<Rightarrow> gate \<times> string list \<times> pyexc option" where
  "produce loads f [] ending p g = (release f g, [], ending)"
| "produce loads f (c # cs) ending p g =
     (if released g f then
        (case produce loads f cs ending p g of (g', out, e) \<Rightarrow> (g', c # out, e))
      else (case feed loads p c of
          (p', Inl e) \<Rightarrow> (release f g, [], Some e)
        | (p', Inr True) \<Rightarrow>
            (case produce loads f cs ending p' (release f g) of (g', out, e) \<Rightarrow> (g', c # out, e))
        | (p', Inr False) \<Rightarrow>
            (case produce loads f cs ending p' g of (g', out, e) \<Rightarrow> (g', c # out, e))))"

text \<open>\<open>PromptGate.run\<close> after the lease was acquired: what the factory returned decides whether
  the lease is released here or handed to the stream.\<close>

datatype run_outcome = ReturnsPlain | ReturnsStream | Raises pyexc

definition run_finish :: "nat \<Rightarrow> bool \<Rightarrow> run_outcome \<Rightarrow> gate \<Rightarrow> gate \<times> bool result" where
  "run_finish f cancel_set out g =
     (if cancel_set then (release f g, Inl (ClientAbort []))
      else (case out of
          Raises e \<Rightarrow> (release f g, Inl e)
        | ReturnsPlain \<Rightarrow> (release f g, Inr False)
        | ReturnsStream \<Rightarrow> (g, Inr True)))"

lemma release_released: "gate_ok g \<Longrightarrow> futs g f = Some HasLease \<Longrightarrow> released (release f g) f"
proof (cases "released g f")
  case False
  assume ok: "gate_ok g" and f: "futs g f = Some HasLease"
  let ?g = "g\<lparr>released := (released g)(f := True), active := active g - 1\<rparr>"
  have "f \<notin> set (waiting ?g)" using ok f by (simp add: gate_ok_def)
  then have "f \<notin> set (take k (waiting ?g))" for k by (meson in_set_takeD)
  then have "released (refresh ?g) f"
    by (subst refresh_view(6)[OF unhold_ok(1)[OF ok f False]]) simp
  then show ?thesis using False by (simp add: release_def)
qed (simp add: release_def)

lemma release_idem: "gate_ok g \<Longrightarrow> futs g f = Some HasLease \<Longrightarrow> release f (release f g) = release f g"
  using release_released by (simp add: release_def)

lemma release_keeps_fut: "gate_ok g \<Longrightarrow> futs g f = Some HasLease \<Longrightarrow> futs (release f g) f = Some HasLease"
  by (rule release_grants_persist)

lemma produce_releases:
  assumes "gate_ok g" "futs g f = Some HasLease" "produce loads f cs ending p g = (g', out, e)"
  shows "g' = release f g \<and> (\<exists>rest. cs = out @ rest) \<and> (e = ending \<and> out = cs \<or> (\<exists>x. e = Some x))"
  using assms
proof (induction cs arbitrary: p g g' out e)
  case (Cons c cs)
  have ok': "gate_ok (release f g)" "futs (release f g) f = Some HasLease"
    using release_ok[OF Cons.prems(1,2)] release_keeps_fut[OF Cons.prems(1,2)] by simp_all
  have *: "release f (release f g) = release f g" using release_idem[OF Cons.prems(1,2)] .
  have tail: ?case
    if "gate_ok h" "futs h f = Some HasLease" "release f h = release f g"
      "(case produce loads f cs ending q h of (g1, o1, e1) \<Rightarrow> (g1, c # o1, e1)) = (g', out, e)"
    for h q
  proof -
    obtain g1 o1 e1 where p1: "produce loads f cs ending q h = (g1, o1, e1)"
      by (cases "produce loads f cs ending q h") auto
    with that(4) have "g' = g1" "out = c # o1" "e = e1" by auto
    with Cons.IH[OF that(1,2) p1] that(3) show ?thesis by simp
  qed
  show ?case
  proof (cases "released g f")
    case True
    then show ?thesis using tail[OF Cons.prems(1,2) refl] Cons.prems(3) by simp
  next
    case False
    obtain p' r where fd: "feed loads p c = (p', r)" by (cases "feed loads p c") auto
    show ?thesis
    proof (cases r)
      case (Inl x)
      with fd False Cons.prems(3) show ?thesis by auto
    next
      case (Inr b)
      then show ?thesis
        using fd False Cons.prems(3) tail[OF Cons.prems(1,2) refl, of p'] tail[OF ok' *, of p']
        by (cases b) simp_all
    qed
  qed
qed auto

section \<open>One gate per serving group\<close>

text \<open>\<open>PromptGates\<close>: gates are created on demand and all of them follow the shared limit.  An idle
  gate may be dropped by the weak dictionary; a later request then gets a new gate.\<close>

definition gates_get :: "int \<Rightarrow> 'k \<Rightarrow> ('k, gate) dict \<Rightarrow> ('k, gate) dict \<times> gate" where
  "gates_get n k gs = (case map_of gs k of
     Some g \<Rightarrow> (gs, g) | None \<Rightarrow> (AList.update k (new_gate n) gs, new_gate n))"

definition gates_refresh :: "int \<Rightarrow> ('k, gate) dict \<Rightarrow> ('k, gate) dict" where
  "gates_refresh n gs = map (\<lambda>(k, g). (k, retune n g)) gs"

lemma gates_get_lookup: "map_of (fst (gates_get n k gs)) k = Some (snd (gates_get n k gs))"
  by (auto simp: gates_get_def dict_simps split: option.splits)

lemma gates_refresh_settled:
  "\<forall>(k, g) \<in> set gs. gate_ok g \<Longrightarrow> (k, g) \<in> set (gates_refresh n gs) \<Longrightarrow> gate_ok g \<and> gate_settled g"
proof -
  assume all: "\<forall>(k, g) \<in> set gs. gate_ok g" and kg: "(k, g) \<in> set (gates_refresh n gs)"
  then obtain h where h: "(k, h) \<in> set gs" "g = retune n h" by (auto simp: gates_refresh_def)
  then have "gate_ok (h\<lparr>limit_now := n\<rparr>)" using all by (auto simp: gate_ok_def gate_holders_def)
  then show ?thesis using h(2) by (simp add: retune_def gate_ok_refresh gate_settled_refresh)
qed


section \<open>Properties\<close>

lemma refresh_bounded: "gate_ok g \<Longrightarrow> active (refresh g) \<le> max (active g) (max 1 (limit_now g))"
  using pg.settle_bounded[of g] gate_ok_refresh[of g]
  by (auto simp: gate_ok_def gate_capacity_def)

lemma release_bounded:
  "gate_ok g \<Longrightarrow> futs g f = Some HasLease \<Longrightarrow>
     active (release f g) \<le> max (active g) (max 1 (limit_now g))"
  using refresh_bounded[OF unhold_ok(1)] by (fastforce simp: release_def)

lemma cleanup_bounded:
  "gate_ok g \<Longrightarrow> active (acquire_cleanup f g) \<le> max (active g) (max 1 (limit_now g))"
  using release_bounded by (auto simp: acquire_cleanup_def fut_done_cases)

lemma refresh_limit: "gate_ok g \<Longrightarrow> limit_now (refresh g) = limit_now g"
  by (rule refresh_view)

lemma release_limit: "gate_ok g \<Longrightarrow> futs g f = Some HasLease \<Longrightarrow> limit_now (release f g) = limit_now g"
  using refresh_limit[OF unhold_ok(1)] by (auto simp: release_def)

lemma cleanup_limit: "gate_ok g \<Longrightarrow> limit_now (acquire_cleanup f g) = limit_now g"
  using release_limit by (auto simp: acquire_cleanup_def fut_done_cases)

lemma gate_step_bounded:
  assumes "gate_step g g'" "gate_ok g"
  shows "active g' \<le> max (active g) (max 1 (limit_now g'))"
  using assms
proof (induction rule: gate_step.induct)
  case (arrive g f c g')
  then show ?case
    using refresh_bounded[OF gate_enqueue_ok[of g f]] refresh_limit[OF gate_enqueue_ok[of g f]]
    by (auto simp: acquire_begin_def split: if_splits)
next
  case (resume g f i c g' r)
  then show ?case using cleanup_bounded[of g f] cleanup_limit[of g f]
    by (auto simp: acquire_finish_def split: if_splits)
next
  case (finish g f)
  then show ?case using release_bounded[of g f] release_limit[of g f] by auto
next
  case (setting g n)
  then have "gate_ok (g\<lparr>limit_now := n\<rparr>)" by (simp add: gate_ok_def gate_holders_def)
  then show ?case using refresh_bounded[of "g\<lparr>limit_now := n\<rparr>"] refresh_limit[of "g\<lparr>limit_now := n\<rparr>"]
    by (auto simp: retune_def)
qed

text \<open>Two requests at a gate of one slot: the first holds the lease, the second waits.\<close>

definition demo_gate :: gate where
  "demo_gate = \<lparr>limit_now = 1, active = 1, waiting = [1],
     futs = (\<lambda>_. None)(0 := Some HasLease, 1 := Some Pending), released = (\<lambda>_. False)\<rparr>"

lemma demo_gate_reachable: "gate_reachable demo_gate"
proof -
  let ?g1 = "\<lparr>limit_now = 1, active = 1, waiting = [],
     futs = (\<lambda>_. None)(0 := Some HasLease), released = (\<lambda>_. False)\<rparr>"
  have "acquire_begin 0 False (new_gate 1) = Inr ?g1"
    by (simp add: acquire_begin_def new_gate_def refresh_def fun_eq_iff)
  then have "gate_reachable ?g1"
    by (intro gate_reachable.step[OF gate_reachable.init[of 1]] gate_step.arrive[of _ 0 False])
      (auto simp: new_gate_def)
  moreover have "acquire_begin 1 False ?g1 = Inr demo_gate"
    by (simp add: acquire_begin_def demo_gate_def refresh_def)
  then have "gate_step ?g1 demo_gate"
    by (intro gate_step.arrive[of _ 1 False]) auto
  ultimately show ?thesis by (rule gate_reachable.step)
qed

text \<open>C1: in every reachable state of a prompt gate, under any interleaving of arrivals, releases,
  disconnects and setting changes, the counter \<open>active\<close> is the number of unreleased leases, the
  queue holds exactly the requests that still wait, each once, and nobody waits while fewer than
  the configured number of leases are out.\<close>

theorem prompt_gate_accounting:
  assumes "gate_reachable g"
  shows "finite (gate_holders g) \<and> active g = int (card (gate_holders g)) \<and> distinct (waiting g) \<and>
    set (waiting g) = {f. futs g f = Some Pending} \<and>
    (waiting g \<noteq> [] \<longrightarrow> max 1 (limit_now g) \<le> active g)"
  using gate_reachable_inv[OF assms] unfolding gate_ok_def gate_settled_def by blast

theorem prompt_gate_accounting_witness:
  "gate_reachable demo_gate \<and> waiting demo_gate \<noteq> [] \<and> active demo_gate = int (card (gate_holders demo_gate))"
  using prompt_gate_accounting[OF demo_gate_reachable] demo_gate_reachable by (simp add: demo_gate_def)

text \<open>No step of a prompt gate raises the number of active leases above the configured limit
  (at least one); after the limit was lowered the count can only fall towards it.\<close>

theorem prompt_gate_bound:
  assumes "gate_reachable g" and "gate_step g g'"
  shows "active g' \<le> max (active g) (max 1 (limit_now g'))"
  using gate_step_bounded[OF assms(2)] gate_reachable_inv[OF assms(1)] by blast

theorem prompt_gate_bound_witness:
  "gate_step demo_gate (release 0 demo_gate) \<and> active (release 0 demo_gate) \<le> 1"
proof -
  have s: "gate_step demo_gate (release 0 demo_gate)"
    by (rule gate_step.finish) (simp add: demo_gate_def)
  have "limit_now (release 0 demo_gate) = 1" "active demo_gate = 1"
    by (simp_all add: release_def refresh_def demo_gate_def)
  with s prompt_gate_bound[OF demo_gate_reachable s] show ?thesis by simp
qed

text \<open>C2: waiters are served in arrival order and without starvation: from a reachable gate that is
  exactly at its limit, the request at position \<open>k\<close> of the queue holds a lease after \<open>k + 1\<close>
  releases, whichever holders release.\<close>

theorem prompt_gate_fifo_service:
  assumes "gate_reachable g" and "active g = max 1 (limit_now g)"
    and "release_run hs g = Some g'" and "k < length (waiting g)" and "length hs = Suc k"
  shows "futs g' (waiting g ! k) = Some HasLease"
  using release_run_serves[OF assms(3) _ assms(2,4,5)] gate_reachable_inv[OF assms(1)] by blast

theorem prompt_gate_fifo_service_witness:
  "\<exists>g'. release_run [0] demo_gate = Some g' \<and> futs g' 1 = Some HasLease"
proof -
  have r: "release_run [0] demo_gate = Some (release 0 demo_gate)"
    by (simp add: demo_gate_def)
  have "futs (release 0 demo_gate) (waiting demo_gate ! 0) = Some HasLease"
    by (rule prompt_gate_fifo_service[OF demo_gate_reachable _ r]) (simp_all add: demo_gate_def)
  with r show ?thesis by (simp add: demo_gate_def)
qed

text \<open>C3: whatever a streamed response does (produces output, ends without any, raises, sends
  malformed data), when its producer is done the lease has been released exactly once, and what
  was forwarded to the client is the upstream chunks in order.\<close>

theorem prompt_stream_releases:
  assumes "gate_reachable g" and "futs g f = Some HasLease"
    and "produce loads f cs ending p g = (g', out, e)"
  shows "released g' f \<and> f \<notin> gate_holders g' \<and> g' = release f g \<and> (\<exists>rest. cs = out @ rest) \<and>
    (e = None \<longrightarrow> out = cs \<and> ending = None)"
proof -
  have ok: "gate_ok g" using gate_reachable_inv[OF assms(1)] by blast
  have "g' = release f g \<and> (\<exists>rest. cs = out @ rest) \<and> (e = ending \<and> out = cs \<or> (\<exists>x. e = Some x))"
    using produce_releases[OF ok assms(2,3)] .
  with release_released[OF ok assms(2)] show ?thesis by (auto simp: gate_holders_def)
qed

theorem prompt_stream_releases_witness:
  "\<exists>g' out e. produce (\<lambda>_. None) 0 [''data: x''] None [] demo_gate = (g', out, e) \<and> released g' 0"
proof -
  obtain g' out e where p: "produce (\<lambda>_. None) 0 [''data: x''] None [] demo_gate = (g', out, e)"
    by (cases "produce (\<lambda>_. None) 0 [''data: x''] None [] demo_gate") auto
  have f: "futs demo_gate 0 = Some HasLease" by (simp add: demo_gate_def)
  have "released g' 0"
    using prompt_stream_releases[OF demo_gate_reachable f p] by blast
  with p show ?thesis by blast
qed

text \<open>C4: where the upstream cuts its chunks does not matter to output detection: as long as the
  retained partial line stays within its bound, feeding \<open>a\<close> and then \<open>b\<close> detects exactly what
  feeding \<open>a @ b\<close> at once detects.\<close>

theorem output_detection_split:
  assumes "feed loads pending a = (p, Inr False)" and "p \<noteq> []"
  shows "feed loads p b = feed loads pending (a @ b)"
proof (rule feed_split[OF assms(1)])
  show "length p \<le> max_pending"
    using assms by (auto simp: feed_def split: prod.splits sum.splits bool.splits if_splits)
qed (use assms(2) in simp)

theorem output_detection_split_witness:
  "feed (\<lambda>_. None) [] ''data'' = (''data'', Inr False) \<and>
   feed (\<lambda>_. None) ''data'' '': 1'' = feed (\<lambda>_. None) [] ''data: 1''"
proof -
  have h: "feed (\<lambda>_. None) [] ''data'' = (''data'', Inr False)"
    by (simp add: feed_def scan_lines.simps max_pending_def)
  show ?thesis using h output_detection_split[OF h, of "'': 1''"] by simp
qed

end
