(* ===== verification/Inference_Admission.thy ===== *)
theory Inference_Admission imports Fifo_Slots Py_Values
begin

text \<open>
  The inference admission queue of the controller (\<open>manager.py\<close>, \<open>_acquire_inference_slot\<close> to
  \<open>reset_inference_admission\<close>): per inference target a state object with a limit, a running count,
  a FIFO of waiters and the granted leases.

  The Python code shares mutable objects, and \<open>_release_inference_slot\<close> compares them by identity:
  a lease remembers the state object it was granted from, and after a target was failed and created
  anew an old lease must not free a slot of the new object.  So state objects live in a heap
  (\<open>objs\<close>, addressed by numbers) and the store maps a target name to an address.  A request is
  the pair of a waiter and its lease, addressed by a number; its future, \<open>granted\<close> flag and
  \<open>released\<close> flag are in \<open>reqs\<close>.  The operations below run between two awaits of the event loop.
\<close>

section \<open>Data\<close>

datatype afut = APending | AGranted | AFailed string | ACancelled

record areq =
  r_target :: string
  r_state :: nat
  r_fut :: afut
  r_granted :: bool
  r_released :: bool
  r_owner :: "nat option"
  r_cancel :: "nat option"
  r_created :: rat

text \<open>The telemetry dictionary the nudger attaches to a state.\<close>

record nudger_info =
  nu_status :: string
  nu_rate :: "rat option"
  nu_threshold :: "rat option"
  nu_eff :: "int option"
  nu_conf :: "int option"
  nu_survivor :: "nat option"
  nu_replayed :: "nat option"
  nu_triggers :: int
  nu_triggered_at :: "rat option"
  nu_reason :: "string option"

record adm_state =
  a_limit :: int
  a_running :: int
  a_model :: string
  a_group :: string
  a_waiters :: "nat list"
  a_leases :: "nat list"
  a_eff :: "int option"
  a_dead :: "rat option"
  a_next :: "rat option"
  a_nudger :: "nudger_info option"

type_synonym areqs = "nat \<Rightarrow> areq option"

record adm =
  store :: "(string, nat) dict"
  objs :: "nat \<Rightarrow> adm_state"
  next_obj :: nat
  reqs :: areqs
  slow_since :: "(string, rat) dict"

definition store_get :: "adm \<Rightarrow> string \<Rightarrow> nat option" where
  "store_get a t = map_of (store a) t"

section \<open>Configuration\<close>

text \<open>\<open>_inference_admission_config\<close>: the target id, the configured limit and the telemetry key.
  An infinite float limit makes \<open>int\<close> raise \<open>OverflowError\<close>, which the code does not catch.\<close>

definition admission_config ::
  "(string \<times> pyval) list \<Rightarrow> string \<Rightarrow> (string \<times> int option \<times> string) result" where
  "admission_config c model =
     (let target = (if py_truthy (dict_get c ''deployment_id'') then py_str (dict_get c ''deployment_id'')
                    else if py_truthy (dict_get c ''name'') then py_str (dict_get c ''name'')
                    else ''port:'' @ py_str (dict_get c ''port''));
          key = (if py_truthy (dict_get c ''stats_key'') then py_str (dict_get c ''stats_key'')
                 else model)
      in case py_or (dict_get c ''load_settings'') (PDict []) of
           PDict ls \<Rightarrow>
             (case py_int (dict_get ls ''max_concurrency'') of
                Inr n \<Rightarrow> Inr (target, if n \<le> 0 then None else Some n, key)
              | Inl OverflowError \<Rightarrow> Inl OverflowError
              | Inl e \<Rightarrow> Inr (target, None, key))
         | _ \<Rightarrow> Inl (AttributeError ''get''))"

section \<open>Draining the waiters\<close>

definition limit_of :: "adm_state \<Rightarrow> int" where
  "limit_of st = (case a_eff st of None \<Rightarrow> a_limit st | Some e \<Rightarrow> e)"

definition fut_of :: "areqs \<Rightarrow> nat \<Rightarrow> afut" where
  "fut_of rq w = (case rq w of None \<Rightarrow> ACancelled | Some q \<Rightarrow> r_fut q)"

definition grant :: "nat \<Rightarrow> areqs \<Rightarrow> areqs" where
  "grant w rq = rq(w := map_option (\<lambda>q. q\<lparr>r_granted := True, r_fut := AGranted\<rparr>) (rq w))"

definition add_lease :: "nat \<Rightarrow> nat list \<Rightarrow> nat list" where
  "add_lease w ls = (if w \<in> set ls then ls else ls @ [w])"

text \<open>The \<open>while\<close> loop of \<open>_drain_inference_waiters\<close>; each turn pops one waiter.\<close>

fun drain_loop ::
  "int \<Rightarrow> nat list \<Rightarrow> int \<Rightarrow> nat list \<Rightarrow> areqs \<Rightarrow> nat list \<times> int \<times> nat list \<times> areqs" where
  "drain_loop lmt [] n ls rq = ([], n, ls, rq)"
| "drain_loop lmt (w # ws) n ls rq =
     (if n < lmt then
        if fut_of rq w \<noteq> APending then drain_loop lmt ws n ls rq
        else drain_loop lmt ws (n + 1) (add_lease w ls) (grant w rq)
      else (w # ws, n, ls, rq))"

definition drain_view :: "adm_state \<times> areqs \<Rightarrow> adm_state \<times> areqs" where
  "drain_view p = (case p of (st, rq) \<Rightarrow>
     (case drain_loop (limit_of st) (a_waiters st) (a_running st) (a_leases st) rq of
        (ws, n, ls, rq') \<Rightarrow> (st\<lparr>a_waiters := ws, a_running := n, a_leases := ls\<rparr>, rq')))"

definition put_view :: "nat \<Rightarrow> adm_state \<times> areqs \<Rightarrow> adm \<Rightarrow> adm" where
  "put_view s p a = a\<lparr>objs := (objs a)(s := fst p), reqs := snd p\<rparr>"

definition view :: "adm \<Rightarrow> nat \<Rightarrow> adm_state \<times> areqs" where
  "view a s = (objs a s, reqs a)"

definition drain :: "nat \<Rightarrow> adm \<Rightarrow> adm" where
  "drain s a = put_view s (drain_view (view a s)) a"

section \<open>Release\<close>

definition mark_released :: "nat \<Rightarrow> areqs \<Rightarrow> areqs" where
  "mark_released w rq = rq(w := map_option (\<lambda>q. q\<lparr>r_released := True, r_owner := None\<rparr>) (rq w))"

text \<open>\<open>target.released = True; target.owner = None; target.state["leases"].pop(id(target), None)\<close>\<close>

definition unlease :: "nat \<Rightarrow> areq \<Rightarrow> adm \<Rightarrow> adm" where
  "unlease w q a = put_view (r_state q)
     ((objs a (r_state q))\<lparr>a_leases := removeAll w (a_leases (objs a (r_state q)))\<rparr>,
      mark_released w (reqs a)) a"

text \<open>The end of \<open>_release_inference_slot\<close>: one slot back, drain, forget an idle target.\<close>

definition give_back :: "nat \<Rightarrow> adm \<Rightarrow> adm" where
  "give_back s a =
     drain s (put_view s ((objs a s)\<lparr>a_running := max 0 (a_running (objs a s) - 1)\<rparr>, reqs a) a)"

definition drop_idle :: "string \<Rightarrow> nat \<Rightarrow> adm \<Rightarrow> adm" where
  "drop_idle t s a =
     (if a_running (objs a s) = 0 \<and> a_waiters (objs a s) = [] then
        a\<lparr>store := AList.delete t (store a), slow_since := AList.delete t (slow_since a)\<rparr>
      else a)"

definition release_lease :: "nat \<Rightarrow> adm \<Rightarrow> adm" where
  "release_lease w a = (case reqs a w of None \<Rightarrow> a | Some q \<Rightarrow>
     if r_released q then a
     else let a1 = unlease w q a in
       if store_get a (r_target q) = Some (r_state q)
       then drop_idle (r_target q) (r_state q) (give_back (r_state q) a1)
       else a1)"

text \<open>A caller that only has the target's name releases the oldest lease of the target.\<close>

definition release_name :: "string \<Rightarrow> adm \<Rightarrow> adm" where
  "release_name t a = (case store_get a t of None \<Rightarrow> a | Some s \<Rightarrow>
     (case a_leases (objs a s) of
        w # _ \<Rightarrow> release_lease w a
      | [] \<Rightarrow> drop_idle t s (give_back s a)))"

datatype grant_token = NoSlot | Lease nat | TargetName string

fun release_slot :: "grant_token \<Rightarrow> adm \<Rightarrow> adm" where
  "release_slot NoSlot a = a"
| "release_slot (Lease w) a = release_lease w a"
| "release_slot (TargetName t) a = release_name t a"

section \<open>Acquire\<close>

definition blank_state :: "int \<Rightarrow> string \<Rightarrow> string \<Rightarrow> adm_state" where
  "blank_state n key grp = \<lparr>a_limit = n, a_running = 0, a_model = key, a_group = grp, a_waiters = [],
     a_leases = [], a_eff = None, a_dead = None, a_next = None, a_nudger = None\<rparr>"

text \<open>\<open>store.setdefault(target, {...})\<close> followed by the assignments of limit, model and group.\<close>

definition open_target :: "string \<Rightarrow> int \<Rightarrow> string \<Rightarrow> string \<Rightarrow> adm \<Rightarrow> nat \<times> adm" where
  "open_target t n key grp a = (case store_get a t of
     Some s \<Rightarrow> (s, a\<lparr>objs := (objs a)(s := (objs a s)\<lparr>a_limit := n, a_model := key, a_group := grp\<rparr>)\<rparr>)
   | None \<Rightarrow> (next_obj a, a\<lparr>store := AList.update t (next_obj a) (store a),
       objs := (objs a)(next_obj a := blank_state n key grp), next_obj := Suc (next_obj a)\<rparr>))"

definition enqueue :: "nat \<Rightarrow> string \<Rightarrow> nat \<Rightarrow> nat option \<Rightarrow> nat option \<Rightarrow> rat \<Rightarrow> adm \<Rightarrow> adm" where
  "enqueue w t s owner cancel now a = put_view s
     ((objs a s)\<lparr>a_waiters := a_waiters (objs a s) @ [w]\<rparr>,
      (reqs a)(w \<mapsto> \<lparr>r_target = t, r_state = s, r_fut = APending, r_granted = False,
        r_released = False, r_owner = owner, r_cancel = cancel, r_created = now\<rparr>)) a"

text \<open>The part of \<open>_acquire_inference_slot\<close> before its first await, for the new request \<open>w\<close>;
  \<open>Inr (Some a)\<close> is the state in which it waits, \<open>Inr None\<close> an unlimited target.\<close>

definition acquire_slot_begin :: "nat \<Rightarrow> string \<Rightarrow> int option \<Rightarrow> string \<Rightarrow> string \<Rightarrow> nat option \<Rightarrow>
    nat option \<Rightarrow> bool \<Rightarrow> rat \<Rightarrow> adm \<Rightarrow> adm option result" where
  "acquire_slot_begin w t lmt key grp owner cancel cancel_set now a = (case lmt of
     None \<Rightarrow> Inr None
   | Some n \<Rightarrow>
       if cancel_set then Inl (ClientAbort ''client disconnected while queued'')
       else (case open_target t n key grp a of (s, a1) \<Rightarrow>
         Inr (Some (drain s (enqueue w t s owner cancel now a1)))))"

text \<open>The \<open>except BaseException\<close> block.\<close>

definition abandon :: "nat \<Rightarrow> adm \<Rightarrow> adm" where
  "abandon w a = (case reqs a w of None \<Rightarrow> a | Some q \<Rightarrow>
     if r_granted q then release_lease w a
     else put_view (r_state q)
       ((objs a (r_state q))\<lparr>a_waiters := remove1 w (a_waiters (objs a (r_state q)))\<rparr>,
        if r_fut q = APending then (reqs a)(w \<mapsto> q\<lparr>r_fut := ACancelled\<rparr>) else reqs a) a)"

text \<open>The rest of \<open>_acquire_inference_slot\<close> when the task runs again: \<open>interrupted\<close> is a task
  cancellation, \<open>cancel_done\<close> that the client's cancel event is among the completed waits; a
  future that is still pending then means that the wait timed out.\<close>

definition acquire_slot_finish ::
  "nat \<Rightarrow> bool \<Rightarrow> bool \<Rightarrow> adm \<Rightarrow> adm \<times> nat result" where
  "acquire_slot_finish w interrupted cancel_done a =
     (let fail = (\<lambda>e. (abandon w a, Inl e)) in
      if interrupted then fail TaskCancelled
      else if fut_of (reqs a) w = APending \<and> \<not> cancel_done then
        fail (TimeoutError ''inference queue wait exceeded 120s'')
      else if cancel_done then fail (ClientAbort ''client disconnected while queued'')
      else case fut_of (reqs a) w of
          AFailed m \<Rightarrow> fail (LookupError m)
        | AGranted \<Rightarrow> (a, Inr w)
        | _ \<Rightarrow> fail TaskCancelled)"

section \<open>Failing a target\<close>

definition dropped_message :: "string \<Rightarrow> string" where
  "dropped_message t =
     ''inference target '' @ repr_str t @ '' is no longer running; queued request was dropped''"

definition fail_waiters :: "string \<Rightarrow> nat list \<Rightarrow> areqs \<Rightarrow> areqs" where
  "fail_waiters t ws rq = (\<lambda>w. if w \<in> set ws then
     map_option (\<lambda>q. if r_fut q = APending then q\<lparr>r_fut := AFailed (dropped_message t)\<rparr> else q) (rq w)
     else rq w)"

definition release_all :: "nat list \<Rightarrow> areqs \<Rightarrow> areqs" where
  "release_all ls rq = (\<lambda>w. if w \<in> set ls then
     map_option (\<lambda>q. q\<lparr>r_released := True, r_owner := None\<rparr>) (rq w) else rq w)"

definition fail_view :: "string \<Rightarrow> adm_state \<times> areqs \<Rightarrow> adm_state \<times> areqs" where
  "fail_view t p = (case p of (st, rq) \<Rightarrow>
     (st\<lparr>a_waiters := [], a_running := 0, a_leases := []\<rparr>,
      release_all (a_leases st) (fail_waiters t (a_waiters st) rq)))"

text \<open>\<open>_fail_admission_target\<close>: the waiters get an error, the leases are marked released and the
  object leaves the store.\<close>

definition fail_target :: "string \<Rightarrow> nat \<Rightarrow> adm \<Rightarrow> adm" where
  "fail_target t s a = (let a1 = put_view s (fail_view t (view a s)) a;
       a2 = (if store_get a t = Some s then a1\<lparr>store := AList.delete t (store a1)\<rparr> else a1)
     in a2\<lparr>slow_since := AList.delete t (slow_since a2)\<rparr>)"

section \<open>Reaping\<close>

text \<open>\<open>_admission_target_matches\<close>\<close>

definition target_matches :: "string \<Rightarrow> (string \<times> pyval) list \<Rightarrow> bool" where
  "target_matches t c =
     (if starts_with ''port:'' t then
        (case int_of_text (drop 5 t) of Inl e \<Rightarrow> False | Inr n \<Rightarrow> py_eq_int (dict_get c ''port'') n)
      else dict_get c ''deployment_id'' = PStr t \<or> dict_get c ''name'' = PStr t)"

definition container_alive :: "(string \<times> pyval) list \<Rightarrow> bool" where
  "container_alive c =
     (dict_get c ''status'' \<in> set (map PStr [''running'', ''created'', ''restarting'']))"

definition reap_grace :: rat where
  "reap_grace = 60"

definition set_dead :: "nat \<Rightarrow> rat option \<Rightarrow> adm \<Rightarrow> adm" where
  "set_dead s d a = a\<lparr>objs := (objs a)(s := (objs a s)\<lparr>a_dead := d\<rparr>)\<rparr>"

text \<open>One turn of the loop of \<open>reap_stale_admission_targets\<close>.\<close>

definition reap_one :: "(string \<times> pyval) list list \<Rightarrow> rat \<Rightarrow> adm \<times> string list \<Rightarrow> string \<times> nat \<Rightarrow>
    adm \<times> string list" where
  "reap_one cs now acc e = (case acc of (a, reaped) \<Rightarrow> case e of (t, s) \<Rightarrow>
     let ms = filter (target_matches t) cs in
     if ms = [] \<or> list_ex container_alive ms then (set_dead s None a, reaped)
     else let since = (case a_dead (objs a s) of None \<Rightarrow> now | Some d \<Rightarrow> d);
              a1 = set_dead s (Some since) a in
       if now - since < reap_grace then (a1, reaped)
       else (fail_target t s a1, if t \<in> set reaped then reaped else reaped @ [t]))"

text \<open>The part of \<open>reap_stale_admission_targets\<close> after the owner sweep, whose result is \<open>reaped\<close>;
  \<open>redeploying\<close> is the truth value of \<open>_capacity_redeploying_models\<close>.\<close>

definition reap_stale :: "bool \<Rightarrow> (string \<times> pyval) list list \<Rightarrow> rat \<Rightarrow> string list \<Rightarrow> adm \<Rightarrow>
    adm \<times> string list" where
  "reap_stale redeploying cs now reaped a =
     (if store a = [] \<or> redeploying then (a, reaped)
      else foldl (reap_one cs now) (a, reaped) (store a))"

text \<open>\<open>_reap_container_admission\<close>, after its await\<close>

definition reap_container_one :: "string \<Rightarrow> string option \<Rightarrow> (string \<times> pyval) list list \<Rightarrow> adm \<Rightarrow>
    string \<times> nat \<Rightarrow> adm" where
  "reap_container_one name did cs b e = (case e of (t, s) \<Rightarrow>
     if t = name \<or> (did \<noteq> None \<and> did \<noteq> Some [] \<and> did = Some t) then fail_target t s b
     else let ms = filter (target_matches t) cs in
       if ms \<noteq> [] \<and> list_all (\<lambda>c. \<not> container_alive c) ms then fail_target t s b else b)"

definition reap_container :: "string \<Rightarrow> string option \<Rightarrow> (string \<times> pyval) list list \<Rightarrow> adm \<Rightarrow> adm" where
  "reap_container name did cs a = foldl (reap_container_one name did cs) a (store a)"

text \<open>\<open>reset_inference_admission\<close>; the targets are handled in the order of \<open>sorted(store)\<close>, which
  \<open>order\<close> stands for.\<close>

definition reset_admission :: "string list \<Rightarrow> adm \<Rightarrow> adm" where
  "reset_admission order a = foldl (\<lambda>b t. case store_get b t of
     None \<Rightarrow> b | Some s \<Rightarrow> fail_target t s b) a order"

text \<open>\<open>_inference_owner_is_dead\<close>; \<open>fin\<close> tells which tasks are done and \<open>evs\<close> which events are set.\<close>

definition owner_is_dead :: "(nat \<Rightarrow> bool) \<Rightarrow> (nat \<Rightarrow> bool) \<Rightarrow> nat option \<Rightarrow> nat option \<Rightarrow> bool" where
  "owner_is_dead fin evs owner cancel =
     ((case cancel of None \<Rightarrow> False | Some c \<Rightarrow> evs c) \<or> (case owner of None \<Rightarrow> False | Some t \<Rightarrow> fin t))"

definition reapable :: "(nat \<Rightarrow> bool) \<Rightarrow> (nat \<Rightarrow> bool) \<Rightarrow> areq \<Rightarrow> bool" where
  "reapable fin evs q = ((case r_owner q of None \<Rightarrow> True | Some t \<Rightarrow> fin t) \<and>
     owner_is_dead fin evs (r_owner q) (r_cancel q))"

text \<open>The second loop of \<open>_reap_dead_inference_owners\<close>: leases that no live request record owns.\<close>

definition reap_lease :: "(nat \<Rightarrow> bool) \<Rightarrow> (nat \<Rightarrow> bool) \<Rightarrow> adm \<times> (nat \<Rightarrow> bool) \<Rightarrow> nat \<Rightarrow>
    adm \<times> (nat \<Rightarrow> bool)" where
  "reap_lease owned fin acc w = (case acc of (a, evs) \<Rightarrow>
     if owned w then (a, evs)
     else case reqs a w of None \<Rightarrow> (a, evs)
        | Some q \<Rightarrow>
            if reapable fin evs q
            then (release_lease w a, case r_cancel q of None \<Rightarrow> evs | Some c \<Rightarrow> evs(c := True))
            else (a, evs))"

definition reap_target :: "(nat \<Rightarrow> bool) \<Rightarrow> (nat \<Rightarrow> bool) \<Rightarrow> adm \<times> (nat \<Rightarrow> bool) \<Rightarrow> string \<times> nat \<Rightarrow>
    adm \<times> (nat \<Rightarrow> bool)" where
  "reap_target owned fin acc e =
     foldl (reap_lease owned fin) acc (a_leases (objs (fst acc) (snd e)))"

definition reap_leases :: "(nat \<Rightarrow> bool) \<Rightarrow> (nat \<Rightarrow> bool) \<Rightarrow> (nat \<Rightarrow> bool) \<Rightarrow> adm \<Rightarrow>
    adm \<times> (nat \<Rightarrow> bool)" where
  "reap_leases owned fin evs a = foldl (reap_target owned fin) (a, evs) (store a)"

section \<open>One target: draining is a FIFO slot controller\<close>

definition waits :: "areqs \<Rightarrow> nat \<Rightarrow> bool" where
  "waits rq w \<longleftrightarrow> (\<exists>q. rq w = Some q \<and> r_fut q = APending \<and> \<not> r_granted q \<and> \<not> r_released q)"

definition holds :: "areqs \<Rightarrow> nat \<Rightarrow> bool" where
  "holds rq w \<longleftrightarrow> (\<exists>q. rq w = Some q \<and> r_fut q = AGranted \<and> r_granted q \<and> \<not> r_released q)"

definition view_ok :: "adm_state \<times> areqs \<Rightarrow> bool" where
  "view_ok p \<longleftrightarrow> distinct (a_waiters (fst p)) \<and> distinct (a_leases (fst p)) \<and>
     set (a_leases (fst p)) \<inter> set (a_waiters (fst p)) = {} \<and>
     a_running (fst p) = int (length (a_leases (fst p))) \<and>
     1 \<le> a_limit (fst p) \<and> (\<forall>e. a_eff (fst p) = Some e \<longrightarrow> 1 \<le> e) \<and>
     (\<forall>w \<in> set (a_waiters (fst p)). waits (snd p) w) \<and>
     (\<forall>w \<in> set (a_leases (fst p)). holds (snd p) w)"

definition grant_all :: "nat list \<Rightarrow> areqs \<Rightarrow> areqs" where
  "grant_all ws rq = (\<lambda>w. if w \<in> set ws then
     map_option (\<lambda>q. q\<lparr>r_granted := True, r_fut := AGranted\<rparr>) (rq w) else rq w)"

lemma grant_all_Nil [simp]: "grant_all [] rq = rq"
  by (simp add: grant_all_def)

lemma grant_all_Cons: "w \<notin> set ws \<Longrightarrow> grant_all ws (grant w rq) = grant_all (w # ws) rq"
  by (auto simp: grant_all_def grant_def fun_eq_iff)

lemma drain_loop_grants:
  "distinct ws \<Longrightarrow> \<forall>w \<in> set ws. fut_of rq w = APending \<Longrightarrow> set ls \<inter> set ws = {} \<Longrightarrow>
   drain_loop lmt ws n ls rq =
     (let k = min (length ws) (nat (lmt - n)) in
      (drop k ws, n + int k, ls @ take k ws, grant_all (take k ws) rq))"
proof (induction ws arbitrary: n ls rq)
  case (Cons w ws)
  show ?case
  proof (cases "n < lmt")
    case True
    have p: "fut_of rq w = APending" "w \<notin> set ws" "w \<notin> set ls" using Cons.prems by auto
    have fut: "\<forall>v \<in> set ws. fut_of (grant w rq) v = APending"
      using Cons.prems(1,2) by (auto simp: fut_of_def grant_def)
    have k: "nat (lmt - n) = Suc (nat (lmt - (n + 1)))" using True by simp
    have "drain_loop lmt (w # ws) n ls rq = drain_loop lmt ws (n + 1) (ls @ [w]) (grant w rq)"
      using True p by (simp add: add_lease_def)
    also have "\<dots> = (let k = min (length ws) (nat (lmt - (n + 1))) in
        (drop k ws, n + 1 + int k, (ls @ [w]) @ take k ws, grant_all (take k ws) (grant w rq)))"
      using Cons.prems p by (intro Cons.IH fut) auto
    finally have eq: "drain_loop lmt (w # ws) n ls rq = \<dots>" .
    have nt: "w \<notin> set (take j ws)" for j using p(2) by (auto dest: in_set_takeD)
    show ?thesis
      unfolding eq by (simp add: Let_def k grant_all_Cons[OF nt])
  qed simp
qed simp

definition view_capacity :: "adm_state \<times> areqs \<Rightarrow> nat" where
  "view_capacity p = nat (limit_of (fst p))"

definition view_holders :: "adm_state \<times> areqs \<Rightarrow> nat set" where
  "view_holders p = set (a_leases (fst p))"

definition view_queue :: "adm_state \<times> areqs \<Rightarrow> nat list" where
  "view_queue p = a_waiters (fst p)"

text \<open>What one drain does to a consistent target: it grants the first \<open>k\<close> waiters.\<close>

definition granted_count :: "adm_state \<times> areqs \<Rightarrow> nat" where
  "granted_count p = min (length (a_waiters (fst p))) (nat (limit_of (fst p) - a_running (fst p)))"

lemma drain_view_ok:
  assumes "view_ok p"
  shows "drain_view p = (let k = granted_count p; st = fst p in
     (st\<lparr>a_waiters := drop k (a_waiters st), a_running := a_running st + int k,
         a_leases := a_leases st @ take k (a_waiters st)\<rparr>,
      grant_all (take k (a_waiters st)) (snd p)))"
proof -
  obtain st rq where p: "p = (st, rq)" by (cases p)
  have w: "\<forall>w \<in> set (a_waiters st). fut_of rq w = APending"
    using assms by (auto simp: p view_ok_def waits_def fut_of_def)
  show ?thesis
    using drain_loop_grants[OF _ w, of "a_leases st" "limit_of st" "a_running st"] assms
    by (simp add: p drain_view_def view_ok_def granted_count_def Let_def)
qed

lemma limit_of_upd [simp]:
  "limit_of (st\<lparr>a_waiters := ws\<rparr>) = limit_of st"
  "limit_of (st\<lparr>a_running := n\<rparr>) = limit_of st"
  "limit_of (st\<lparr>a_leases := ls\<rparr>) = limit_of st"
  "limit_of (st\<lparr>a_dead := d\<rparr>) = limit_of st"
  "limit_of (st\<lparr>a_next := d\<rparr>) = limit_of st"
  "limit_of (st\<lparr>a_nudger := i\<rparr>) = limit_of st"
  by (simp_all add: limit_of_def split: option.splits)

lemma waits_grant_all: "w \<notin> set ws \<Longrightarrow> waits (grant_all ws rq) w = waits rq w"
  by (simp add: waits_def grant_all_def)

lemma holds_grant_all: "holds rq w \<Longrightarrow> w \<notin> set ws \<Longrightarrow> holds (grant_all ws rq) w"
  by (simp add: holds_def grant_all_def)

lemma grant_all_holds: "waits rq w \<Longrightarrow> w \<in> set ws \<Longrightarrow> holds (grant_all ws rq) w"
  by (auto simp: waits_def holds_def grant_all_def)

lemma drain_view_keeps_ok:
  assumes "view_ok p"
  shows "view_ok (drain_view p)"
proof -
  let ?k = "granted_count p" and ?ws = "a_waiters (fst p)"
  have d: "set (take ?k ?ws) \<inter> set (drop ?k ?ws) = {}" "?k \<le> length ?ws"
    using assms by (simp_all add: view_ok_def granted_count_def set_take_disj_set_drop_if_distinct)
  have t: "set (take ?k ?ws) \<subseteq> set ?ws" "set (drop ?k ?ws) \<subseteq> set ?ws"
    by (rule set_take_subset set_drop_subset)+
  have l: "w \<notin> set (take ?k ?ws)" if "w \<in> set (a_leases (fst p))" for w
    using that assms t(1) unfolding view_ok_def by blast
  have "\<forall>w \<in> set (drop ?k ?ws). waits (grant_all (take ?k ?ws) (snd p)) w"
    using assms d(1) t(2) waits_grant_all[of _ "take ?k ?ws" "snd p"] unfolding view_ok_def by blast
  moreover have "\<forall>w \<in> set (a_leases (fst p) @ take ?k ?ws). holds (grant_all (take ?k ?ws) (snd p)) w"
    using assms t(1) l holds_grant_all[of "snd p" _ "take ?k ?ws"]
      grant_all_holds[of "snd p" _ "take ?k ?ws"] unfolding view_ok_def by auto
  ultimately show ?thesis
    using assms d t l unfolding drain_view_ok[OF assms] Let_def view_ok_def fst_conv snd_conv
    by (simp add: disjoint_iff) blast
qed

lemma grantable_count:
  assumes "view_ok p"
  shows "grantable (view_capacity p) (card (view_holders p)) (length (view_queue p)) = granted_count p"
proof -
  have "card (view_holders p) = length (a_leases (fst p))"
    using assms by (simp add: view_ok_def view_holders_def distinct_card)
  then show ?thesis
    using assms by (simp add: grantable_def granted_count_def view_capacity_def view_queue_def
        view_ok_def nat_diff_distrib' limit_of_def split: option.splits)
qed

interpretation adm: fifo_slots view_holders view_queue view_capacity drain_view view_ok
proof unfold_locales
  fix p
  assume p: "view_ok p"
  show "finite (view_holders p)" by (simp add: view_holders_def)
  show "distinct (view_queue p)" using p by (simp add: view_ok_def view_queue_def)
  show "view_holders p \<inter> set (view_queue p) = {}"
    using p by (simp add: view_ok_def view_holders_def view_queue_def)
  show "view_ok (drain_view p)" using p by (rule drain_view_keeps_ok)
  show "view_capacity (drain_view p) = view_capacity p"
    by (simp add: drain_view_ok[OF p] Let_def view_capacity_def)
  show "view_queue (drain_view p) = drop (grantable (view_capacity p) (card (view_holders p))
      (length (view_queue p))) (view_queue p)"
    unfolding grantable_count[OF p] by (simp add: drain_view_ok[OF p] Let_def view_queue_def)
  show "view_holders (drain_view p) = view_holders p \<union> set (take (grantable (view_capacity p)
      (card (view_holders p)) (length (view_queue p))) (view_queue p))"
    unfolding grantable_count[OF p]
    by (simp add: drain_view_ok[OF p] Let_def view_queue_def view_holders_def)
qed

end
