(* ===== verification/Admission_Invariant.thy ===== *)
theory Admission_Invariant imports Inference_Admission
begin

text \<open>
  The invariant of the inference admission queue over all targets, and its preservation by every
  operation of \<open>Inference_Admission\<close>.  Operations touch one state object and the requests that wait
  or hold there; \<open>local_step\<close> states what such a change must respect, and \<open>local_step_ok\<close> lifts it to
  the whole store once and for all.
\<close>

definition members :: "adm_state \<Rightarrow> nat set" where
  "members st = set (a_waiters st) \<union> set (a_leases st)"

definition req_ok :: "adm \<Rightarrow> nat \<Rightarrow> areq \<Rightarrow> bool" where
  "req_ok a w q \<longleftrightarrow> r_state q < next_obj a \<and>
     (r_granted q \<and> \<not> r_released q \<longrightarrow>
        (r_target q, r_state q) \<in> set (store a) \<and> w \<in> set (a_leases (objs a (r_state q)))) \<and>
     (r_fut q = APending \<longrightarrow>
        (r_target q, r_state q) \<in> set (store a) \<and> w \<in> set (a_waiters (objs a (r_state q))))"

definition owns :: "adm \<Rightarrow> string \<Rightarrow> nat \<Rightarrow> bool" where
  "owns a t s \<longleftrightarrow> (\<forall>w \<in> members (objs a s). \<exists>q. reqs a w = Some q \<and> r_target q = t \<and> r_state q = s)"

definition adm_ok :: "adm \<Rightarrow> bool" where
  "adm_ok a \<longleftrightarrow> wf_dict (store a) \<and> distinct (map snd (store a)) \<and>
     (\<forall>t s. (t, s) \<in> set (store a) \<longrightarrow> s < next_obj a \<and> view_ok (view a s) \<and> owns a t s) \<and>
     (\<forall>w q. reqs a w = Some q \<longrightarrow> req_ok a w q)"

text \<open>Nobody waits at a target with a free slot.\<close>

definition adm_settled :: "adm \<Rightarrow> bool" where
  "adm_settled a \<longleftrightarrow> (\<forall>t s. (t, s) \<in> set (store a) \<longrightarrow>
     a_waiters (objs a s) = [] \<or> limit_of (objs a s) \<le> a_running (objs a s))"

lemma adm_okD:
  assumes "adm_ok a" "(t, s) \<in> set (store a)"
  shows "s < next_obj a" "view_ok (view a s)" "owns a t s"
  using assms by (auto simp: adm_ok_def)

lemma adm_ok_req: "adm_ok a \<Longrightarrow> reqs a w = Some q \<Longrightarrow> req_ok a w q"
  by (simp add: adm_ok_def)

lemma adm_ok_get: "adm_ok a \<Longrightarrow> store_get a t = Some s \<longleftrightarrow> (t, s) \<in> set (store a)"
  by (simp add: store_get_def adm_ok_def map_of_wf_iff)

text \<open>The address determines the target.\<close>

lemma adm_ok_inj: "adm_ok a \<Longrightarrow> (t, s) \<in> set (store a) \<Longrightarrow> (t', s) \<in> set (store a) \<Longrightarrow> t' = t"
  unfolding adm_ok_def by (metis eq_key_imp_eq_value map_of_eq_Some_iff distinct_map inj_on_def snd_conv prod.inject)

lemma members_disjoint:
  assumes "adm_ok a" "(t, s) \<in> set (store a)" "(t', s') \<in> set (store a)" "s \<noteq> s'"
    "w \<in> members (objs a s)"
  shows "w \<notin> members (objs a s')"
  using adm_okD(3)[OF assms(1,2)] adm_okD(3)[OF assms(1,3)] assms(4,5) unfolding owns_def by fastforce

lemma view_ok_cong:
  assumes "view_ok (st, rq)" "\<And>w. w \<in> members st \<Longrightarrow> rq' w = rq w"
  shows "view_ok (st, rq')"
  using assms unfolding view_ok_def members_def waits_def holds_def by auto

definition local_step :: "adm_state \<times> areqs \<Rightarrow> adm_state \<times> areqs \<Rightarrow> bool" where
  "local_step p p' \<longleftrightarrow> view_ok p' \<and> members (fst p') \<subseteq> members (fst p) \<and>
     (\<forall>w. w \<notin> members (fst p) \<longrightarrow> snd p' w = snd p w) \<and>
     (\<forall>w \<in> members (fst p). \<forall>q. snd p w = Some q \<longrightarrow>
        (\<exists>q'. snd p' w = Some q' \<and> r_target q' = r_target q \<and> r_state q' = r_state q \<and>
          (r_granted q' \<and> \<not> r_released q' \<longrightarrow> w \<in> set (a_leases (fst p'))) \<and>
          (r_fut q' = APending \<longrightarrow> w \<in> set (a_waiters (fst p')))))"

lemma put_view_simps [simp]:
  "store (put_view s p a) = store a" "next_obj (put_view s p a) = next_obj a"
  "slow_since (put_view s p a) = slow_since a" "reqs (put_view s p a) = snd p"
  "objs (put_view s p a) s = fst p" "s' \<noteq> s \<Longrightarrow> objs (put_view s p a) s' = objs a s'"
  "view (put_view s p a) s = p" "store_get (put_view s p a) t = store_get a t"
  by (simp_all add: put_view_def view_def store_get_def)

lemma put_view_twice [simp]: "put_view s p (put_view s p' a) = put_view s p a"
  by (simp add: put_view_def)

lemma local_step_ok:
  assumes ok: "adm_ok a" and ts: "(t, s) \<in> set (store a)" and ls: "local_step (view a s) p"
  shows "adm_ok (put_view s p a)"
  unfolding adm_ok_def
proof (intro conjI allI impI)
  show "wf_dict (store (put_view s p a))" "distinct (map snd (store (put_view s p a)))"
    using ok by (simp_all add: adm_ok_def)
  have sub: "members (fst p) \<subseteq> members (objs a s)" and same: "\<And>w. w \<notin> members (objs a s) \<Longrightarrow> snd p w = reqs a w"
    and vp: "view_ok p"
    using ls by (simp_all add: local_step_def view_def)
  have mem: "\<exists>q'. snd p w = Some q' \<and> r_target q' = r_target q \<and> r_state q' = r_state q \<and>
      (r_granted q' \<and> \<not> r_released q' \<longrightarrow> w \<in> set (a_leases (fst p))) \<and>
      (r_fut q' = APending \<longrightarrow> w \<in> set (a_waiters (fst p)))"
    if "w \<in> members (objs a s)" "reqs a w = Some q" for w q
    using ls that by (simp add: local_step_def view_def)
  {
    fix t' s'
    assume st: "(t', s') \<in> set (store (put_view s p a))"
    then show "s' < next_obj (put_view s p a)" using adm_okD(1)[OF ok] by simp
    show "view_ok (view (put_view s p a) s')"
    proof (cases "s' = s")
      case False
      have "snd p w = reqs a w" if "w \<in> members (objs a s')" for w
        using members_disjoint[OF ok _ ts False that] st same by simp
      then show ?thesis
        using False st adm_okD(2)[OF ok, of t' s'] view_ok_cong[of "objs a s'" "reqs a" "snd p"]
        by (simp add: view_def)
    qed (simp add: vp)
    show "owns (put_view s p a) t' s'"
    proof (cases "s' = s")
      case True
      then have t': "t' = t" using adm_ok_inj[OF ok ts] st by simp
      show ?thesis
        unfolding owns_def
      proof
        fix w assume "w \<in> members (objs (put_view s p a) s')"
        then have w: "w \<in> members (objs a s)" using True sub by auto
        then obtain q where "reqs a w = Some q" "r_target q = t" "r_state q = s"
          using adm_okD(3)[OF ok ts] by (auto simp: owns_def)
        then show "\<exists>q. reqs (put_view s p a) w = Some q \<and> r_target q = t' \<and> r_state q = s'"
          using mem[OF w] True t' by fastforce
      qed
    next
      case False
      have "snd p w = reqs a w" if "w \<in> members (objs a s')" for w
        using members_disjoint[OF ok _ ts False that] st same by simp
      then show ?thesis using False st adm_okD(3)[OF ok, of t' s'] by (simp add: owns_def)
    qed
  }
  fix w q'
  assume "reqs (put_view s p a) w = Some q'"
  then have q': "snd p w = Some q'" by simp
  show "req_ok (put_view s p a) w q'"
  proof (cases "w \<in> members (objs a s)")
    case True
    then obtain q where q: "reqs a w = Some q" "r_target q = t" "r_state q = s"
      using adm_okD(3)[OF ok ts] by (auto simp: owns_def)
    then show ?thesis
      using mem[OF True q(1)] q' ts adm_okD(1)[OF ok ts] by (auto simp: req_ok_def)
  next
    case False
    then have r: "req_ok a w q'" using same[OF False] q' adm_ok_req[OF ok] by simp
    show ?thesis
    proof (cases "r_state q' = s")
      case True
      then show ?thesis using r False by (auto simp: req_ok_def members_def)
    next
      case F: False
      then show ?thesis using r by (simp add: req_ok_def)
    qed
  qed
qed

lemma put_view_settled:
  assumes "\<And>t' s'. (t', s') \<in> set (store a) \<Longrightarrow> s' \<noteq> s \<Longrightarrow>
      a_waiters (objs a s') = [] \<or> limit_of (objs a s') \<le> a_running (objs a s')"
    and "a_waiters (fst p) = [] \<or> limit_of (fst p) \<le> a_running (fst p)"
  shows "adm_settled (put_view s p a)"
  unfolding adm_settled_def
proof (intro allI impI)
  fix t' s' assume "(t', s') \<in> set (store (put_view s p a))"
  then show "a_waiters (objs (put_view s p a) s') = [] \<or>
      limit_of (objs (put_view s p a) s') \<le> a_running (objs (put_view s p a) s')"
    using assms by (cases "s' = s") simp_all
qed

text \<open>Settled everywhere except possibly at address \<open>s\<close>.\<close>

definition settled_but :: "nat \<Rightarrow> adm \<Rightarrow> bool" where
  "settled_but s a \<longleftrightarrow> (\<forall>t' s'. (t', s') \<in> set (store a) \<longrightarrow> s' \<noteq> s \<longrightarrow>
     a_waiters (objs a s') = [] \<or> limit_of (objs a s') \<le> a_running (objs a s'))"

lemma settled_imp_but: "adm_settled a \<Longrightarrow> settled_but s a"
  by (simp add: adm_settled_def settled_but_def)

lemma settled_but_put_view: "settled_but s (put_view s p a) = settled_but s a"
  by (simp add: settled_but_def)

section \<open>Drain\<close>

lemma drain_view_settled:
  assumes "view_ok p"
  shows "a_waiters (fst (drain_view p)) = [] \<or>
    limit_of (fst (drain_view p)) \<le> a_running (fst (drain_view p))"
  unfolding drain_view_ok[OF assms] Let_def by (auto simp: granted_count_def)

lemma drain_local_step:
  assumes "view_ok p"
  shows "local_step p (drain_view p)"
proof -
  let ?k = "granted_count p" and ?ws = "a_waiters (fst p)"
  have td: "set (take ?k ?ws) \<union> set (drop ?k ?ws) = set ?ws"
    by (metis append_take_drop_id set_append)
  have mem: "members (fst (drain_view p)) = members (fst p)"
    unfolding drain_view_ok[OF assms] Let_def members_def using td by auto
  have out: "snd (drain_view p) w = snd p w" if "w \<notin> members (fst p)" for w
  proof -
    have "w \<notin> set (take ?k ?ws)" using that td by (auto simp: members_def)
    then show ?thesis unfolding drain_view_ok[OF assms] Let_def by (simp add: grant_all_def)
  qed
  have "\<exists>q'. snd (drain_view p) w = Some q' \<and> r_target q' = r_target q \<and> r_state q' = r_state q \<and>
      (r_granted q' \<and> \<not> r_released q' \<longrightarrow> w \<in> set (a_leases (fst (drain_view p)))) \<and>
      (r_fut q' = APending \<longrightarrow> w \<in> set (a_waiters (fst (drain_view p))))"
    if w: "w \<in> members (fst p)" and q: "snd p w = Some q" for w q
  proof (cases "w \<in> set (take ?k ?ws)")
    case True
    then show ?thesis using q unfolding drain_view_ok[OF assms] Let_def
      by (simp add: grant_all_def)
  next
    case False
    then have "w \<in> set (a_leases (fst p)) \<or> w \<in> set (drop ?k ?ws)"
      using w td by (auto simp: members_def)
    moreover have "w \<in> set (a_leases (fst p)) \<Longrightarrow> r_fut q = AGranted"
      using assms q by (auto simp: view_ok_def holds_def)
    moreover have "w \<in> set (drop ?k ?ws) \<Longrightarrow> \<not> r_granted q"
      using assms q set_drop_subset[of ?k ?ws] by (fastforce simp: view_ok_def waits_def)
    ultimately show ?thesis using q False unfolding drain_view_ok[OF assms] Let_def
      by (auto simp: grant_all_def)
  qed
  then show ?thesis
    unfolding local_step_def using drain_view_keeps_ok[OF assms] mem out by simp
qed

lemma drain_ok:
  assumes "adm_ok a" "(t, s) \<in> set (store a)"
  shows "adm_ok (drain s a)"
  unfolding drain_def using local_step_ok[OF assms drain_local_step[OF adm_okD(2)[OF assms]]] .

lemma drain_settled:
  assumes "view_ok (view a s)" "settled_but s a"
  shows "adm_settled (drain s a)"
  unfolding drain_def
  using assms(2) by (intro put_view_settled drain_view_settled assms(1)) (auto simp: settled_but_def)

lemma drain_simps [simp]:
  "store (drain s a) = store a" "next_obj (drain s a) = next_obj a"
  "slow_since (drain s a) = slow_since a" "store_get (drain s a) t = store_get a t"
  by (simp_all add: drain_def)

section \<open>Release\<close>

definition unleased_view :: "nat \<Rightarrow> adm_state \<times> areqs \<Rightarrow> adm_state \<times> areqs" where
  "unleased_view w p = ((fst p)\<lparr>a_leases := removeAll w (a_leases (fst p)),
     a_running := max 0 (a_running (fst p) - 1)\<rparr>, mark_released w (snd p))"

lemma give_back_unlease:
  "r_state q = s \<Longrightarrow>
     give_back s (unlease w q a) = drain s (put_view s (unleased_view w (view a s)) a)"
  by (simp add: give_back_def unlease_def unleased_view_def view_def)

lemma length_removeAll_distinct: "distinct xs \<Longrightarrow> x \<in> set xs \<Longrightarrow> length (removeAll x xs) = length xs - 1"
  by (metis distinct_remove1_removeAll length_remove1)

lemma unleased_local_step:
  assumes ok: "view_ok p" and w: "w \<in> set (a_leases (fst p))"
  shows "local_step p (unleased_view w p)"
proof -
  have d: "distinct (a_leases (fst p))" "a_running (fst p) = int (length (a_leases (fst p)))"
    using ok by (auto simp: view_ok_def)
  have "0 < length (a_leases (fst p))" using w by (cases "a_leases (fst p)") auto
  then have len: "max 0 (a_running (fst p) - 1) = int (length (removeAll w (a_leases (fst p))))"
    using d w by (simp add: length_removeAll_distinct of_nat_diff Suc_le_eq)
  have wt: "waits (mark_released w (snd p)) v \<longleftrightarrow> waits (snd p) v" if "v \<noteq> w" for v
    using that by (simp add: waits_def mark_released_def)
  have hl: "holds (mark_released w (snd p)) v \<longleftrightarrow> holds (snd p) v" if "v \<noteq> w" for v
    using that by (simp add: holds_def mark_released_def)
  have nw: "w \<notin> set (a_waiters (fst p))" using ok w by (auto simp: view_ok_def)
  have "\<forall>v \<in> set (a_waiters (fst p)). waits (mark_released w (snd p)) v"
    using ok wt nw unfolding view_ok_def by metis
  moreover have "\<forall>v \<in> set (removeAll w (a_leases (fst p))). holds (mark_released w (snd p)) v"
    using ok hl unfolding view_ok_def by simp
  moreover have "set (removeAll w (a_leases (fst p))) \<inter> set (a_waiters (fst p)) = {}"
    using ok unfolding view_ok_def by auto
  ultimately have "view_ok (unleased_view w p)"
    using ok len unfolding view_ok_def unleased_view_def fst_conv snd_conv
    by (simp add: distinct_removeAll)
  moreover have "members (fst (unleased_view w p)) \<subseteq> members (fst p)"
    by (auto simp: unleased_view_def members_def)
  moreover have "\<exists>q'. snd (unleased_view w p) v = Some q' \<and> r_target q' = r_target q \<and>
      r_state q' = r_state q \<and>
      (r_granted q' \<and> \<not> r_released q' \<longrightarrow> v \<in> set (a_leases (fst (unleased_view w p)))) \<and>
      (r_fut q' = APending \<longrightarrow> v \<in> set (a_waiters (fst (unleased_view w p))))"
    if v: "v \<in> members (fst p)" and q: "snd p v = Some q" for v q
  proof (cases "v = w")
    case True
    then have "r_fut q = AGranted" using ok w q by (auto simp: view_ok_def holds_def)
    then show ?thesis using True q by (simp add: unleased_view_def mark_released_def)
  next
    case False
    have "v \<in> set (a_leases (fst p)) \<Longrightarrow> r_fut q = AGranted"
      "v \<in> set (a_waiters (fst p)) \<Longrightarrow> \<not> r_granted q"
      using ok q by (auto simp: view_ok_def holds_def waits_def)
    then show ?thesis using False v q
      by (auto simp: unleased_view_def mark_released_def members_def)
  qed
  moreover have "v \<notin> members (fst p) \<Longrightarrow> snd (unleased_view w p) v = snd p v" for v
    using w by (auto simp: unleased_view_def mark_released_def members_def)
  ultimately show ?thesis unfolding local_step_def by blast
qed

lemma remove_target_ok:
  assumes ok: "adm_ok a" and ts: "(t, s) \<in> set (store a)" and e: "members (objs a s) = {}"
  shows "adm_ok (a\<lparr>store := AList.delete t (store a), slow_since := x\<rparr>)"
proof -
  let ?a = "a\<lparr>store := AList.delete t (store a), slow_since := x\<rparr>"
  have del: "set (store ?a) = {e \<in> set (store a). fst e \<noteq> t}" by (auto simp: AList.delete_eq)
  have v: "view ?a s' = view a s'" for s' by (simp add: view_def)
  have tm: "t' = t \<Longrightarrow> s' = s" if "(t', s') \<in> set (store a)" for t' s'
    using that ts ok by (auto simp: adm_ok_def wf_dict_def dest: eq_key_imp_eq_value)
  have "req_ok ?a w q" if "reqs a w = Some q" for w q
  proof -
    have r: "req_ok a w q" using ok that by (rule adm_ok_req)
    have "w \<notin> set (a_leases (objs a s))" "w \<notin> set (a_waiters (objs a s))"
      using e by (auto simp: members_def)
    then have "r_state q = s \<Longrightarrow> r_fut q \<noteq> APending \<and> \<not> (r_granted q \<and> \<not> r_released q)"
      using r by (auto simp: req_ok_def)
    then show ?thesis using r tm[of "r_target q" "r_state q"] del by (auto simp: req_ok_def)
  qed
  moreover have "owns ?a t' s'" if "(t', s') \<in> set (store a)" for t' s'
    using adm_okD(3)[OF ok that] by (simp add: owns_def)
  moreover have "distinct (map snd (store ?a))"
    using ok unfolding adm_ok_def by (simp add: AList.delete_eq distinct_map_filter)
  ultimately show ?thesis
    using ok unfolding adm_ok_def by (simp add: v) (auto simp: AList.delete_eq)
qed

lemma settled_delete:
  "adm_settled a \<Longrightarrow> adm_settled (a\<lparr>store := AList.delete t (store a), slow_since := x\<rparr>)"
  by (auto simp: adm_settled_def AList.delete_eq)

lemma drop_idle_ok:
  assumes "adm_ok a" "(t, s) \<in> set (store a)"
  shows "adm_ok (drop_idle t s a)"
proof (cases "a_running (objs a s) = 0 \<and> a_waiters (objs a s) = []")
  case True
  then have "members (objs a s) = {}"
    using adm_okD(2)[OF assms] by (auto simp: view_ok_def view_def members_def)
  then show ?thesis using True remove_target_ok[OF assms] by (simp add: drop_idle_def)
next
  case False
  then have "drop_idle t s a = a" unfolding drop_idle_def by (rule if_not_P)
  then show ?thesis using assms by simp
qed

lemma drop_idle_settled: "adm_settled a \<Longrightarrow> adm_settled (drop_idle t s a)"
  by (simp add: drop_idle_def settled_delete)

lemma give_back_ok:
  assumes ok: "adm_ok a" and ts: "(t, s) \<in> set (store a)" and l: "local_step (view a s) p"
  shows "adm_ok (drop_idle t s (drain s (put_view s p a)))"
    and "settled_but s a \<Longrightarrow> adm_settled (drop_idle t s (drain s (put_view s p a)))"
proof -
  have o: "adm_ok (put_view s p a)" using local_step_ok[OF ok ts l] .
  have ts': "(t, s) \<in> set (store (put_view s p a))" using ts by simp
  show "adm_ok (drop_idle t s (drain s (put_view s p a)))"
    using drain_ok[OF o ts'] ts by (intro drop_idle_ok) simp_all
  have "view_ok (view (put_view s p a) s)" using adm_okD(2)[OF o ts'] .
  then show "adm_settled (drop_idle t s (drain s (put_view s p a)))" if "settled_but s a"
    using that by (intro drop_idle_settled drain_settled) (simp_all add: settled_but_put_view)
qed

text \<open>What \<open>release_lease\<close> does in a consistent store: nothing twice, and exactly one slot back.\<close>

lemma release_lease_eq:
  assumes ok: "adm_ok a" and q: "reqs a w = Some q" "r_granted q" "\<not> r_released q"
  shows "(r_target q, r_state q) \<in> set (store a)" "w \<in> set (a_leases (objs a (r_state q)))"
    "release_lease w a = drop_idle (r_target q) (r_state q)
       (drain (r_state q) (put_view (r_state q) (unleased_view w (view a (r_state q))) a))"
proof -
  show ts: "(r_target q, r_state q) \<in> set (store a)" and "w \<in> set (a_leases (objs a (r_state q)))"
    using adm_ok_req[OF ok q(1)] q(2,3) by (auto simp: req_ok_def)
  have "store_get a (r_target q) = Some (r_state q)" using adm_ok_get[OF ok] ts by simp
  then show "release_lease w a = drop_idle (r_target q) (r_state q)
       (drain (r_state q) (put_view (r_state q) (unleased_view w (view a (r_state q))) a))"
    using q by (simp add: release_lease_def Let_def give_back_unlease)
qed

lemma release_lease_ok:
  assumes ok: "adm_ok a" and q: "reqs a w = Some q" "r_granted q \<or> r_released q"
  shows "adm_ok (release_lease w a)" "adm_settled a \<Longrightarrow> adm_settled (release_lease w a)"
proof -
  have "adm_ok (release_lease w a) \<and> (adm_settled a \<longrightarrow> adm_settled (release_lease w a))"
  proof (cases "r_released q")
    case False
    with q have g: "r_granted q" by simp
    note r = release_lease_eq[OF ok q(1) g False]
    have "local_step (view a (r_state q)) (unleased_view w (view a (r_state q)))"
      using unleased_local_step[OF adm_okD(2)[OF ok r(1)]] r(2) by (simp add: view_def)
    from give_back_ok[OF ok r(1) this] show ?thesis
      unfolding r(3) using settled_imp_but by blast
  qed (use ok q in \<open>simp add: release_lease_def\<close>)
  then show "adm_ok (release_lease w a)" "adm_settled a \<Longrightarrow> adm_settled (release_lease w a)"
    by simp_all
qed

lemma release_name_ok:
  assumes ok: "adm_ok a"
  shows "adm_ok (release_name t a)" "adm_settled a \<Longrightarrow> adm_settled (release_name t a)"
proof -
  have "adm_ok (release_name t a) \<and> (adm_settled a \<longrightarrow> adm_settled (release_name t a))"
  proof (cases "store_get a t")
    case (Some s)
    then have ts: "(t, s) \<in> set (store a)" using adm_ok_get[OF ok] by simp
    have v: "view_ok (view a s)" using adm_okD(2)[OF ok ts] .
    show ?thesis
    proof (cases "a_leases (objs a s)")
      case Nil
      then have p: "(objs a s)\<lparr>a_running := max 0 (a_running (objs a s) - 1)\<rparr> = objs a s"
        using v by (simp add: view_ok_def view_def)
      have "local_step (view a s) (view a s)"
        using v unfolding local_step_def view_ok_def members_def waits_def holds_def by auto
      from give_back_ok[OF ok ts this] show ?thesis
        using Some Nil p settled_imp_but by (simp add: release_name_def give_back_def view_def)
    next
      case (Cons w ws)
      then obtain q where "reqs a w = Some q" "r_granted q"
        using v by (auto simp: view_ok_def view_def holds_def)
      then show ?thesis using release_lease_ok[OF ok] Some Cons by (simp add: release_name_def)
    qed
  qed (use ok in \<open>simp add: release_name_def\<close>)
  then show "adm_ok (release_name t a)" "adm_settled a \<Longrightarrow> adm_settled (release_name t a)"
    by simp_all
qed

end
