(* ===== verification/Admission_Steps.thy ===== *)
theory Admission_Steps imports Admission_Invariant
begin

text \<open>
  Preservation of the admission invariant by acquiring, by abandoning a wait, by failing a target
  and by the reapers.
\<close>

lemma view_okD:
  assumes "view_ok (st, rq)"
  shows "distinct (a_waiters st)" "distinct (a_leases st)"
    "set (a_leases st) \<inter> set (a_waiters st) = {}" "a_running st = int (length (a_leases st))"
    "1 \<le> a_limit st" "\<And>e. a_eff st = Some e \<Longrightarrow> 1 \<le> e"
    "\<And>w. w \<in> set (a_waiters st) \<Longrightarrow> waits rq w" "\<And>w. w \<in> set (a_leases st) \<Longrightarrow> holds rq w"
  using assms by (auto simp: view_ok_def)

lemma view_okI:
  assumes "distinct (a_waiters st)" "distinct (a_leases st)"
    "set (a_leases st) \<inter> set (a_waiters st) = {}" "a_running st = int (length (a_leases st))"
    "1 \<le> a_limit st" "\<And>e. a_eff st = Some e \<Longrightarrow> 1 \<le> e"
    "\<And>w. w \<in> set (a_waiters st) \<Longrightarrow> waits rq w" "\<And>w. w \<in> set (a_leases st) \<Longrightarrow> holds rq w"
  shows "view_ok (st, rq)"
  using assms by (auto simp: view_ok_def)

section \<open>Acquire\<close>

lemma objs_upd_view [simp]: "view (a\<lparr>store := x\<rparr>) s = view a s" "view (a\<lparr>slow_since := y\<rparr>) s = view a s"
  by (simp_all add: view_def)

lemma put_view_same [simp]: "put_view s (view a s) a = a"
  by (simp add: put_view_def view_def)

text \<open>Fields that only configure or describe a target may change freely.\<close>

definition same_slots :: "adm_state \<Rightarrow> adm_state \<Rightarrow> bool" where
  "same_slots st st' \<longleftrightarrow> a_waiters st' = a_waiters st \<and> a_leases st' = a_leases st \<and>
     a_running st' = a_running st"

lemma same_slots_local_step:
  assumes "view_ok (st, rq)" "same_slots st st'" "1 \<le> a_limit st'" "\<forall>e. a_eff st' = Some e \<longrightarrow> 1 \<le> e"
  shows "local_step (st, rq) (st', rq)"
  using assms unfolding local_step_def view_ok_def same_slots_def members_def waits_def holds_def
  by auto

lemma reconfigure_ok:
  assumes "adm_ok a" "(t, s) \<in> set (store a)" "same_slots (objs a s) st" "1 \<le> a_limit st"
    "\<forall>e. a_eff st = Some e \<longrightarrow> 1 \<le> e"
  shows "adm_ok (put_view s (st, reqs a) a)"
  using same_slots_local_step[OF _ assms(3-5), of "reqs a"] adm_okD(2)[OF assms(1,2)]
  by (intro local_step_ok[OF assms(1,2)]) (simp_all add: view_def)

lemma new_target_ok:
  assumes ok: "adm_ok a" and t: "store_get a t = None" and n: "1 \<le> n"
  shows "adm_ok (a\<lparr>store := AList.update t (next_obj a) (store a),
    objs := (objs a)(next_obj a := blank_state n key grp), next_obj := Suc (next_obj a)\<rparr>)"
    (is "adm_ok ?a")
proof -
  have f: "t \<notin> fst ` set (store a)" using t by (simp add: store_get_def map_of_eq_None_iff)
  have st: "store ?a = store a @ [(t, next_obj a)]" using update_fresh[OF f] by simp
  have less: "s < next_obj a" if "(t', s) \<in> set (store a)" for t' s
    using adm_okD(1)[OF ok that] .
  have fresh: "next_obj a \<notin> set (map snd (store a))" using less by fastforce
  have "view_ok (view ?a s) \<and> owns ?a t' s \<and> s < next_obj ?a" if "(t', s) \<in> set (store ?a)" for t' s
  proof (cases "s = next_obj a")
    case True
    then show ?thesis using n by (simp add: view_def view_ok_def owns_def members_def blank_state_def)
  next
    case False
    then have m: "(t', s) \<in> set (store a)" using that st by auto
    then show ?thesis using False adm_okD[OF ok m] by (simp add: view_def owns_def)
  qed
  moreover have "req_ok ?a w q" if "reqs a w = Some q" for w q
    using adm_ok_req[OF ok that] st by (auto simp: req_ok_def)
  moreover have "wf_dict (store ?a)" "distinct (map snd (store ?a))"
    using ok f fresh unfolding st by (auto simp: adm_ok_def wf_dict_def)
  ultimately show ?thesis unfolding adm_ok_def by simp
qed

lemma open_target_ok:
  assumes ok: "adm_ok a" and n: "1 \<le> n" and o: "open_target t n key grp a = (s, a1)"
  shows "adm_ok a1" "(t, s) \<in> set (store a1)" "reqs a1 = reqs a"
    "adm_settled a \<Longrightarrow> settled_but s a1"
proof -
  have "adm_ok a1 \<and> (t, s) \<in> set (store a1) \<and> reqs a1 = reqs a \<and> (adm_settled a \<longrightarrow> settled_but s a1)"
  proof (cases "store_get a t")
    case None
    then have f: "t \<notin> fst ` set (store a)" by (simp add: store_get_def map_of_eq_None_iff)
    show ?thesis
      using new_target_ok[OF ok None n, of key grp] None o update_fresh[OF f]
      by (auto simp: open_target_def settled_but_def adm_settled_def) blast
  next
    case (Some s')
    then have ts: "(t, s') \<in> set (store a)" using adm_ok_get[OF ok] by simp
    have a1: "a1 = put_view s' ((objs a s')\<lparr>a_limit := n, a_model := key, a_group := grp\<rparr>, reqs a) a"
      "s' = s" using o Some by (auto simp: open_target_def put_view_def)
    have "view_ok (view a s')" using adm_okD(2)[OF ok ts] .
    then have "adm_ok a1"
      unfolding a1(1) by (intro reconfigure_ok[OF ok ts])
        (simp_all add: same_slots_def n view_ok_def view_def)
    then show ?thesis
      using a1 ts by (simp add: settled_imp_but settled_but_put_view)
  qed
  then show "adm_ok a1" "(t, s) \<in> set (store a1)" "reqs a1 = reqs a"
    "adm_settled a \<Longrightarrow> settled_but s a1"
    by simp_all
qed

lemma enqueue_ok:
  assumes ok: "adm_ok a" and ts: "(t, s) \<in> set (store a)" and w: "reqs a w = None"
  shows "adm_ok (enqueue w t s owner cancel now a)" (is "adm_ok ?a")
proof -
  have v: "view_ok (view a s)" using adm_okD(2)[OF ok ts] .
  have nm: "w \<notin> members (objs a s')" if "(t', s') \<in> set (store a)" for t' s'
    using adm_okD(3)[OF ok that] w by (auto simp: owns_def)
  have keep: "waits (reqs ?a) v = waits (reqs a) v" "holds (reqs ?a) v = holds (reqs a) v"
    if "v \<noteq> w" for v using that by (simp_all add: enqueue_def waits_def holds_def)
  have ww: "waits (reqs ?a) w" by (simp add: enqueue_def waits_def)
  note V = view_okD[OF v[unfolded view_def]]
  have "view_ok (objs ?a s, reqs ?a)"
  proof (rule view_okI)
    have o: "a_waiters (objs ?a s) = a_waiters (objs a s) @ [w]" "a_leases (objs ?a s) = a_leases (objs a s)"
      "a_running (objs ?a s) = a_running (objs a s)" "a_limit (objs ?a s) = a_limit (objs a s)"
      "a_eff (objs ?a s) = a_eff (objs a s)"
      by (simp_all add: enqueue_def)
    have n: "w \<notin> set (a_waiters (objs a s))" "w \<notin> set (a_leases (objs a s))"
      using nm[OF ts] by (auto simp: members_def)
    show "distinct (a_waiters (objs ?a s))" "distinct (a_leases (objs ?a s))"
      "set (a_leases (objs ?a s)) \<inter> set (a_waiters (objs ?a s)) = {}"
      "a_running (objs ?a s) = int (length (a_leases (objs ?a s)))" "1 \<le> a_limit (objs ?a s)"
      using V(1-5) n by (simp_all add: o)
    show "1 \<le> e" if "a_eff (objs ?a s) = Some e" for e using V(6) that by (simp add: o)
    show "waits (reqs ?a) v" if "v \<in> set (a_waiters (objs ?a s))" for v
      using V(7)[of v] that keep(1)[of v] ww by (cases "v = w") (simp_all add: o)
    show "holds (reqs ?a) v" if "v \<in> set (a_leases (objs ?a s))" for v
      using V(8)[of v] that keep(2)[of v] n by (cases "v = w") (simp_all add: o)
  qed
  then have "view_ok (view ?a s)" by (simp add: view_def)
  moreover have "view_ok (view ?a s')" if "(t', s') \<in> set (store a)" "s' \<noteq> s" for t' s'
  proof -
    have "view_ok (objs a s', reqs ?a)"
    proof (rule view_ok_cong)
      show "view_ok (objs a s', reqs a)" using adm_okD(2)[OF ok that(1)] by (simp add: view_def)
      show "reqs ?a v = reqs a v" if "v \<in> members (objs a s')" for v
        using nm[OF \<open>(t', s') \<in> set (store a)\<close>] that by (auto simp: enqueue_def)
    qed
    then show ?thesis using that(2) by (simp add: view_def enqueue_def)
  qed
  moreover have "owns ?a t' s'" if "(t', s') \<in> set (store a)" for t' s'
  proof (cases "s' = s")
    case True
    then have "t' = t" using adm_ok_inj[OF ok ts] that by simp
    then show ?thesis using True adm_okD(3)[OF ok ts]
      by (auto simp: owns_def enqueue_def members_def)
  next
    case False
    then show ?thesis using adm_okD(3)[OF ok that] nm[OF that] by (auto simp: owns_def enqueue_def)
  qed
  moreover have "req_ok ?a v q" if "reqs ?a v = Some q" for v q
  proof (cases "v = w")
    case True
    then show ?thesis using that ts adm_okD(1)[OF ok ts] by (auto simp: req_ok_def enqueue_def)
  next
    case False
    then have "req_ok a v q" using that adm_ok_req[OF ok] by (simp add: enqueue_def)
    then show ?thesis
      by (cases "r_state q = s") (auto simp: req_ok_def enqueue_def)
  qed
  moreover have "store ?a = store a" "next_obj ?a = next_obj a" by (simp_all add: enqueue_def)
  ultimately show ?thesis
    using ok unfolding adm_ok_def by (metis (no_types, lifting))
qed

lemma acquire_slot_begin_ok:
  assumes ok: "adm_ok a" and w: "reqs a w = None" and n: "\<And>n. lmt = Some n \<Longrightarrow> 1 \<le> n"
    and r: "acquire_slot_begin w t lmt key grp owner cancel cs now a = Inr (Some a')"
  shows "adm_ok a'" "adm_settled a \<Longrightarrow> adm_settled a'"
proof -
  from r obtain m s a1 where m: "lmt = Some m" and o: "open_target t m key grp a = (s, a1)"
    and a': "a' = drain s (enqueue w t s owner cancel now a1)"
    by (auto simp: acquire_slot_begin_def split: option.splits if_splits prod.splits)
  note O = open_target_ok[OF ok n[OF m] o]
  have e: "adm_ok (enqueue w t s owner cancel now a1)"
    using enqueue_ok[OF O(1,2)] O(3) w by simp
  have ts: "(t, s) \<in> set (store (enqueue w t s owner cancel now a1))"
    using O(2) by (simp add: enqueue_def)
  show "adm_ok a'" unfolding a' using drain_ok[OF e ts] .
  show "adm_settled a'" if "adm_settled a"
    unfolding a' using O(4)[OF that] adm_okD(2)[OF e ts]
    by (intro drain_settled) (simp_all add: enqueue_def settled_but_put_view)
qed

section \<open>Abandon\<close>

lemma dead_object_ok:
  assumes ok: "adm_ok a" and d: "\<And>t. (t, s) \<notin> set (store a)"
  shows "adm_ok (put_view s (st, reqs a) a)" "adm_settled a \<Longrightarrow> adm_settled (put_view s (st, reqs a) a)"
proof -
  let ?a = "put_view s (st, reqs a) a"
  have "view_ok (view ?a s') \<and> owns ?a t' s'" if "(t', s') \<in> set (store a)" for t' s'
  proof -
    have "s' \<noteq> s" using d that by auto
    then show ?thesis using adm_okD[OF ok that] by (simp add: view_def owns_def)
  qed
  moreover have "req_ok ?a w q" if "reqs a w = Some q" for w q
    using adm_ok_req[OF ok that] d[of "r_target q"]
    by (cases "r_state q = s") (auto simp: req_ok_def)
  ultimately show "adm_ok ?a" using ok unfolding adm_ok_def by simp
  show "adm_settled ?a" if "adm_settled a"
    using that d unfolding adm_settled_def
    by (metis put_view_simps(1,6))
qed

lemma unwait_local_step:
  assumes ok: "view_ok (st, rq)" and w: "w \<in> set (a_waiters st)" and q: "rq w = Some q"
  shows "local_step (st, rq) (st\<lparr>a_waiters := remove1 w (a_waiters st)\<rparr>, rq(w \<mapsto> q\<lparr>r_fut := ACancelled\<rparr>))"
    (is "local_step _ (?st, ?rq)")
proof -
  note V = view_okD[OF ok]
  have ng: "\<not> r_granted q" using V(7)[OF w] q by (simp add: waits_def)
  have nl: "w \<notin> set (a_leases st)" using V(3) w by auto
  have keep: "waits ?rq v = waits rq v" "holds ?rq v = holds rq v" if "v \<noteq> w" for v
    using that by (simp_all add: waits_def holds_def)
  have rem: "v \<in> set (remove1 w (a_waiters st)) \<longleftrightarrow> v \<in> set (a_waiters st) \<and> v \<noteq> w" for v
    using V(1) by simp
  have "view_ok (?st, ?rq)"
  proof (rule view_okI)
    show "waits ?rq v" if "v \<in> set (a_waiters ?st)" for v
      using V(7)[of v] keep(1)[of v] that rem by simp
    show "holds ?rq v" if "v \<in> set (a_leases ?st)" for v
      using V(8)[of v] keep(2)[of v] that nl by (cases "v = w") simp_all
    show "set (a_leases ?st) \<inter> set (a_waiters ?st) = {}" using V(3) rem by auto
  qed (use V in simp_all)
  moreover have "members ?st \<subseteq> members st" using rem by (auto simp: members_def)
  moreover have "\<exists>q''. ?rq v = Some q'' \<and> r_target q'' = r_target q' \<and> r_state q'' = r_state q' \<and>
      (r_granted q'' \<and> \<not> r_released q'' \<longrightarrow> v \<in> set (a_leases ?st)) \<and>
      (r_fut q'' = APending \<longrightarrow> v \<in> set (a_waiters ?st))"
    if m: "v \<in> members st" and rv: "rq v = Some q'" for v q'
  proof (cases "v = w")
    case False
    consider "v \<in> set (a_waiters st)" | "v \<in> set (a_leases st)" using m by (auto simp: members_def)
    then show ?thesis
      using V(7)[of v] V(8)[of v] rv False rem[of v] by cases (auto simp: waits_def holds_def)
  qed (use ng q rv in simp)
  moreover have "v \<notin> members st \<Longrightarrow> ?rq v = rq v" for v using w by (auto simp: members_def)
  ultimately show ?thesis unfolding local_step_def by simp
qed

lemma abandon_ok:
  assumes ok: "adm_ok a"
  shows "adm_ok (abandon w a)" "adm_settled a \<Longrightarrow> adm_settled (abandon w a)"
proof -
  have "adm_ok (abandon w a) \<and> (adm_settled a \<longrightarrow> adm_settled (abandon w a))"
  proof (cases "reqs a w")
    case None
    then show ?thesis using ok by (simp add: abandon_def)
  next
    case (Some q)
    let ?s = "r_state q"
    let ?st = "(objs a ?s)\<lparr>a_waiters := remove1 w (a_waiters (objs a ?s))\<rparr>"
    note r = adm_ok_req[OF ok Some]
    consider "r_granted q" | "\<not> r_granted q" "r_fut q = APending"
      | "\<not> r_granted q" "r_fut q \<noteq> APending" by blast
    then show ?thesis
    proof cases
      case 1
      then show ?thesis using Some release_lease_ok[OF ok Some] by (simp add: abandon_def)
    next
      case 2
      then have ts: "(r_target q, ?s) \<in> set (store a)" "w \<in> set (a_waiters (objs a ?s))"
        using r by (auto simp: req_ok_def)
      have e: "abandon w a = put_view ?s (?st, (reqs a)(w \<mapsto> q\<lparr>r_fut := ACancelled\<rparr>)) a"
        using 2 Some by (simp add: abandon_def)
      have "local_step (view a ?s) (?st, (reqs a)(w \<mapsto> q\<lparr>r_fut := ACancelled\<rparr>))"
        unfolding view_def
        using adm_okD(2)[OF ok ts(1)] ts(2) Some by (intro unwait_local_step) (simp_all add: view_def)
      then have "adm_ok (abandon w a)" unfolding e by (rule local_step_ok[OF ok ts(1)])
      moreover have "adm_settled (abandon w a)" if "adm_settled a"
        unfolding e using settled_imp_but[OF that, of ?s] that ts(1)
        by (intro put_view_settled) (fastforce simp: settled_but_def adm_settled_def)+
      ultimately show ?thesis by blast
    next
      case 3
      then have e: "abandon w a = put_view ?s (?st, reqs a) a" using Some by (simp add: abandon_def)
      show ?thesis
      proof (cases "\<exists>t. (t, ?s) \<in> set (store a)")
        case True
        then have "view_ok (view a ?s)" using adm_okD(2)[OF ok] by blast
        then have "w \<notin> set (a_waiters (objs a ?s))"
          using 3 Some by (auto simp: view_ok_def view_def waits_def)
        then have "?st = objs a ?s" by (simp add: remove1_idem)
        then have "abandon w a = a" unfolding e by (metis put_view_same view_def)
        then show ?thesis using ok by simp
      next
        case False
        then show ?thesis unfolding e using dead_object_ok[OF ok] by blast
      qed
    qed
  qed
  then show "adm_ok (abandon w a)" "adm_settled a \<Longrightarrow> adm_settled (abandon w a)" by simp_all
qed

lemma acquire_slot_finish_ok:
  assumes "adm_ok a"
  shows "adm_ok (fst (acquire_slot_finish w i c a))"
    "adm_settled a \<Longrightarrow> adm_settled (fst (acquire_slot_finish w i c a))"
  using assms abandon_ok[OF assms]
  by (auto simp: acquire_slot_finish_def Let_def split: afut.split)

section \<open>Failing and reaping\<close>

lemma fail_view_ok: "1 \<le> a_limit st \<Longrightarrow> (\<And>e. a_eff st = Some e \<Longrightarrow> 1 \<le> e) \<Longrightarrow> view_ok (fail_view t (st, rq))"
  by (simp add: fail_view_def view_ok_def)

lemma fail_local_step:
  assumes ok: "view_ok (st, rq)"
  shows "local_step (st, rq) (fail_view t (st, rq))"
proof -
  note V = view_okD[OF ok]
  have "\<exists>q'. snd (fail_view t (st, rq)) w = Some q' \<and> r_target q' = r_target q \<and> r_state q' = r_state q \<and>
      (r_granted q' \<longrightarrow> r_released q') \<and> r_fut q' \<noteq> APending"
    if m: "w \<in> members st" and q: "rq w = Some q" for w q
  proof (cases "w \<in> set (a_leases st)")
    case True
    then show ?thesis using V(3) V(8)[OF True] q
      by (auto simp: fail_view_def release_all_def fail_waiters_def holds_def)
  next
    case False
    then have "w \<in> set (a_waiters st)" using m by (simp add: members_def)
    then show ?thesis using V(7)[of w] q False
      by (auto simp: fail_view_def release_all_def fail_waiters_def waits_def)
  qed
  moreover have "snd (fail_view t (st, rq)) w = rq w" if "w \<notin> members st" for w
    using that by (simp add: fail_view_def release_all_def fail_waiters_def members_def)
  moreover have "view_ok (fail_view t (st, rq))" by (rule fail_view_ok) (rule V(5,6), assumption?)+
  ultimately show ?thesis
    unfolding local_step_def by (fastforce simp: members_def fail_view_def)
qed

lemma fail_target_eq:
  assumes "adm_ok a" "(t, s) \<in> set (store a)"
  shows "fail_target t s a = (put_view s (fail_view t (view a s)) a)
     \<lparr>store := AList.delete t (store a), slow_since := AList.delete t (slow_since a)\<rparr>"
  using adm_ok_get[OF assms(1)] assms(2) by (simp add: fail_target_def)

lemma fail_target_ok:
  assumes ok: "adm_ok a" and ts: "(t, s) \<in> set (store a)"
  shows "adm_ok (fail_target t s a)" "adm_settled a \<Longrightarrow> adm_settled (fail_target t s a)"
    "store (fail_target t s a) = AList.delete t (store a)"
proof -
  note e = fail_target_eq[OF ok ts]
  let ?b = "put_view s (fail_view t (view a s)) a"
  have l: "adm_ok ?b" using fail_local_step adm_okD(2)[OF ok ts]
    by (intro local_step_ok[OF ok ts]) (simp add: view_def)
  have "members (objs ?b s) = {}" by (simp add: fail_view_def view_def members_def)
  then show "adm_ok (fail_target t s a)"
    unfolding e using remove_target_ok[OF l, of t s] ts by simp
  have "adm_settled ?b" if "adm_settled a"
    using settled_imp_but[OF that, of s]
    by (intro put_view_settled) (auto simp: settled_but_def fail_view_def view_def)
  then show "adm_settled (fail_target t s a)" if "adm_settled a"
    unfolding e using settled_delete[of ?b] that by simp
  show "store (fail_target t s a) = AList.delete t (store a)" by (simp add: e)
qed

lemma set_dead_ok:
  assumes "adm_ok a" "(t, s) \<in> set (store a)"
  shows "adm_ok (set_dead s d a)" "adm_settled a \<Longrightarrow> adm_settled (set_dead s d a)"
proof -
  have e: "set_dead s d a = put_view s ((objs a s)\<lparr>a_dead := d\<rparr>, reqs a) a"
    by (simp add: set_dead_def put_view_def)
  have v: "view_ok (objs a s, reqs a)" using adm_okD(2)[OF assms] by (simp add: view_def)
  show "adm_ok (set_dead s d a)"
    unfolding e using view_okD(5,6)[OF v] by (intro reconfigure_ok[OF assms]) (simp_all add: same_slots_def)
  show "adm_settled (set_dead s d a)" if "adm_settled a"
    unfolding e using settled_imp_but[OF that, of s] that assms(2)
    by (intro put_view_settled) (auto simp: settled_but_def adm_settled_def)
qed

lemma set_dead_store [simp]: "store (set_dead s d a) = store a"
  by (simp add: set_dead_def)

text \<open>A loop over a snapshot of the store, each turn of which may remove its own target.\<close>

lemma snapshot_loop:
  assumes "distinct (map fst es)" "set es \<subseteq> set (store (g b))" "adm_ok (g b)"
    and f: "\<And>b t s. adm_ok (g b) \<Longrightarrow> (t, s) \<in> set (store (g b)) \<Longrightarrow>
      adm_ok (g (f b (t, s))) \<and> (adm_settled (g b) \<longrightarrow> adm_settled (g (f b (t, s)))) \<and>
      {e \<in> set (store (g b)). fst e \<noteq> t} \<subseteq> set (store (g (f b (t, s))))"
  shows "adm_ok (g (foldl f b es)) \<and> (adm_settled (g b) \<longrightarrow> adm_settled (g (foldl f b es)))"
  using assms(1-3)
proof (induction es arbitrary: b)
  case (Cons e es)
  obtain t s where e: "e = (t, s)" by (cases e)
  have "(t, s) \<in> set (store (g b))" using Cons.prems(2) e by simp
  note F = f[OF Cons.prems(3) this]
  have "set es \<subseteq> {e \<in> set (store (g b)). fst e \<noteq> t}"
    using Cons.prems(1,2) e by force
  then have "set es \<subseteq> set (store (g (f b (t, s))))" using F by blast
  then show ?case using Cons.IH[of "f b (t, s)"] F Cons.prems(1) e by auto
qed simp

lemma reap_one_ok:
  assumes ok: "adm_ok a" and ts: "(t, s) \<in> set (store a)"
  shows "adm_ok (fst (reap_one cs now (a, r) (t, s))) \<and>
    (adm_settled a \<longrightarrow> adm_settled (fst (reap_one cs now (a, r) (t, s)))) \<and>
    {e \<in> set (store a). fst e \<noteq> t} \<subseteq> set (store (fst (reap_one cs now (a, r) (t, s))))"
proof -
  have d: "adm_ok (set_dead s d a)" "adm_settled a \<longrightarrow> adm_settled (set_dead s d a)"
    "(t, s) \<in> set (store (set_dead s d a))" for d
    using set_dead_ok[OF ok ts] ts by simp_all
  show ?thesis
    using d fail_target_ok[OF d(1,3)]
    by (auto simp: reap_one_def Let_def AList.delete_eq split: option.split)
qed

lemma reap_stale_ok:
  assumes ok: "adm_ok a"
  shows "adm_ok (fst (reap_stale rd cs now r a))"
    "adm_settled a \<Longrightarrow> adm_settled (fst (reap_stale rd cs now r a))"
proof -
  have "adm_ok (fst (foldl (reap_one cs now) (a, r) (store a))) \<and>
    (adm_settled (fst (a, r)) \<longrightarrow> adm_settled (fst (foldl (reap_one cs now) (a, r) (store a))))"
  proof (rule snapshot_loop)
    show "distinct (map fst (store a))" using ok by (simp add: adm_ok_def wf_dict_def)
    fix b :: "adm \<times> string list" and t s
    assume "adm_ok (fst b)" "(t, s) \<in> set (store (fst b))"
    then show "adm_ok (fst (reap_one cs now b (t, s))) \<and>
       (adm_settled (fst b) \<longrightarrow> adm_settled (fst (reap_one cs now b (t, s)))) \<and>
       {e \<in> set (store (fst b)). fst e \<noteq> t} \<subseteq> set (store (fst (reap_one cs now b (t, s))))"
      using reap_one_ok[of "fst b" t s cs now "snd b"] by simp
  qed (use ok in simp_all)
  then show "adm_ok (fst (reap_stale rd cs now r a))"
    "adm_settled a \<Longrightarrow> adm_settled (fst (reap_stale rd cs now r a))"
    using ok by (simp_all add: reap_stale_def)
qed

lemma reap_container_ok:
  assumes ok: "adm_ok a"
  shows "adm_ok (reap_container n d cs a)" "adm_settled a \<Longrightarrow> adm_settled (reap_container n d cs a)"
proof -
  have "adm_ok (id (foldl (reap_container_one n d cs) a (store a))) \<and>
    (adm_settled (id a) \<longrightarrow> adm_settled (id (foldl (reap_container_one n d cs) a (store a))))"
  proof (rule snapshot_loop)
    show "distinct (map fst (store a))" using ok by (simp add: adm_ok_def wf_dict_def)
    fix b t s
    assume "adm_ok (id b)" "(t, s) \<in> set (store (id b))"
    then show "adm_ok (id (reap_container_one n d cs b (t, s))) \<and>
       (adm_settled (id b) \<longrightarrow> adm_settled (id (reap_container_one n d cs b (t, s)))) \<and>
       {e \<in> set (store (id b)). fst e \<noteq> t} \<subseteq> set (store (id (reap_container_one n d cs b (t, s))))"
      using fail_target_ok[of b t s] by (auto simp: reap_container_one_def Let_def AList.delete_eq)
  qed (use ok in simp_all)
  then show "adm_ok (reap_container n d cs a)" "adm_settled a \<Longrightarrow> adm_settled (reap_container n d cs a)"
    by (simp_all add: reap_container_def)
qed

lemma reset_admission_ok:
  "adm_ok a \<Longrightarrow> adm_ok (reset_admission ts a) \<and> (adm_settled a \<longrightarrow> adm_settled (reset_admission ts a))"
proof (induction ts arbitrary: a)
  case (Cons t ts)
  let ?b = "case store_get a t of None \<Rightarrow> a | Some s \<Rightarrow> fail_target t s a"
  have b: "adm_ok ?b \<and> (adm_settled a \<longrightarrow> adm_settled ?b)"
    using Cons.prems fail_target_ok[OF Cons.prems] adm_ok_get[OF Cons.prems]
    by (auto split: option.split)
  have e: "reset_admission (t # ts) a = reset_admission ts ?b" by (simp add: reset_admission_def)
  show ?case unfolding e using Cons.IH[of ?b] b by blast
qed (simp add: reset_admission_def)

end
