(* ===== verification/Nudger.thy ===== *)
theory Nudger imports Admission_Steps
begin

text \<open>
  The inference nudger of \<open>manager.py\<close> (\<open>_inference_nudger_tick\<close>): when concurrent streams of a target
  stall, it lowers the target's effective limit to one and interrupts the streams that have not
  emitted anything, then restores the limit one slot per interval.

  The two settings are taken as the numbers the code converts them to (a threshold of at least
  zero, an interval of at least half a second).  The targets are visited in the order of the list
  \<open>ts\<close>; Python iterates over a set, so every order is possible and the results hold for each.
\<close>

record nrec =
  n_target :: "string option"
  n_streaming :: bool
  n_paused :: bool
  n_event :: bool
  n_stamps :: "rat list"
  n_started :: "rat option"
  n_total :: int
  n_forwarded :: int

definition nudgeable :: "nrec \<Rightarrow> bool" where
  "nudgeable r = (n_target r \<noteq> None \<and> n_target r \<noteq> Some [] \<and> n_streaming r \<and> \<not> n_paused r \<and> n_event r)"

definition nudge_streams :: "(nat, nrec) dict \<Rightarrow> string \<Rightarrow> (nat \<times> nrec) list" where
  "nudge_streams act t = filter (\<lambda>(i, r). nudgeable r \<and> n_target r = Some t) act"

definition nudge_targets :: "(nat, nrec) dict \<Rightarrow> adm \<Rightarrow> string set" where
  "nudge_targets act a = fst ` set (slow_since a) \<union>
     {t. \<exists>(i, r) \<in> set act. nudgeable r \<and> n_target r = Some t} \<union>
     {t. \<exists>s. (t, s) \<in> set (store a) \<and> a_eff (objs a s) \<noteq> None}"

definition started_or :: "rat \<Rightarrow> nat \<times> nrec \<Rightarrow> rat" where
  "started_or now e = (case n_started (snd e) of None \<Rightarrow> now | Some x \<Rightarrow> x)"

definition conf_limit :: "adm_state \<Rightarrow> int" where
  "conf_limit st = max 1 (a_limit st)"

definition clamp_eff :: "adm_state \<Rightarrow> adm_state" where
  "clamp_eff st = (case a_eff st of None \<Rightarrow> st
     | Some e \<Rightarrow> st\<lparr>a_eff := Some (max 1 (min (conf_limit st) e))\<rparr>)"

definition unwatch :: "adm_state \<Rightarrow> adm_state" where
  "unwatch st = (case a_nudger st of None \<Rightarrow> st
     | Some i \<Rightarrow> if nu_status i = ''watching'' then st\<lparr>a_nudger := None\<rparr> else st)"

definition blank_info :: nudger_info where
  "blank_info = \<lparr>nu_status = [], nu_rate = None, nu_threshold = None, nu_eff = None, nu_conf = None,
     nu_survivor = None, nu_replayed = None, nu_triggers = 0, nu_triggered_at = None, nu_reason = None\<rparr>"

definition info_of :: "adm_state \<Rightarrow> nudger_info" where
  "info_of st = (case a_nudger st of None \<Rightarrow> blank_info | Some i \<Rightarrow> i)"

definition token_rate :: "rat \<Rightarrow> rat \<Rightarrow> (nat \<times> nrec) list \<Rightarrow> rat" where
  "token_rate now stall xs =
     of_nat (sum_list (map (\<lambda>e. length (filter (\<lambda>x. now - stall \<le> x) (n_stamps (snd e)))) xs)) / stall"

definition newest_start :: "rat \<Rightarrow> (nat \<times> nrec) list \<Rightarrow> rat" where
  "newest_start now xs = Max (set (map (started_or now) xs))"

text \<open>Only streams without any output are interrupted.\<close>

definition victims :: "rat \<Rightarrow> (nat \<times> nrec) list \<Rightarrow> nat list" where
  "victims now xs = map fst (filter (\<lambda>e. n_total (snd e) = 0 \<and> n_forwarded (snd e) = 0)
     (tl (sort_key (started_or now) xs)))"

definition watching :: "rat \<Rightarrow> rat \<Rightarrow> adm_state \<Rightarrow> adm_state" where
  "watching rate thr st = st\<lparr>a_nudger := Some ((info_of st)\<lparr>nu_status := ''watching'',
     nu_rate := Some (round_digits 1 rate), nu_threshold := Some thr, nu_eff := a_eff st,
     nu_conf := Some (conf_limit st)\<rparr>)\<rparr>"

definition nudging :: "rat \<Rightarrow> rat \<Rightarrow> rat \<Rightarrow> rat \<Rightarrow> rat \<Rightarrow> (nat \<times> nrec) list \<Rightarrow> adm_state \<Rightarrow> adm_state" where
  "nudging rate thr stall now wall xs st = (let vs = victims now xs; i = info_of st in
     st\<lparr>a_eff := Some 1, a_next := Some (now + stall),
       a_nudger := Some (i\<lparr>nu_status := (if vs \<noteq> [] then ''nudging'' else ''blocked_partial_output''),
         nu_rate := Some (round_digits 1 rate), nu_threshold := Some thr, nu_eff := Some 1,
         nu_conf := Some (conf_limit st),
         nu_survivor := Some (fst (hd (sort_key (started_or now) xs))),
         nu_replayed := Some (length vs), nu_triggers := nu_triggers i + 1,
         nu_triggered_at := Some wall,
         nu_reason := (if vs = [] then Some ''all newer streams already emitted output; unsafe to replay''
           else nu_reason i)\<rparr>)\<rparr>)"

definition restored :: "adm_state \<Rightarrow> adm_state" where
  "restored st = st\<lparr>a_eff := None, a_next := None, a_nudger := None\<rparr>"

text \<open>The recovery part at the end of the loop body.\<close>

definition recover :: "rat \<Rightarrow> rat \<Rightarrow> nat \<Rightarrow> adm \<Rightarrow> adm" where
  "recover stall now s a = (let st = objs a s; conf = conf_limit st in
     case a_eff st of None \<Rightarrow> a
     | Some e \<Rightarrow>
       if e \<ge> conf then drain s (put_view s (restored st, reqs a) a)
       else let nxt = (case a_next st of None \<Rightarrow> now + stall | Some x \<Rightarrow> x);
                st1 = st\<lparr>a_next := Some nxt\<rparr> in
         if now < nxt then put_view s (st1, reqs a) a
         else let n = min conf (e + 1) in
           if n \<ge> conf then drain s (put_view s (restored st1, reqs a) a)
           else drain s (put_view s (st1\<lparr>a_eff := Some n, a_next := Some (now + stall),
                  a_nudger := Some ((info_of st1)\<lparr>nu_status := ''recovering'', nu_eff := Some n,
                    nu_conf := Some conf\<rparr>)\<rparr>, reqs a) a))"

definition forget_slow :: "string \<Rightarrow> adm \<Rightarrow> adm" where
  "forget_slow t a = a\<lparr>slow_since := AList.delete t (slow_since a)\<rparr>"

definition on_state :: "nat \<Rightarrow> (adm_state \<Rightarrow> adm_state) \<Rightarrow> adm \<Rightarrow> adm" where
  "on_state s f a = put_view s (f (objs a s), reqs a) a"

text \<open>The body of the loop over the targets; the second component collects the interrupted requests.\<close>

definition nudge_target :: "rat \<Rightarrow> rat \<Rightarrow> rat \<Rightarrow> rat \<Rightarrow> (nat, nrec) dict \<Rightarrow> adm \<times> nat list \<Rightarrow> string \<Rightarrow>
    adm \<times> nat list" where
  "nudge_target thr stall now wall act acc t = (case acc of (a, evs) \<Rightarrow>
     let xs = nudge_streams act t in
     case store_get a t of
       None \<Rightarrow> (forget_slow t a, evs)
     | Some s \<Rightarrow>
         let a1 = on_state s clamp_eff a;
             a2 = (if length xs < 2 then forget_slow t (on_state s unwatch a1) else a1);
             monitor = (length xs \<ge> 2 \<and> a_eff (objs a2 s) \<noteq> Some 1);
             rate = token_rate now stall xs in
         if monitor \<and> rate < thr then
           let began = (case map_of (slow_since a2) t of None \<Rightarrow> newest_start now xs | Some x \<Rightarrow> x);
               a3 = a2\<lparr>slow_since := AList.update t began (slow_since a2)\<rparr> in
           if now - began < stall then (on_state s (watching rate thr) a3, evs)
           else (forget_slow t (on_state s (nudging rate thr stall now wall xs) a3), evs @ victims now xs)
         else
           (recover stall now s (if monitor then forget_slow t (on_state s unwatch a2) else a2), evs))"

definition nudger_tick :: "rat \<Rightarrow> rat \<Rightarrow> rat \<Rightarrow> rat \<Rightarrow> (nat, nrec) dict \<Rightarrow> string list \<Rightarrow> adm \<Rightarrow>
    adm \<times> nat list" where
  "nudger_tick thr stall now wall act ts a = foldl (nudge_target thr stall now wall act) (a, []) ts"

section \<open>The tick keeps the admission invariant\<close>

definition good :: "adm \<Rightarrow> bool" where
  "good a \<longleftrightarrow> adm_ok a \<and> adm_settled a"

lemma forget_slow_good [simp]: "good (forget_slow t a) = good a" "good (a\<lparr>slow_since := x\<rparr>) = good a"
  "store (forget_slow t a) = store a" "objs (forget_slow t a) = objs a" "reqs (forget_slow t a) = reqs a"
proof -
  have *: "adm_ok (a\<lparr>slow_since := x\<rparr>) = adm_ok a" for x
    by (simp add: adm_ok_def owns_def req_ok_def)
  show "good (forget_slow t a) = good a" "good (a\<lparr>slow_since := x\<rparr>) = good a"
    by (simp_all add: good_def forget_slow_def * adm_settled_def)
qed (simp_all add: forget_slow_def)

text \<open>A change of the configuration fields that does not raise the limit, or one followed by a
  drain, keeps the queue consistent and settled.\<close>

lemma on_state_good:
  assumes g: "good a" and ts: "(t, s) \<in> set (store a)" and ss: "same_slots (objs a s) (f (objs a s))"
    and l: "1 \<le> a_limit (f (objs a s))" "\<forall>e. a_eff (f (objs a s)) = Some e \<longrightarrow> 1 \<le> e"
  shows "limit_of (f (objs a s)) \<le> limit_of (objs a s) \<Longrightarrow> good (on_state s f a)"
    and "good (drain s (put_view s (f (objs a s), reqs a) a))"
proof -
  have ok: "adm_ok a" and st: "adm_settled a" using g by (auto simp: good_def)
  have o: "adm_ok (on_state s f a)" unfolding on_state_def by (rule reconfigure_ok[OF ok ts ss l])
  show "good (on_state s f a)" if "limit_of (f (objs a s)) \<le> limit_of (objs a s)"
  proof -
    have "a_waiters (objs a s) = [] \<or> limit_of (objs a s) \<le> a_running (objs a s)"
      using st ts by (simp add: adm_settled_def)
    then have "adm_settled (on_state s f a)"
      unfolding on_state_def using settled_imp_but[OF st, of s] ss that
      by (intro put_view_settled) (auto simp: settled_but_def same_slots_def)
    then show ?thesis using o by (simp add: good_def)
  qed
  have v: "view_ok (view (on_state s f a) s)"
    using adm_okD(2)[OF o, of t s] ts by (simp add: on_state_def)
  have "adm_ok (drain s (on_state s f a))" using ts by (intro drain_ok[OF o]) (simp add: on_state_def)
  moreover have "adm_settled (drain s (on_state s f a))"
    using settled_imp_but[OF st, of s] by (intro drain_settled v) (simp add: on_state_def settled_but_put_view)
  ultimately show "good (drain s (put_view s (f (objs a s), reqs a) a))"
    by (simp add: good_def on_state_def)
qed

lemma good_limits:
  assumes "good a" "(t, s) \<in> set (store a)"
  shows "1 \<le> a_limit (objs a s)" "a_eff (objs a s) = Some e \<Longrightarrow> 1 \<le> e" "1 \<le> limit_of (objs a s)"
  using adm_okD(2)[of a t s] assms
  by (auto simp: good_def view_ok_def view_def limit_of_def split: option.split)

lemma on_state_simps [simp]:
  "store (on_state s f a) = store a" "slow_since (on_state s f a) = slow_since a"
  "objs (on_state s f a) s = f (objs a s)" "reqs (on_state s f a) = reqs a"
  by (simp_all add: on_state_def)

lemma clamp_good:
  assumes "good a" "(t, s) \<in> set (store a)"
  shows "good (on_state s clamp_eff a)"
  using good_limits[OF assms]
  by (intro on_state_good[OF assms])
    (auto simp: same_slots_def clamp_eff_def limit_of_def split: option.split)

lemma unwatch_good:
  assumes "good a" "(t, s) \<in> set (store a)"
  shows "good (on_state s unwatch a)"
  using good_limits[OF assms]
  by (intro on_state_good[OF assms])
    (auto simp: same_slots_def unwatch_def split: option.split)

lemma watching_good:
  assumes "good a" "(t, s) \<in> set (store a)"
  shows "good (on_state s (watching r thr) a)"
  using good_limits[OF assms]
  by (intro on_state_good[OF assms]) (auto simp: same_slots_def watching_def)

lemma nudging_good:
  assumes "good a" "(t, s) \<in> set (store a)"
  shows "good (on_state s (nudging r thr stall now wall xs) a)"
  using good_limits[OF assms]
  by (intro on_state_good[OF assms]) (auto simp: same_slots_def nudging_def Let_def limit_of_def)

lemma good_if: "(c \<Longrightarrow> good a) \<Longrightarrow> (\<not> c \<Longrightarrow> good b) \<Longrightarrow> good (if c then a else b)"
  by simp

lemma recover_good:
  assumes g: "good a" and ts: "(t, s) \<in> set (store a)"
  shows "good (recover stall now s a)"
proof -
  note L = good_limits[OF g ts]
  have d: "good (drain s (put_view s (f (objs a s), reqs a) a))"
    if "same_slots (objs a s) (f (objs a s))" "a_limit (f (objs a s)) = a_limit (objs a s)"
      "\<forall>e. a_eff (f (objs a s)) = Some e \<longrightarrow> 1 \<le> e" for f
    using on_state_good(2)[OF g ts, of f] that L(1) by simp
  have n: "good (put_view s ((objs a s)\<lparr>a_next := x\<rparr>, reqs a) a)" for x
    using on_state_good(1)[OF g ts, of "\<lambda>st. st\<lparr>a_next := x\<rparr>"] L(1,2)
    by (simp add: same_slots_def on_state_def)
  show ?thesis
  proof (cases "a_eff (objs a s)")
    case None
    then show ?thesis using g by (simp add: recover_def)
  next
    case (Some e)
    let ?nxt = "case a_next (objs a s) of None \<Rightarrow> now + stall | Some x \<Rightarrow> x"
    let ?st1 = "(objs a s)\<lparr>a_next := Some ?nxt\<rparr>"
    let ?n = "min (conf_limit (objs a s)) (e + 1)"
    have r1: "good (drain s (put_view s (restored (objs a s), reqs a) a))"
      by (rule d) (simp_all add: same_slots_def restored_def)
    have r2: "good (drain s (put_view s (restored ?st1, reqs a) a))"
      using d[of "\<lambda>st. restored (st\<lparr>a_next := Some ?nxt\<rparr>)"] by (simp add: same_slots_def restored_def)
    have r3: "good (drain s (put_view s (?st1\<lparr>a_eff := Some ?n, a_next := Some (now + stall),
        a_nudger := i\<rparr>, reqs a) a))" for i
    proof (rule d[of "\<lambda>st. st\<lparr>a_next := Some ?nxt, a_eff := Some ?n, a_next := Some (now + stall),
        a_nudger := i\<rparr>"])
      show "\<forall>x. a_eff ((objs a s)\<lparr>a_next := Some ?nxt, a_eff := Some ?n,
          a_next := Some (now + stall), a_nudger := i\<rparr>) = Some x \<longrightarrow> 1 \<le> x"
        using L(2)[OF Some] by (simp add: conf_limit_def)
    qed (simp_all add: same_slots_def)
    show ?thesis
      unfolding recover_def Let_def Some option.case
      apply (rule good_if)
       apply (rule r1)
      apply (rule good_if)
       apply (rule n)
      apply (rule good_if)
       apply (rule r2)
      apply (rule r3)
      done
  qed
qed

lemma recover_store [simp]: "store (recover stall now s a) = store a"
  by (auto simp: recover_def Let_def split: option.split)

lemma nudge_target_good:
  assumes "good a"
  shows "good (fst (nudge_target thr stall now wall act (a, evs) t))"
    "store (fst (nudge_target thr stall now wall act (a, evs) t)) = store a"
proof -
  have "good (fst (nudge_target thr stall now wall act (a, evs) t)) \<and>
    store (fst (nudge_target thr stall now wall act (a, evs) t)) = store a"
  proof (cases "store_get a t")
    case None
    then show ?thesis using assms by (simp add: nudge_target_def Let_def)
  next
    case (Some s)
    then have ts: "(t, s) \<in> set (store a)" using adm_ok_get assms by (auto simp: good_def)
    let ?xs = "nudge_streams act t"
    define a1 where "a1 = on_state s clamp_eff a"
    define a2 where "a2 = (if length ?xs < 2 then forget_slow t (on_state s unwatch a1) else a1)"
    have g1: "good a1" "store a1 = store a" using clamp_good[OF assms ts] by (simp_all add: a1_def)
    then have g2: "good a2" "store a2 = store a"
      using unwatch_good[of a1 t s] ts by (simp_all add: a2_def)
    have ts2: "(t, s) \<in> set (store a2)" using ts g2 by simp
    have r: "good (recover stall now s a2)" using recover_good[OF g2(1) ts2] .
    have ru: "good (recover stall now s (forget_slow t (on_state s unwatch a2)))"
      using unwatch_good[OF g2(1) ts2] ts2 by (intro recover_good[of _ t]) simp_all
    have u: "good (on_state s f (a2\<lparr>slow_since := x\<rparr>))"
      if "\<And>b. good b \<Longrightarrow> (t, s) \<in> set (store b) \<Longrightarrow> good (on_state s f b)" for f x
      using that[of "a2\<lparr>slow_since := x\<rparr>"] g2(1) ts2 by simp
    show ?thesis
      unfolding nudge_target_def prod.case Some option.case Let_def a1_def[symmetric] a2_def[symmetric]
      using r ru u[OF watching_good] u[OF nudging_good] g2(2) by simp
  qed
  then show "good (fst (nudge_target thr stall now wall act (a, evs) t))"
    "store (fst (nudge_target thr stall now wall act (a, evs) t)) = store a"
    by simp_all
qed

lemma nudger_tick_good:
  assumes "good a"
  shows "good (fst (nudger_tick thr stall now wall act ts a))"
proof -
  have "good (fst (foldl (nudge_target thr stall now wall act) acc ts))" if "good (fst acc)" for acc
    using that
  proof (induction ts arbitrary: acc)
    case (Cons t ts)
    then show ?case using nudge_target_good(1)[of "fst acc" thr stall now wall act "snd acc" t] by simp
  qed simp
  then show ?thesis using assms by (simp add: nudger_tick_def)
qed

text \<open>Only requests that have emitted nothing are interrupted.\<close>

lemma victims_silent:
  assumes "wf_dict act" "i \<in> set (victims now (nudge_streams act t))"
  shows "\<exists>r. map_of act i = Some r \<and> n_total r = 0 \<and> n_forwarded r = 0 \<and> nudgeable r \<and> n_target r = Some t"
proof -
  obtain r where "(i, r) \<in> set (tl (sort_key (started_or now) (nudge_streams act t)))"
    "n_total r = 0" "n_forwarded r = 0"
    using assms(2) by (auto simp: victims_def)
  then have "(i, r) \<in> set (nudge_streams act t)"
    by (metis list.set_sel(2) set_sort list.sel(2) list.set(1) empty_iff)
  then show ?thesis
    using assms(1) \<open>n_total r = 0\<close> \<open>n_forwarded r = 0\<close>
    by (intro exI[of _ r]) (simp add: nudge_streams_def map_of_wf_iff)
qed

end
