(* ===== verification/Admission_System.thy ===== *)
theory Admission_System imports Nudger
begin

text \<open>
  The step relation of the inference admission queue: every operation of the controller between
  two awaits, in any interleaving, and the properties of its reachable states.
\<close>

section \<open>Flags of a request only go up\<close>

definition req_le :: "areqs \<Rightarrow> areqs \<Rightarrow> bool" where
  "req_le rq rq' \<longleftrightarrow> (\<forall>w q. rq w = Some q \<longrightarrow> (\<exists>q'. rq' w = Some q' \<and> r_target q' = r_target q \<and>
     r_state q' = r_state q \<and> r_cancel q' = r_cancel q \<and> (r_granted q \<longrightarrow> r_granted q') \<and>
     (r_released q \<longrightarrow> r_released q')))"

lemma req_le_refl [simp, intro]: "req_le rq rq"
  by (simp add: req_le_def)

lemma req_le_trans: "req_le a b \<Longrightarrow> req_le b c \<Longrightarrow> req_le a c"
  unfolding req_le_def by metis

lemma req_le_upd:
  assumes "rq w = Some q" "r_target q' = r_target q" "r_state q' = r_state q" "r_cancel q' = r_cancel q"
    "r_granted q \<longrightarrow> r_granted q'" "r_released q \<longrightarrow> r_released q'"
  shows "req_le rq (rq(w \<mapsto> q'))"
  using assms by (auto simp: req_le_def)

lemma grant_le: "req_le rq (grant w rq)" "req_le rq (mark_released w rq)"
  by (auto simp: req_le_def grant_def mark_released_def)

lemma drain_loop_le: "drain_loop lmt ws n ls rq = (ws', n', ls', rq') \<Longrightarrow> req_le rq rq'"
proof (induction lmt ws n ls rq rule: drain_loop.induct)
  case (2 lmt w ws n ls rq)
  show ?case
  proof (cases "n < lmt \<and> fut_of rq w = APending")
    case True
    then show ?thesis using 2 req_le_trans[OF grant_le(1)] by simp
  next
    case False
    then show ?thesis using 2 by (auto split: if_splits)
  qed
qed simp

lemma drain_le: "req_le (reqs a) (reqs (drain s a))"
  by (auto simp: drain_def drain_view_def view_def split: prod.split dest: drain_loop_le)

lemma drop_idle_reqs [simp]: "reqs (drop_idle t s a) = reqs a" "objs (drop_idle t s a) = objs a"
  by (simp_all add: drop_idle_def)

lemma give_back_le: "req_le (reqs a) (reqs (give_back s a))"
  unfolding give_back_def by (rule req_le_trans[OF _ drain_le]) simp

lemma release_lease_le: "req_le (reqs a) (reqs (release_lease w a))"
proof -
  have u: "reqs (unlease w q a) = mark_released w (reqs a)" for q by (simp add: unlease_def)
  show ?thesis
    using req_le_trans[OF grant_le(2), of w "reqs a"] give_back_le[of "unlease w q a" for q]
    by (auto simp: release_lease_def Let_def u grant_le split: option.split)
qed

lemma release_name_le: "req_le (reqs a) (reqs (release_name t a))"
  by (auto simp: release_name_def release_lease_le give_back_le split: option.split list.split)

lemma release_slot_le: "req_le (reqs a) (reqs (release_slot g a))"
  by (cases g) (simp_all add: release_lease_le release_name_le)

lemma open_target_reqs: "open_target t n key grp a = (s, a1) \<Longrightarrow> reqs a1 = reqs a"
  by (auto simp: open_target_def split: option.splits)

lemma acquire_slot_begin_le:
  assumes "acquire_slot_begin w t lmt key grp owner cancel cs now a = Inr (Some a')" "reqs a w = None"
  shows "req_le (reqs a) (reqs a')"
proof -
  obtain m s a1 where o: "open_target t m key grp a = (s, a1)"
    and a': "a' = drain s (enqueue w t s owner cancel now a1)"
    using assms(1) by (auto simp: acquire_slot_begin_def split: option.splits if_splits prod.splits)
  have "req_le (reqs a) (reqs (enqueue w t s owner cancel now a1))"
    using assms(2) open_target_reqs[OF o] by (auto simp: enqueue_def req_le_def)
  then show ?thesis unfolding a' using drain_le by (rule req_le_trans)
qed

lemma abandon_le: "req_le (reqs a) (reqs (abandon w a))"
  by (auto simp: abandon_def release_lease_le intro!: req_le_upd split: option.split)

lemma acquire_slot_finish_le: "req_le (reqs a) (reqs (fst (acquire_slot_finish w i c a)))"
  by (auto simp: acquire_slot_finish_def Let_def abandon_le split: afut.split)

lemma fail_target_reqs:
  "reqs (fail_target t s a) = release_all (a_leases (objs a s)) (fail_waiters t (a_waiters (objs a s)) (reqs a))"
  by (simp add: fail_target_def Let_def fail_view_def view_def)

lemma fail_target_le: "req_le (reqs a) (reqs (fail_target t s a))"
  unfolding fail_target_reqs by (auto simp: release_all_def fail_waiters_def req_le_def)

lemma foldl_le:
  assumes "\<And>b x. req_le (reqs (g b)) (reqs (g (f b x)))"
  shows "req_le (reqs (g b)) (reqs (g (foldl f b xs)))"
  by (induction xs arbitrary: b) (auto intro: req_le_trans[OF assms])

lemma reap_stale_le: "req_le (reqs a) (reqs (fst (reap_stale rd cs now r a)))"
proof -
  have "req_le (reqs (fst b)) (reqs (fst (reap_one cs now b x)))" for b x
    using fail_target_le[of "set_dead (snd x) d (fst b)" for d]
    by (auto simp: reap_one_def Let_def set_dead_def split: prod.split option.split)
  from foldl_le[where g = fst and f = "reap_one cs now", OF this, of "(a, r)"] show ?thesis by (simp add: reap_stale_def)
qed

lemma reap_container_le: "req_le (reqs a) (reqs (reap_container n d cs a))"
proof -
  have "req_le (reqs (id b)) (reqs (id (reap_container_one n d cs b x)))" for b x
    by (auto simp: reap_container_one_def Let_def fail_target_le split: prod.split)
  from foldl_le[where g = id, OF this, of a] show ?thesis by (simp add: reap_container_def)
qed

lemma reset_admission_le: "req_le (reqs a) (reqs (reset_admission ts a))"
proof -
  have "req_le (reqs (id b)) (reqs (id (case store_get b t of None \<Rightarrow> b | Some s \<Rightarrow> fail_target t s b)))"
    for b t by (auto simp: fail_target_le split: option.split)
  from foldl_le[where g = id, OF this, of a] show ?thesis by (simp add: reset_admission_def)
qed

lemma recover_le: "req_le (reqs a) (reqs (recover stall now s a))"
  by (auto simp: recover_def Let_def split: option.split intro!: req_le_trans[OF _ drain_le])

lemma nudge_target_le: "req_le (reqs a) (reqs (fst (nudge_target thr stall now wall act (a, evs) t)))"
proof -
  have f: "reqs (forget_slow t b) = reqs b" for b by (simp add: forget_slow_def)
  show ?thesis
    by (auto simp: nudge_target_def Let_def f split: option.split intro!: req_le_trans[OF _ recover_le])
qed

section \<open>The owner sweep\<close>

lemma reap_lease_le: "req_le (reqs (fst b)) (reqs (fst (reap_lease owned fin b w)))"
  by (auto simp: reap_lease_def release_lease_le split: prod.split option.split)

lemma reap_target_le: "req_le (reqs (fst b)) (reqs (fst (reap_target owned fin b e)))"
  unfolding reap_target_def by (rule foldl_le) (rule reap_lease_le)

lemma reap_leases_le: "req_le (reqs a) (reqs (fst (reap_leases owned fin evs a)))"
  using foldl_le[where g = fst, OF reap_target_le, of "(a, evs)"] by (simp add: reap_leases_def)

definition was_granted :: "areqs \<Rightarrow> nat \<Rightarrow> bool" where
  "was_granted rq w \<longleftrightarrow> (\<exists>q. rq w = Some q \<and> (r_granted q \<or> r_released q))"

lemma was_granted_le: "was_granted rq w \<Longrightarrow> req_le rq rq' \<Longrightarrow> was_granted rq' w"
  unfolding was_granted_def req_le_def by metis

lemma reap_lease_good:
  assumes "good (fst b)" "was_granted (reqs (fst b)) w"
  shows "good (fst (reap_lease owned fin b w))"
  using assms release_lease_ok[of "fst b" w]
  by (auto simp: reap_lease_def good_def was_granted_def split: prod.split option.split)

lemma reap_lease_loop_good:
  assumes "good (fst b)" "\<forall>w \<in> set ws. was_granted (reqs (fst b)) w"
  shows "good (fst (foldl (reap_lease owned fin) b ws))"
  using assms
proof (induction ws arbitrary: b)
  case (Cons w ws)
  have "good (fst (reap_lease owned fin b w))" using Cons.prems reap_lease_good by simp
  moreover have "\<forall>v \<in> set ws. was_granted (reqs (fst (reap_lease owned fin b w))) v"
    using Cons.prems(2) was_granted_le[OF _ reap_lease_le] by simp
  ultimately show ?case using Cons.IH by simp
qed simp

text \<open>The addresses the sweep visits: still in the store, or gone with an empty lease list.\<close>

definition visitable :: "adm \<Rightarrow> nat \<Rightarrow> bool" where
  "visitable a s \<longleftrightarrow> (\<forall>w \<in> set (a_leases (objs a s)). was_granted (reqs a) w)"

lemma visitable_stored: "good a \<Longrightarrow> (t, s) \<in> set (store a) \<Longrightarrow> visitable a s"
  using adm_okD(2)[of a t s] by (force simp: good_def visitable_def was_granted_def view_ok_def view_def holds_def)

lemma put_view_visitable:
  "visitable a s' \<Longrightarrow> req_le (reqs a) (snd p) \<Longrightarrow> set (a_leases (fst p)) \<subseteq> {w. was_granted (snd p) w} \<Longrightarrow>
   visitable (put_view s p a) s'"
  unfolding visitable_def by (cases "s' = s") (auto intro: was_granted_le)

lemma release_lease_visitable:
  assumes g: "good a" and w: "was_granted (reqs a) w" and v: "visitable a s"
  shows "visitable (release_lease w a) s"
proof -
  obtain q where q: "reqs a w = Some q" "r_granted q \<or> r_released q" using w by (auto simp: was_granted_def)
  have ok: "adm_ok a" using g by (simp add: good_def)
  show ?thesis
  proof (cases "r_released q")
    case True
    then show ?thesis using v q by (simp add: release_lease_def)
  next
    case False
    with q have gr: "r_granted q" by simp
    note r = release_lease_eq[OF ok q(1) gr False]
    let ?p = "unleased_view w (view a (r_state q))"
    have l: "local_step (view a (r_state q)) ?p"
      using unleased_local_step[OF adm_okD(2)[OF ok r(1)]] r(2) by (simp add: view_def)
    then have p: "view_ok ?p" "view_ok (drain_view ?p)" by (auto simp: local_step_def drain_view_keeps_ok)
    have granted: "set (a_leases (fst x)) \<subseteq> {w. was_granted (snd x) w}" if "view_ok x" for x
      using that by (force simp: view_ok_def holds_def was_granted_def)
    have "visitable (drain (r_state q) (put_view (r_state q) ?p a)) s"
      unfolding drain_def put_view_twice put_view_simps
      using granted[OF p(2)] req_le_trans[OF grant_le(2), of w "reqs a"]
        drain_le[of "put_view (r_state q) ?p a" "r_state q"]
      by (intro put_view_visitable[OF v]) (simp_all add: drain_def unleased_view_def view_def)
    then show ?thesis unfolding r(3) by (simp add: visitable_def)
  qed
qed

lemma reap_lease_visitable:
  assumes "good (fst b)" "was_granted (reqs (fst b)) w" "visitable (fst b) s"
  shows "visitable (fst (reap_lease owned fin b w)) s"
  using assms release_lease_visitable[of "fst b" w s]
  by (auto simp: reap_lease_def split: prod.split option.split)

lemma reap_lease_loop_visitable:
  assumes "good (fst b)" "\<forall>w \<in> set ws. was_granted (reqs (fst b)) w" "visitable (fst b) s"
  shows "visitable (fst (foldl (reap_lease owned fin) b ws)) s"
  using assms
proof (induction ws arbitrary: b)
  case (Cons w ws)
  have "good (fst (reap_lease owned fin b w))" using Cons.prems reap_lease_good by simp
  moreover have "\<forall>v \<in> set ws. was_granted (reqs (fst (reap_lease owned fin b w))) v"
    using Cons.prems(2) was_granted_le[OF _ reap_lease_le] by simp
  moreover have "visitable (fst (reap_lease owned fin b w)) s"
    using Cons.prems reap_lease_visitable by simp
  ultimately show ?case using Cons.IH by simp
qed simp

lemma reap_targets_good:
  assumes "good (fst b)" "\<forall>e \<in> set es. visitable (fst b) (snd e)"
  shows "good (fst (foldl (reap_target owned fin) b es))"
  using assms
proof (induction es arbitrary: b)
  case (Cons e es)
  have ws: "\<forall>w \<in> set (a_leases (objs (fst b) (snd e))). was_granted (reqs (fst b)) w"
    using Cons.prems(2) by (simp add: visitable_def)
  have "good (fst (reap_target owned fin b e))"
    unfolding reap_target_def by (rule reap_lease_loop_good[OF Cons.prems(1) ws])
  moreover have "\<forall>e' \<in> set es. visitable (fst (reap_target owned fin b e)) (snd e')"
    unfolding reap_target_def
    using reap_lease_loop_visitable[OF Cons.prems(1) ws] Cons.prems(2) by simp
  ultimately show ?case using Cons.IH by simp
qed simp

lemma reap_leases_good: "good a \<Longrightarrow> good (fst (reap_leases owned fin evs a))"
  unfolding reap_leases_def by (rule reap_targets_good) (auto intro: visitable_stored)

end
