(* ===== verification/Admission_Properties.thy ===== *)
theory Admission_Properties imports Admission_System
begin

text \<open>
  The reachable states of the inference admission queue and the properties that hold in them:
  accounting, the concurrency bound, the inertness of stale leases, the safety of the owner sweep
  and the recovery of a throttled target.
\<close>

section \<open>Steps\<close>

definition adm_init :: adm where
  "adm_init = \<lparr>store = [], objs = (\<lambda>_. blank_state 1 [] []), next_obj = 0, reqs = (\<lambda>_. None), slow_since = []\<rparr>"

inductive adm_step :: "adm \<Rightarrow> adm \<Rightarrow> bool" where
  acquire: "reqs a w = None \<Longrightarrow> admission_config c model = Inr (t, lmt, key) \<Longrightarrow>
     acquire_slot_begin w t lmt key grp owner cancel cs now a = Inr (Some a') \<Longrightarrow> adm_step a a'"
| resume: "adm_step a (fst (acquire_slot_finish w interrupted cancel_done a))"
| release: "was_granted (reqs a) w \<Longrightarrow> adm_step a (release_slot (Lease w) a)"
| release_by_name: "adm_step a (release_slot (TargetName t) a)"
| owners: "adm_step a (fst (reap_leases owned fin evs a))"
| stale: "adm_step a (fst (reap_stale redeploying cs now reaped a))"
| stopped: "adm_step a (reap_container name did cs a)"
| reset: "adm_step a (reset_admission ts a)"
| nudge: "adm_step a (fst (nudge_target thr stall now wall act (a, evs) t))"

inductive adm_reachable :: "adm \<Rightarrow> bool" where
  init: "adm_reachable adm_init"
| step: "adm_reachable a \<Longrightarrow> adm_step a a' \<Longrightarrow> adm_reachable a'"

text \<open>\<open>int(...)\<close> never hands a limit below one to the queue.\<close>

lemma admission_config_limit: "admission_config c model = Inr (t, Some n, key) \<Longrightarrow> 1 \<le> n"
  by (auto simp: admission_config_def Let_def split: pyval.splits sum.splits pyexc.splits if_splits)

lemma adm_init_good: "good adm_init"
  by (simp add: good_def adm_ok_def adm_settled_def adm_init_def)

lemma adm_step_good: "adm_step a a' \<Longrightarrow> good a \<Longrightarrow> good a'"
proof (induction rule: adm_step.induct)
  case (acquire a w c model t lmt key grp owner cancel cs now a')
  then show ?case
    using acquire_slot_begin_ok[OF _ acquire(1) _ acquire(3)] admission_config_limit[of c model t _ key]
    by (auto simp: good_def)
next
  case (resume a w i c)
  then show ?case using acquire_slot_finish_ok by (simp add: good_def)
next
  case (release a w)
  then show ?case using release_lease_ok by (auto simp: good_def was_granted_def)
next
  case (release_by_name a t)
  then show ?case using release_name_ok by (simp add: good_def)
next
  case (owners a owned fin evs)
  then show ?case by (rule reap_leases_good)
next
  case (stale a rd cs now r)
  then show ?case using reap_stale_ok by (simp add: good_def)
next
  case (stopped a n d cs)
  then show ?case using reap_container_ok by (simp add: good_def)
next
  case (reset a ts)
  then show ?case using reset_admission_ok by (simp add: good_def)
next
  case (nudge a thr stall now wall act evs t)
  then show ?case by (rule nudge_target_good(1))
qed

lemma adm_reachable_good: "adm_reachable a \<Longrightarrow> good a"
  by (induction rule: adm_reachable.induct) (auto intro: adm_init_good adm_step_good)

lemma adm_step_le: "adm_step a a' \<Longrightarrow> req_le (reqs a) (reqs a')"
  by (induction rule: adm_step.induct)
    (auto intro: acquire_slot_begin_le acquire_slot_finish_le release_slot_le reap_leases_le
      reap_stale_le reap_container_le reset_admission_le nudge_target_le
      release_lease_le release_name_le)

inductive adm_run :: "adm \<Rightarrow> adm \<Rightarrow> bool" where
  stop: "adm_run a a"
| go: "adm_run a b \<Longrightarrow> adm_step b c \<Longrightarrow> adm_run a c"

lemma adm_run_le: "adm_run a b \<Longrightarrow> req_le (reqs a) (reqs b)"
  by (induction rule: adm_run.induct) (auto intro: req_le_trans adm_step_le)

section \<open>The slots of one target never exceed its limit\<close>

definition slot_bound :: "adm \<Rightarrow> adm \<Rightarrow> bool" where
  "slot_bound a a' \<longleftrightarrow> (\<forall>s. a_running (objs a' s) \<le> 0 \<or>
     a_running (objs a' s) \<le> a_running (objs a s) \<or> a_running (objs a' s) \<le> limit_of (objs a' s))"

definition calm :: "adm \<Rightarrow> adm \<Rightarrow> bool" where
  "calm a a' \<longleftrightarrow> slot_bound a a' \<and> (\<forall>s. limit_of (objs a' s) = limit_of (objs a s))"

lemma calm_refl [simp, intro]: "calm a a"
  by (simp add: calm_def slot_bound_def)

lemma calm_trans: "calm a b \<Longrightarrow> calm b c \<Longrightarrow> calm a c"
  unfolding calm_def slot_bound_def by (smt (verit, best))

lemma bound_calm: "slot_bound a b \<Longrightarrow> calm b c \<Longrightarrow> slot_bound a c"
  unfolding calm_def slot_bound_def by (smt (verit, best))

lemma calm_same_objs: "objs b = objs c \<Longrightarrow> calm a b = calm a c"
  by (simp add: calm_def slot_bound_def)

lemma drain_loop_bound: "drain_loop lmt ws n ls rq = (ws', n', ls', rq') \<Longrightarrow> n' \<le> n \<or> n' \<le> lmt"
  by (induction lmt ws n ls rq rule: drain_loop.induct) (auto split: if_splits)

lemma drain_calm: "calm a (drain s a)"
  by (auto simp: calm_def slot_bound_def drain_def drain_view_def view_def put_view_def
      split: prod.split dest!: drain_loop_bound)

lemma drain_eff: "a_eff (objs (drain s a) s') = a_eff (objs a s')"
  "a_limit (objs (drain s a) s') = a_limit (objs a s')"
  "a_next (objs (drain s a) s') = a_next (objs a s')"
  by (auto simp: drain_def drain_view_def view_def put_view_def split: prod.split)

lemma put_view_calm:
  "limit_of (fst p) = limit_of (objs a s) \<Longrightarrow> a_running (fst p) \<le> 0 \<or> a_running (fst p) \<le> a_running (objs a s) \<Longrightarrow>
   calm a (put_view s p a)"
  by (auto simp: calm_def slot_bound_def put_view_def)

lemma drop_idle_calm: "calm a (drop_idle t s b) = calm a b"
  by (rule calm_same_objs) simp

lemma give_back_calm: "calm a (give_back s a)"
  unfolding give_back_def by (rule calm_trans[OF put_view_calm drain_calm]) (simp_all, presburger)

lemma unlease_calm: "calm a (unlease w q a)"
  unfolding unlease_def by (rule put_view_calm) simp_all

lemma release_lease_calm: "calm a (release_lease w a)"
  by (auto simp: release_lease_def Let_def drop_idle_calm unlease_calm
      intro: calm_trans[OF unlease_calm give_back_calm] split: option.split)

lemma release_slot_calm: "calm a (release_slot g a)"
  by (cases g) (auto simp: release_lease_calm release_name_def drop_idle_calm give_back_calm
      split: option.split list.split)

lemma abandon_calm: "calm a (abandon w a)"
  by (auto simp: abandon_def release_lease_calm intro!: put_view_calm split: option.split)

lemma fail_target_calm: "calm a (fail_target t s a)"
proof -
  have "calm a (put_view s (fail_view t (view a s)) a)"
    by (rule put_view_calm) (simp_all add: fail_view_def view_def)
  moreover have "objs (fail_target t s a) = objs (put_view s (fail_view t (view a s)) a)"
    by (simp add: fail_target_def Let_def)
  ultimately show ?thesis using calm_same_objs by blast
qed

lemma foldl_calm:
  assumes "\<And>b x. calm (g b) (g (f b x))"
  shows "calm (g b) (g (foldl f b xs))"
  by (induction xs arbitrary: b) (auto intro: calm_trans[OF assms])

lemma set_dead_calm: "calm a (set_dead s d a)"
proof -
  have "set_dead s d a = put_view s ((objs a s)\<lparr>a_dead := d\<rparr>, reqs a) a"
    by (simp add: set_dead_def put_view_def)
  then show ?thesis by (simp add: put_view_calm)
qed

lemma reap_calm:
  "calm a (fst (reap_leases owned fin evs a))" "calm a (fst (reap_stale rd cs now r a))"
  "calm a (reap_container n d cs a)" "calm a (reset_admission ts a)"
proof -
  have l: "calm (fst b) (fst (reap_lease owned fin b w))" for b w
    by (auto simp: reap_lease_def release_lease_calm split: prod.split option.split)
  have t: "calm (fst b) (fst (reap_target owned fin b e))" for b e
    unfolding reap_target_def by (rule foldl_calm[where g = fst, OF l])
  show "calm a (fst (reap_leases owned fin evs a))"
    using foldl_calm[where g = fst and f = "reap_target owned fin", OF t, of "(a, evs)"]
    by (simp add: reap_leases_def)
  have o: "calm (fst b) (fst (reap_one cs now b x))" for b x
    using set_dead_calm calm_trans[OF set_dead_calm fail_target_calm]
    by (auto simp: reap_one_def Let_def split: prod.split option.split)
  show "calm a (fst (reap_stale rd cs now r a))"
    using foldl_calm[where g = fst and f = "reap_one cs now", OF o, of "(a, r)"]
    by (simp add: reap_stale_def)
  have c: "calm (id b) (id (reap_container_one n d cs b x))" for b x
    by (auto simp: reap_container_one_def Let_def fail_target_calm split: prod.split)
  show "calm a (reap_container n d cs a)"
    using foldl_calm[where g = id and f = "reap_container_one n d cs", OF c, of a]
    by (simp add: reap_container_def)
  have r: "calm (id b) (id (case store_get b t of None \<Rightarrow> b | Some s \<Rightarrow> fail_target t s b))" for b t
    by (auto simp: fail_target_calm split: option.split)
  show "calm a (reset_admission ts a)"
    using foldl_calm[where g = id, OF r, of a] by (simp add: reset_admission_def)
qed

lemma put_view_bound:
  "a_running (fst p) \<le> 0 \<or> a_running (fst p) \<le> a_running (objs a s) \<Longrightarrow> slot_bound a (put_view s p a)"
  by (auto simp: slot_bound_def put_view_def)

lemma slot_bound_refl [simp]: "slot_bound a a"
  by (simp add: slot_bound_def)

lemma recover_bound: "slot_bound a (recover stall now s a)"
  by (auto simp: recover_def Let_def restored_def split: option.split
      intro!: put_view_bound bound_calm[OF put_view_bound drain_calm])

text \<open>The nudger's edits of a state object leave its running count alone.\<close>

definition same_running :: "adm \<Rightarrow> adm \<Rightarrow> bool" where
  "same_running a b \<longleftrightarrow> (\<forall>s. a_running (objs b s) = a_running (objs a s))"

lemma same_running_bound: "same_running a b \<Longrightarrow> slot_bound b c \<Longrightarrow> slot_bound a c"
  by (simp add: same_running_def slot_bound_def)

lemma on_state_running:
  "(\<And>st. a_running (f st) = a_running st) \<Longrightarrow> same_running a b \<Longrightarrow> same_running a (on_state s f b)"
  by (auto simp: same_running_def on_state_def put_view_def)

lemma forget_running [simp]: "same_running a (forget_slow t b) = same_running a b"
  "same_running a (b\<lparr>slow_since := x\<rparr>) = same_running a b" "same_running a a"
  by (simp_all add: same_running_def forget_slow_def)

lemma nudge_fields_running [simp]:
  "a_running (clamp_eff st) = a_running st" "a_running (unwatch st) = a_running st"
  "a_running (watching r thr st) = a_running st" "a_running (nudging r thr stall now wall xs st) = a_running st"
  by (simp_all add: clamp_eff_def unwatch_def watching_def nudging_def Let_def split: option.split)

lemma same_running_self: "same_running a b \<Longrightarrow> slot_bound a b"
  by (simp add: same_running_def slot_bound_def)

lemma nudge_target_bound: "slot_bound a (fst (nudge_target thr stall now wall act (a, evs) t))"
  by (auto simp: nudge_target_def Let_def split: option.split
      intro!: same_running_self same_running_bound[OF _ recover_bound] on_state_running)

lemma acquire_slot_begin_bound:
  assumes "acquire_slot_begin w t lmt key grp owner cancel cs now a = Inr (Some a')"
    and n: "\<And>n. lmt = Some n \<Longrightarrow> 1 \<le> n"
  shows "slot_bound a a'"
proof -
  obtain m s a1 where m: "lmt = Some m" and o: "open_target t m key grp a = (s, a1)"
    and a': "a' = drain s (enqueue w t s owner cancel now a1)"
    using assms(1) by (auto simp: acquire_slot_begin_def split: option.splits if_splits prod.splits)
  have "slot_bound a a1" using o n[OF m]
    by (auto simp: open_target_def slot_bound_def blank_state_def limit_of_def split: option.splits)
  moreover have "calm a1 (enqueue w t s owner cancel now a1)"
    unfolding enqueue_def by (rule put_view_calm) simp_all
  ultimately show ?thesis unfolding a' using bound_calm drain_calm by blast
qed

lemma adm_step_bound: "adm_step a a' \<Longrightarrow> slot_bound a a'"
proof (induction rule: adm_step.induct)
  case (acquire a w c model t lmt key grp owner cancel cs now a')
  then show ?case using acquire_slot_begin_bound[OF acquire(3)] admission_config_limit[of c model t _ key]
    by auto
next
  case (resume a w i c)
  have "calm a (fst (acquire_slot_finish w i c a))"
    by (auto simp: acquire_slot_finish_def Let_def abandon_calm split: afut.split)
  then show ?case by (simp add: calm_def)
qed (use release_slot_calm reap_calm nudge_target_bound in \<open>simp_all only: calm_def\<close>)

section \<open>The owner sweep, lease by lease\<close>

lemma owner_is_dead_mono:
  "owner_is_dead fin evs owner c \<Longrightarrow> (\<And>e. evs e \<Longrightarrow> evs' e) \<Longrightarrow> owner_is_dead fin evs' owner c"
  by (auto simp: owner_is_dead_def split: option.splits)

text \<open>Requests other than \<open>w\<close> keep their owner, and are released only if they were.\<close>

definition keeps_others :: "nat set \<Rightarrow> areqs \<Rightarrow> areqs \<Rightarrow> bool" where
  "keeps_others W rq rq' \<longleftrightarrow> (\<forall>v q. v \<notin> W \<longrightarrow> rq v = Some q \<longrightarrow>
     (\<exists>q'. rq' v = Some q' \<and> r_released q' = r_released q \<and> r_owner q' = r_owner q \<and>
        r_cancel q' = r_cancel q))"

lemma keeps_others_refl [simp]: "keeps_others W rq rq"
  by (simp add: keeps_others_def)

lemma keeps_others_trans: "keeps_others W a b \<Longrightarrow> keeps_others W b c \<Longrightarrow> keeps_others W a c"
  unfolding keeps_others_def by metis

lemma keeps_others_mono: "keeps_others V a b \<Longrightarrow> V \<subseteq> W \<Longrightarrow> keeps_others W a b"
  unfolding keeps_others_def by blast

lemma drain_loop_keeps: "drain_loop lmt ws n ls rq = (ws', n', ls', rq') \<Longrightarrow> keeps_others W rq rq'"
proof (induction lmt ws n ls rq rule: drain_loop.induct)
  case (2 lmt w ws n ls rq)
  have g: "keeps_others W rq (grant w rq)" by (auto simp: keeps_others_def grant_def)
  show ?case
  proof (cases "n < lmt \<and> fut_of rq w = APending")
    case True
    then show ?thesis using 2 keeps_others_trans[OF g] by simp
  next
    case False
    then show ?thesis using 2 by (auto split: if_splits)
  qed
qed simp

lemma drain_keeps: "keeps_others W (reqs a) (reqs (drain s a))"
  by (auto simp: drain_def drain_view_def view_def split: prod.split dest: drain_loop_keeps)

lemma release_lease_keeps: "keeps_others {w} (reqs a) (reqs (release_lease w a))"
proof -
  have m: "keeps_others {w} (reqs a) (reqs (unlease w q a))" for q
    by (auto simp: unlease_def keeps_others_def mark_released_def)
  have g: "keeps_others {w} (reqs b) (reqs (give_back s b))" for s b
    using drain_keeps[of "{w}" "put_view s ((objs b s)\<lparr>a_running := max 0 (a_running (objs b s) - 1)\<rparr>, reqs b) b" s]
    by (simp add: give_back_def)
  show ?thesis
    by (auto simp: release_lease_def Let_def m keeps_others_trans[OF m g] split: option.split)
qed

lemma release_lease_marks: "reqs a w = Some q \<Longrightarrow> \<exists>q'. reqs (release_lease w a) w = Some q' \<and> r_released q'"
proof (cases "r_released q")
  case False
  assume q: "reqs a w = Some q"
  have "reqs (unlease w q a) w = Some (q\<lparr>r_released := True, r_owner := None\<rparr>)"
    using q by (simp add: unlease_def mark_released_def)
  moreover have "req_le (reqs (unlease w q a)) (reqs (release_lease w a))"
    using q False give_back_le by (simp add: release_lease_def Let_def)
  ultimately show ?thesis unfolding req_le_def by fastforce
qed (simp add: release_lease_def)

text \<open>The sweep state: the leases it releases are reapable and unowned, with the events seen so far.\<close>

definition sweep_safe :: "(nat \<Rightarrow> bool) \<Rightarrow> (nat \<Rightarrow> bool) \<Rightarrow> areqs \<Rightarrow> adm \<times> (nat \<Rightarrow> bool) \<Rightarrow> bool" where
  "sweep_safe owned fin rq b \<longleftrightarrow> (\<forall>v q. rq v = Some q \<longrightarrow> \<not> r_released q \<longrightarrow>
     (\<exists>q'. reqs (fst b) v = Some q' \<and>
        (if r_released q' then \<not> owned v \<and> reapable fin (snd b) q
         else r_owner q' = r_owner q \<and> r_cancel q' = r_cancel q)))"

lemma reapable_mono: "reapable fin evs q \<Longrightarrow> (\<And>e. evs e \<Longrightarrow> evs' e) \<Longrightarrow> reapable fin evs' q"
  using owner_is_dead_mono by (auto simp: reapable_def)

lemma reapable_cong: "r_owner q = r_owner q' \<Longrightarrow> r_cancel q = r_cancel q' \<Longrightarrow> reapable fin evs q = reapable fin evs q'"
  by (simp add: reapable_def)

lemma reap_lease_safe:
  assumes "sweep_safe owned fin rq b"
  shows "sweep_safe owned fin rq (reap_lease owned fin b w)"
proof -
  obtain a evs where b: "b = (a, evs)" by (cases b)
  show ?thesis
  proof (cases "\<exists>q0. \<not> owned w \<and> reqs a w = Some q0 \<and> reapable fin evs q0")
    case False
    then have "reap_lease owned fin b w = b" by (auto simp: reap_lease_def b split: option.split)
    then show ?thesis using assms by simp
  next
    case True
    then obtain q0 where q0: "\<not> owned w" "reqs a w = Some q0" "reapable fin evs q0" by blast
    let ?evs = "case r_cancel q0 of None \<Rightarrow> evs | Some c \<Rightarrow> evs(c := True)"
    have r: "reap_lease owned fin b w = (release_lease w a, ?evs)"
      using q0 by (simp add: reap_lease_def b)
    have up: "reapable fin ?evs q" if "reapable fin evs q" for q
      by (rule reapable_mono[OF that]) (auto split: option.split)
    show ?thesis
      unfolding sweep_safe_def r fst_conv snd_conv
    proof (intro allI impI)
      fix v q assume q: "rq v = Some q" "\<not> r_released q"
      obtain q1 where q1: "reqs a v = Some q1"
        "if r_released q1 then \<not> owned v \<and> reapable fin evs q
         else r_owner q1 = r_owner q \<and> r_cancel q1 = r_cancel q"
        using assms q unfolding sweep_safe_def b fst_conv snd_conv by blast
      show "\<exists>q'. reqs (release_lease w a) v = Some q' \<and>
          (if r_released q' then \<not> owned v \<and> reapable fin ?evs q
           else r_owner q' = r_owner q \<and> r_cancel q' = r_cancel q)"
      proof (cases "v = w")
        case True
        obtain q' where q': "reqs (release_lease w a) w = Some q'" "r_released q'"
          using release_lease_marks[OF q0(2)] by blast
        have "reapable fin evs q"
          using q1 q0(2,3) True reapable_cong[of q1 q fin evs] by (auto split: if_splits)
        then show ?thesis using q' True q0(1) up by auto
      next
        case False
        obtain q' where q': "reqs (release_lease w a) v = Some q'" "r_released q' = r_released q1"
          "r_owner q' = r_owner q1" "r_cancel q' = r_cancel q1"
          using release_lease_keeps[of w a] q1(1) False unfolding keeps_others_def by blast
        then show ?thesis
          using q1(2) up[of q] by (auto split: if_splits)
      qed
    qed
  qed
qed

lemma reap_leases_safe: "sweep_safe owned fin (reqs a) (reap_leases owned fin evs a)"
proof -
  have l: "sweep_safe owned fin (reqs a) (foldl (reap_lease owned fin) b ws)"
    if "sweep_safe owned fin (reqs a) b" for b ws
    using that
  proof (induction ws arbitrary: b)
    case (Cons w ws)
    show ?case using Cons.IH[OF reap_lease_safe[OF Cons.prems]] by simp
  qed simp
  have t: "sweep_safe owned fin (reqs a) (foldl (reap_target owned fin) b es)"
    if "sweep_safe owned fin (reqs a) b" for b es
    using that
  proof (induction es arbitrary: b)
    case (Cons e es)
    have "sweep_safe owned fin (reqs a) (reap_target owned fin b e)"
      unfolding reap_target_def by (rule l[OF Cons.prems])
    then show ?case using Cons.IH by simp
  qed simp
  have "sweep_safe owned fin (reqs a) (a, evs)" by (simp add: sweep_safe_def)
  then show ?thesis unfolding reap_leases_def by (rule t)
qed

section \<open>Recovery of a throttled target\<close>

text \<open>Ticks of the nudger without concurrent streams, one per interval.\<close>

fun quiet_ticks :: "rat \<Rightarrow> rat \<Rightarrow> rat \<Rightarrow> string \<Rightarrow> nat \<Rightarrow> adm \<Rightarrow> adm" where
  "quiet_ticks thr stall now t 0 a = a"
| "quiet_ticks thr stall now t (Suc n) a =
     quiet_ticks thr stall (now + stall) t n (fst (nudge_target thr stall now now [] (a, []) t))"

lemma quiet_target:
  assumes "store_get a t = Some s"
  shows "fst (nudge_target thr stall now wall [] (a, []) t)
    = recover stall now s (forget_slow t (on_state s unwatch (on_state s clamp_eff a)))"
  using assms by (simp add: nudge_target_def nudge_streams_def Let_def)

lemma unwatch_fields [simp]: "a_eff (unwatch st) = a_eff st" "a_limit (unwatch st) = a_limit st"
  "a_next (unwatch st) = a_next st" "a_limit (clamp_eff st) = a_limit st" "a_next (clamp_eff st) = a_next st"
  by (simp_all add: unwatch_def clamp_eff_def split: option.split)

lemma quiet_tick_fields:
  assumes g: "good a" and s: "store_get a t = Some s" and st: "0 < stall"
    and nx: "\<exists>x. a_next (objs a s) = Some x \<and> x \<le> now"
    and e: "a_eff (objs a s) = Some e"
    and b_def: "b = fst (nudge_target thr stall now now [] (a, []) t)"
  shows "a_limit (objs b s) = a_limit (objs a s)"
    "a_limit (objs a s) \<le> e + 1 \<Longrightarrow> a_eff (objs b s) = None"
    "e + 1 < a_limit (objs a s) \<Longrightarrow> a_eff (objs b s) = Some (e + 1) \<and> a_next (objs b s) = Some (now + stall)"
proof -
  have ts: "(t, s) \<in> set (store a)" using adm_ok_get s g by (simp add: good_def)
  note L = good_limits[OF g ts]
  have e1: "1 \<le> e" using L(2)[OF e] .
  obtain x where x: "a_next (objs a s) = Some x" "x \<le> now" using nx by blast
  let ?c = "forget_slow t (on_state s unwatch (on_state s clamp_eff a))"
  have conf: "conf_limit (objs ?c s) = a_limit (objs a s)" using L(1) by (simp add: conf_limit_def)
  have eff: "a_eff (objs ?c s) = Some (min (a_limit (objs a s)) e)"
    using e e1 L(1) by (simp add: clamp_eff_def conf_limit_def)
  have nxt: "a_next (objs ?c s) = Some x" using x by simp
  have b: "b = recover stall now s ?c" unfolding b_def by (rule quiet_target[OF s])
  show "a_limit (objs b s) = a_limit (objs a s)"
    unfolding b recover_def Let_def eff nxt conf by (auto simp: drain_eff restored_def)
  show "a_eff (objs b s) = None" if "a_limit (objs a s) \<le> e + 1"
    unfolding b recover_def Let_def eff nxt conf using that x
    by (auto simp: drain_eff restored_def)
  show "a_eff (objs b s) = Some (e + 1) \<and> a_next (objs b s) = Some (now + stall)"
    if "e + 1 < a_limit (objs a s)"
    unfolding b recover_def Let_def eff nxt conf using that x
    by (auto simp: drain_eff)
qed

lemma quiet_ticks_recover:
  assumes "good a" "store_get a t = Some s" "0 < stall"
    and "\<exists>x. a_next (objs a s) = Some x \<and> x \<le> now" and "a_eff (objs a s) = Some e" "e < a_limit (objs a s)"
    and "n = nat (a_limit (objs a s) - e)"
  shows "good (quiet_ticks thr stall now t n a) \<and> store_get (quiet_ticks thr stall now t n a) t = Some s \<and>
    a_eff (objs (quiet_ticks thr stall now t n a) s) = None \<and>
    a_limit (objs (quiet_ticks thr stall now t n a) s) = a_limit (objs a s)"
  using assms
proof (induction n arbitrary: a now e)
  case (Suc n)
  let ?b = "fst (nudge_target thr stall now now [] (a, []) t)"
  have g: "good ?b" by (rule nudge_target_good(1)[OF Suc.prems(1)])
  have s: "store_get ?b t = Some s"
    using nudge_target_good(2)[OF Suc.prems(1)] Suc.prems(2) by (simp add: store_get_def)
  note F = quiet_tick_fields[OF Suc.prems(1-5) refl, of thr]
  show ?case
  proof (cases "a_limit (objs a s) \<le> e + 1")
    case True
    then have "n = 0" using Suc.prems(6,7) by simp
    then show ?thesis using F(1) F(2)[OF True] g s by simp
  next
    case False
    then have less: "e + 1 < a_limit (objs a s)" by simp
    have n: "n = nat (a_limit (objs ?b s) - (e + 1))" using Suc.prems(6,7) F(1) by simp
    have "\<exists>x. a_next (objs ?b s) = Some x \<and> x \<le> now + stall"
      "a_eff (objs ?b s) = Some (e + 1)" "e + 1 < a_limit (objs ?b s)"
      using F(3)[OF less] F(1) less by auto
    from Suc.IH[OF g s Suc.prems(3) this n] show ?thesis using F(1) by simp
  qed
qed simp

section \<open>Properties\<close>

text \<open>The bookkeeping of one stored target in a consistent state.\<close>

lemma good_lease_set:
  assumes g: "good a" and ts: "(t, s) \<in> set (store a)"
  shows "set (a_leases (objs a s)) =
      {w. \<exists>q. reqs a w = Some q \<and> r_state q = s \<and> r_granted q \<and> \<not> r_released q}"
    and "set (a_waiters (objs a s)) = {w. \<exists>q. reqs a w = Some q \<and> r_state q = s \<and> r_fut q = APending}"
proof -
  have ok: "adm_ok a" using g by (simp add: good_def)
  note V = view_okD[OF adm_okD(2)[OF ok ts, unfolded view_def]]
  have own: "\<exists>q. reqs a w = Some q \<and> r_state q = s" if "w \<in> members (objs a s)" for w
    using adm_okD(3)[OF ok ts] that by (auto simp: owns_def)
  have rok: "req_ok a w q" if "reqs a w = Some q" for w q using adm_ok_req[OF ok that] .
  show "set (a_leases (objs a s)) =
      {w. \<exists>q. reqs a w = Some q \<and> r_state q = s \<and> r_granted q \<and> \<not> r_released q}"
    using V(8) own rok by (fastforce simp: holds_def members_def req_ok_def)
  show "set (a_waiters (objs a s)) = {w. \<exists>q. reqs a w = Some q \<and> r_state q = s \<and> r_fut q = APending}"
    using V(7) own rok by (fastforce simp: waits_def members_def req_ok_def)
qed

lemma fail_target_marks:
  assumes "w \<in> set (a_leases (objs a s))" "reqs a w = Some q"
  shows "\<exists>q'. reqs (fail_target t s a) w = Some q' \<and> r_released q'"
  using assms by (simp add: fail_target_reqs release_all_def fail_waiters_def)

lemma released_inert: "reqs b w = Some q \<Longrightarrow> r_released q \<Longrightarrow> release_slot (Lease w) b = b"
  by (simp add: release_lease_def)

lemma released_run: "reqs a w = Some q \<Longrightarrow> r_released q \<Longrightarrow> adm_run a b \<Longrightarrow> release_slot (Lease w) b = b"
  using adm_run_le[of a b] released_inert[of b w] unfolding req_le_def by blast

text \<open>A saturated target hands a returned slot to its oldest waiter.\<close>

lemma release_serves:
  assumes g: "good a" and ts: "(t, s) \<in> set (store a)" and w: "w \<in> set (a_leases (objs a s))"
    and ws: "a_waiters (objs a s) = v # vs" and full: "a_running (objs a s) = limit_of (objs a s)"
  shows "store_get (release_lease w a) t = Some s \<and> a_waiters (objs (release_lease w a) s) = vs \<and>
    v \<in> set (a_leases (objs (release_lease w a) s)) \<and> a_running (objs (release_lease w a) s) = a_running (objs a s)"
proof -
  have ok: "adm_ok a" using g by (simp add: good_def)
  have v: "view_ok (view a s)" using adm_okD(2)[OF ok ts] .
  obtain q where q: "reqs a w = Some q" "r_granted q" "\<not> r_released q"
    using v w by (auto simp: view_ok_def view_def holds_def)
  have "w \<in> members (objs a s)" using w by (simp add: members_def)
  then obtain q' where "reqs a w = Some q'" "r_target q' = t" "r_state q' = s"
    using adm_okD(3)[OF ok ts] unfolding owns_def by blast
  then have qt: "r_target q = t \<and> r_state q = s" using q(1) by simp
  let ?p = "unleased_view w (view a s)"
  have p: "view_ok ?p" using unleased_local_step[OF v] w by (simp add: local_step_def view_def)
  have l1: "1 \<le> limit_of (objs a s)" using good_limits(3)[OF g ts] .
  have run: "a_running (fst ?p) = limit_of (objs a s) - 1" "limit_of (fst ?p) = limit_of (objs a s)"
    using full l1 by (simp_all add: unleased_view_def view_def)
  have wq: "a_waiters (fst ?p) = v # vs" using ws by (simp add: unleased_view_def view_def)
  have k: "granted_count ?p = 1" using run wq l1 by (simp add: granted_count_def)
  have cap: "card (view_holders ?p) < view_capacity ?p"
  proof -
    have "card (view_holders ?p) = nat (a_running (fst ?p))"
      using p by (simp add: view_ok_def view_holders_def distinct_card)
    then show ?thesis using run l1 by (simp add: view_capacity_def)
  qed
  have served: "v \<in> set (a_leases (fst (drain_view ?p)))"
    using adm.settle_serves_head[OF p _ cap] wq by (simp add: view_queue_def view_holders_def)
  have rest: "a_waiters (fst (drain_view ?p)) = vs" "a_running (fst (drain_view ?p)) = limit_of (objs a s)"
    using drain_view_ok[OF p] k wq run by (simp_all add: Let_def)
  have "release_lease w a = drop_idle t s (drain s (put_view s ?p a))"
    using release_lease_eq(3)[OF ok q] qt by simp
  moreover have "drop_idle t s (drain s (put_view s ?p a)) = drain s (put_view s ?p a)"
    using rest l1 by (simp add: drop_idle_def drain_def)
  ultimately show ?thesis
    using served rest full adm_ok_get[OF ok] ts by (simp add: drain_def)
qed

text \<open>Two requests for a target of one slot: the first is granted, the second waits.\<close>

definition demo_container :: "int \<Rightarrow> (string \<times> pyval) list" where
  "demo_container n = [(''name'', PStr ''m''), (''load_settings'', PDict [(''max_concurrency'', PInt n)])]"

definition demo_acquire :: "int \<Rightarrow> nat \<Rightarrow> adm \<Rightarrow> adm" where
  "demo_acquire n w a = (case open_target ''m'' n ''m'' [] a of (s, a1) \<Rightarrow>
     drain s (enqueue w ''m'' s (Some w) None 0 a1))"

definition demo_adm :: adm where
  "demo_adm = demo_acquire 1 1 (demo_acquire 1 0 adm_init)"

lemmas demo_simps = demo_acquire_def adm_init_def open_target_def store_get_def
  enqueue_def drain_def drain_view_def view_def put_view_def blank_state_def limit_of_def
  fut_of_def grant_def add_lease_def

lemma demo_config: "1 \<le> n \<Longrightarrow> admission_config (demo_container n) ''m'' = Inr (''m'', Some n, ''m'')"
  by (simp add: admission_config_def demo_container_def dict_get_def py_or_def)

lemma demo_acquire_step: "reqs a w = None \<Longrightarrow> 1 \<le> n \<Longrightarrow> adm_step a (demo_acquire n w a)"
  by (rule adm_step.acquire[OF _ demo_config, of _ _ n "[]" "Some w" None False 0])
    (auto simp: acquire_slot_begin_def demo_acquire_def split: prod.split)

lemma demo_two_reachable: "1 \<le> n \<Longrightarrow> adm_reachable (demo_acquire n 1 (demo_acquire n 0 adm_init))"
proof -
  assume n: "1 \<le> n"
  have "adm_reachable (demo_acquire n 0 adm_init)"
    by (rule adm_reachable.step[OF adm_reachable.init demo_acquire_step]) (simp_all add: adm_init_def n)
  moreover have "reqs (demo_acquire n 0 adm_init) 1 = None" using n by (simp add: demo_simps)
  ultimately show ?thesis using demo_acquire_step n by (blast intro: adm_reachable.step)
qed

lemma demo_adm_eq:
  "store demo_adm = [(''m'', 0)]" "a_leases (objs demo_adm 0) = [0]" "a_waiters (objs demo_adm 0) = [1]"
  "a_running (objs demo_adm 0) = 1" "a_limit (objs demo_adm 0) = 1" "a_eff (objs demo_adm 0) = None"
  "reqs demo_adm 0 = Some \<lparr>r_target = ''m'', r_state = 0, r_fut = AGranted, r_granted = True,
     r_released = False, r_owner = Some 0, r_cancel = None, r_created = 0\<rparr>"
  by (simp_all add: demo_adm_def demo_simps)

lemma demo_adm_reachable: "adm_reachable demo_adm"
  unfolding demo_adm_def by (rule demo_two_reachable) simp

text \<open>C4: in every reachable state of the inference admission queue and for every target in the
  store, the running count is the number of granted leases of that state object that were not
  released, the queue holds exactly its pending requests, each once, and nobody waits while the
  running count is below the effective limit (no lost wakeup).\<close>

theorem admission_accounting:
  assumes "adm_reachable a" and "(t, s) \<in> set (store a)"
  shows "a_running (objs a s) =
      int (card {w. \<exists>q. reqs a w = Some q \<and> r_state q = s \<and> r_granted q \<and> \<not> r_released q}) \<and>
    set (a_waiters (objs a s)) = {w. \<exists>q. reqs a w = Some q \<and> r_state q = s \<and> r_fut q = APending} \<and>
    distinct (a_waiters (objs a s)) \<and>
    (a_waiters (objs a s) \<noteq> [] \<longrightarrow> limit_of (objs a s) \<le> a_running (objs a s))"
proof -
  have g: "good a" using adm_reachable_good[OF assms(1)] .
  have "view_ok (view a s)" using g adm_okD(2)[OF _ assms(2)] by (simp add: good_def)
  then show ?thesis
    using g assms(2) unfolding good_lease_set[OF g assms(2), symmetric] good_def adm_settled_def
    by (simp add: view_ok_def view_def distinct_card) (metis (no_types, lifting))
qed

theorem admission_accounting_witness:
  "adm_reachable demo_adm \<and> a_waiters (objs demo_adm 0) = [1] \<and>
   limit_of (objs demo_adm 0) \<le> a_running (objs demo_adm 0)"
  using admission_accounting[OF demo_adm_reachable, of "''m''" 0] demo_adm_reachable
  by (simp add: demo_adm_eq)

text \<open>C5: no step of the admission queue, whatever the interleaving, raises the running count of a
  target above its effective limit; after a limit was lowered the count only falls.\<close>

theorem admission_bound:
  assumes "adm_reachable a" and "adm_step a a'"
    and "(t, s) \<in> set (store a)" and "(t, s) \<in> set (store a')"
  shows "a_running (objs a' s) \<le> max (a_running (objs a s)) (limit_of (objs a' s))"
proof -
  have "good a'" using adm_step_good[OF assms(2) adm_reachable_good[OF assms(1)]] .
  then have "1 \<le> limit_of (objs a' s)" using good_limits(3) assms(4) by blast
  moreover have "a_running (objs a' s) \<le> 0 \<or> a_running (objs a' s) \<le> a_running (objs a s) \<or>
      a_running (objs a' s) \<le> limit_of (objs a' s)"
    using adm_step_bound[OF assms(2)] unfolding slot_bound_def by blast
  ultimately show ?thesis by auto
qed

theorem admission_bound_witness:
  "adm_step demo_adm (release_slot (Lease 0) demo_adm) \<and>
   a_running (objs (release_slot (Lease 0) demo_adm) 0) \<le> 1"
proof -
  have st: "adm_step demo_adm (release_slot (Lease 0) demo_adm)"
    by (rule adm_step.release) (simp add: was_granted_def demo_adm_eq)
  have r: "store (release_slot (Lease 0) demo_adm) = [(''m'', 0)] \<and>
      limit_of (objs (release_slot (Lease 0) demo_adm) 0) = 1"
    by (simp add: release_lease_def demo_adm_eq Let_def store_get_def unlease_def drop_idle_def
        give_back_def mark_released_def demo_adm_def demo_simps)
  show ?thesis
    using admission_bound[OF demo_adm_reachable st, of "''m''" 0] st r by (simp add: demo_adm_eq)
qed

text \<open>C6: once a lease was released, or its target was failed, the lease is inert: in every later
  state of the system releasing it again changes nothing, so it can never free a slot of a target
  that was created anew under the same name.\<close>

theorem stale_lease_inert:
  assumes "adm_reachable a" and "(t, s) \<in> set (store a)" and "w \<in> set (a_leases (objs a s))"
    and "adm_run (release_slot (Lease w) a) b \<or> adm_run (fail_target t s a) b"
  shows "release_slot (Lease w) b = b"
proof -
  have "view_ok (view a s)"
    using adm_reachable_good[OF assms(1)] adm_okD(2)[OF _ assms(2)] by (simp add: good_def)
  then obtain q where q: "reqs a w = Some q" using assms(3) by (auto simp: view_ok_def view_def holds_def)
  then have "\<exists>q'. reqs (release_slot (Lease w) a) w = Some q' \<and> r_released q'"
    "\<exists>q'. reqs (fail_target t s a) w = Some q' \<and> r_released q'"
    using release_lease_marks[OF q] fail_target_marks[OF assms(3) q] by simp_all
  then show ?thesis using assms(4) released_run by blast
qed

theorem stale_lease_inert_witness:
  "release_slot (Lease 0) (demo_acquire 5 2 (fail_target ''m'' 0 demo_adm)) =
   demo_acquire 5 2 (fail_target ''m'' 0 demo_adm)"
proof -
  have "reqs (fail_target ''m'' 0 demo_adm) 2 = None"
    by (simp add: fail_target_reqs release_all_def fail_waiters_def demo_adm_eq)
      (simp add: demo_adm_def demo_simps)
  then have "adm_run (fail_target ''m'' 0 demo_adm) (demo_acquire 5 2 (fail_target ''m'' 0 demo_adm))"
    by (intro adm_run.go[OF adm_run.stop demo_acquire_step]) simp_all
  then show ?thesis
    by (intro stale_lease_inert[OF demo_adm_reachable, of "''m''" 0]) (simp_all add: demo_adm_eq)
qed

text \<open>C7: a returned slot goes to the oldest waiter: when a target runs at its limit, releasing any of
  its leases grants the request at the head of the queue, keeps the others in order and keeps the
  running count.\<close>

theorem admission_serves_oldest:
  assumes "adm_reachable a" and "(t, s) \<in> set (store a)" and "w \<in> set (a_leases (objs a s))"
    and "a_waiters (objs a s) = v # vs" and "a_running (objs a s) = limit_of (objs a s)"
  shows "a_waiters (objs (release_slot (Lease w) a) s) = vs \<and>
    v \<in> set (a_leases (objs (release_slot (Lease w) a) s)) \<and>
    a_running (objs (release_slot (Lease w) a) s) = a_running (objs a s)"
  using release_serves[OF adm_reachable_good[OF assms(1)] assms(2-5)] by simp

theorem admission_serves_oldest_witness:
  "1 \<in> set (a_leases (objs (release_slot (Lease 0) demo_adm) 0))"
  using admission_serves_oldest[OF demo_adm_reachable, of "''m''" 0 0 1 "[]"]
  by (simp add: demo_adm_eq limit_of_def)

text \<open>The sweep for dead owners never takes a slot away from a running request: a lease whose
  owner task has not finished keeps its owner and stays unreleased, even when its client's cancel
  event is set.\<close>

theorem owner_sweep_safe:
  assumes "reqs a w = Some q" and "\<not> r_released q" and "r_owner q = Some task" and "\<not> fin task"
  shows "\<exists>q'. reqs (fst (reap_leases owned fin evs a)) w = Some q' \<and> \<not> r_released q' \<and> r_owner q' = Some task"
proof -
  have "\<not> reapable fin (snd (reap_leases owned fin evs a)) q"
    using assms(3,4) by (simp add: reapable_def)
  then show ?thesis
    using reap_leases_safe[of owned fin a evs] assms unfolding sweep_safe_def by (metis (full_types))
qed

theorem owner_sweep_safe_witness:
  "\<exists>q'. reqs (fst (reap_leases (\<lambda>_. False) (\<lambda>_. False) (\<lambda>_. True) demo_adm)) 0 = Some q' \<and> \<not> r_released q'"
proof -
  let ?q = "\<lparr>r_target = ''m'', r_state = 0, r_fut = AGranted, r_granted = True,
     r_released = False, r_owner = Some 0, r_cancel = None, r_created = 0\<rparr>"
  show ?thesis
    using owner_sweep_safe[of demo_adm 0 ?q 0 "\<lambda>_. False"] by (fastforce simp: demo_adm_eq)
qed

text \<open>C8: the nudger interrupts only requests that are safe to replay: every request whose nudge
  event it sets is an unpaused stream that has neither counted a token nor forwarded a chunk.\<close>

theorem nudger_interrupts_silent:
  assumes "wf_dict act" and "i \<in> set (snd (nudger_tick thr stall now wall act ts a))"
  shows "\<exists>r. map_of act i = Some r \<and> n_total r = 0 \<and> n_forwarded r = 0 \<and> \<not> n_paused r"
proof -
  have one: "set (snd (nudge_target thr stall now wall act b t)) \<subseteq>
      set (snd b) \<union> set (victims now (nudge_streams act t))" for b t
    by (auto simp: nudge_target_def Let_def split: prod.splits option.splits if_splits)
  have "i \<in> set (snd b) \<or> (\<exists>t. i \<in> set (victims now (nudge_streams act t)))"
    if "i \<in> set (snd (foldl (nudge_target thr stall now wall act) b ts))" for b
    using that
  proof (induction ts arbitrary: b)
    case (Cons t ts)
    then show ?case using one[of b t] by fastforce
  qed simp
  from this[of "(a, [])"] assms(2) obtain t where "i \<in> set (victims now (nudge_streams act t))"
    by (auto simp: nudger_tick_def)
  from victims_silent[OF assms(1) this] show ?thesis by (auto simp: nudgeable_def)
qed

definition demo_stream :: "int \<Rightarrow> rat \<Rightarrow> nrec" where
  "demo_stream n start = \<lparr>n_target = Some ''m'', n_streaming = True, n_paused = False, n_event = True,
     n_stamps = [], n_started = Some start, n_total = n, n_forwarded = n\<rparr>"

theorem nudger_interrupts_silent_witness:
  "snd (nudger_tick 5 3 100 0 [(0, demo_stream 0 10), (1, demo_stream 0 11)] [''m''] demo_adm) = [1] \<and>
   (\<exists>r. map_of [(0 :: nat, demo_stream 0 10), (1, demo_stream 0 11)] 1 = Some r \<and> n_total r = 0)"
proof -
  let ?act = "[(0 :: nat, demo_stream 0 10), (1, demo_stream 0 11)]"
  have e: "snd (nudger_tick 5 3 100 0 ?act [''m''] demo_adm) = [1]"
    by (simp add: nudger_tick_def nudge_target_def Let_def nudge_streams_def nudgeable_def
        demo_stream_def store_get_def demo_adm_eq token_rate_def newest_start_def started_or_def
        victims_def on_state_def clamp_eff_def forget_slow_def demo_adm_def demo_simps)
  then show ?thesis
    using nudger_interrupts_silent[of ?act 1 5 3 100 0 "[''m'']" demo_adm] by (simp add: wf_dict_def)
qed

text \<open>C9: a throttled target recovers: from effective limit \<open>e\<close> below the configured limit \<open>n\<close>,
  \<open>n - e\<close> quiet ticks of the nudger, one interval apart, remove the effective limit, and then
  either nobody waits or the configured limit is used up.\<close>

theorem nudger_recovers:
  assumes "adm_reachable a" and "store_get a t = Some s" and "0 < stall"
    and "a_next (objs a s) = Some x" and "x \<le> now"
    and "a_eff (objs a s) = Some e" and "e < a_limit (objs a s)"
    and "b = quiet_ticks thr stall now t (nat (a_limit (objs a s) - e)) a"
  shows "a_eff (objs b s) = None \<and> a_limit (objs b s) = a_limit (objs a s) \<and>
    (a_waiters (objs b s) = [] \<or> a_limit (objs a s) \<le> a_running (objs b s))"
proof -
  have g: "good a" using adm_reachable_good[OF assms(1)] .
  have Q: "good b \<and> store_get b t = Some s \<and> a_eff (objs b s) = None \<and> a_limit (objs b s) = a_limit (objs a s)"
    unfolding assms(8) using assms(4,5) by (intro quiet_ticks_recover[OF g assms(2,3) _ assms(6,7) refl]) blast
  then have ok: "adm_ok b" and st: "adm_settled b" by (simp_all add: good_def)
  have "(t, s) \<in> set (store b)" using Q adm_ok_get[OF ok] by blast
  then have "a_waiters (objs b s) = [] \<or> limit_of (objs b s) \<le> a_running (objs b s)"
    using st unfolding adm_settled_def by blast
  then show ?thesis using Q by (simp add: limit_of_def)
qed

text \<open>Two stalled streams at a target of two slots: the nudger throttles it to one.\<close>

definition demo_throttled :: adm where
  "demo_throttled = fst (nudge_target 5 3 100 0 [(0, demo_stream 0 10), (1, demo_stream 0 11)]
     (demo_acquire 2 1 (demo_acquire 2 0 adm_init), []) ''m'')"

lemma demo_throttled_eq: "store_get demo_throttled ''m'' = Some 0" "a_limit (objs demo_throttled 0) = 2"
  "a_eff (objs demo_throttled 0) = Some 1" "a_next (objs demo_throttled 0) = Some 103"
  by (simp_all add: demo_throttled_def nudge_target_def Let_def nudge_streams_def nudgeable_def
        demo_stream_def demo_simps token_rate_def newest_start_def started_or_def nudging_def
        victims_def on_state_def clamp_eff_def forget_slow_def)

theorem nudger_recovers_witness:
  "a_eff (objs demo_throttled 0) = Some 1 \<and> a_eff (objs (quiet_ticks 5 3 103 ''m'' 1 demo_throttled) 0) = None"
proof -
  have r: "adm_reachable demo_throttled"
    unfolding demo_throttled_def by (rule adm_reachable.step[OF demo_two_reachable adm_step.nudge]) simp
  show ?thesis
    using nudger_recovers[OF r demo_throttled_eq(1), of 3 103 103 1] demo_throttled_eq by simp
qed

end
