(* ===== verification/Load_Counter.thy ===== *)
theory Load_Counter imports SD_Prelude
begin

text \<open>
  The contract of the program's load counters (requests in flight per cluster member, per policy
  replica): a table from keys to counts with an increment, and a decrement that stops at zero.  The
  locale derives what the routing code relies on: after any history in which releases follow their
  acquisitions, the table holds exactly the number of outstanding acquisitions.

  \<open>least_loaded\<close> is the other shared part: the entries of a list with the least load.
\<close>

datatype 'k load_op = Up 'k | Down 'k

fun outstanding :: "'k load_op list \<Rightarrow> 'k \<Rightarrow> nat option" where
  "outstanding [] k = Some 0"
| "outstanding (Up j # ops) k = map_option (\<lambda>n. if j = k then Suc n else n) (outstanding ops k)"
| "outstanding (Down j # ops) k = (case outstanding ops k of None \<Rightarrow> None
     | Some n \<Rightarrow> if j = k then (if n = 0 then None else Some (n - 1)) else Some n)"

locale load_counter =
  fixes count :: "'t \<Rightarrow> 'k \<Rightarrow> int"
    and empty :: 't
    and up :: "'k \<Rightarrow> 't \<Rightarrow> 't"
    and down :: "'k \<Rightarrow> 't \<Rightarrow> 't"
  assumes count_empty: "count empty k = 0"
    and count_up: "count (up j t) k = (if j = k then count t k + 1 else count t k)"
    and count_down: "count (down j t) k = (if j = k then max 0 (count t k - 1) else count t k)"
begin

fun apply_op :: "'k load_op \<Rightarrow> 't \<Rightarrow> 't" where
  "apply_op (Up k) t = up k t"
| "apply_op (Down k) t = down k t"

text \<open>The newest operation is at the head of the history.\<close>

definition after :: "'k load_op list \<Rightarrow> 't" where
  "after ops = foldr apply_op ops empty"

lemma after_simps [simp]: "after [] = empty" "after (o1 # ops) = apply_op o1 (after ops)"
  by (simp_all add: after_def)

lemma count_nonneg: "0 \<le> count (after ops) k"
proof (induction ops)
  case (Cons o1 ops)
  then show ?case by (cases o1) (simp_all add: count_up count_down)
qed (simp add: count_empty)

lemma count_outstanding: "outstanding ops k = Some n \<Longrightarrow> count (after ops) k = int n"
proof (induction ops arbitrary: n)
  case (Cons o1 ops)
  then show ?case
    by (cases o1) (auto simp: count_up count_down split: option.splits if_splits)
qed (simp add: count_empty)

lemma down_up: "0 \<le> count t k \<Longrightarrow> count (down k (up k t)) j = count t j"
  by (auto simp: count_up count_down)

end

definition least_loaded :: "('a \<Rightarrow> int) \<Rightarrow> 'a list \<Rightarrow> 'a list" where
  "least_loaded f xs = filter (\<lambda>x. f x = Min (f ` set xs)) xs"

lemma least_loaded_nonempty: "xs \<noteq> [] \<Longrightarrow> least_loaded f xs \<noteq> []"
proof -
  assume "xs \<noteq> []"
  then have "Min (f ` set xs) \<in> f ` set xs" by (intro Min_in) auto
  then show ?thesis by (auto simp: least_loaded_def filter_empty_conv)
qed

lemma least_loaded_min: "x \<in> set (least_loaded f xs) \<Longrightarrow> y \<in> set xs \<Longrightarrow> f x \<le> f y"
  by (auto simp: least_loaded_def)

lemma least_loaded_subset: "set (least_loaded f xs) \<subseteq> set xs"
  by (auto simp: least_loaded_def)

text \<open>Giving the next unit to a least loaded key keeps the loads within one of each other.\<close>

lemma spread_step:
  assumes "\<forall>x \<in> S. \<forall>y \<in> S. (f :: 'a \<Rightarrow> int) x \<le> f y + 1" "m \<in> S" "\<forall>x \<in> S. f m \<le> f x"
  shows "\<forall>x \<in> S. \<forall>y \<in> S. (f(m := f m + 1)) x \<le> (f(m := f m + 1)) y + 1"
proof (intro ballI)
  fix x y assume xy: "x \<in> S" "y \<in> S"
  have "f x \<le> f y + 1" "f m \<le> f y" using assms xy by blast+
  then show "(f(m := f m + 1)) x \<le> (f(m := f m + 1)) y + 1" by auto
qed

end
