(* ===== verification/Prefix_Affinity.thy ===== *)
theory Prefix_Affinity imports Py_Values
begin

text \<open>
  \<open>sparkdeck/prefix_affinity.py\<close>: a bounded table of routing hints.  A key of the table is a scope
  and the digest of a served conversation prefix; its value is the member that served it and the
  time it was last used.  The table is an \<open>OrderedDict\<close>, oldest use first.

  \<open>dumps\<close> stands for \<open>json.dumps(..., sort_keys=True, ...).encode()\<close>, \<open>None\<close> when it raises, and
  \<open>sha\<close> for the hex digest of SHA-256; both are library code outside the repository.
\<close>

type_synonym hint_key = "string \<times> string"
type_synonym hints = "(hint_key, string \<times> rat) dict"

section \<open>Keys of a request\<close>

definition context_fields :: "string list" where
  "context_fields = [''tools'', ''tool_choice'', ''functions'', ''function_call'', ''chat_template'',
     ''chat_template_kwargs'', ''add_generation_prompt'', ''continue_final_message'', ''documents'',
     ''cache_salt'', ''response_format'']"

text \<open>\<open>{key: body[key] for key in (...) if key in body}\<close>\<close>

definition context_of :: "(string \<times> pyval) list \<Rightarrow> (string \<times> pyval) list" where
  "context_of body = concat (map (\<lambda>k. case map_of body k of None \<Rightarrow> [] | Some v \<Rightarrow> [(k, v)]) context_fields)"

fun role_of :: "pyval \<Rightarrow> pyval" where
  "role_of (PDict m) = dict_get m ''role''"
| "role_of _ = PNone"

text \<open>\<open>x in {...}\<close> raises \<open>TypeError\<close> for a list or a dictionary.\<close>

fun unhashable :: "pyval \<Rightarrow> bool" where
  "unhashable (PList xs) = True"
| "unhashable (PDict d) = True"
| "unhashable _ = False"

text \<open>\<open>len(encoded).to_bytes(8, "big")\<close>\<close>

definition be_bytes :: "nat \<Rightarrow> nat list" where
  "be_bytes n = map (\<lambda>i. n div 256 ^ i mod 256) (rev [0 ..< 8])"

definition max_prompt_bytes :: nat where
  "max_prompt_bytes = 2 * 1024 * 1024"

text \<open>The loop over the messages: \<open>hashed\<close> is what the digest has consumed, \<open>size\<close> the bytes so far.
  \<open>None\<close> is a raised exception or an oversized prompt, both of which end in the empty list.\<close>

fun key_loop :: "(pyval \<Rightarrow> nat list option) \<Rightarrow> (nat list \<Rightarrow> string) \<Rightarrow> bool \<Rightarrow> pyval list \<Rightarrow> nat list \<Rightarrow> nat \<Rightarrow>
    bool \<Rightarrow> (string \<times> nat) list option" where
  "key_loop dumps sha following [] hashed sz conv = Some []"
| "key_loop dumps sha following (m # ms) hashed sz conv =
     (case dumps m of None \<Rightarrow> None
      | Some enc \<Rightarrow>
          let sz' = sz + length enc in
          if sz' > max_prompt_bytes \<or> unhashable (role_of m) then None
          else let hashed' = hashed @ be_bytes (length enc) @ enc;
                   conv' = (conv \<or> role_of m \<in> {PStr ''user'', PStr ''tool'', PStr ''function''}) in
            map_option (\<lambda>ks. (sha hashed', if following \<and> conv' then sz' else 0) # ks)
              (key_loop dumps sha following ms hashed' sz' conv'))"

definition affinity_keys :: "(pyval \<Rightarrow> nat list option) \<Rightarrow> (nat list \<Rightarrow> string) \<Rightarrow>
    (string \<times> pyval) list \<Rightarrow> string \<Rightarrow> (string \<times> nat) list" where
  "affinity_keys dumps sha body endpoint =
     (if endpoint \<noteq> ''chat/completions'' then []
      else case dict_get body ''messages'' of
        PList ms \<Rightarrow>
          if ms = [] \<or> length ms > 512 \<or> (\<exists>m \<in> set ms. \<not> is_dict m) then []
          else (case dumps (PDict (context_of body)) of None \<Rightarrow> []
            | Some enc \<Rightarrow>
                (case key_loop dumps sha (\<exists>m \<in> set ms. role_of m = PStr ''assistant'') ms enc
                        (length enc) False of
                   None \<Rightarrow> []
                 | Some ks \<Rightarrow>
                     if role_of (last ms) \<in> {PStr ''system'', PStr ''developer''} then [] else ks))
      | _ \<Rightarrow> [])"

section \<open>The table\<close>

definition expire :: "rat \<Rightarrow> rat \<Rightarrow> hints \<Rightarrow> hints" where
  "expire ttl now es = filter (\<lambda>(k, (_, touched)). \<not> (now - touched \<ge> ttl)) es"

text \<open>\<open>sorted(keys, key=strength, reverse=True)\<close> keeps equal strengths in their order.\<close>

definition by_strength :: "(string \<times> nat) list \<Rightarrow> (string \<times> nat) list" where
  "by_strength ks = sort_key (\<lambda>(d, n). - int n) ks"

fun lookup_loop :: "rat \<Rightarrow> string \<Rightarrow> string set \<Rightarrow> (string \<times> nat) list \<Rightarrow> hints \<Rightarrow> string option \<times> hints" where
  "lookup_loop now scope allowed [] es = (None, es)"
| "lookup_loop now scope allowed ((d, n) # ks) es =
     (if n = 0 then lookup_loop now scope allowed ks es
      else case map_of es (scope, d) of
        Some (tgt, touched) \<Rightarrow>
          if tgt \<in> allowed then (Some tgt, put_last (scope, d) (tgt, now) es)
          else lookup_loop now scope allowed ks es
      | None \<Rightarrow> lookup_loop now scope allowed ks es)"

definition affinity_lookup :: "rat \<Rightarrow> rat \<Rightarrow> string \<Rightarrow> (string \<times> nat) list \<Rightarrow> string list \<Rightarrow> hints \<Rightarrow>
    string option \<times> hints" where
  "affinity_lookup ttl now scope ks cands es =
     lookup_loop now scope (set cands) (by_strength ks) (expire ttl now es)"

text \<open>\<open>while len(entries) > capacity: entries.popitem(last=False)\<close>\<close>

definition trim :: "nat \<Rightarrow> 'a list \<Rightarrow> 'a list" where
  "trim capacity es = drop (length es - capacity) es"

definition affinity_remember :: "rat \<Rightarrow> nat \<Rightarrow> rat \<Rightarrow> string \<Rightarrow> (string \<times> nat) list \<Rightarrow> string \<Rightarrow> hints \<Rightarrow> hints" where
  "affinity_remember ttl capacity now scope ks tgt es =
     (if ks = [] then es
      else trim capacity (put_last (scope, fst (last ks)) (tgt, now) (expire ttl now es)))"

section \<open>Lemmas\<close>

lemma wf_expire [simp, intro]: "wf_dict es \<Longrightarrow> wf_dict (expire ttl now es)"
  by (simp add: expire_def)

lemma map_of_expire:
  assumes "wf_dict es"
  shows "map_of (expire ttl now es) k = Some (t, x) \<longleftrightarrow> map_of es k = Some (t, x) \<and> now - x < ttl"
  using assms unfolding expire_def
  by (subst map_of_wf_iff) (auto simp: map_of_wf_iff)

lemma length_expire: "length (expire ttl now es) \<le> length es"
  by (simp add: expire_def)

lemma length_trim: "length (trim n es) \<le> n"
  by (simp add: trim_def)

lemma wf_trim [simp, intro]: "wf_dict es \<Longrightarrow> wf_dict (trim n es)"
  by (simp add: trim_def wf_dict_drop)

lemma lookup_loop_wf: "wf_dict es \<Longrightarrow> wf_dict (snd (lookup_loop now scope al ks es))"
  by (induction now scope al ks es rule: lookup_loop.induct) (auto split: option.splits)

lemma lookup_loop_length:
  "length (snd (lookup_loop now scope al ks es)) \<le> length es"
proof (induction now scope al ks es rule: lookup_loop.induct)
  case (2 now scope al d n ks es)
  have "length (put_last (scope, d) v es) \<le> length es" if "map_of es (scope, d) \<noteq> None" for v
  proof -
    have "(scope, d) \<in> fst ` set es" using that by (simp add: map_of_eq_None_iff)
    then obtain x where "x \<in> set es" "fst x = (scope, d)" by auto
    then have "length (filter (\<lambda>(k', _). (scope, d) \<noteq> k') es) < length es"
      by (intro length_filter_less[of x]) auto
    then show ?thesis by (simp add: put_last_def AList.delete_eq)
  qed
  then show ?case using 2 by (auto split: option.splits)
qed simp

lemma lookup_loop_Some:
  "lookup_loop now scope al ks es = (Some t, es') \<Longrightarrow>
   \<exists>pre d n post x. ks = pre @ (d, n) # post \<and> 0 < n \<and> map_of es (scope, d) = Some (t, x) \<and> t \<in> al \<and>
     es' = put_last (scope, d) (t, now) es \<and>
     (\<forall>(d', n') \<in> set pre. n' = 0 \<or> (\<forall>u y. map_of es (scope, d') = Some (u, y) \<longrightarrow> u \<notin> al))"
proof (induction now scope al ks es rule: lookup_loop.induct)
  case (2 now scope al d n ks es)
  show ?case
  proof (cases "n \<noteq> 0 \<and> (\<exists>u y. map_of es (scope, d) = Some (u, y) \<and> u \<in> al)")
    case True
    then show ?thesis using 2(4)
      by (intro exI[of _ "[]"] exI[of _ d] exI[of _ n] exI[of _ ks]) auto
  next
    case False
    then have skip: "lookup_loop now scope al ks es = (Some t, es')"
      using 2(4) by (auto split: if_splits option.splits)
    have "\<exists>pre d' n' post x. ks = pre @ (d', n') # post \<and> 0 < n' \<and> map_of es (scope, d') = Some (t, x) \<and>
        t \<in> al \<and> es' = put_last (scope, d') (t, now) es \<and>
        (\<forall>(d', n') \<in> set pre. n' = 0 \<or> (\<forall>u y. map_of es (scope, d') = Some (u, y) \<longrightarrow> u \<notin> al))"
    proof (cases "n = 0")
      case True
      then show ?thesis using 2(1) skip by blast
    next
      case n: False
      show ?thesis
      proof (cases "map_of es (scope, d)")
        case None
        then show ?thesis using 2(2)[OF n None] skip by blast
      next
        case (Some v)
        then show ?thesis using 2(3)[OF n Some, of "fst v" "snd v"] False n skip Some by (cases v) auto
      qed
    qed
    then obtain pre d' n' post x where r: "ks = pre @ (d', n') # post" "0 < n'"
      "map_of es (scope, d') = Some (t, x)" "t \<in> al" "es' = put_last (scope, d') (t, now) es"
      "\<forall>(d', n') \<in> set pre. n' = 0 \<or> (\<forall>u y. map_of es (scope, d') = Some (u, y) \<longrightarrow> u \<notin> al)"
      by blast
    show ?thesis
      by (rule exI[of _ "(d, n) # pre"], rule exI[of _ d'], rule exI[of _ n'], rule exI[of _ post],
          rule exI[of _ x]) (use r False in auto)
  qed
qed simp

lemma by_strength_sorted: "sorted_wrt (\<lambda>a b. snd b \<le> snd a) (by_strength ks)"
proof -
  have "sorted (map (\<lambda>(d, n). - int n) (by_strength ks))"
    unfolding by_strength_def by (rule sorted_sort_key)
  then show ?thesis
    unfolding sorted_map by (rule sorted_wrt_mono_rel[rotated]) auto
qed

text \<open>A hint never leaves its scope.\<close>

lemma lookup_sound:
  assumes wf: "wf_dict es" and l: "affinity_lookup ttl now scope ks cands es = (Some t, es')"
  shows "t \<in> set cands \<and> (\<exists>d n x. (d, n) \<in> set ks \<and> 0 < n \<and> map_of es (scope, d) = Some (t, x) \<and> now - x < ttl \<and>
    (\<forall>d' n' u y. (d', n') \<in> set ks \<longrightarrow> n < n' \<longrightarrow> map_of es (scope, d') = Some (u, y) \<longrightarrow>
       now - y < ttl \<longrightarrow> u \<notin> set cands))"
proof -
  let ?es = "expire ttl now es"
  obtain pre d n post x where r: "by_strength ks = pre @ (d, n) # post" "0 < n"
    "map_of ?es (scope, d) = Some (t, x)" "t \<in> set cands"
    "\<forall>(d', n') \<in> set pre. n' = 0 \<or> (\<forall>u y. map_of ?es (scope, d') = Some (u, y) \<longrightarrow> u \<notin> set cands)"
    using lookup_loop_Some[OF l[unfolded affinity_lookup_def]] by blast
  have mem: "set (by_strength ks) = set ks" by (simp add: by_strength_def)
  have strong: "(d', n') \<in> set pre" if "(d', n') \<in> set ks" "n < n'" for d' n'
  proof -
    have "(d', n') \<in> set pre \<or> (d', n') = (d, n) \<or> (d', n') \<in> set post" using that(1) mem r(1) by auto
    moreover have "(d', n') \<in> set post \<Longrightarrow> n' \<le> n"
      using by_strength_sorted[of ks] unfolding r(1) by (auto simp: sorted_wrt_append)
    ultimately show ?thesis using that(2) by auto
  qed
  have "u \<notin> set cands" if "(d', n') \<in> set ks" "n < n'" "map_of es (scope, d') = Some (u, y)" "now - y < ttl"
    for d' n' u y
    using strong[OF that(1,2)] r(5) that map_of_expire[OF wf, of ttl now "(scope, d')" u y] by fastforce
  moreover have "(d, n) \<in> set ks" using mem r(1) by auto
  ultimately show ?thesis
    using r(2,3,4) map_of_expire[OF wf, of ttl now "(scope, d)" t x] by blast
qed

text \<open>What \<open>remember\<close> stored is found again while it is fresh.\<close>

lemma remember_found:
  assumes "wf_dict es" "ks \<noteq> []" "0 < capacity"
  shows "map_of (affinity_remember ttl capacity now scope ks tgt es) (scope, fst (last ks)) = Some (tgt, now)"
proof -
  let ?l = "put_last (scope, fst (last ks)) (tgt, now) (expire ttl now es)"
  have wf: "wf_dict (trim capacity ?l)" using assms(1) by auto
  have "last ?l = ((scope, fst (last ks)), (tgt, now))" "?l \<noteq> []" by (simp_all add: put_last_def)
  then have "((scope, fst (last ks)), (tgt, now)) \<in> set (trim capacity ?l)"
    using assms(3) last_drop[of "length ?l - capacity" ?l]
    unfolding trim_def by (metis diff_less drop_eq_Nil last_in_set leD length_greater_0_conv)
  then show ?thesis using wf assms(2) by (simp add: affinity_remember_def map_of_wf_iff)
qed

text \<open>The digests of a conversation are a prefix of the digests of its continuation.\<close>

lemma key_loop_append:
  assumes "key_loop dumps sha f1 (xs @ ys) h n c = Some ks"
  shows "\<exists>ks1. key_loop dumps sha f2 xs h n c = Some ks1 \<and> map fst ks1 = map fst (take (length xs) ks)"
  using assms
proof (induction xs arbitrary: h n c ks)
  case (Cons m xs)
  then obtain enc where enc: "dumps m = Some enc" "\<not> (n + length enc > max_prompt_bytes \<or> unhashable (role_of m))"
    by (auto simp: Let_def split: option.splits if_splits)
  let ?h = "h @ be_bytes (length enc) @ enc" and ?n = "n + length enc"
  let ?c = "c \<or> role_of m \<in> {PStr ''user'', PStr ''tool'', PStr ''function''}"
  obtain ks' where ks': "key_loop dumps sha f1 (xs @ ys) ?h ?n ?c = Some ks'"
    "ks = (sha ?h, if f1 \<and> ?c then ?n else 0) # ks'"
    using Cons.prems enc by (auto simp: Let_def)
  from Cons.IH[OF ks'(1)] obtain ks1 where "key_loop dumps sha f2 xs ?h ?n ?c = Some ks1"
    "map fst ks1 = map fst (take (length xs) ks')" by blast
  then show ?case using enc ks'(2) by (simp add: Let_def)
qed simp

section \<open>Properties\<close>

text \<open>The table as its users drive it: lookups and remembers in any order, at any time.\<close>

datatype hint_op = Lookup rat string "(string \<times> nat) list" "string list"
  | Remember rat string "(string \<times> nat) list" string

fun hint_step :: "rat \<Rightarrow> nat \<Rightarrow> hints \<Rightarrow> hint_op \<Rightarrow> hints" where
  "hint_step ttl capacity es (Lookup now scope ks cands) = snd (affinity_lookup ttl now scope ks cands es)"
| "hint_step ttl capacity es (Remember now scope ks tgt) = affinity_remember ttl capacity now scope ks tgt es"

lemma hint_step_inv:
  "wf_dict es \<Longrightarrow> length es \<le> capacity \<Longrightarrow>
   wf_dict (hint_step ttl capacity es op) \<and> length (hint_step ttl capacity es op) \<le> capacity"
  using order_trans[OF lookup_loop_length order_trans[OF length_expire]] length_trim
  by (cases op) (auto simp: affinity_lookup_def affinity_remember_def lookup_loop_wf)

text \<open>The table of routing hints never holds more than its capacity, and never two entries for
  one key, whatever lookups and remembers are performed.\<close>

theorem affinity_bounded:
  "wf_dict (foldl (hint_step ttl capacity) [] ops) \<and> length (foldl (hint_step ttl capacity) [] ops) \<le> capacity"
proof -
  have "wf_dict (foldl (hint_step ttl capacity) es ops) \<and> length (foldl (hint_step ttl capacity) es ops) \<le> capacity"
    if "wf_dict es \<and> length es \<le> capacity" for es
    using that hint_step_inv by (induction ops arbitrary: es) auto
  from this[of "[]"] show ?thesis by simp
qed

text \<open>A routing hint is trustworthy: it names an allowed candidate, comes from a fresh entry of the
  same scope for a prefix of the request with positive strength, and no stronger prefix of the
  request had a fresh entry for an allowed candidate.\<close>

theorem affinity_lookup_sound:
  assumes "wf_dict es" and "affinity_lookup ttl now scope ks cands es = (Some t, es')"
  shows "t \<in> set cands \<and> (\<exists>d n x. (d, n) \<in> set ks \<and> 0 < n \<and> map_of es (scope, d) = Some (t, x) \<and> now - x < ttl \<and>
    (\<forall>d' n' u y. (d', n') \<in> set ks \<longrightarrow> n < n' \<longrightarrow> map_of es (scope, d') = Some (u, y) \<longrightarrow>
       now - y < ttl \<longrightarrow> u \<notin> set cands))"
  using assms by (rule lookup_sound)

definition demo_hints :: hints where
  "demo_hints = affinity_remember 1800 4096 10 ''s'' [(''a'', 0), (''b'', 7)] ''m1'' []"

theorem affinity_lookup_sound_witness:
  "fst (affinity_lookup 1800 20 ''s'' [(''a'', 0), (''b'', 7)] [''m1'', ''m2''] demo_hints) = Some ''m1'' \<and>
   ''m1'' \<in> set [''m1'', ''m2'']"
proof -
  let ?ks = "[(''a'', 0 :: nat), (''b'', 7)]"
  obtain es' where l: "affinity_lookup 1800 20 ''s'' ?ks [''m1'', ''m2''] demo_hints = (Some ''m1'', es')"
    by (simp add: affinity_lookup_def by_strength_def demo_hints_def affinity_remember_def
        expire_def put_last_def trim_def)
  have "wf_dict demo_hints" by (simp add: demo_hints_def affinity_remember_def expire_def put_last_def trim_def wf_dict_def)
  from affinity_lookup_sound[OF this l] show ?thesis using l by simp
qed

text \<open>a conversation that was served is recognised when it continues: the digest remembered for
  the messages \<open>xs\<close> is among the keys computed later for \<open>xs @ ys\<close> in the same context.\<close>

theorem affinity_continuation:
  assumes "key_loop dumps sha f (xs @ ys) h n c = Some ks" and "xs \<noteq> []"
  shows "\<exists>ks1. key_loop dumps sha f2 xs h n c = Some ks1 \<and> fst (last ks1) \<in> fst ` set ks"
proof -
  obtain ks1 where k: "key_loop dumps sha f2 xs h n c = Some ks1" "map fst ks1 = map fst (take (length xs) ks)"
    using key_loop_append[OF assms(1)] by blast
  have "ks1 \<noteq> []" using k(1) assms(2) by (cases xs) (auto simp: Let_def split: option.splits if_splits)
  then have "fst (last ks1) \<in> set (map fst ks1)" by simp
  then show ?thesis using k by (metis (no_types) image_eqI in_set_takeD k(2) list.set_map take_map)
qed

theorem affinity_continuation_witness:
  "\<exists>ks1. key_loop (\<lambda>_. Some [1]) (\<lambda>_. ''h'') True [PDict [(''role'', PStr ''user'')]] [] 0 False = Some ks1 \<and>
     fst (last ks1) = ''h''"
proof -
  let ?d = "\<lambda>_ :: pyval. Some [1 :: nat]" and ?s = "\<lambda>_ :: nat list. ''h''"
  let ?u = "PDict [(''role'', PStr ''user'')]" and ?a = "PDict [(''role'', PStr ''assistant'')]"
  have k: "key_loop ?d ?s True ([?u] @ [?a]) [] 0 False = Some [(''h'', 1), (''h'', 2)]"
    by (simp add: max_prompt_bytes_def dict_get_def)
  from affinity_continuation[OF k, of True] show ?thesis by simp
qed

end
