(* ===== verification/Cluster_Routing.thy ===== *)
theory Cluster_Routing imports Load_Counter Prefix_Affinity "HOL-Library.Multiset"
begin

text \<open>
  Load balancing of a replicated or grouped deployment (\<open>manager.py\<close>, \<open>_cluster_members_sorted\<close> to
  \<open>_prefer_cluster_affinity\<close>): which members may serve, in which order they are tried, and how
  cached prefixes shift the choice.

  Members are compared by identity in the code (\<open>m is not chosen\<close>), so a member record carries the
  number \<open>m_id\<close> of its object; the fields the routing reads have the types the controller stores,
  with \<open>None\<close> for an absent key.  What the node registry last observed of a node is a parameter.
\<close>

section \<open>Data\<close>

record member =
  m_id :: nat
  m_rank :: "int option"
  m_instance :: "int option"
  m_container :: "string option"
  m_node :: "string option"
  m_node_status :: "string option"
  m_docker_ready :: "bool option"
  m_status :: "string option"
  m_desired :: "string option"

record deployment =
  dep_id :: "string option"
  dep_mode :: "string option"
  dep_members :: "member list"

text \<open>The registry's recent observation of a node; \<open>o_containers\<close> is \<open>None\<close> when it is not a list.\<close>

record observation =
  o_online :: "bool option"
  o_docker_ready :: "bool option"
  o_containers :: "(string option \<times> string option) list option"

type_synonym observer = "string \<Rightarrow> observation option"

record balance =
  loads :: "(string, int) dict"
  rotation :: "(string, int) dict"

definition opt_or :: "string option \<Rightarrow> string" where
  "opt_or x = (case x of None \<Rightarrow> [] | Some s \<Rightarrow> s)"

definition int_or0 :: "int option \<Rightarrow> int" where
  "int_or0 x = (case x of None \<Rightarrow> 0 | Some i \<Rightarrow> i)"

definition members_sorted :: "deployment \<Rightarrow> member list" where
  "members_sorted d = sort_key (\<lambda>m. int_or0 (m_rank m)) (dep_members d)"

definition primary_member :: "deployment option \<Rightarrow> (deployment \<times> member) result" where
  "primary_member d = (case d of
     None \<Rightarrow> Inl (LookupError ''cluster deployment not found'')
   | Some dep \<Rightarrow> (case members_sorted dep of
       [] \<Rightarrow> Inl (LookupError ''cluster deployment has no inference member'')
     | m # _ \<Rightarrow> Inr (dep, m)))"

section \<open>Load counters\<close>

definition member_key :: "string \<Rightarrow> member \<Rightarrow> string" where
  "member_key did m = (case m_instance m of
     Some i \<Rightarrow> did @ '':instance:'' @ dec_int i
   | None \<Rightarrow> did @ '':'' @ (if opt_or (m_container m) \<noteq> [] then opt_or (m_container m)
                           else opt_or (m_node m)))"

definition load_get :: "(string, int) dict \<Rightarrow> string \<Rightarrow> int" where
  "load_get ls k = (case map_of ls k of None \<Rightarrow> 0 | Some n \<Rightarrow> n)"

definition load_up :: "string \<Rightarrow> (string, int) dict \<Rightarrow> (string, int) dict" where
  "load_up k ls = AList.update k (load_get ls k + 1) ls"

definition load_down :: "string \<Rightarrow> (string, int) dict \<Rightarrow> (string, int) dict" where
  "load_down k ls = AList.update k (max 0 (load_get ls k - 1)) ls"

definition member_active :: "balance \<Rightarrow> string \<Rightarrow> member \<Rightarrow> int" where
  "member_active b did m = load_get (loads b) (member_key did m)"

definition acquire_member :: "string \<Rightarrow> member \<Rightarrow> balance \<Rightarrow> balance" where
  "acquire_member did m b = b\<lparr>loads := load_up (member_key did m) (loads b)\<rparr>"

definition release_member :: "string \<Rightarrow> member \<Rightarrow> balance \<Rightarrow> balance" where
  "release_member did m b = b\<lparr>loads := load_down (member_key did m) (loads b)\<rparr>"

interpretation member_loads: load_counter load_get "[]" load_up load_down
  by unfold_locales (auto simp: load_get_def load_up_def load_down_def dict_simps)

section \<open>Availability\<close>

definition serving_status :: "string option \<Rightarrow> bool" where
  "serving_status s = (py_casefold (opt_or s) \<in> {''running'', ''ready''})"

text \<open>\<open>_member_record_available\<close>\<close>

definition record_available :: "member \<Rightarrow> bool" where
  "record_available m = (m_desired m \<noteq> Some ''stopped'' \<and> serving_status (m_status m) \<and>
     py_casefold (opt_or (m_node_status m)) \<notin> {''offline'', ''unreachable'', ''unknown'', ''disconnected''} \<and>
     m_docker_ready m \<noteq> Some False)"

text \<open>\<open>_cluster_member_available\<close>\<close>

definition member_available :: "observer \<Rightarrow> member \<Rightarrow> bool" where
  "member_available obs m =
     (if m_node_status m \<noteq> None then record_available m
      else case obs (opt_or (m_node m)) of
        None \<Rightarrow> record_available m
      | Some o1 \<Rightarrow>
          if o_online o1 \<noteq> Some True \<or> o_docker_ready o1 = Some False then False
          else if record_available m then True
          else (case o_containers o1 of
              None \<Rightarrow> False
            | Some cs \<Rightarrow> list_ex (\<lambda>(n, s). n = Some (opt_or (m_container m)) \<and> serving_status s) cs))"

text \<open>\<open>_cluster_group_available\<close>\<close>

definition group_available :: "observer \<Rightarrow> deployment \<Rightarrow> member \<Rightarrow> bool" where
  "group_available obs d c =
     (member_available obs c \<and>
      (case m_instance c of None \<Rightarrow> True
       | Some i \<Rightarrow> list_all (\<lambda>m. int_or0 (m_instance m) = i \<longrightarrow> member_available obs m) (members_sorted d)))"

definition candidate_available :: "observer \<Rightarrow> deployment \<Rightarrow> member \<Rightarrow> bool" where
  "candidate_available obs d m =
     (if m_instance m \<noteq> None then group_available obs d m else member_available obs m)"

section \<open>Choosing a member\<close>

definition serving_pool :: "observer \<Rightarrow> deployment \<Rightarrow> member list \<Rightarrow> member list" where
  "serving_pool obs d ms = (let serving = filter (candidate_available obs d) ms in
     if serving \<noteq> [] then serving else ms)"

text \<open>\<open>_balanced_cluster_member\<close>: a least loaded member of the pool, rotating among equals.  An empty
  candidate list makes \<open>% len(tied)\<close> raise.\<close>

definition balanced_member ::
  "observer \<Rightarrow> deployment \<Rightarrow> member list \<Rightarrow> balance \<Rightarrow> (member \<times> balance) result" where
  "balanced_member obs d ms b =
     (let did = opt_or (dep_id d);
          tied = least_loaded (member_active b did) (serving_pool obs d ms);
          turn = (case map_of (rotation b) did of None \<Rightarrow> 0 | Some n \<Rightarrow> n)
      in if tied = [] then Inl ZeroDivisionError
         else Inr (tied ! nat (turn mod int (length tied)),
                   b\<lparr>rotation := AList.update did (turn + 1) (rotation b)\<rparr>))"

text \<open>\<open>_grouped_coordinators\<close>: \<open>setdefault\<close> keeps the first coordinator of an instance.\<close>

definition runnable_coordinator :: "member \<Rightarrow> bool" where
  "runnable_coordinator m = (int_or0 (m_rank m) = 0 \<and> opt_or (m_desired m) \<noteq> ''stopped'' \<and>
     opt_or (m_status m) = ''running'')"

definition by_instance :: "member list \<Rightarrow> (int, member) dict" where
  "by_instance ms = foldl (\<lambda>acc m. if int_or0 (m_instance m) \<in> fst ` set acc then acc
     else acc @ [(int_or0 (m_instance m), m)]) [] (filter runnable_coordinator ms)"

definition grouped_coordinators :: "deployment \<Rightarrow> member list" where
  "grouped_coordinators d = map snd (sort_key fst (by_instance (members_sorted d)))"

text \<open>The sort of the failover candidates: available first, then by load.\<close>

definition failover_order :: "(member \<Rightarrow> bool) \<Rightarrow> (member \<Rightarrow> int) \<Rightarrow> member list \<Rightarrow> member list" where
  "failover_order av ld ms = sort_key (\<lambda>m. (if av m then 0 else 1 :: nat, ld m)) ms"

definition others :: "member \<Rightarrow> member list \<Rightarrow> member list" where
  "others c ms = filter (\<lambda>m. m_id m \<noteq> m_id c) ms"

text \<open>\<open>_cluster_route_order\<close>\<close>

definition route_order :: "observer \<Rightarrow> deployment \<Rightarrow> balance \<Rightarrow> (member list \<times> balance) result" where
  "route_order obs d b =
     (let ms = members_sorted d; did = opt_or (dep_id d) in
      if dep_mode d = Some ''grouped_sharded'' then
        (let cs = grouped_coordinators d in
         if cs = [] then Inr ([], b)
         else bindE (balanced_member obs d cs b) (\<lambda>(c, b').
           Inr (c # failover_order (group_available obs d) (member_active b' did) (others c cs), b')))
      else if dep_mode d \<noteq> Some ''replicated'' \<or> length ms < 2 then Inr (take 1 ms, b)
      else bindE (balanced_member obs d ms b) (\<lambda>(c, b').
        Inr (c # failover_order (member_available obs) (member_active b' did) (others c ms), b')))"

text \<open>\<open>_prefer_cluster_affinity\<close>: \<open>hint\<close> is what the affinity table returned for the keys of the
  candidates; of two candidates with one key the later wins, as in the code's dictionary.\<close>

definition preferred_member :: "string \<Rightarrow> string option \<Rightarrow> member list \<Rightarrow> member option" where
  "preferred_member did hint cs = (case hint of None \<Rightarrow> None
     | Some k \<Rightarrow> map_of (rev (map (\<lambda>m. (member_key did m, m)) cs)) k)"

definition prefer_affinity :: "observer \<Rightarrow> deployment \<Rightarrow> balance \<Rightarrow> string option \<Rightarrow> member list \<Rightarrow> member list" where
  "prefer_affinity obs d b hint cs =
     (let did = opt_or (dep_id d) in
      if length cs < 2 then cs
      else case preferred_member did hint cs of
        None \<Rightarrow> cs
      | Some p \<Rightarrow>
          let av = filter (candidate_available obs d) cs;
              cmp = (if av \<noteq> [] then av else cs) in
          if av \<noteq> [] \<and> p \<notin> set av then cs
          else if member_active b did p > Min (member_active b did ` set cmp) then cs
          else p # others p cs)"

text \<open>The lookup that produces the hint, on the table of the previous theory.\<close>

definition affinity_hint :: "rat \<Rightarrow> rat \<Rightarrow> string \<Rightarrow> (string \<times> nat) list \<Rightarrow> deployment \<Rightarrow> member list \<Rightarrow>
    hints \<Rightarrow> string option \<times> hints" where
  "affinity_hint ttl now scope ks d cs es =
     affinity_lookup ttl now scope ks (map (member_key (opt_or (dep_id d))) cs) es"

section \<open>Lemmas\<close>

text \<open>Member objects are distinct: equal identities mean equal positions.\<close>

definition proper :: "member list \<Rightarrow> bool" where
  "proper ms \<longleftrightarrow> distinct (map m_id ms)"

lemma members_sorted_mset: "mset (members_sorted d) = mset (dep_members d)"
  by (simp add: members_sorted_def)

lemma proper_cong: "mset xs = mset ys \<Longrightarrow> proper xs = proper ys"
  unfolding proper_def by (metis mset_eq_imp_distinct_iff mset_map)

lemma others_mset: "proper ms \<Longrightarrow> c \<in> set ms \<Longrightarrow> mset (c # others c ms) = mset ms"
proof (induction ms)
  case (Cons m ms)
  have d: "m_id m \<notin> m_id ` set ms" "proper ms" using Cons.prems(1) by (auto simp: proper_def)
  show ?case
  proof (cases "m = c")
    case True
    then have "m_id x \<noteq> m_id c" if "x \<in> set ms" for x using d(1) that by (metis imageI)
    then have "others c ms = ms" by (simp add: others_def filter_id_conv)
    then show ?thesis using True by (simp add: others_def)
  next
    case False
    then have c: "c \<in> set ms" using Cons.prems(2) by simp
    then have "m_id m \<noteq> m_id c" using d(1) by auto
    then show ?thesis using Cons.IH[OF d(2) c] by (simp add: others_def)
  qed
qed simp

lemma serving_pool_subset: "set (serving_pool obs d ms) \<subseteq> set ms"
  by (auto simp: serving_pool_def Let_def)

lemma serving_pool_nonempty: "ms \<noteq> [] \<Longrightarrow> serving_pool obs d ms \<noteq> []"
  by (simp add: serving_pool_def Let_def)

lemma balanced_member_spec:
  assumes "ms \<noteq> []"
  shows "\<exists>c b'. balanced_member obs d ms b = Inr (c, b') \<and> loads b' = loads b \<and>
    c \<in> set (least_loaded (member_active b (opt_or (dep_id d))) (serving_pool obs d ms))"
proof -
  let ?t = "least_loaded (member_active b (opt_or (dep_id d))) (serving_pool obs d ms)"
  let ?n = "case map_of (rotation b) (opt_or (dep_id d)) of None \<Rightarrow> 0 | Some n \<Rightarrow> n"
  have t: "?t \<noteq> []" using assms by (intro least_loaded_nonempty serving_pool_nonempty)
  have "nat (?n mod int (length ?t)) < length ?t" using t by (simp add: nat_less_iff)
  then have "?t ! nat (?n mod int (length ?t)) \<in> set ?t" by (rule nth_mem)
  then show ?thesis using t by (simp add: balanced_member_def Let_def)
qed

lemma balanced_member_result:
  assumes "balanced_member obs d ms b = Inr (c, b')" "ms \<noteq> []"
  shows "c \<in> set ms" "loads b' = loads b"
    "\<And>m. m \<in> set ms \<Longrightarrow> candidate_available obs d m \<Longrightarrow>
       candidate_available obs d c \<and> member_active b (opt_or (dep_id d)) c \<le> member_active b (opt_or (dep_id d)) m"
    "(\<forall>m \<in> set ms. \<not> candidate_available obs d m) \<Longrightarrow> m \<in> set ms \<Longrightarrow>
       member_active b (opt_or (dep_id d)) c \<le> member_active b (opt_or (dep_id d)) m"
proof -
  let ?f = "member_active b (opt_or (dep_id d))"
  have c: "c \<in> set (least_loaded ?f (serving_pool obs d ms))" and l: "loads b' = loads b"
    using balanced_member_spec[OF assms(2), of obs d b] assms(1) by auto
  then have p: "c \<in> set (serving_pool obs d ms)" using least_loaded_subset by fastforce
  then show "c \<in> set ms" using serving_pool_subset by fastforce
  show "loads b' = loads b" by (rule l)
  show "candidate_available obs d c \<and> ?f c \<le> ?f m" if "m \<in> set ms" "candidate_available obs d m" for m
  proof -
    have ne: "filter (candidate_available obs d) ms \<noteq> []" using that by (auto simp: filter_empty_conv)
    then have "m \<in> set (serving_pool obs d ms)" using that by (simp add: serving_pool_def Let_def)
    from least_loaded_min[OF c this] p ne show ?thesis by (simp add: serving_pool_def Let_def)
  qed
  show "?f c \<le> ?f m" if "\<forall>m \<in> set ms. \<not> candidate_available obs d m" "m \<in> set ms" for m
  proof -
    have "filter (candidate_available obs d) ms = []" using that by (simp add: filter_empty_conv)
    then have "m \<in> set (serving_pool obs d ms)" using that(2) by (simp add: serving_pool_def)
    then show ?thesis by (rule least_loaded_min[OF c])
  qed
qed

lemma failover_order_mset [simp]: "mset (failover_order av ld ms) = mset ms"
  by (simp add: failover_order_def)

lemma failover_order_sorted:
  "sorted_wrt (\<lambda>x y. (av y \<longrightarrow> av x) \<and> (av x = av y \<longrightarrow> ld x \<le> ld y)) (failover_order av ld ms)"
proof -
  have "sorted (map (\<lambda>m. (if av m then 0 else 1 :: nat, ld m)) (failover_order av ld ms))"
    unfolding failover_order_def by (rule sorted_sort_key)
  then have "sorted_wrt (\<lambda>x y. (if av x then 0 else 1 :: nat, ld x) \<le> (if av y then 0 else 1, ld y))
      (failover_order av ld ms)"
    by (simp add: sorted_map)
  then show ?thesis
    by (rule sorted_wrt_mono_rel[rotated]) (auto split: if_splits)
qed

lemma by_instance_subset: "snd ` set (by_instance ms) \<subseteq> set ms \<and> distinct (map fst (by_instance ms))"
proof -
  have "snd ` set (foldl (\<lambda>acc m. if int_or0 (m_instance m) \<in> fst ` set acc then acc
     else acc @ [(int_or0 (m_instance m), m)]) acc xs) \<subseteq> snd ` set acc \<union> set xs \<and>
    distinct (map fst (foldl (\<lambda>acc m. if int_or0 (m_instance m) \<in> fst ` set acc then acc
     else acc @ [(int_or0 (m_instance m), m)]) acc xs))"
    if "distinct (map fst acc)" for acc :: "(int \<times> member) list" and xs
    using that
  proof (induction xs arbitrary: acc)
    case (Cons m xs)
    show ?case
    proof (cases "int_or0 (m_instance m) \<in> fst ` set acc")
      case True
      then show ?thesis using Cons.IH[OF Cons.prems] by auto
    next
      case False
      then have d: "distinct (map fst (acc @ [(int_or0 (m_instance m), m)]))" using Cons.prems by simp
      show ?thesis using Cons.IH[OF d] False by auto
    qed
  qed simp
  from this[of "[]" "filter runnable_coordinator ms"] show ?thesis by (auto simp: by_instance_def)
qed

section \<open>Histories\<close>

text \<open>The load table after a history of acquisitions and releases, newest first.\<close>

fun load_history :: "string load_op list \<Rightarrow> (string, int) dict" where
  "load_history [] = []"
| "load_history (Up k # ops) = load_up k (load_history ops)"
| "load_history (Down k # ops) = load_down k (load_history ops)"

lemma load_history_after: "load_history ops = member_loads.after ops"
proof (induction ops)
  case (Cons o1 ops)
  then show ?case by (cases o1) simp_all
qed simp

text \<open>Serving \<open>n\<close> requests: each is given to the balanced member, which it then occupies.\<close>

fun assign :: "observer \<Rightarrow> deployment \<Rightarrow> member list \<Rightarrow> nat \<Rightarrow> balance \<Rightarrow> balance result" where
  "assign obs d ms 0 b = Inr b"
| "assign obs d ms (Suc n) b = bindE (balanced_member obs d ms b) (\<lambda>(c, b').
     assign obs d ms n (acquire_member (opt_or (dep_id d)) c b'))"

definition spread_ok :: "string \<Rightarrow> member list \<Rightarrow> balance \<Rightarrow> bool" where
  "spread_ok did ms b \<longleftrightarrow> (\<forall>x \<in> set ms. \<forall>y \<in> set ms. member_active b did x \<le> member_active b did y + 1)"

lemma active_acquire:
  "member_active (acquire_member did c b) did m =
     (if member_key did m = member_key did c then member_active b did m + 1 else member_active b did m)"
  by (auto simp: member_active_def acquire_member_def load_get_def load_up_def dict_simps)

lemma assign_spread:
  assumes "inj_on (member_key (opt_or (dep_id d))) (set ms)" "ms \<noteq> []"
    and "\<forall>m \<in> set ms. candidate_available obs d m"
    and "spread_ok (opt_or (dep_id d)) ms b" "assign obs d ms n b = Inr b'"
  shows "spread_ok (opt_or (dep_id d)) ms b'"
  using assms(4,5)
proof (induction n arbitrary: b)
  case (Suc n)
  let ?did = "opt_or (dep_id d)"
  obtain c b1 where c: "balanced_member obs d ms b = Inr (c, b1)"
    "assign obs d ms n (acquire_member ?did c b1) = Inr b'"
    using Suc.prems(2) by (auto simp: except_simps)
  note B = balanced_member_result[OF c(1) assms(2)]
  have act: "member_active b1 ?did m = member_active b ?did m" for m
    using B(2) by (simp add: member_active_def)
  have eq: "member_active (acquire_member ?did c b1) ?did m
      = ((member_active b ?did)(c := member_active b ?did c + 1)) m" if "m \<in> set ms" for m
    using assms(1) that B(1) by (auto simp: active_acquire act inj_on_def)
  have "\<forall>x \<in> set ms. \<forall>y \<in> set ms. ((member_active b ?did)(c := member_active b ?did c + 1)) x
      \<le> ((member_active b ?did)(c := member_active b ?did c + 1)) y + 1"
    using Suc.prems(1) B(1,3) assms(3) by (intro spread_step) (auto simp: spread_ok_def)
  then have "spread_ok ?did ms (acquire_member ?did c b1)"
    unfolding spread_ok_def using eq by simp
  then show ?case using Suc.IH c(2) by blast
qed simp

text \<open>Consecutive choices without a change of load.\<close>

fun choices :: "observer \<Rightarrow> deployment \<Rightarrow> member list \<Rightarrow> nat \<Rightarrow> balance \<Rightarrow> member list" where
  "choices obs d ms 0 b = []"
| "choices obs d ms (Suc n) b = (case balanced_member obs d ms b of
     Inl e \<Rightarrow> [] | Inr (c, b') \<Rightarrow> c # choices obs d ms n b')"

definition turn_of :: "deployment \<Rightarrow> balance \<Rightarrow> int" where
  "turn_of d b = (case map_of (rotation b) (opt_or (dep_id d)) of None \<Rightarrow> 0 | Some n \<Rightarrow> n)"

definition tied_members :: "observer \<Rightarrow> deployment \<Rightarrow> member list \<Rightarrow> balance \<Rightarrow> member list" where
  "tied_members obs d ms b = least_loaded (member_active b (opt_or (dep_id d))) (serving_pool obs d ms)"

lemma balanced_member_turn:
  assumes "ms \<noteq> []"
  shows "\<exists>b'. balanced_member obs d ms b =
      Inr (tied_members obs d ms b ! nat (turn_of d b mod int (length (tied_members obs d ms b))), b') \<and>
    turn_of d b' = turn_of d b + 1 \<and> tied_members obs d ms b' = tied_members obs d ms b"
proof -
  have "tied_members obs d ms b \<noteq> []"
    unfolding tied_members_def using assms by (intro least_loaded_nonempty serving_pool_nonempty)
  then show ?thesis
    by (simp add: balanced_member_def Let_def tied_members_def turn_of_def dict_simps member_active_def[abs_def])
qed

lemma choices_nth:
  assumes "ms \<noteq> []" "0 \<le> turn_of d b" "k < n"
  shows "length (choices obs d ms n b) = n \<and> choices obs d ms n b ! k = tied_members obs d ms b !
    ((nat (turn_of d b) + k) mod length (tied_members obs d ms b))"
  using assms(2,3)
proof (induction n arbitrary: b k)
  case (Suc n)
  obtain b' where b': "balanced_member obs d ms b =
      Inr (tied_members obs d ms b ! nat (turn_of d b mod int (length (tied_members obs d ms b))), b')"
    "turn_of d b' = turn_of d b + 1" "tied_members obs d ms b' = tied_members obs d ms b"
    using balanced_member_turn[OF assms(1)] by blast
  have nn: "0 \<le> turn_of d b'" using b'(2) Suc.prems(1) by simp
  have len: "length (choices obs d ms n b') = n"
    using Suc.IH[OF nn, of 0] by (cases n) simp_all
  show ?case
  proof (cases k)
    case 0
    then show ?thesis using b' len Suc.prems(1) by (simp add: nat_mod_distrib)
  next
    case (Suc j)
    have "nat (turn_of d b') + j = nat (turn_of d b) + k" using b'(2) Suc.prems(1) Suc by simp
    then show ?thesis using Suc.IH[OF nn, of j] Suc Suc.prems(2) b' len by simp
  qed
qed simp

lemma choices_all:
  assumes "ms \<noteq> []" "0 \<le> turn_of d b" "m \<in> set (tied_members obs d ms b)"
  shows "m \<in> set (choices obs d ms (length (tied_members obs d ms b)) b)"
proof -
  let ?t = "tied_members obs d ms b"
  obtain i where i: "i < length ?t" "?t ! i = m" using assms(3) by (auto simp: in_set_conv_nth)
  obtain k where k: "k < length ?t" "(nat (turn_of d b) + k) mod length ?t = i"
    using mod_window[OF i(1)] by blast
  have "length (choices obs d ms (length ?t) b) = length ?t" "choices obs d ms (length ?t) b ! k = m"
    using choices_nth[OF assms(1,2) k(1)] k(2) i(2) by auto
  then show ?thesis using k(1) by (metis nth_mem)
qed

section \<open>Properties\<close>

definition demo_member :: "nat \<Rightarrow> member" where
  "demo_member i = \<lparr>m_id = i, m_rank = Some (int i), m_instance = None,
     m_container = Some (''c'' @ dec_nat i), m_node = Some (''n'' @ dec_nat i), m_node_status = Some ''online'',
     m_docker_ready = Some True, m_status = Some ''running'', m_desired = None\<rparr>"

definition demo_dep :: deployment where
  "demo_dep = \<lparr>dep_id = Some ''d'', dep_mode = Some ''replicated'', dep_members = [demo_member 1, demo_member 0]\<rparr>"

definition demo_balance :: balance where
  "demo_balance = \<lparr>loads = [(''d:c0'', 1)], rotation = []\<rparr>"

lemma demo_digits: "dec_nat 0 = ''0''" "dec_nat 1 = ''1''" "dec_nat (Suc 0) = ''1''"
  by code_simp+

lemma demo_keys: "member_key ''d'' (demo_member 0) = ''d:c0''" "member_key ''d'' (demo_member (Suc 0)) = ''d:c1''"
  "member_key ''d'' (demo_member 1) = ''d:c1''"
  by (simp_all add: member_key_def demo_member_def opt_or_def demo_digits)

lemma demo_dep_fields [simp]: "opt_or (dep_id demo_dep) = ''d''" "dep_mode demo_dep = Some ''replicated''"
  by (simp_all add: demo_dep_def opt_or_def)

lemma demo_ids [simp]: "m_id (demo_member i) = i"
  by (simp add: demo_member_def)

lemma demo_available: "candidate_available obs d (demo_member i)" "member_available obs (demo_member i)"
proof -
  have "serving_status (Some ''running'')" "py_casefold ''online'' = ''online''"
    by (simp_all add: serving_status_def opt_or_def py_casefold_def fold_char_def)
  then show "candidate_available obs d (demo_member i)" "member_available obs (demo_member i)"
    by (simp_all add: candidate_available_def member_available_def record_available_def demo_member_def opt_or_def)
qed

lemma demo_sorted: "members_sorted demo_dep = [demo_member 0, demo_member 1]"
  by (simp add: members_sorted_def demo_dep_def demo_member_def int_or0_def)

text \<open>C10: the route order of a replicated deployment is a permutation of its members; the first
  candidate is available whenever some member is, and then carries the least load of the available
  ones; the failover candidates follow available-first and in the order of their loads.\<close>

theorem route_order_replicated:
  assumes "proper (dep_members d)" and "dep_mode d = Some ''replicated''" and "2 \<le> length (dep_members d)"
    and "route_order obs d b = Inr (ms, b')"
  shows "mset ms = mset (dep_members d) \<and> loads b' = loads b \<and>
    (\<forall>m \<in> set (dep_members d). candidate_available obs d m \<longrightarrow> candidate_available obs d (hd ms) \<and>
       member_active b (opt_or (dep_id d)) (hd ms) \<le> member_active b (opt_or (dep_id d)) m) \<and>
    sorted_wrt (\<lambda>x y. (member_available obs y \<longrightarrow> member_available obs x) \<and>
       (member_available obs x = member_available obs y \<longrightarrow>
          member_active b (opt_or (dep_id d)) x \<le> member_active b (opt_or (dep_id d)) y)) (tl ms)"
proof -
  let ?ms = "members_sorted d" and ?did = "opt_or (dep_id d)"
  have len: "length ?ms = length (dep_members d)" "?ms \<noteq> []"
    using assms(3) members_sorted_mset[of d] by (metis size_mset, force)
  have sets: "set ?ms = set (dep_members d)" using members_sorted_mset by (metis set_mset_mset)
  have pr: "proper ?ms" using assms(1) proper_cong[OF members_sorted_mset] by simp
  have eq: "route_order obs d b = bindE (balanced_member obs d ?ms b) (\<lambda>(c, b').
      Inr (c # failover_order (member_available obs) (member_active b' ?did) (others c ?ms), b'))"
    using assms(2,3) len by (simp add: route_order_def Let_def)
  obtain c where c: "balanced_member obs d ?ms b = Inr (c, b')"
    and ms: "ms = c # failover_order (member_available obs) (member_active b' ?did) (others c ?ms)"
    using assms(4)[unfolded eq bindE_Inr] by auto
  note B = balanced_member_result[OF c len(2)]
  have act: "member_active b' ?did = member_active b ?did" using B(2) by (simp add: member_active_def fun_eq_iff)
  have "mset ms = mset (c # others c ?ms)" unfolding ms by simp
  also have "\<dots> = mset (dep_members d)" using others_mset[OF pr B(1)] members_sorted_mset by metis
  finally show ?thesis
    using B(2,3) sets failover_order_sorted[of "member_available obs" "member_active b ?did" "others c ?ms"]
    unfolding ms act by simp
qed

theorem route_order_replicated_witness:
  "\<exists>ms b'. route_order (\<lambda>_. None) demo_dep demo_balance = Inr (ms, b') \<and> hd ms = demo_member 1 \<and>
     mset ms = mset [demo_member 0, demo_member 1]"
proof -
  have r: "\<exists>b' ms. route_order (\<lambda>_. None) demo_dep demo_balance = Inr (ms, b') \<and> hd ms = demo_member 1"
    by (simp add: route_order_def Let_def demo_sorted balanced_member_def serving_pool_def demo_available
        least_loaded_def member_active_def load_get_def demo_keys demo_balance_def)
  then obtain b' ms where m: "route_order (\<lambda>_. None) demo_dep demo_balance = Inr (ms, b')" "hd ms = demo_member 1"
    by blast
  have "proper (dep_members demo_dep)" "dep_mode demo_dep = Some ''replicated''" "2 \<le> length (dep_members demo_dep)"
    by (simp_all add: proper_def) (simp_all add: demo_dep_def)
  from route_order_replicated[OF this m(1)] m show ?thesis by (auto simp: demo_dep_def)
qed

text \<open>C11: balancing spreads load evenly: if the members of a deployment have distinct load keys and all
  can serve, then giving any number of requests to the balanced member keeps every two loads within
  one of each other.\<close>

theorem balance_spread:
  assumes "inj_on (member_key (opt_or (dep_id d))) (set ms)" and "ms \<noteq> []"
    and "\<forall>m \<in> set ms. candidate_available obs d m"
    and "assign obs d ms n \<lparr>loads = [], rotation = rot\<rparr> = Inr b"
  shows "\<forall>x \<in> set ms. \<forall>y \<in> set ms.
    member_active b (opt_or (dep_id d)) x \<le> member_active b (opt_or (dep_id d)) y + 1"
proof -
  have "spread_ok (opt_or (dep_id d)) ms \<lparr>loads = [], rotation = rot\<rparr>"
    by (simp add: spread_ok_def member_active_def load_get_def)
  from assign_spread[OF assms(1-3) this assms(4)] show ?thesis by (simp add: spread_ok_def)
qed

theorem balance_spread_witness:
  "\<exists>b. assign (\<lambda>_. None) demo_dep [demo_member 0, demo_member 1] 3 \<lparr>loads = [], rotation = []\<rparr> = Inr b \<and>
     member_active b ''d'' (demo_member 0) \<le> member_active b ''d'' (demo_member 1) + 1"
proof -
  let ?ms = "[demo_member 0, demo_member 1]"
  have keys: "inj_on (member_key (opt_or (dep_id demo_dep))) (set ?ms)"
    by (simp add: demo_keys inj_on_def)
  have ex: "\<exists>b. assign (\<lambda>_. None) demo_dep ?ms n b0 = Inr b" for n b0
  proof (induction n arbitrary: b0)
    case (Suc n)
    obtain c b' where "balanced_member (\<lambda>_. None) demo_dep ?ms b0 = Inr (c, b')"
      using balanced_member_spec[of ?ms "\<lambda>_. None" demo_dep b0] by auto
    then show ?case using Suc by simp
  qed simp
  then obtain b where b: "assign (\<lambda>_. None) demo_dep ?ms 3 \<lparr>loads = [], rotation = []\<rparr> = Inr b" by blast
  from balance_spread[OF keys _ _ b] demo_available b show ?thesis by simp
qed

text \<open>equals rotate: while the loads do not change, as many consecutive choices as there are least
  loaded serving members choose each of them.\<close>

theorem balance_rotates:
  assumes "ms \<noteq> []" and "0 \<le> turn_of d b" and "m \<in> set (tied_members obs d ms b)"
  shows "m \<in> set (choices obs d ms (length (tied_members obs d ms b)) b)"
  using assms by (rule choices_all)

theorem balance_rotates_witness:
  "demo_member 0 \<in> set (choices (\<lambda>_. None) demo_dep [demo_member 0, demo_member 1]
     (length (tied_members (\<lambda>_. None) demo_dep [demo_member 0, demo_member 1] \<lparr>loads = [], rotation = []\<rparr>))
     \<lparr>loads = [], rotation = []\<rparr>)"
  by (rule balance_rotates)
    (simp_all add: turn_of_def tied_members_def serving_pool_def demo_available least_loaded_def
      member_active_def load_get_def)

text \<open>The load table is exact: after any history of acquisitions and releases in which no member is
  released more often than it was acquired, each entry is the number of outstanding acquisitions.\<close>

theorem member_load_exact:
  assumes "outstanding ops k = Some n"
  shows "load_get (load_history ops) k = int n"
  using member_loads.count_outstanding[OF assms] by (simp add: load_history_after)

theorem member_load_exact_witness:
  "load_get (load_history [Down ''a'', Up ''b'', Up ''a'', Up ''a'']) ''a'' = 1"
  by (subst member_load_exact[of _ _ 1]) simp_all

text \<open>A cached prefix only breaks ties: preferring the hinted member permutes the candidates, and when
  it changes their order the new first candidate can serve if any candidate can and its load is the
  least among the candidates that can serve (among all, when none can).\<close>

theorem affinity_breaks_ties:
  assumes "proper cs" and "prefer_affinity obs d b hint cs = cs'" and "cs' \<noteq> cs"
  shows "mset cs' = mset cs \<and>
    (\<forall>m \<in> set cs. candidate_available obs d m \<longrightarrow> candidate_available obs d (hd cs') \<and>
       member_active b (opt_or (dep_id d)) (hd cs') \<le> member_active b (opt_or (dep_id d)) m) \<and>
    ((\<forall>m \<in> set cs. \<not> candidate_available obs d m) \<longrightarrow> (\<forall>m \<in> set cs.
       member_active b (opt_or (dep_id d)) (hd cs') \<le> member_active b (opt_or (dep_id d)) m))"
proof -
  let ?did = "opt_or (dep_id d)" and ?av = "filter (candidate_available obs d) cs"
  let ?cmp = "if ?av \<noteq> [] then ?av else cs"
  have "\<not> length cs < 2" using assms(2,3) by (auto simp: prefer_affinity_def)
  then obtain p where pm: "preferred_member ?did hint cs = Some p"
    using assms(2,3) by (cases "preferred_member ?did hint cs") (simp_all add: prefer_affinity_def Let_def)
  have eq: "cs' = (if ?av \<noteq> [] \<and> p \<notin> set ?av then cs
      else if member_active b ?did p > Min (member_active b ?did ` set ?cmp) then cs else p # others p cs)"
    using assms(2) pm \<open>\<not> length cs < 2\<close> unfolding prefer_affinity_def Let_def by simp
  have a: "\<not> (?av \<noteq> [] \<and> p \<notin> set ?av)" using eq assms(3) by (meson if_P)
  then have e: "\<not> member_active b ?did p > Min (member_active b ?did ` set ?cmp)"
    using eq assms(3) by (meson if_P if_not_P)
  have p: "preferred_member ?did hint cs = Some p" "\<not> (?av \<noteq> [] \<and> p \<notin> set ?av)"
    "\<not> member_active b ?did p > Min (member_active b ?did ` set ?cmp)" "cs' = p # others p cs"
    using pm a e eq unfolding if_not_P[OF a] if_not_P[OF e] by simp_all
  have "p \<in> set cs" using p(1) by (auto simp: preferred_member_def dest!: map_of_SomeD split: option.splits)
  then have ms: "mset cs' = mset cs" using others_mset[OF assms(1)] p(4) by simp
  have min: "member_active b ?did p \<le> member_active b ?did m" if "m \<in> set ?cmp" for m
  proof -
    have "Min (member_active b ?did ` set ?cmp) \<le> member_active b ?did m"
      by (rule Min_le[OF finite_imageI[OF finite_set] imageI[OF that]])
    then show ?thesis using p(3) by linarith
  qed
  have "candidate_available obs d p \<and> member_active b ?did p \<le> member_active b ?did m"
    if "m \<in> set cs" "candidate_available obs d m" for m
  proof -
    have ne: "?av \<noteq> []" using that by (auto simp: filter_empty_conv)
    then have "m \<in> set ?cmp" using that by simp
    then show ?thesis using p(2) ne min by auto
  qed
  moreover have "member_active b ?did p \<le> member_active b ?did m"
    if "\<forall>m \<in> set cs. \<not> candidate_available obs d m" "m \<in> set cs" for m
    using min[of m] that by (simp add: filter_empty_conv)
  ultimately show ?thesis using ms p(4) by simp
qed

theorem affinity_breaks_ties_witness:
  "prefer_affinity (\<lambda>_. None) demo_dep \<lparr>loads = [], rotation = []\<rparr> (Some ''d:c1'') [demo_member 0, demo_member 1]
     = [demo_member 1, demo_member 0] \<and> mset [demo_member 1, demo_member 0] = mset [demo_member 0, demo_member 1]"
proof -
  let ?cs = "[demo_member 0, demo_member 1]" and ?b = "\<lparr>loads = [], rotation = []\<rparr>"
  have r: "prefer_affinity (\<lambda>_. None) demo_dep ?b (Some ''d:c1'') ?cs = [demo_member 1, demo_member 0]"
    by (simp add: prefer_affinity_def Let_def preferred_member_def demo_available member_active_def load_get_def
        demo_keys others_def)
  have "proper ?cs" "[demo_member 1, demo_member 0] \<noteq> ?cs"
    by (simp_all add: proper_def) (metis demo_ids zero_neq_one One_nat_def)
  from affinity_breaks_ties[OF this(1) r this(2)] r show ?thesis by blast
qed

end
