(* ===== verification/Failover.thy ===== *)
theory Failover imports Cluster_Routing
begin

text \<open>
  Serving one cluster request (\<open>manager.py\<close>): the classification of failures, one pass over the route
  order (\<open>_proxy_cluster_inference_once\<close>), the streamed relay that may still change the replica until
  its first event (\<open>_cluster_stream_with_failover\<close>), and the ride-through loop around the passes
  (\<open>proxy_cluster_inference\<close>).

  What a replica does is the environment: opening it raises or yields a stream, which is the list of
  its chunks and how it ends.  \<open>loads\<close> and \<open>dumps\<close> stand for the \<open>json\<close> functions of the library.
\<close>

section \<open>Failures\<close>

datatype fkind =
    ClientGone
  | ReplicaUnavailable string
  | ConnectFailed string
  | TransportFailed string
  | HttpStatus int string
  | LookupFailed string
  | TimedOut string
  | AgentResponse string int string
  | RuntimeFailed string
  | ValueFailed string
  | OverflowFailed
  | OtherFailure string

text \<open>An exception with its \<open>__cause__\<close>.\<close>

datatype fexc = Exc (kind_of: fkind) (cause_of: "fexc option")

fun exc_text :: "fkind \<Rightarrow> string" where
  "exc_text ClientGone = ''client disconnected''"
| "exc_text (ReplicaUnavailable m) = m"
| "exc_text (ConnectFailed m) = m"
| "exc_text (TransportFailed m) = m"
| "exc_text (HttpStatus c m) = m"
| "exc_text (LookupFailed m) = m"
| "exc_text (TimedOut m) = m"
| "exc_text (AgentResponse n c d) = n @ '' agent error: HTTP '' @ dec_int c @ '': '' @ d"
| "exc_text (RuntimeFailed m) = m"
| "exc_text (ValueFailed m) = m"
| "exc_text OverflowFailed = []"
| "exc_text (OtherFailure m) = m"

text \<open>\<open>re.search(r"HTTP 5\d\d", message)\<close>\<close>

fun has_http5 :: "string \<Rightarrow> bool" where
  "has_http5 [] = False"
| "has_http5 (c # s) = ((starts_with ''HTTP 5'' (c # s) \<and>
     (case drop 6 (c # s) of x # y # _ \<Rightarrow> is_digit x \<and> is_digit y | _ \<Rightarrow> False)) \<or> has_http5 s)"

text \<open>\<open>_cluster_failover_retryable\<close>\<close>

fun failover_retryable :: "fkind \<Rightarrow> bool" where
  "failover_retryable (ReplicaUnavailable m) = True"
| "failover_retryable (ConnectFailed m) = True"
| "failover_retryable (TransportFailed m) = True"
| "failover_retryable (LookupFailed m) = True"
| "failover_retryable (TimedOut m) = True"
| "failover_retryable (HttpStatus c m) = (c \<ge> 500)"
| "failover_retryable ClientGone = False"
| "failover_retryable (OtherFailure m) = False"
| "failover_retryable OverflowFailed = False"
| "failover_retryable k = (let m = exc_text k in
     contains ''could not contact'' m \<or> contains ''no connectable endpoints'' m \<or>
     contains ''remote node not found'' m \<or> contains ''is disabled'' m \<or>
     contains ''replica_unavailable'' m \<or> has_http5 m)"

definition value_or_lookup :: "fkind \<Rightarrow> bool" where
  "value_or_lookup k = (case k of ValueFailed m \<Rightarrow> True | LookupFailed m \<Rightarrow> True | _ \<Rightarrow> False)"

text \<open>\<open>_cluster_probe_failure_deterministic\<close>\<close>

definition probe_deterministic :: "fexc \<Rightarrow> bool" where
  "probe_deterministic e =
     ((value_or_lookup (kind_of e) \<and>
         (contains ''is disabled'' (exc_text (kind_of e)) \<or> contains ''remote node not found'' (exc_text (kind_of e)))) \<or>
      (case kind_of e of AgentResponse n c d \<Rightarrow>
           c < 500 \<and> c \<noteq> 408 \<and> c \<noteq> 429 \<and> \<not> (c = 404 \<and> contains ''replica_unavailable'' d)
         | _ \<Rightarrow> False))"

definition is_connect :: "fexc \<Rightarrow> bool" where
  "is_connect e = (case kind_of e of ConnectFailed m \<Rightarrow> True | _ \<Rightarrow> False)"

text \<open>\<open>_cluster_ride_through_retryable\<close>\<close>

definition ride_retryable :: "fexc \<Rightarrow> bool" where
  "ride_retryable e = (case kind_of e of
     ReplicaUnavailable m \<Rightarrow> (case cause_of e of None \<Rightarrow> True | Some c \<Rightarrow> \<not> probe_deterministic c)
   | _ \<Rightarrow> is_connect e \<or> (case cause_of e of None \<Rightarrow> False | Some c \<Rightarrow> is_connect c) \<or>
       (case kind_of e of AgentResponse n c d \<Rightarrow> c = 404 \<and> contains ''replica_unavailable'' d | _ \<Rightarrow> False))"

section \<open>Chunks\<close>

definition data_prefix :: string where
  "data_prefix = ''data: ''"

definition newline2 :: string where
  "newline2 = [char_of (10 :: nat), char_of (10 :: nat)]"

definition done_chunk :: string where
  "done_chunk = ''data: [DONE]'' @ newline2"

text \<open>\<open>_upstream_stream_error\<close>; \<open>int\<close> of an infinite float raises \<open>OverflowError\<close>, which is not caught.\<close>

definition upstream_error :: "(string \<Rightarrow> pyval option) \<Rightarrow> string \<Rightarrow> (int option \<times> string) option result" where
  "upstream_error parse chunk =
     (if \<not> starts_with data_prefix chunk then Inr None
      else case parse (py_strip (drop 6 chunk)) of
        Some (PDict p) \<Rightarrow>
          (case dict_get p ''error'' of
             PDict e \<Rightarrow>
               if dict_get e ''type'' \<noteq> PStr ''upstream_error'' then Inr None
               else let msg = (if py_truthy (dict_get e ''message'') then py_str (dict_get e ''message'')
                               else ''upstream stream failed'') in
                 (case py_int (dict_get e ''code'') of
                    Inr n \<Rightarrow> Inr (Some (Some n, msg))
                  | Inl OverflowError \<Rightarrow> Inl OverflowError
                  | Inl x \<Rightarrow> Inr (Some (None, msg)))
           | _ \<Rightarrow> Inr None)
      | _ \<Rightarrow> Inr None)"

text \<open>\<open>_cluster_error_event\<close>\<close>

definition error_event :: "(pyval \<Rightarrow> string) \<Rightarrow> fexc \<Rightarrow> string" where
  "error_event dumps e = ''data: '' @ dumps (PDict [(''error'', PDict
     ([(''message'', PStr (exc_text (kind_of e))), (''type'', PStr ''upstream_error'')] @
      (case kind_of e of HttpStatus c m \<Rightarrow> [(''code'', PInt c)] | _ \<Rightarrow> [])))]) @ newline2"

section \<open>The streamed relay\<close>

type_synonym stream = "string list \<times> fexc option"

record relay_env =
  re_loads :: "string \<Rightarrow> pyval option"
  re_dumps :: "pyval \<Rightarrow> string"
  re_open :: "member \<Rightarrow> fexc + stream"

text \<open>\<open>out\<close>: what the client receives; \<open>closed\<close>: the replicas whose stream was closed, in order;
  \<open>served\<close>: the replica that committed output; \<open>raised\<close>: the exception that ends the relay.\<close>

record outcome =
  out :: "string list"
  closed :: "member list"
  served :: "member option"
  raised :: "fexc option"

definition finish :: "string list \<Rightarrow> outcome" where
  "finish cs = \<lparr>out = cs, closed = [], served = None, raised = None\<rparr>"

definition then_closed :: "member \<Rightarrow> outcome \<Rightarrow> outcome" where
  "then_closed m r = r\<lparr>closed := m # closed r\<rparr>"

definition empty_failure :: fexc where
  "empty_failure = Exc (ReplicaUnavailable ''replica stream ended before its first event'') None"

fun relay_next :: "relay_env \<Rightarrow> member list \<Rightarrow> fexc option \<Rightarrow> string option \<Rightarrow> outcome"
and relay_cur :: "relay_env \<Rightarrow> member \<Rightarrow> stream \<Rightarrow> member list \<Rightarrow> fexc option \<Rightarrow> string option \<Rightarrow> outcome" where
  "relay_next env [] failure terminal =
     finish ((case terminal of Some t \<Rightarrow> [t]
              | None \<Rightarrow> (case failure of Some f \<Rightarrow> [error_event (re_dumps env) f] | None \<Rightarrow> [])) @ [done_chunk])"
| "relay_next env (m # ms) failure terminal =
     (case re_open env m of
        Inl e \<Rightarrow>
          if kind_of e = ClientGone then (finish [])\<lparr>raised := Some e\<rparr>
          else if failover_retryable (kind_of e) then relay_next env ms (Some e) terminal
          else finish [error_event (re_dumps env) e, done_chunk]
      | Inr s \<Rightarrow> relay_cur env m s ms failure terminal)"
| "relay_cur env m (cs, ending) ms failure terminal =
     then_closed m (case cs of
        [] \<Rightarrow> (case ending of
            None \<Rightarrow> relay_next env ms (Some empty_failure) terminal
          | Some e \<Rightarrow>
              if kind_of e = ClientGone then (finish [])\<lparr>raised := Some e\<rparr>
              else if failover_retryable (kind_of e) then relay_next env ms (Some e) terminal
              else finish [error_event (re_dumps env) e, done_chunk])
      | c # rest \<Rightarrow>
          if c = [] then relay_next env ms (Some empty_failure) terminal
          else case upstream_error (re_loads env) c of
              Inl x \<Rightarrow> (finish [])\<lparr>raised := Some (Exc OverflowFailed None)\<rparr>
            | Inr (Some (status, msg)) \<Rightarrow>
                if status = None \<or> the status \<ge> 500
                then relay_next env ms (Some (Exc (ReplicaUnavailable msg) None)) (Some c)
                else (finish (c # rest))\<lparr>served := Some m, raised := ending\<rparr>
            | Inr None \<Rightarrow> (finish (c # rest))\<lparr>served := Some m, raised := ending\<rparr>)"

text \<open>The first event of a stream commits the replica unless it reports an unavailable upstream.\<close>

definition commits :: "relay_env \<Rightarrow> stream \<Rightarrow> bool" where
  "commits env s = (case s of (c # _, _) \<Rightarrow> c \<noteq> [] \<and>
      (case upstream_error (re_loads env) c of Inl x \<Rightarrow> False | Inr None \<Rightarrow> True
       | Inr (Some (status, msg)) \<Rightarrow> \<not> (status = None \<or> the status \<ge> 500))
    | ([], _) \<Rightarrow> False)"

text \<open>A replica that fails in a way the relay recovers from.\<close>

definition skips_stream :: "relay_env \<Rightarrow> stream \<Rightarrow> bool" where
  "skips_stream env s = (case s of
      ([], None) \<Rightarrow> True
    | ([], Some e) \<Rightarrow> failover_retryable (kind_of e)
    | (c # _, _) \<Rightarrow> c = [] \<or> (case upstream_error (re_loads env) c of
        Inr (Some (status, msg)) \<Rightarrow> status = None \<or> the status \<ge> 500 | _ \<Rightarrow> False))"

definition skips :: "relay_env \<Rightarrow> member \<Rightarrow> bool" where
  "skips env m = (case re_open env m of Inl e \<Rightarrow> failover_retryable (kind_of e) | Inr s \<Rightarrow> skips_stream env s)"

section \<open>One pass over the route\<close>

record 'r pass_env =
  pe_attempt :: "member \<Rightarrow> fexc + 'r"
  pe_cancelled :: "nat \<Rightarrow> bool"
  pe_clock :: "nat \<Rightarrow> rat"
  pe_deadline :: "rat option"
  pe_pinned :: bool

definition no_member :: fexc where
  "no_member = Exc (LookupFailed ''cluster deployment has no inference member'') None"

definition window_closed :: fexc where
  "window_closed = Exc (ReplicaUnavailable ''no member became ready within the ride-through window'') None"

text \<open>The loop of \<open>_proxy_cluster_inference_once\<close>; the second component is the flag
  \<open>unsafe_to_replay\<close> of the pass state.\<close>

fun once_pass :: "'r pass_env \<Rightarrow> nat \<Rightarrow> member list \<Rightarrow> bool \<Rightarrow> (fexc + member \<times> member list \<times> 'r) \<times> bool" where
  "once_pass env i [] unsafe = (Inl no_member, unsafe)"
| "once_pass env i (m # ms) unsafe =
     (if pe_cancelled env i then (Inl (Exc ClientGone None), unsafe)
      else if pe_deadline env \<noteq> None \<and> i \<noteq> 0 \<and> pe_clock env i \<ge> the (pe_deadline env)
      then (Inl window_closed, unsafe)
      else case pe_attempt env m of
        Inr r \<Rightarrow> (Inr (m, ms, r), unsafe)
      | Inl e \<Rightarrow>
          if kind_of e = ClientGone then (Inl e, unsafe)
          else let unsafe' = (unsafe \<or> \<not> ride_retryable e) in
            if pe_pinned env \<and> failover_retryable (kind_of e)
            then (Inl (Exc (RuntimeFailed (''source-IP routing target is unavailable: '' @ exc_text (kind_of e))) (Some e)), unsafe')
            else if ms = [] \<or> \<not> failover_retryable (kind_of e) then (Inl e, unsafe')
            else once_pass env (Suc i) ms unsafe')"

section \<open>Ride-through\<close>

record 'r ride_env =
  ri_pass :: "nat \<Rightarrow> bool \<Rightarrow> (fexc + 'r) \<times> bool"
  ri_duration :: "nat \<Rightarrow> rat"
  ri_cancelled :: "nat \<Rightarrow> bool"
  ri_pinned :: bool

definition first_pause :: rat where "first_pause = 1 / 2"
definition max_pause :: rat where "max_pause = 2"

text \<open>\<open>proxy_cluster_inference\<close>: \<open>i\<close> counts the passes, \<open>now\<close> is the clock, \<open>flag\<close> the pass state.  The
  result carries the number of passes that ran; \<open>None\<close> means that the fuel did not suffice.\<close>

fun ride :: "'r ride_env \<Rightarrow> rat \<Rightarrow> nat \<Rightarrow> nat \<Rightarrow> rat \<Rightarrow> rat \<Rightarrow> bool \<Rightarrow> ((fexc + 'r) \<times> nat) option" where
  "ride env deadline 0 i now pause flag = None"
| "ride env deadline (Suc fuel) i now pause flag =
     (case ri_pass env i flag of
        (Inr r, flag') \<Rightarrow> Some (Inr r, Suc i)
      | (Inl e, flag') \<Rightarrow>
          let now' = now + ri_duration env i; remaining = deadline - now' in
          if ri_pinned env \<or> remaining \<le> 0 \<or> ri_cancelled env i \<or> \<not> ride_retryable e \<or> flag'
          then Some (Inl e, Suc i)
          else ride env deadline fuel (Suc i) (now' + min pause remaining) (min (pause * 2) max_pause) flag')"

section \<open>Lemmas\<close>

lemma then_closed_simps [simp]: "out (then_closed m r) = out r" "served (then_closed m r) = served r"
  "raised (then_closed m r) = raised r" "closed (then_closed m r) = m # closed r"
  by (simp_all add: then_closed_def)

lemma finish_simps [simp]: "out (finish cs) = cs" "served (finish cs) = None" "raised (finish cs) = None"
  "closed (finish cs) = []"
  by (simp_all add: finish_def)

text \<open>The replicas whose stream was opened: a sublist of the candidates, each closed once.\<close>

definition opens :: "relay_env \<Rightarrow> member \<Rightarrow> bool" where
  "opens env m = (case re_open env m of Inl e \<Rightarrow> False | Inr s \<Rightarrow> True)"

lemma relay_closed:
  "\<exists>n. closed (relay_next env ms f t) = filter (opens env) (take n ms)"
  "\<exists>n. closed (relay_cur env m s ms f t) = m # filter (opens env) (take n ms)"
proof (induction env ms f t and env m s ms f t rule: relay_next_relay_cur.induct)
  case (1 env f t)
  show ?case by simp
next
  case (2 env m ms f t)
  show ?case
  proof (cases "re_open env m")
    case (Inl e)
    show ?thesis
    proof (cases "kind_of e \<noteq> ClientGone \<and> failover_retryable (kind_of e)")
      case True
      then obtain n where "closed (relay_next env ms (Some e) t) = filter (opens env) (take n ms)"
        using 2(1)[OF Inl] by blast
      moreover have "\<not> opens env m" using Inl by (simp add: opens_def)
      ultimately show ?thesis using Inl True by (intro exI[of _ "Suc n"]) simp
    next
      case False
      then have "closed (relay_next env (m # ms) f t) = []" using Inl by auto
      then show ?thesis by (intro exI[of _ 0]) simp
    qed
  next
    case (Inr s)
    then obtain n where "closed (relay_cur env m s ms f t) = m # filter (opens env) (take n ms)"
      using 2(2) by blast
    moreover have "opens env m" using Inr by (simp add: opens_def)
    ultimately show ?thesis using Inr by (intro exI[of _ "Suc n"]) simp
  qed
next
  case (3 env m cs ending ms f t)
  have stop: "\<exists>n. [] = filter (opens env) (take n ms)" by (rule exI[of _ 0]) simp
  show ?case
  proof (cases cs)
    case Nil
    then show ?thesis using 3(1,2) stop by (cases ending) auto
  next
    case (Cons c rest)
    show ?thesis
    proof (cases "c = []")
      case True
      then show ?thesis using 3(3)[OF Cons] Cons by simp
    next
      case c: False
      show ?thesis
      proof (cases "upstream_error (re_loads env) c")
        case (Inl x)
        then show ?thesis using Cons c stop by simp
      next
        case (Inr v)
        then show ?thesis
        proof (cases v)
          case (Some p)
          obtain st msg where p: "p = (st, msg)" by (cases p)
          show ?thesis
          proof (cases "st = None \<or> the st \<ge> 500")
            case True
            then show ?thesis using 3(4)[OF Cons c Inr Some p[symmetric]] Cons c Inr Some p by simp
          next
            case False
            then have e: "closed (relay_cur env m (cs, ending) ms f t) = [m]" using Cons c Inr Some p by auto
            show ?thesis unfolding e by (rule exI[of _ 0]) simp
          qed
        qed (use Cons c stop in simp)
      qed
    qed
  qed
qed

text \<open>What the client gets is the stream of one replica, or an error ending.\<close>

definition single_source :: "relay_env \<Rightarrow> member list \<Rightarrow> outcome \<Rightarrow> bool" where
  "single_source env ms r \<longleftrightarrow>
     (case served r of
        Some m \<Rightarrow> m \<in> set ms \<and> (\<exists>s. re_open env m = Inr s \<and> out r = fst s \<and> raised r = snd s \<and> commits env s)
      | None \<Rightarrow> (out r = [] \<and> raised r \<noteq> None) \<or> (raised r = None \<and> out r \<noteq> [] \<and> last (out r) = done_chunk \<and> length (out r) \<le> 2))"

lemma single_source_mono: "single_source env ms r \<Longrightarrow> set ms \<subseteq> set ms' \<Longrightarrow> single_source env ms' r"
  by (auto simp: single_source_def split: option.splits)

lemma single_source_closed [simp]: "single_source env ms (then_closed m r) = single_source env ms r"
  by (simp add: single_source_def split: option.split)

lemma relay_single_source:
  "single_source env ms (relay_next env ms f t)"
  "re_open env m = Inr s \<Longrightarrow> single_source env (m # ms) (relay_cur env m s ms f t)"
proof (induction env ms f t and env m s ms f t rule: relay_next_relay_cur.induct)
  case (1 env f t)
  show ?case by (auto simp: single_source_def split: option.split)
next
  case (2 env m ms f t)
  show ?case
  proof (cases "re_open env m")
    case (Inl e)
    show ?thesis
    proof (cases "kind_of e \<noteq> ClientGone \<and> failover_retryable (kind_of e)")
      case True
      then have "single_source env ms (relay_next env ms (Some e) t)" using 2(1)[OF Inl] by blast
      then show ?thesis using Inl True by (auto intro: single_source_mono)
    next
      case False
      then show ?thesis using Inl by (auto simp: single_source_def)
    qed
  next
    case (Inr s)
    then show ?thesis using 2(2)[OF Inr Inr] by simp
  qed
next
  case (3 env m cs ending ms f t)
  have up: "single_source env ms r \<Longrightarrow> single_source env (m # ms) r" for r
    by (rule single_source_mono) auto
  show ?case
  proof (cases cs)
    case Nil
    then show ?thesis using 3(1,2)[THEN up] by (cases ending) (auto simp: single_source_def[of _ _ "finish _"] single_source_def[of _ _ "raised_update _ _"])
  next
    case (Cons c rest)
    show ?thesis
    proof (cases "c = []")
      case True
      then show ?thesis using 3(3)[OF Cons, THEN up] Cons by simp
    next
      case c: False
      show ?thesis
      proof (cases "upstream_error (re_loads env) c")
        case (Inl x)
        then show ?thesis using Cons c by (simp add: single_source_def)
      next
        case (Inr v)
        show ?thesis
        proof (cases v)
          case None
          then show ?thesis using Cons c Inr 3(5) by (simp add: single_source_def commits_def)
        next
          case (Some p)
          obtain st msg where p: "p = (st, msg)" by (cases p)
          show ?thesis
          proof (cases "st = None \<or> the st \<ge> 500")
            case True
            then show ?thesis using 3(4)[OF Cons c Inr Some p[symmetric], THEN up] Cons c Inr Some p by simp
          next
            case False
            then show ?thesis using Cons c Inr Some p 3(5) by (auto simp: single_source_def commits_def)
          qed
        qed
      qed
    qed
  qed
qed

text \<open>Retryable failures are stepped over.\<close>

lemma client_gone_not_retryable: "failover_retryable (kind_of e) \<Longrightarrow> kind_of e \<noteq> ClientGone"
  by auto

lemma relay_skip:
  assumes "skips env m"
  shows "\<exists>f' t'. served (relay_next env (m # ms) f t) = served (relay_next env ms f' t') \<and>
    out (relay_next env (m # ms) f t) = out (relay_next env ms f' t')"
proof (cases "re_open env m")
  case (Inl e)
  then have "failover_retryable (kind_of e)" using assms by (simp add: skips_def)
  then show ?thesis using Inl client_gone_not_retryable by auto
next
  case (Inr s)
  obtain cs ending where s: "s = (cs, ending)" by (cases s)
  have k: "skips_stream env (cs, ending)" using assms Inr s by (simp add: skips_def)
  show ?thesis
  proof (cases cs)
    case Nil
    show ?thesis
    proof (cases ending)
      case None
      then show ?thesis using Inr s Nil by auto
    next
      case (Some e)
      then have "failover_retryable (kind_of e)" using k Nil by (simp add: skips_stream_def)
      then show ?thesis using Inr s Nil Some client_gone_not_retryable by auto
    qed
  next
    case (Cons c rest)
    then show ?thesis
      using Inr s k by (auto simp: skips_stream_def split: sum.splits option.splits prod.splits)
  qed
qed

lemma relay_finds:
  assumes "\<forall>x \<in> set pre. skips env x" "re_open env m = Inr s" "commits env s"
  shows "served (relay_next env (pre @ m # post) f t) = Some m \<and> out (relay_next env (pre @ m # post) f t) = fst s"
  using assms(1)
proof (induction pre arbitrary: f t)
  case Nil
  obtain cs ending where s: "s = (cs, ending)" by (cases s)
  obtain c rest where c: "cs = c # rest" using assms(3) s by (auto simp: commits_def split: list.splits)
  have "c \<noteq> []" using assms(3) s c by (simp add: commits_def)
  then show ?case using assms s c
    by (auto simp: commits_def split: sum.splits option.splits prod.splits)
next
  case (Cons x pre)
  obtain f' t' where "served (relay_next env (x # pre @ m # post) f t) = served (relay_next env (pre @ m # post) f' t')"
    "out (relay_next env (x # pre @ m # post) f t) = out (relay_next env (pre @ m # post) f' t')"
    using relay_skip[of env x "pre @ m # post" f t] Cons.prems by auto
  then show ?case using Cons.IH[of f' t'] Cons.prems by simp
qed

text \<open>Every pass of the ride-through loop but the last failed before the prompt was dispatched.\<close>

lemma ride_passes:
  "ride env deadline fuel i now pause flag = Some (r, n) \<Longrightarrow> \<exists>fl. fl i = flag \<and> i < n \<and>
     (\<forall>k. i \<le> k \<and> Suc k < n \<longrightarrow> (\<exists>e. ri_pass env k (fl k) = (Inl e, False) \<and> ride_retryable e \<and> fl (Suc k) = False)) \<and>
     fst (ri_pass env (n - 1) (fl (n - 1))) = r"
proof (induction env deadline fuel i now pause flag rule: ride.induct)
  case (2 env deadline fuel i now pause flag)
  obtain p flag' where p: "ri_pass env i flag = (p, flag')" by (cases "ri_pass env i flag")
  show ?case
  proof (cases "n = Suc i")
    case True
    have "fst (ri_pass env i flag) = r"
    proof (cases p)
      case (Inl e)
      show ?thesis
      proof (cases "ri_pinned env \<or> deadline - (now + ri_duration env i) \<le> 0 \<or> ri_cancelled env i \<or>
          \<not> ride_retryable e \<or> flag'")
        case True
        then show ?thesis using 2(2) p Inl by (simp add: Let_def)
      next
        case False
        then have "ride env deadline fuel (Suc i) (now + ri_duration env i + min pause (deadline - (now + ri_duration env i)))
            (min (pause * 2) max_pause) flag' = Some (r, n)"
          using 2(2) p Inl by (simp add: Let_def)
        from 2(1)[OF p[symmetric] Inl refl refl False this] have "Suc i < n" by blast
        then show ?thesis using True by simp
      qed
    qed (use 2(2) p in simp)
    then show ?thesis using True by (intro exI[of _ "\<lambda>_. flag"]) auto
  next
    case n: False
    obtain e where Inl: "p = Inl e" using 2(2) p n by (cases p) auto
    have F: "\<not> (ri_pinned env \<or> deadline - (now + ri_duration env i) \<le> 0 \<or> ri_cancelled env i \<or>
          \<not> ride_retryable e \<or> flag')"
      using 2(2) p Inl n by (auto simp: Let_def split: if_splits)
    then have "ride env deadline fuel (Suc i) (now + ri_duration env i + min pause (deadline - (now + ri_duration env i)))
            (min (pause * 2) max_pause) flag' = Some (r, n)"
      using 2(2) p Inl by (simp add: Let_def)
    from 2(1)[OF p[symmetric] Inl refl refl F this] obtain fl where fl: "fl (Suc i) = flag'" "Suc i < n"
      "\<forall>k. Suc i \<le> k \<and> Suc k < n \<longrightarrow> (\<exists>e. ri_pass env k (fl k) = (Inl e, False) \<and> ride_retryable e \<and> fl (Suc k) = False)"
      "fst (ri_pass env (n - 1) (fl (n - 1))) = r" by blast
    let ?fl = "fl(i := flag)"
    have "\<exists>e. ri_pass env k (?fl k) = (Inl e, False) \<and> ride_retryable e \<and> ?fl (Suc k) = False"
      if "i \<le> k \<and> Suc k < n" for k
    proof (cases "k = i")
      case True
      then show ?thesis using p Inl F fl(1) by auto
    next
      case False
      then show ?thesis using fl(3) that by auto
    qed
    then show ?thesis using fl(2,4) by (intro exI[of _ ?fl]) auto
  qed
qed simp

lemma ride_enough:
  assumes "\<And>k. 0 \<le> ri_duration env k" "1 / 2 \<le> pause"
    and "deadline - now \<le> of_nat k / 2" "Suc k < fuel"
  shows "ride env deadline fuel i now pause flag \<noteq> None"
  using assms(2-4)
proof (induction k arbitrary: fuel i now pause flag)
  case 0
  obtain f where f: "fuel = Suc f" using 0(3) by (cases fuel) auto
  have "deadline - (now + ri_duration env i) \<le> 0" using 0(2) assms(1)[of i] by simp
  then show ?case unfolding f by (auto simp: Let_def split: prod.splits sum.splits)
next
  case (Suc k)
  obtain f where f: "fuel = Suc f" using Suc.prems(3) by (cases fuel) auto
  let ?now = "now + ri_duration env i"
  let ?rem = "deadline - ?now"
  have next_ok: "ride env deadline f (Suc i) (?now + min pause ?rem) (min (pause * 2) max_pause) flag' \<noteq> None"
    if "0 < ?rem" for flag'
  proof (rule Suc.IH)
    show "1 / 2 \<le> min (pause * 2) max_pause" using Suc.prems(1) by (simp add: max_pause_def)
    show "deadline - (?now + min pause ?rem) \<le> of_nat k / 2"
    proof (cases "pause \<le> ?rem")
      case True
      then show ?thesis using Suc.prems(1,2) assms(1)[of i] by (simp add: add_divide_distrib)
    next
      case False
      then show ?thesis by simp
    qed
    show "Suc k < f" using Suc.prems(3) f by simp
  qed
  then show ?case unfolding f by (auto simp: Let_def split: prod.splits sum.splits)
qed

text \<open>A pass reports every failure after dispatch.\<close>

lemma once_pass_flag:
  "once_pass env i ms unsafe = (r, flag) \<Longrightarrow> \<exists>n. n \<le> length ms \<and>
     (\<forall>m \<in> set (take n ms). \<exists>e. pe_attempt env m = Inl e \<and> kind_of e \<noteq> ClientGone) \<and>
     (flag \<longleftrightarrow> unsafe \<or> (\<exists>m \<in> set (take n ms). \<exists>e. pe_attempt env m = Inl e \<and> \<not> ride_retryable e)) \<and>
     (\<forall>m ms' x. r = Inr (m, ms', x) \<longrightarrow> ms = take n ms @ m # ms' \<and> pe_attempt env m = Inr x)"
proof (induction env i ms unsafe rule: once_pass.induct)
  case (1 env i unsafe)
  then show ?case by auto
next
  case (2 env i m ms unsafe)
  have zero: ?case if "(\<forall>a. r \<noteq> Inr a)" "flag = unsafe" using that by (intro exI[of _ 0]) auto
  consider (stop) "pe_cancelled env i \<or> (pe_deadline env \<noteq> None \<and> i \<noteq> 0 \<and> pe_clock env i \<ge> the (pe_deadline env))"
    | (go) "\<not> pe_cancelled env i" "\<not> (pe_deadline env \<noteq> None \<and> i \<noteq> 0 \<and> pe_clock env i \<ge> the (pe_deadline env))"
    by blast
  then show ?case
  proof cases
    case stop
    then have "(\<forall>a. r \<noteq> Inr a) \<and> flag = unsafe" using 2(2) by (auto split: if_splits)
    then show ?thesis using zero by blast
  next
    case go
    show ?thesis
    proof (cases "pe_attempt env m")
      case (Inr x)
      then show ?thesis using 2(2) go by (intro exI[of _ 0]) (auto split: if_splits)
    next
      case (Inl e)
      show ?thesis
      proof (cases "kind_of e = ClientGone")
        case True
        then have "(\<forall>a. r \<noteq> Inr a) \<and> flag = unsafe" using 2(2) go Inl by (auto split: if_splits)
        then show ?thesis using zero by blast
      next
        case ne: False
        let ?u = "unsafe \<or> \<not> ride_retryable e"
        show ?thesis
        proof (cases "(pe_pinned env \<and> failover_retryable (kind_of e)) \<or> ms = [] \<or> \<not> failover_retryable (kind_of e)")
          case True
          then have "(\<forall>a. r \<noteq> Inr a) \<and> flag = ?u" using 2(2) go Inl ne by (auto simp: Let_def split: if_splits)
          then show ?thesis using Inl ne by (intro exI[of _ 1]) auto
        next
          case False
          then have "once_pass env (Suc i) ms ?u = (r, flag)"
            using 2(2) go Inl ne by (simp add: Let_def split: if_splits)
          from 2(1)[OF go Inl ne refl _ _ this] False obtain n where n: "n \<le> length ms"
            "\<forall>m \<in> set (take n ms). \<exists>e. pe_attempt env m = Inl e \<and> kind_of e \<noteq> ClientGone"
            "flag \<longleftrightarrow> ?u \<or> (\<exists>m \<in> set (take n ms). \<exists>e. pe_attempt env m = Inl e \<and> \<not> ride_retryable e)"
            "\<forall>m ms' x. r = Inr (m, ms', x) \<longrightarrow> ms = take n ms @ m # ms' \<and> pe_attempt env m = Inr x"
            by blast
          show ?thesis by (rule exI[of _ "Suc n"]) (use n Inl ne in auto)
        qed
      qed
    qed
  qed
qed

section \<open>Properties\<close>


text \<open>C13: failover is complete: if every candidate before \<open>m\<close> fails in a retryable way (cannot be
  opened, ends before its first event, or starts with an upstream error of the 5xx kind) and \<open>m\<close>
  starts with a real event, then \<open>m\<close> serves the request and the client gets its whole stream.\<close>

theorem relay_failover_complete:
  assumes "\<forall>x \<in> set pre. skips env x" and "re_open env m = Inr s" and "commits env s"
  shows "served (relay_next env (pre @ m # post) f t) = Some m \<and>
    out (relay_next env (pre @ m # post) f t) = fst s"
  using relay_finds[OF assms] by blast

definition demo_relay :: relay_env where
  "demo_relay = \<lparr>re_loads = (\<lambda>_. None), re_dumps = (\<lambda>_. []), re_open = (\<lambda>m.
     if m_id m = 0 then Inl (Exc (TimedOut ''slow'') None) else Inr ([''hello'', ''world''], None))\<rparr>"

theorem relay_failover_complete_witness:
  "served (relay_next demo_relay [demo_member 0, demo_member 1, demo_member 2] None None) = Some (demo_member 1) \<and>
   out (relay_next demo_relay [demo_member 0, demo_member 1, demo_member 2] None None) = [''hello'', ''world'']"
proof -
  have h: "\<forall>x \<in> set [demo_member 0]. skips demo_relay x"
    "re_open demo_relay (demo_member 1) = Inr ([''hello'', ''world''], None)"
    "commits demo_relay ([''hello'', ''world''], None)"
    by (simp_all add: skips_def demo_relay_def commits_def upstream_error_def data_prefix_def)
  from relay_failover_complete[OF h, of "[demo_member 2]" None None] show ?thesis by simp
qed

text \<open>one pass over the route marks the request unsafe to replay exactly when the mark was set
  before or one of the replicas it tried failed after dispatch (its failure does not prove that the
  prompt was not sent); the candidates it tried are a prefix of the route.\<close>

theorem pass_marks_unsafe:
  assumes "once_pass env i ms unsafe = (r, flag)"
  shows "\<exists>n. n \<le> length ms \<and>
    (\<forall>m \<in> set (take n ms). \<exists>e. pe_attempt env m = Inl e \<and> kind_of e \<noteq> ClientGone) \<and>
    (flag \<longleftrightarrow> unsafe \<or> (\<exists>m \<in> set (take n ms). \<exists>e. pe_attempt env m = Inl e \<and> \<not> ride_retryable e)) \<and>
    (\<forall>m ms' x. r = Inr (m, ms', x) \<longrightarrow> ms = take n ms @ m # ms' \<and> pe_attempt env m = Inr x)"
  using once_pass_flag[OF assms] .

definition demo_pass :: "nat pass_env" where
  "demo_pass = \<lparr>pe_attempt = (\<lambda>m. if m_id m = 0 then Inl (Exc (HttpStatus 502 ''bad'') None) else Inr 7),
     pe_cancelled = (\<lambda>_. False), pe_clock = (\<lambda>_. 0), pe_deadline = Some 15, pe_pinned = False\<rparr>"

theorem pass_marks_unsafe_witness:
  "once_pass demo_pass 0 [demo_member 0, demo_member 1] False = (Inr (demo_member 1, [], 7), True) \<and>
   (\<exists>n. \<exists>m \<in> set (take n [demo_member 0, demo_member 1]). \<exists>e. pe_attempt demo_pass m = Inl e \<and> \<not> ride_retryable e)"
proof -
  have p: "once_pass demo_pass 0 [demo_member 0, demo_member 1] False = (Inr (demo_member 1, [], 7), True)"
    by (simp add: demo_pass_def ride_retryable_def is_connect_def)
  from pass_marks_unsafe[OF p] p show ?thesis by blast
qed

text \<open>C14: the ride-through loop ends and never replays a dispatched prompt: with a window of \<open>w\<close>
  seconds, \<open>k + 2\<close> passes with \<open>2 * w \<le> k\<close> always suffice, and every pass but the last failed with
  proof that no engine received the prompt and without the unsafe mark.\<close>

theorem ride_through_safe:
  assumes "\<And>i. 0 \<le> ri_duration env i" and "2 * w \<le> of_nat k"
  shows "\<exists>r n fl. ride env (now + w) (k + 2) 0 now first_pause False = Some (r, n) \<and> 0 < n \<and> fl 0 = False \<and>
    (\<forall>i. Suc i < n \<longrightarrow> (\<exists>e. ri_pass env i (fl i) = (Inl e, False) \<and> ride_retryable e \<and> fl (Suc i) = False)) \<and>
    fst (ri_pass env (n - 1) (fl (n - 1))) = r"
proof -
  have "ride env (now + w) (k + 2) 0 now first_pause False \<noteq> None"
    by (rule ride_enough[OF assms(1), where k = k]) (use assms(2) in \<open>simp_all add: first_pause_def\<close>)
  then obtain r n where r: "ride env (now + w) (k + 2) 0 now first_pause False = Some (r, n)" by auto
  from ride_passes[OF r] show ?thesis using r by auto
qed

definition demo_ride :: "nat ride_env" where
  "demo_ride = \<lparr>ri_pass = (\<lambda>i flag. if i = 0 then (Inl (Exc (ConnectFailed ''refused'') None), flag) else (Inr 1, flag)),
     ri_duration = (\<lambda>_. 1), ri_cancelled = (\<lambda>_. False), ri_pinned = False\<rparr>"

theorem ride_through_safe_witness:
  "\<exists>r n. ride demo_ride (0 + 15) (30 + 2) 0 0 first_pause False = Some (r, n) \<and> 0 < n"
  using ride_through_safe[of demo_ride 15 30 0] by (auto simp: demo_ride_def)

end
