(* ===== verification/Source_Routing.thy ===== *)
theory Source_Routing imports Cluster_Routing "HOL-Library.Char_ord" "HOL-Library.List_Lexorder"
begin

text \<open>
  Source-IP routing (\<open>manager.py\<close>, \<open>_canonical_source_routing_ip\<close> to \<open>source_ip_routing_target\<close>,
  and \<open>_source_route_candidates\<close>): persisted rules that pin the requests of one client address and
  model to one serving unit.

  \<open>ip\<close> stands for \<open>str(ipaddress.ip_address(text))\<close>, \<open>None\<close> when it raises; \<open>parse\<close> and \<open>print\<close> for
  \<open>json.loads\<close> and \<open>json.dumps\<close>.  What the theorems need of them is stated as a hypothesis.
\<close>

section \<open>Rules\<close>

record rule =
  ru_ip :: string
  ru_model :: string
  ru_enabled :: bool
  ru_deployment :: string
  ru_instance :: "int option"
  ru_nodes :: "string list"

definition ip_message :: string where
  "ip_message = ''source_ip must be an exact IPv4 or IPv6 address''"

definition canonical_ip :: "(string \<Rightarrow> string option) \<Rightarrow> pyval \<Rightarrow> string result" where
  "canonical_ip ip v = (let raw = text_field v in
     if raw = [] \<or> py_casefold raw = ''unknown'' \<or> CHR ''/'' \<in> set raw \<or> CHR ''%'' \<in> set raw
     then Inl (ValueError ip_message)
     else case ip raw of None \<Rightarrow> Inl (ValueError ip_message) | Some s \<Rightarrow> Inr s)"

definition nul :: char where
  "nul = char_of (0 :: nat)"

definition routing_key :: "string \<Rightarrow> string \<Rightarrow> string" where
  "routing_key a m = a @ nul # m"

definition routing_model :: "pyval \<Rightarrow> string result" where
  "routing_model v = (let m = text_field v in
     if m = [] \<or> length m > 512
     then Inl (ValueError ''requested_model must be a non-empty exact request model id'') else Inr m)"

fun rule_instance :: "pyval \<Rightarrow> int option result" where
  "rule_instance PNone = Inr None"
| "rule_instance (PInt i) = (if i < 0
     then Inl (ValueError ''instance_id must be a non-negative integer or null'') else Inr (Some i))"
| "rule_instance _ = Inl (ValueError ''instance_id must be a non-negative integer or null'')"

definition rule_nodes :: "pyval \<Rightarrow> string list result" where
  "rule_nodes v = (case v of
     PList (x # xs) \<Rightarrow> let ns = map text_field (x # xs) in
       if [] \<in> set ns then Inl (ValueError ''node_ids must not contain empty values'')
       else if \<not> distinct ns then Inl (ValueError ''node_ids must not contain duplicates'')
       else Inr ns
   | _ \<Rightarrow> Inl (ValueError ''node_ids must be a non-empty rank-ordered list''))"

text \<open>\<open>_normalize_source_ip_routing_rule\<close>\<close>

definition normalize_rule :: "(string \<Rightarrow> string option) \<Rightarrow> pyval \<Rightarrow> rule result" where
  "normalize_rule ip v = (case v of
     PDict d \<Rightarrow>
       bindE (canonical_ip ip (dict_get d ''source_ip'')) (\<lambda>a.
       bindE (routing_model (dict_get d ''requested_model'')) (\<lambda>m.
       bindE (case dict_get d ''enabled'' of PBool b \<Rightarrow> Inr b | _ \<Rightarrow> Inl (ValueError ''enabled must be a boolean'')) (\<lambda>e.
       let dep = text_field (dict_get d ''deployment_id'') in
       if dep = [] then Inl (ValueError ''deployment_id is required'')
       else bindE (rule_instance (dict_get d ''instance_id'')) (\<lambda>i.
            bindE (rule_nodes (dict_get d ''node_ids'')) (\<lambda>ns.
            Inr \<lparr>ru_ip = a, ru_model = m, ru_enabled = e, ru_deployment = dep, ru_instance = i, ru_nodes = ns\<rparr>)))))
   | _ \<Rightarrow> Inl (ValueError ''routing rule must be an object''))"

definition rule_json :: "rule \<Rightarrow> pyval" where
  "rule_json r = PDict [(''source_ip'', PStr (ru_ip r)), (''requested_model'', PStr (ru_model r)),
     (''enabled'', PBool (ru_enabled r)), (''deployment_id'', PStr (ru_deployment r)),
     (''instance_id'', (case ru_instance r of None \<Rightarrow> PNone | Some i \<Rightarrow> PInt i)),
     (''node_ids'', PList (map PStr (ru_nodes r)))]"

section \<open>Persistence\<close>

type_synonym rules = "(string, rule) dict"

definition rule_key :: "rule \<Rightarrow> string" where
  "rule_key r = routing_key (ru_ip r) (ru_model r)"

text \<open>The configuration file: cannot be inspected, absent, cannot be read, or its text.\<close>

datatype config_file = NoInspect string | Absent | NoRead string | Content string

text \<open>The loop over the rows of the file, at row \<open>i\<close>.\<close>

fun load_rows :: "(string \<Rightarrow> string option) \<Rightarrow> nat \<Rightarrow> pyval list \<Rightarrow> rules \<Rightarrow> rules result" where
  "load_rows ip i [] acc = Inr acc"
| "load_rows ip i (row # rows) acc =
     (case normalize_rule ip row of
        Inl (ValueError m) \<Rightarrow> Inl (ValueError (''rule '' @ dec_nat i @ '' is invalid: '' @ m))
      | Inl e \<Rightarrow> Inl e
      | Inr r \<Rightarrow>
          if rule_key r \<in> fst ` set acc
          then Inl (ValueError (''rule '' @ dec_nat i @ '' duplicates an earlier rule''))
          else load_rows ip (Suc i) rows (acc @ [(rule_key r, r)]))"

definition load_payload :: "(string \<Rightarrow> string option) \<Rightarrow> pyval \<Rightarrow> rules result" where
  "load_payload ip v = (case v of
     PDict d \<Rightarrow>
       if \<not> py_eq_int (dict_get d ''version'') 1
       then Inl (ValueError (''unsupported version '' @ py_repr (dict_get d ''version'')))
       else (case dict_get d ''rules'' of
          PList rows \<Rightarrow> load_rows ip 0 rows []
        | _ \<Rightarrow> Inl (ValueError ''rules must be an array''))
   | _ \<Rightarrow> Inl (ValueError ''root must be an object''))"

fun error_text :: "pyexc \<Rightarrow> string" where
  "error_text (ValueError m) = m"
| "error_text (TypeError m) = m"
| "error_text _ = []"

text \<open>\<open>_load_source_ip_routing_rules\<close>: the rules and the recorded error.\<close>

definition load_rules :: "(string \<Rightarrow> string option) \<Rightarrow> (string \<Rightarrow> pyval option) \<Rightarrow> config_file \<Rightarrow>
    rules \<times> string option" where
  "load_rules ip parse f = (case f of
     NoInspect m \<Rightarrow> ([], Some (''source-IP routing configuration cannot be inspected: '' @ m))
   | Absent \<Rightarrow> ([], None)
   | NoRead m \<Rightarrow> ([], Some (''source-IP routing configuration cannot be read: '' @ m))
   | Content raw \<Rightarrow> (case parse raw of
       None \<Rightarrow> ([], Some ''source-IP routing configuration is not valid JSON'')
     | Some v \<Rightarrow> (case load_payload ip v of
         Inr rs \<Rightarrow> (rs, None)
       | Inl e \<Rightarrow> ([], Some (''source-IP routing configuration is invalid: '' @ error_text e)))))"

definition sorted_rules :: "rules \<Rightarrow> rule list" where
  "sorted_rules rs = sort_key (\<lambda>r. (ru_ip r, ru_model r)) (map snd rs)"

definition rules_payload :: "rules \<Rightarrow> pyval" where
  "rules_payload rs = PDict [(''version'', PInt 1), (''rules'', PList (map rule_json (sorted_rules rs)))]"

definition save_rules :: "(pyval \<Rightarrow> string) \<Rightarrow> rules \<Rightarrow> config_file" where
  "save_rules print rs = Content (print (rules_payload rs))"

section \<open>The table\<close>

record source_state =
  ss_rules :: rules
  ss_error :: "string option"
  ss_index :: "(string, rule list) dict"

definition index_rules :: "rules \<Rightarrow> (string, rule list) dict" where
  "index_rules rs = foldl (\<lambda>ix r. AList.update (ru_ip r)
     ((case map_of ix (ru_ip r) of None \<Rightarrow> [] | Some l \<Rightarrow> l) @ [r]) ix) [] (map snd rs)"

definition load_state :: "(string \<Rightarrow> string option) \<Rightarrow> (string \<Rightarrow> pyval option) \<Rightarrow> config_file \<Rightarrow> source_state" where
  "load_state ip parse f = (case load_rules ip parse f of (rs, e) \<Rightarrow>
     \<lparr>ss_rules = rs, ss_error = e, ss_index = index_rules rs\<rparr>)"

definition assert_valid :: "source_state \<Rightarrow> unit result" where
  "assert_valid st = (case ss_error st of None \<Rightarrow> Inr ()
     | Some m \<Rightarrow> if m = [] then Inr () else Inl (SourceRoutingUnavailable m))"

definition list_rules :: "source_state \<Rightarrow> rule list result" where
  "list_rules st = bindE (assert_valid st) (\<lambda>_. Inr (sorted_rules (ss_rules st)))"

definition rules_for_source :: "(string \<Rightarrow> string option) \<Rightarrow> source_state \<Rightarrow> pyval \<Rightarrow> rule list result" where
  "rules_for_source ip st v = bindE (assert_valid st) (\<lambda>_.
     case canonical_ip ip v of Inl e \<Rightarrow> Inr []
     | Inr a \<Rightarrow> Inr (case map_of (ss_index st) a of None \<Rightarrow> [] | Some l \<Rightarrow> l))"

definition rule_for :: "(string \<Rightarrow> string option) \<Rightarrow> source_state \<Rightarrow> pyval \<Rightarrow> pyval \<Rightarrow> rule option result" where
  "rule_for ip st src mdl = bindE (assert_valid st) (\<lambda>_.
     case bindE (canonical_ip ip src) (\<lambda>a. bindE (routing_model mdl) (\<lambda>m. Inr (routing_key a m))) of
       Inl e \<Rightarrow> Inr None
     | Inr k \<Rightarrow> Inr (case map_of (ss_rules st) k of
         Some r \<Rightarrow> if ru_enabled r then Some r else None | None \<Rightarrow> None))"

text \<open>Replacing the rule table once the new one was written to disk.\<close>

definition install :: "rules \<Rightarrow> source_state \<Rightarrow> source_state" where
  "install rs st = st\<lparr>ss_rules := rs, ss_error := None, ss_index := index_rules rs\<rparr>"

definition delete_rule :: "(string \<Rightarrow> string option) \<Rightarrow> source_state \<Rightarrow> pyval \<Rightarrow> pyval \<Rightarrow>
    (bool \<times> source_state) result" where
  "delete_rule ip st src mdl = bindE (assert_valid st) (\<lambda>_.
     bindE (canonical_ip ip src) (\<lambda>a. bindE (routing_model mdl) (\<lambda>m.
     let k = routing_key a m in
     if k \<notin> fst ` set (ss_rules st) then Inr (False, st)
     else Inr (True, install (AList.delete k (ss_rules st)) st))))"

section \<open>The pinned serving unit\<close>

record pinned_deployment = deployment +
  pd_record :: "string option"
  pd_desired :: "string option"

definition target_unit :: "pinned_deployment \<Rightarrow> int option \<Rightarrow> string list \<Rightarrow> member list result" where
  "target_unit d inst nodes =
     (let ms = members_sorted (deployment.truncate d); mode = opt_or (dep_mode d) in
      if mode = ''grouped_sharded'' then
        (if inst = None then Inl (ValueError ''instance_id is required for a grouped deployment'')
         else let u = filter (\<lambda>m. m_instance m = inst) ms in
           if u = [] then Inl (LookupError ''source routing target engine group was not found'') else Inr u)
      else if mode = ''replicated'' then
        (if inst \<noteq> None then Inl (ValueError ''instance_id must be null for a replicated deployment'')
         else if length nodes \<noteq> 1 then Inl (ValueError ''a replicated target must identify exactly one node'')
         else let u = filter (\<lambda>m. m_node m = Some (hd nodes)) ms in
           if u = [] then Inl (LookupError ''source routing target replica was not found'') else Inr u)
      else if mode = ''single'' \<or> mode = ''sharded'' then
        (if inst \<noteq> None then Inl (ValueError ''instance_id is only valid for grouped deployments'') else Inr ms)
      else Inl (LookupError ''source routing target deployment mode is unsupported''))"

text \<open>\<open>source_ip_routing_target\<close>\<close>

definition routing_target :: "pinned_deployment list \<Rightarrow> string \<Rightarrow> int option \<Rightarrow> string list \<Rightarrow>
    (pinned_deployment \<times> string list) result" where
  "routing_target ds rid inst nodes = (case find (\<lambda>d. pd_record d = Some rid) ds of
     None \<Rightarrow> Inl (LookupError ''source routing target deployment was not found'')
   | Some d \<Rightarrow> bindE (target_unit d inst nodes) (\<lambda>u.
       let derived = map (\<lambda>m. opt_or (m_node m)) u in
       if derived = [] \<or> [] \<in> set derived
       then Inl (LookupError ''source routing target has no complete serving unit'')
       else if derived \<noteq> nodes
       then Inl (ValueError ''node_ids fingerprint does not match the target serving unit'')
       else Inr (d, derived)))"

text \<open>Live observations the service supplies with a request; \<open>None\<close> where it supplies none.\<close>

record observed_unit =
  ob_replicas :: "(string option \<times> bool option) list option"
  ob_instances :: "(int option \<times> string list \<times> string option \<times> string option) list option"
  ob_members :: "member list option"

definition unavailable :: "string \<Rightarrow> pyexc" where
  "unavailable m = SourceRoutingUnavailable (''source-IP routing target '' @ m)"

text \<open>The serving unit of the current topology, as \<open>_source_route_candidates\<close> selects it again.\<close>

definition route_unit :: "pinned_deployment \<Rightarrow> int option \<Rightarrow> string list \<Rightarrow> member list" where
  "route_unit d inst derived =
     (let ms = members_sorted (deployment.truncate d); mode = opt_or (dep_mode d) in
      if mode = ''grouped_sharded'' then filter (\<lambda>m. m_instance m = inst) ms
      else if mode = ''replicated'' then filter (\<lambda>m. m_node m = Some (hd derived)) ms
      else ms)"

definition identity_of :: "member \<Rightarrow> string option \<times> int option \<times> string option" where
  "identity_of m = (m_node m, m_rank m, m_container m)"

text \<open>The live health check of the unit: the members whose stored records still have to be judged.\<close>

definition live_health :: "observer \<Rightarrow> string \<Rightarrow> int option \<Rightarrow> string list \<Rightarrow> observed_unit \<Rightarrow> member list \<Rightarrow>
    member list result" where
  "live_health obs mode inst derived ou u =
     (if mode = ''replicated'' \<and> ob_replicas ou \<noteq> None then
        (case find (\<lambda>(n, av). n = Some (hd derived)) (the (ob_replicas ou)) of
           Some (n, av) \<Rightarrow> if av = Some True then Inr [] else Inl (unavailable ''replica is unavailable'')
         | None \<Rightarrow> Inl (unavailable ''replica is unavailable''))
      else if mode = ''grouped_sharded'' \<and> ob_instances ou \<noteq> None then
        (case find (\<lambda>(i, x). i = inst) (the (ob_instances ou)) of
           Some (i, ns, status, desired) \<Rightarrow>
             if ns \<noteq> derived \<or> status \<noteq> Some ''running'' \<or> desired = Some ''stopped''
             then Inl (unavailable ''engine group is unavailable'') else Inr []
         | None \<Rightarrow> Inl (unavailable ''engine group is unavailable''))
      else if mode = ''single'' \<or> mode = ''sharded'' then
        (case ob_members ou of
           None \<Rightarrow> Inl (unavailable ''member health is unavailable'')
         | Some oms \<Rightarrow>
             if map m_rank u \<noteq> map (\<lambda>i. Some (int i)) [0 ..< length u] \<or>
                map identity_of oms \<noteq> map identity_of u \<or> length oms \<noteq> length u \<or>
                \<not> list_all (\<lambda>m. member_available obs m \<and>
                   m_node_status m \<in> {Some ''online'', Some ''degraded''} \<and> m_docker_ready m = Some True) oms
             then Inl (unavailable ''member health is unavailable'') else Inr [])
      else Inr u)"

definition bad_record :: "member \<Rightarrow> bool" where
  "bad_record m = (py_casefold (opt_or (m_status m)) \<in>
       {''stopped'', ''error'', ''exited'', ''dead'', ''removed'', ''missing'', ''unreachable''} \<or>
     py_casefold (opt_or (m_node_status m)) \<in> {''offline'', ''unreachable'', ''unknown'', ''disconnected''} \<or>
     m_docker_ready m = Some False)"

definition error_message :: "pyexc \<Rightarrow> string" where
  "error_message e = (case e of ValueError m \<Rightarrow> m | LookupError m \<Rightarrow> m | _ \<Rightarrow> [])"

text \<open>\<open>_source_route_candidates\<close>\<close>

definition source_candidates :: "observer \<Rightarrow> pinned_deployment list \<Rightarrow> pinned_deployment \<Rightarrow> rule \<Rightarrow> observed_unit \<Rightarrow>
    member list result" where
  "source_candidates obs ds d r ou =
     (if pd_record d \<noteq> Some (ru_deployment r) then Inl (unavailable ''deployment identity changed'')
      else case routing_target ds (ru_deployment r) (ru_instance r) (ru_nodes r) of
        Inl e \<Rightarrow> Inl (unavailable (''topology is unavailable: '' @ error_message e))
      | Inr (cur, derived) \<Rightarrow>
          if dep_id cur \<noteq> dep_id d then Inl (unavailable ''deployment generation changed'')
          else let mode = opt_or (dep_mode cur); u = route_unit cur (ru_instance r) derived in
            bindE (live_health obs mode (ru_instance r) derived ou u) (\<lambda>hs.
              if pd_desired cur = Some ''stopped'' \<or> list_ex (\<lambda>m. m_desired m = Some ''stopped'') u \<or>
                 list_ex bad_record hs
              then Inl (unavailable ''serving unit is unavailable'')
              else case (if mode = ''replicated'' then (case u of [] \<Rightarrow> None | m # _ \<Rightarrow> Some m)
                         else find (\<lambda>m. int_or0 (m_rank m) = 0) u) of
                None \<Rightarrow> Inl (unavailable ''serving unit has no coordinator'')
              | Some c \<Rightarrow> Inr [c]))"

text \<open>\<open>upsert_source_ip_routing_rule\<close>\<close>

definition upsert_rule :: "(string \<Rightarrow> string option) \<Rightarrow> observer \<Rightarrow> pinned_deployment list \<Rightarrow> observed_unit \<Rightarrow>
    source_state \<Rightarrow> pyval \<Rightarrow> (rule \<times> source_state) result" where
  "upsert_rule ip obs ds ou st v = bindE (assert_valid st) (\<lambda>_. bindE (normalize_rule ip v) (\<lambda>r.
     bindE (if ru_enabled r then
              bindE (routing_target ds (ru_deployment r) (ru_instance r) (ru_nodes r)) (\<lambda>(d, derived).
                case source_candidates obs ds d r ou of
                  Inl (SourceRoutingUnavailable m) \<Rightarrow> Inl (ValueError m)
                | Inl e \<Rightarrow> Inl e
                | Inr cs \<Rightarrow> Inr (r\<lparr>ru_deployment := opt_or (pd_record d), ru_nodes := derived\<rparr>))
            else Inr r) (\<lambda>r'.
       Inr (r', install (AList.update (rule_key r') r' (ss_rules st)) st))))"

section \<open>Lemmas\<close>

text \<open>Documented behaviour of \<open>ipaddress\<close>: the text of an address is canonical, and made of the
  characters of an address.\<close>

definition ip_ok :: "(string \<Rightarrow> string option) \<Rightarrow> bool" where
  "ip_ok ip \<longleftrightarrow> (\<forall>s t. ip s = Some t \<longrightarrow> ip t = Some t \<and> py_strip t = t \<and> t \<noteq> [] \<and>
     py_casefold t \<noteq> ''unknown'' \<and> CHR ''/'' \<notin> set t \<and> CHR ''%'' \<notin> set t \<and> nul \<notin> set t)"

definition rule_ok :: "(string \<Rightarrow> string option) \<Rightarrow> rule \<Rightarrow> bool" where
  "rule_ok ip r \<longleftrightarrow> ip (ru_ip r) = Some (ru_ip r) \<and> py_strip (ru_model r) = ru_model r \<and> ru_model r \<noteq> [] \<and>
     length (ru_model r) \<le> 512 \<and> py_strip (ru_deployment r) = ru_deployment r \<and> ru_deployment r \<noteq> [] \<and>
     (\<forall>i. ru_instance r = Some i \<longrightarrow> 0 \<le> i) \<and> ru_nodes r \<noteq> [] \<and> distinct (ru_nodes r) \<and> [] \<notin> set (ru_nodes r) \<and>
     (\<forall>n \<in> set (ru_nodes r). py_strip n = n)"

definition table_ok :: "(string \<Rightarrow> string option) \<Rightarrow> rules \<Rightarrow> bool" where
  "table_ok ip rs \<longleftrightarrow> wf_dict rs \<and> (\<forall>(k, r) \<in> set rs. k = rule_key r \<and> rule_ok ip r)"

lemma canonical_ip_ok: "ip_ok ip \<Longrightarrow> canonical_ip ip v = Inr a \<Longrightarrow> ip a = Some a \<and> nul \<notin> set a"
  by (auto simp: canonical_ip_def Let_def ip_ok_def split: if_splits option.splits)

lemma routing_model_ok: "routing_model v = Inr m \<Longrightarrow> py_strip m = m \<and> m \<noteq> [] \<and> length m \<le> 512"
  by (auto simp: routing_model_def Let_def text_field_strip split: if_splits)

lemma routing_key_inj:
  "nul \<notin> set a \<Longrightarrow> nul \<notin> set b \<Longrightarrow> routing_key a m = routing_key b n \<longleftrightarrow> a = b \<and> m = n"
proof
  assume n: "nul \<notin> set a" "nul \<notin> set b" and eq: "routing_key a m = routing_key b n"
  have *: "takeWhile (\<lambda>c. c \<noteq> nul) (routing_key x y) = x" if "nul \<notin> set x" for x y
  proof -
    have "\<forall>c \<in> set x. c \<noteq> nul" using that by auto
    then show ?thesis unfolding routing_key_def by (subst takeWhile_append2) simp_all
  qed
  have "a = b" using *[OF n(1), of m] *[OF n(2), of n] eq by simp
  then show "a = b \<and> m = n" using eq by (simp add: routing_key_def)
qed simp

lemma normalize_rule_ok: "ip_ok ip \<Longrightarrow> normalize_rule ip v = Inr r \<Longrightarrow> rule_ok ip r"
proof -
  assume ip: "ip_ok ip" and n: "normalize_rule ip v = Inr r"
  obtain d where d: "v = PDict d" using n by (cases v) (auto simp: normalize_rule_def)
  have inst: "0 \<le> i" if "rule_instance w = Inr (Some i)" for w i
    using that by (cases w) (auto split: if_splits)
  have nodes: "ns \<noteq> [] \<and> distinct ns \<and> [] \<notin> set ns \<and> (\<forall>n \<in> set ns. py_strip n = n)"
    if "rule_nodes w = Inr ns" for w ns
  proof -
    from that obtain x xs where w: "w = PList (x # xs)"
      by (cases w) (auto simp: rule_nodes_def split: list.splits)
    then have "ns = map text_field (x # xs)" "distinct ns" "[] \<notin> set ns"
      using that unfolding rule_nodes_def w pyval.case list.case Let_def by (auto split: if_splits)
    then show ?thesis by (auto simp: text_field_strip)
  qed
  obtain a m e i ns where c: "canonical_ip ip (dict_get d ''source_ip'') = Inr a"
    "routing_model (dict_get d ''requested_model'') = Inr m" "text_field (dict_get d ''deployment_id'') \<noteq> []"
    "rule_instance (dict_get d ''instance_id'') = Inr i" "rule_nodes (dict_get d ''node_ids'') = Inr ns"
    and r: "r = \<lparr>ru_ip = a, ru_model = m, ru_enabled = e,
      ru_deployment = text_field (dict_get d ''deployment_id''), ru_instance = i, ru_nodes = ns\<rparr>"
    using n unfolding d normalize_rule_def Let_def pyval.case bindE_Inr
    by (elim exE conjE) (cases "text_field (dict_get d ''deployment_id'') = []", simp,
        simp only: if_False bindE_Inr, elim exE conjE, simp only: sum.inject, blast)
  show ?thesis
    using canonical_ip_ok[OF ip c(1)] routing_model_ok[OF c(2)] c(3) inst[of "dict_get d ''instance_id''"] c(4)
      nodes[OF c(5)]
    by (simp add: r rule_ok_def text_field_strip)
qed

lemma normalize_rule_json: "ip_ok ip \<Longrightarrow> rule_ok ip r \<Longrightarrow> normalize_rule ip (rule_json r) = Inr r"
proof -
  assume ip: "ip_ok ip" and r: "rule_ok ip r"
  have "canonical_ip ip (PStr (ru_ip r)) = Inr (ru_ip r)"
  proof -
    have "ip (ru_ip r) = Some (ru_ip r)" using r by (simp add: rule_ok_def)
    then show ?thesis using ip unfolding ip_ok_def canonical_ip_def Let_def by fastforce
  qed
  moreover have "routing_model (PStr (ru_model r)) = Inr (ru_model r)"
    using r by (simp add: rule_ok_def routing_model_def)
  moreover have "rule_instance (case ru_instance r of None \<Rightarrow> PNone | Some i \<Rightarrow> PInt i) = Inr (ru_instance r)"
    using r by (cases "ru_instance r") (auto simp: rule_ok_def)
  moreover have "rule_nodes (PList (map PStr (ru_nodes r))) = Inr (ru_nodes r)"
  proof -
    have "map (text_field \<circ> PStr) (ru_nodes r) = ru_nodes r"
      using r by (simp add: rule_ok_def map_idI)
    then show ?thesis using r
      by (cases "ru_nodes r") (auto simp: rule_ok_def rule_nodes_def Let_def comp_def)
  qed
  moreover have "text_field (PStr (ru_deployment r)) = ru_deployment r" "ru_deployment r \<noteq> []"
    using r by (auto simp: rule_ok_def)
  ultimately show ?thesis
    by (simp add: normalize_rule_def rule_json_def dict_get_def)
qed

lemma load_rows_ok:
  "ip_ok ip \<Longrightarrow> table_ok ip acc \<Longrightarrow> load_rows ip i rows acc = Inr rs \<Longrightarrow> table_ok ip rs"
proof (induction ip i rows acc rule: load_rows.induct)
  case (2 ip i row rows acc)
  then obtain r where r: "normalize_rule ip row = Inr r" "rule_key r \<notin> fst ` set acc"
    "load_rows ip (Suc i) rows (acc @ [(rule_key r, r)]) = Inr rs"
    by (auto split: sum.splits pyexc.splits if_splits)
  have "table_ok ip (acc @ [(rule_key r, r)])"
    using 2(3) r(2) normalize_rule_ok[OF 2(2) r(1)] wf_dict_snoc[of acc "rule_key r" r]
    by (auto simp: table_ok_def)
  then show ?case using 2(1)[OF r(1,2)] 2(2) r(3) by simp
qed simp

lemma load_rows_complete:
  assumes "ip_ok ip" "\<forall>r \<in> set rs. rule_ok ip r" "distinct (map rule_key rs)"
    "\<forall>r \<in> set rs. rule_key r \<notin> fst ` set acc"
  shows "load_rows ip i (map rule_json rs) acc = Inr (acc @ map (\<lambda>r. (rule_key r, r)) rs)"
  using assms(2-)
proof (induction rs arbitrary: i acc)
  case (Cons r rs)
  have "normalize_rule ip (rule_json r) = Inr r" using normalize_rule_json[OF assms(1)] Cons.prems(1) by simp
  moreover have "\<forall>x \<in> set rs. rule_key x \<notin> fst ` set (acc @ [(rule_key r, r)])"
    using Cons.prems(2,3) by (auto simp: image_iff)
  ultimately show ?case using Cons.prems Cons.IH[of "acc @ [(rule_key r, r)]"] by simp
qed simp

lemma load_rules_ok: "ip_ok ip \<Longrightarrow> load_rules ip parse f = (rs, e) \<Longrightarrow> table_ok ip rs"
  using load_rows_ok[of ip "[]" 0 _ rs]
  by (auto simp: load_rules_def load_payload_def table_ok_def
      split: config_file.splits option.splits sum.splits pyval.splits if_splits)

lemma index_rules_spec:
  "(case map_of (index_rules rs) a of None \<Rightarrow> [] | Some l \<Rightarrow> l) = filter (\<lambda>r. ru_ip r = a) (map snd rs)"
proof -
  let ?f = "\<lambda>ix r. AList.update (ru_ip r) ((case map_of ix (ru_ip r) of None \<Rightarrow> [] | Some l \<Rightarrow> l) @ [r]) ix"
  have "(case map_of (foldl ?f ix xs) a of None \<Rightarrow> [] | Some l \<Rightarrow> l)
      = (case map_of ix a of None \<Rightarrow> [] | Some l \<Rightarrow> l) @ filter (\<lambda>r. ru_ip r = a) xs" for ix xs
    by (induction xs arbitrary: ix) (auto simp: dict_simps)
  from this[of "[]" "map snd rs"] show ?thesis by (simp add: index_rules_def)
qed

lemma routing_target_unit:
  assumes "routing_target ds rid inst nodes = Inr (d, derived)"
  shows "d \<in> set ds" "pd_record d = Some rid" "derived = nodes"
    "map (\<lambda>m. opt_or (m_node m)) (route_unit d inst derived) = nodes"
proof -
  from assms obtain u where f: "find (\<lambda>d. pd_record d = Some rid) ds = Some d"
    and u: "target_unit d inst nodes = Inr u" and n: "map (\<lambda>m. opt_or (m_node m)) u = nodes" "derived = nodes"
    by (auto simp: routing_target_def except_simps Let_def split: option.splits if_splits)
  show "d \<in> set ds" "pd_record d = Some rid" using f by (auto simp: find_Some_iff)
  show "derived = nodes" by (rule n(2))
  show "map (\<lambda>m. opt_or (m_node m)) (route_unit d inst derived) = nodes"
    using u n by (auto simp: target_unit_def route_unit_def Let_def split: if_splits)
qed

section \<open>Properties\<close>

definition demo_ip :: "string \<Rightarrow> string option" where
  "demo_ip s = (if s = ''10.0.0.1'' \<or> s = ''10.0.0.2'' then Some s else None)"

lemma demo_ip_ok: "ip_ok demo_ip"
proof -
  have "py_strip t = t \<and> py_casefold t \<noteq> ''unknown'' \<and> CHR ''/'' \<notin> set t \<and> CHR ''%'' \<notin> set t \<and> nul \<notin> set t"
    if "t = ''10.0.0.1'' \<or> t = ''10.0.0.2''" for t
    using that by (elim disjE) (simp_all add: py_strip_def py_space_def py_casefold_def fold_char_def nul_def, code_simp+)
  then show ?thesis unfolding ip_ok_def demo_ip_def by (auto split: if_splits)
qed

definition demo_rule :: rule where
  "demo_rule = \<lparr>ru_ip = ''10.0.0.1'', ru_model = ''m'', ru_enabled = True, ru_deployment = ''d'',
     ru_instance = None, ru_nodes = [''n0'']\<rparr>"

definition demo_state :: source_state where
  "demo_state = install [(rule_key demo_rule, demo_rule)] \<lparr>ss_rules = [], ss_error = None, ss_index = []\<rparr>"

lemma demo_strip: "py_strip ''m'' = ''m''" "py_strip ''d'' = ''d''" "py_strip ''n0'' = ''n0''"
  "py_strip ''10.0.0.1'' = ''10.0.0.1''"
  by (simp_all add: py_strip_def py_space_def)

lemma demo_rule_ok: "rule_ok demo_ip demo_rule"
  by (simp add: rule_ok_def demo_rule_def demo_ip_def demo_strip)

lemma demo_table_ok: "table_ok demo_ip (ss_rules demo_state)"
  using demo_rule_ok by (simp add: demo_state_def install_def table_ok_def wf_dict_def)



text \<open>C16: a broken configuration fails closed: once the rules could not be loaded, every query, change
  and listing raises \<open>SourceRoutingUnavailable\<close> with the recorded error, and no rule is active.\<close>

theorem source_rules_fail_closed:
  assumes "load_rules ip parse f = (rs, Some m)" and "st = load_state ip parse f"
  shows "rs = [] \<and> rule_for ip st a b = Inl (SourceRoutingUnavailable m) \<and>
    rules_for_source ip st a = Inl (SourceRoutingUnavailable m) \<and>
    list_rules st = Inl (SourceRoutingUnavailable m) \<and>
    delete_rule ip st a b = Inl (SourceRoutingUnavailable m) \<and>
    upsert_rule ip obs ds ou st v = Inl (SourceRoutingUnavailable m)"
proof -
  have m: "m \<noteq> [] \<and> rs = []"
    using assms(1) by (auto simp: load_rules_def split: config_file.splits option.splits sum.splits)
  have "assert_valid st = Inl (SourceRoutingUnavailable m)"
    using assms m by (simp add: assert_valid_def load_state_def)
  then show ?thesis
    using m by (simp add: rule_for_def rules_for_source_def list_rules_def delete_rule_def upsert_rule_def)
qed

theorem source_rules_fail_closed_witness:
  "rule_for demo_ip (load_state demo_ip (\<lambda>_. None) (Content ''{'')) PNone PNone
     = Inl (SourceRoutingUnavailable ''source-IP routing configuration is not valid JSON'')"
  by (rule conjunct1[OF conjunct2[OF source_rules_fail_closed[OF _ refl, of demo_ip "\<lambda>_. None" "Content ''{''" "[]"]]])
    (simp add: load_rules_def)

text \<open>The states the table reaches: loaded from a file, then changed by upserts and deletions.\<close>

definition state_ok :: "(string \<Rightarrow> string option) \<Rightarrow> source_state \<Rightarrow> bool" where
  "state_ok ip st \<longleftrightarrow> table_ok ip (ss_rules st) \<and> ss_index st = index_rules (ss_rules st)"

lemma load_state_ok: "ip_ok ip \<Longrightarrow> state_ok ip (load_state ip parse f)"
  using load_rules_ok[of ip parse f] by (auto simp: load_state_def state_ok_def split: prod.split)

lemma install_ok: "table_ok ip rs \<Longrightarrow> state_ok ip (install rs st)"
  by (simp add: state_ok_def install_def)

lemma table_ok_update: "table_ok ip rs \<Longrightarrow> rule_ok ip r \<Longrightarrow> table_ok ip (AList.update (rule_key r) r rs)"
proof -
  assume t: "table_ok ip rs" and r: "rule_ok ip r"
  have "(k, x) \<in> set (AList.update (rule_key r) r rs) \<Longrightarrow> k = rule_key x \<and> rule_ok ip x" for k x
    using t r map_of_wf_iff[of "AList.update (rule_key r) r rs" k x] map_of_wf_iff[of rs k x]
    by (auto simp: table_ok_def dict_simps split: if_splits)
  then show ?thesis using t by (auto simp: table_ok_def)
qed

lemma table_ok_delete: "table_ok ip rs \<Longrightarrow> table_ok ip (AList.delete k rs)"
  by (auto simp: table_ok_def AList.delete_eq)

lemma delete_rule_ok: "state_ok ip st \<Longrightarrow> delete_rule ip st a b = Inr (x, st') \<Longrightarrow> state_ok ip st'"
  by (auto simp: delete_rule_def except_simps Let_def state_ok_def install_def table_ok_delete split: if_splits)

text \<open>An enabled rule that is stored names the derived nodes of its deployment.\<close>

lemma upsert_rule_ok:
  assumes ip: "ip_ok ip" and st: "state_ok ip st" and u: "upsert_rule ip obs ds ou st v = Inr (r, st')"
  shows "state_ok ip st' \<and> rule_ok ip r \<and> map_of (ss_rules st') (rule_key r) = Some r \<and>
    (\<forall>k. k \<noteq> rule_key r \<longrightarrow> map_of (ss_rules st') k = map_of (ss_rules st) k)"
proof -
  obtain r0 where n: "normalize_rule ip v = Inr r0" and
    e: "(if ru_enabled r0 then bindE (routing_target ds (ru_deployment r0) (ru_instance r0) (ru_nodes r0))
          (\<lambda>(d, derived). case source_candidates obs ds d r0 ou of
                Inl (SourceRoutingUnavailable m) \<Rightarrow> Inl (ValueError m) | Inl e \<Rightarrow> Inl e
              | Inr cs \<Rightarrow> Inr (r0\<lparr>ru_deployment := opt_or (pd_record d), ru_nodes := derived\<rparr>))
        else Inr r0) = Inr r" and
    s: "st' = install (AList.update (rule_key r) r (ss_rules st)) st"
    using u by (auto simp: upsert_rule_def except_simps)
  have r0: "rule_ok ip r0" using normalize_rule_ok[OF ip n] .
  have "r = r0"
  proof (cases "ru_enabled r0")
    case True
    then obtain d derived where t: "routing_target ds (ru_deployment r0) (ru_instance r0) (ru_nodes r0) = Inr (d, derived)"
      and r: "r = r0\<lparr>ru_deployment := opt_or (pd_record d), ru_nodes := derived\<rparr>"
    proof -
      obtain d derived where t: "routing_target ds (ru_deployment r0) (ru_instance r0) (ru_nodes r0) = Inr (d, derived)"
        and c: "(case source_candidates obs ds d r0 ou of
                Inl (SourceRoutingUnavailable m) \<Rightarrow> Inl (ValueError m) | Inl e \<Rightarrow> Inl e
              | Inr cs \<Rightarrow> Inr (r0\<lparr>ru_deployment := opt_or (pd_record d), ru_nodes := derived\<rparr>)) = Inr r"
        using e True by (auto simp: bindE_Inr)
      have "r = r0\<lparr>ru_deployment := opt_or (pd_record d), ru_nodes := derived\<rparr>"
      proof (cases "source_candidates obs ds d r0 ou")
        case (Inl x)
        then show ?thesis using c by (cases x) simp_all
      qed (use c in simp)
      then show thesis using that t by blast
    qed
    show ?thesis using r routing_target_unit(2,3)[OF t] by (simp add: opt_or_def)
  qed (use e in simp)
  then have "rule_ok ip r" using r0 by simp
  moreover have "table_ok ip (AList.update (rule_key r) r (ss_rules st))"
    using st \<open>rule_ok ip r\<close> by (simp add: state_ok_def table_ok_update)
  ultimately show ?thesis using s by (simp add: install_ok) (simp add: install_def dict_simps)
qed

text \<open>A rule never applies to another client or another model: what the lookup returns is an enabled
  rule of the table whose address is the canonical form of the caller's and whose model is the
  requested one; keys of different pairs never collide.\<close>

theorem source_rule_exact:
  assumes "ip_ok ip" and "state_ok ip st" and "rule_for ip st src mdl = Inr (Some r)"
  shows "ru_enabled r \<and> canonical_ip ip src = Inr (ru_ip r) \<and> ru_model r = text_field mdl \<and> r \<in> snd ` set (ss_rules st)"
proof -
  obtain a m where c: "canonical_ip ip src = Inr a" "routing_model mdl = Inr m"
    and l: "map_of (ss_rules st) (routing_key a m) = Some r" "ru_enabled r"
    using assms(3) by (auto simp: rule_for_def except_simps split: sum.splits option.splits if_splits)
  have mem: "(routing_key a m, r) \<in> set (ss_rules st)" using l(1) by (rule map_of_SomeD)
  then have k: "routing_key a m = rule_key r" "rule_ok ip r"
    using assms(2) by (auto simp: state_ok_def table_ok_def)
  have "nul \<notin> set a" using canonical_ip_ok[OF assms(1) c(1)] by simp
  moreover have "nul \<notin> set (ru_ip r)" using assms(1) k(2) unfolding ip_ok_def rule_ok_def by blast
  ultimately have "a = ru_ip r" "m = ru_model r" using k(1) routing_key_inj by (auto simp: rule_key_def)
  moreover have "m = text_field mdl" using c(2) by (auto simp: routing_model_def Let_def split: if_splits)
  ultimately show ?thesis using l(2) c(1) mem by force
qed

theorem source_rule_exact_witness:
  "rule_for demo_ip demo_state (PStr ''10.0.0.1'') (PStr ''m'') = Inr (Some demo_rule) \<and>
   ru_model demo_rule = text_field (PStr ''m'')"
proof -
  have c: "canonical_ip demo_ip (PStr ''10.0.0.1'') = Inr ''10.0.0.1''"
    by (simp add: canonical_ip_def Let_def demo_strip demo_ip_def py_casefold_def fold_char_def)
  have f: "rule_for demo_ip demo_state (PStr ''10.0.0.1'') (PStr ''m'') = Inr (Some demo_rule)"
    by (simp add: rule_for_def assert_valid_def demo_state_def install_def c routing_model_def demo_strip)
      (simp add: rule_key_def demo_rule_def)
  have "state_ok demo_ip demo_state" using demo_table_ok by (simp add: state_ok_def demo_state_def install_def)
  from source_rule_exact[OF demo_ip_ok this f] f show ?thesis by simp
qed

text \<open>A stored rule is found again: after a successful upsert of a rule its own key holds exactly the
  normalised rule, every other key is as before, and the index by address lists for each address
  exactly the rules of that address, so the per-source listing needs no scan.\<close>

theorem source_rule_upsert:
  assumes "ip_ok ip" and "state_ok ip st" and "upsert_rule ip obs ds ou st v = Inr (r, st')"
  shows "normalize_rule ip (rule_json r) = Inr r \<and> map_of (ss_rules st') (rule_key r) = Some r \<and>
    (\<forall>k. k \<noteq> rule_key r \<longrightarrow> map_of (ss_rules st') k = map_of (ss_rules st) k) \<and>
    (\<forall>a. (case map_of (ss_index st') a of None \<Rightarrow> [] | Some l \<Rightarrow> l) = filter (\<lambda>x. ru_ip x = a) (map snd (ss_rules st')))"
  using upsert_rule_ok[OF assms] normalize_rule_json[OF assms(1)] index_rules_spec
  by (simp add: state_ok_def)

theorem source_rule_upsert_witness:
  "\<exists>st'. upsert_rule demo_ip (\<lambda>_. None) [] \<lparr>ob_replicas = None, ob_instances = None, ob_members = None\<rparr>
      demo_state (rule_json (demo_rule\<lparr>ru_enabled := False\<rparr>)) = Inr (demo_rule\<lparr>ru_enabled := False\<rparr>, st') \<and>
    map_of (ss_rules st') (rule_key demo_rule) = Some (demo_rule\<lparr>ru_enabled := False\<rparr>)"
proof -
  let ?r = "demo_rule\<lparr>ru_enabled := False\<rparr>"
  let ?ou = "\<lparr>ob_replicas = None, ob_instances = None, ob_members = None\<rparr>"
  have ok: "rule_ok demo_ip ?r" using demo_rule_ok by (simp add: rule_ok_def)
  have n: "normalize_rule demo_ip (rule_json ?r) = Inr ?r" using normalize_rule_json[OF demo_ip_ok ok] .
  have v: "assert_valid demo_state = Inr ()" by (simp add: assert_valid_def demo_state_def install_def)
  have u: "upsert_rule demo_ip (\<lambda>_. None) [] ?ou demo_state (rule_json ?r)
      = Inr (?r, install (AList.update (rule_key ?r) ?r (ss_rules demo_state)) demo_state)"
    by (simp add: upsert_rule_def v n)
  have st: "state_ok demo_ip demo_state" using demo_table_ok by (simp add: state_ok_def demo_state_def install_def)
  have "rule_key ?r = rule_key demo_rule" by (simp add: rule_key_def)
  then show ?thesis using source_rule_upsert[OF demo_ip_ok st u] u by auto
qed


definition demo_pinned :: pinned_deployment where
  "demo_pinned = deployment.extend demo_dep \<lparr>pd_record = Some ''d'', pd_desired = None\<rparr>"


end
