(* ===== verification/Model_Policies.thy ===== *)
theory Model_Policies imports Load_Counter Py_Values "HOL-Library.Multiset" "HOL-Library.Char_ord" "HOL-Library.List_Lexorder"
begin

text \<open>
  Routing of a shared request id over several deployments (\<open>sparkdeck/service.py\<close>): the stored
  policies (priority order with concurrency caps), the choice of a member with the reservation of
  its slot, the balanced choice without a policy, and the release of a slot.

  Parameters: \<open>fromiso\<close> for \<open>datetime.fromisoformat(...).timestamp()\<close>, \<open>stored\<close> for the deployment store's
  lookup by id or alias, \<open>now\<close> for the current time's text.
\<close>

section \<open>Policies\<close>

record pmember =
  pm_id :: string
  pm_limit :: "int option"

record policy =
  po_model :: string
  po_members :: "pmember list"
  po_updated :: pyval

definition max_members :: nat where "max_members = 16"
definition max_concurrency :: int where "max_concurrency = 1000"

definition member_limit :: "pyval \<Rightarrow> int option result" where
  "member_limit v = (case v of
     PNone \<Rightarrow> Inr None
   | PInt n \<Rightarrow> if 1 \<le> n \<and> n \<le> max_concurrency then Inr (Some n)
       else Inl (ValueError ''max_concurrency must be null or an integer between 1 and 1000'')
   | _ \<Rightarrow> Inl (ValueError ''max_concurrency must be null or an integer between 1 and 1000''))"

text \<open>The loop over the rows of \<open>members\<close>; the ids of \<open>acc\<close> are the set \<open>seen\<close>.\<close>

fun policy_rows :: "pyval list \<Rightarrow> pmember list \<Rightarrow> pmember list result" where
  "policy_rows [] acc = Inr acc"
| "policy_rows (PDict d # rows) acc =
     (let i = text_field (dict_get d ''deployment_id'') in
      if i = [] then Inl (ValueError ''each routing member requires a deployment_id'')
      else if i \<in> pm_id ` set acc then Inl (ValueError (''duplicate routing member: '' @ i))
      else bindE (member_limit (dict_get d ''max_concurrency''))
             (\<lambda>n. policy_rows rows (acc @ [\<lparr>pm_id = i, pm_limit = n\<rparr>])))"
| "policy_rows (row # rows) acc = Inl (ValueError ''each routing member must be an object'')"

definition normalize_policy :: "pyval \<Rightarrow> policy result" where
  "normalize_policy v = (case v of
     PDict d \<Rightarrow>
       let m = text_field (dict_get d ''model'') in
       if m = [] \<or> length m > 512
       then Inl (ValueError ''model must be a non-empty string of at most 512 characters'')
       else (case dict_get d ''members'' of
          PList rows \<Rightarrow>
            if 1 \<le> length rows \<and> length rows \<le> max_members
            then bindE (policy_rows rows []) (\<lambda>ms.
                   Inr \<lparr>po_model = m, po_members = ms, po_updated = dict_get d ''updated_at''\<rparr>)
            else Inl (ValueError ''members must list between 1 and 16 instances'')
        | _ \<Rightarrow> Inl (ValueError ''members must list between 1 and 16 instances''))
   | _ \<Rightarrow> Inl (ValueError ''model routing policy must be an object''))"

definition policy_json :: "policy \<Rightarrow> pyval" where
  "policy_json p = PDict [(''model'', PStr (po_model p)),
     (''members'', PList (map (\<lambda>m. PDict [(''deployment_id'', PStr (pm_id m)),
        (''max_concurrency'', case pm_limit m of None \<Rightarrow> PNone | Some n \<Rightarrow> PInt n)]) (po_members p))),
     (''updated_at'', po_updated p)]"

text \<open>\<open>_load_model_routing_policies\<close> on the parsed file (\<open>None\<close>: absent, unreadable or not JSON):
  invalid rows are skipped, a later row of the same model wins.\<close>

definition load_policies :: "pyval option \<Rightarrow> (string, policy) dict" where
  "load_policies f = (case f of
     Some (PDict d) \<Rightarrow> (case dict_get d ''policies'' of
        PList rows \<Rightarrow> foldl (\<lambda>acc row. case normalize_policy row of
            Inl e \<Rightarrow> acc | Inr p \<Rightarrow> AList.update (po_model p) p acc) [] rows
      | _ \<Rightarrow> [])
   | _ \<Rightarrow> [])"

text \<open>\<open>_save_model_routing_policies\<close>: the rows in the order of \<open>sorted(source)\<close>.\<close>

definition save_policies :: "(string, policy) dict \<Rightarrow> pyval" where
  "save_policies ps = PDict [(''policies'', PList (map (\<lambda>k. policy_json (the (map_of ps k)))
     (sort_key id (keys_of ps))))]"

section \<open>State and selection\<close>

record turn =
  t_order :: "string list"
  t_cursor :: nat

record routing =
  policies :: "(string, policy) dict"
  inflight :: "(string, int) dict"
  turns :: "(string, turn) dict"

text \<open>What the selectors read of a live deployment.\<close>

record candidate =
  ca_id :: string
  ca_deployed :: pyval
  ca_created :: pyval

definition slot_count :: "(string, int) dict \<Rightarrow> string \<Rightarrow> int" where
  "slot_count fl i = (case map_of fl i of None \<Rightarrow> 0 | Some n \<Rightarrow> n)"

definition slot_up :: "string \<Rightarrow> (string, int) dict \<Rightarrow> (string, int) dict" where
  "slot_up i fl = AList.update i (slot_count fl i + 1) fl"

text \<open>\<open>_release_routing_slot\<close>\<close>

definition slot_down :: "string \<Rightarrow> (string, int) dict \<Rightarrow> (string, int) dict" where
  "slot_down i fl = (if slot_count fl i > 1 then AList.update i (slot_count fl i - 1) fl else AList.delete i fl)"

interpretation slots: load_counter slot_count "[]" slot_up slot_down
  by unfold_locales (auto simp: slot_count_def slot_up_def slot_down_def dict_simps split: option.split)

text \<open>\<open>_reserve_policy_slot\<close>\<close>

definition reserve_slot :: "string \<Rightarrow> routing \<Rightarrow> bool \<times> routing" where
  "reserve_slot i r = (if i = [] then (False, r) else (True, r\<lparr>inflight := slot_up i (inflight r)\<rparr>))"

definition live_by_id :: "candidate list \<Rightarrow> string \<Rightarrow> candidate option" where
  "live_by_id cs = map_of (rev (map (\<lambda>c. (ca_id c, c)) cs))"

definition has_room :: "(string, int) dict \<Rightarrow> pmember \<Rightarrow> bool" where
  "has_room fl m = (case pm_limit m of None \<Rightarrow> True | Some n \<Rightarrow> slot_count fl (pm_id m) < n)"

text \<open>\<open>_select_routed_member\<close>\<close>

definition select_member :: "string \<Rightarrow> candidate list \<Rightarrow> routing \<Rightarrow> candidate option \<times> routing" where
  "select_member model cs r = (case map_of (policies r) model of
     None \<Rightarrow> (None, r)
   | Some p \<Rightarrow>
       let ms = filter (\<lambda>m. live_by_id cs (pm_id m) \<noteq> None) (po_members p) in
       (case (case find (has_room (inflight r)) ms of
                Some m \<Rightarrow> Some m
              | None \<Rightarrow> min_by (\<lambda>m. slot_count (inflight r) (pm_id m)) ms) of
          None \<Rightarrow> (None, r)
        | Some m \<Rightarrow> (live_by_id cs (pm_id m), r\<lparr>inflight := slot_up (pm_id m) (inflight r)\<rparr>)))"

text \<open>\<open>_selector_owner_timestamp\<close>: numbers as they are, texts through \<open>fromisoformat\<close> with a trailing
  \<open>Z\<close> read as UTC; infinities and NaN do not occur in stored records.\<close>

definition z_to_utc :: "string \<Rightarrow> string" where
  "z_to_utc s = concat (map (\<lambda>c. if c = CHR ''Z'' then ''+00:00'' else [c]) s)"

fun timestamp :: "(string \<Rightarrow> rat option) \<Rightarrow> pyval \<Rightarrow> rat option" where
  "timestamp fromiso (PInt i) = Some (of_int i)"
| "timestamp fromiso (PFloat (Finite x) t) = Some x"
| "timestamp fromiso (PStr s) = fromiso (z_to_utc (py_strip s))"
| "timestamp fromiso _ = None"

text \<open>\<open>_balanced_owner_sort_key\<close>\<close>

definition owner_key :: "(string \<Rightarrow> rat option) \<Rightarrow> candidate \<Rightarrow> rat \<times> string" where
  "owner_key fromiso c = (case timestamp fromiso (ca_deployed c) of Some x \<Rightarrow> (x, ca_id c)
     | None \<Rightarrow> (case timestamp fromiso (ca_created c) of Some x \<Rightarrow> (x, ca_id c) | None \<Rightarrow> (0, ca_id c)))"

text \<open>\<open>sorted(xs, key=f, reverse=True)\<close> keeps equal elements in their order.\<close>

definition sort_desc :: "('a \<Rightarrow> 'b :: linorder) \<Rightarrow> 'a list \<Rightarrow> 'a list" where
  "sort_desc f xs = rev (sort_key f (rev xs))"

definition ranking :: "(string \<Rightarrow> rat option) \<Rightarrow> candidate list \<Rightarrow> candidate list" where
  "ranking fromiso cs = sort_desc (owner_key fromiso) cs"

text \<open>\<open>_select_balanced_shared_owner\<close>; on no candidates \<open>min\<close> raises.\<close>

definition select_balanced :: "(string \<Rightarrow> rat option) \<Rightarrow> string \<Rightarrow> candidate list \<Rightarrow> routing \<Rightarrow>
    ((candidate \<times> string) \<times> routing) result" where
  "select_balanced fromiso model cs r =
     (let ordered = ranking fromiso cs; ids = map ca_id ordered;
          t = (case map_of (turns r) model of
                 Some t \<Rightarrow> if t_order t = ids then t else \<lparr>t_order = ids, t_cursor = 0\<rparr>
               | None \<Rightarrow> \<lparr>t_order = ids, t_cursor = 0\<rparr>);
          tied = least_loaded (\<lambda>c. slot_count (inflight r) (ca_id c)) ordered
      in if ordered = [] then Inl (ValueError ''min() iterable argument is empty'')
         else let c = tied ! (t_cursor t mod length tied) in
           Inr ((c, ca_id c), r\<lparr>turns := AList.update model (t\<lparr>t_cursor := t_cursor t + 1\<rparr>) (turns r),
             inflight := slot_up (ca_id c) (inflight r)\<rparr>))"

section \<open>Changing the policies\<close>

text \<open>The member ids are resolved to canonical deployment ids; \<open>live\<close> lists id and alias of the
  deployments that exist now.\<close>

definition resolve_member :: "(string \<Rightarrow> string option) \<Rightarrow> (string \<times> string) list \<Rightarrow> pmember \<Rightarrow> pmember result" where
  "resolve_member stored live m = (case stored (pm_id m) of
     Some i \<Rightarrow> Inr (m\<lparr>pm_id := i\<rparr>)
   | None \<Rightarrow> if pm_id m \<in> fst ` set live then Inr m
       else (case find (\<lambda>(i, al). py_strip al = pm_id m) live of
          None \<Rightarrow> Inl (LookupError (''deployment not found: '' @ pm_id m))
        | Some (i, al) \<Rightarrow> Inr (m\<lparr>pm_id := i\<rparr>)))"

fun resolve_all :: "(string \<Rightarrow> string option) \<Rightarrow> (string \<times> string) list \<Rightarrow> pmember list \<Rightarrow> pmember list result" where
  "resolve_all stored live [] = Inr []"
| "resolve_all stored live (m # ms) = bindE (resolve_member stored live m)
     (\<lambda>m'. bindE (resolve_all stored live ms) (\<lambda>ms'. Inr (m' # ms')))"

definition delete_policy :: "string \<Rightarrow> routing \<Rightarrow> bool \<times> routing" where
  "delete_policy model r = (let k = py_strip model in
     if k \<notin> fst ` set (policies r) then (False, r)
     else (True, r\<lparr>policies := AList.delete k (policies r)\<rparr>))"

text \<open>\<open>upsert_model_routing_policy\<close>; the result is the stored policy, \<open>None\<close> when an empty member list
  cleared it.\<close>

definition upsert_policy :: "(string \<Rightarrow> string option) \<Rightarrow> (string \<times> string) list \<Rightarrow> string \<Rightarrow> pyval \<Rightarrow> routing \<Rightarrow>
    (policy option \<times> routing) result" where
  "upsert_policy stored live now body r =
     (if is_dict body \<and> (case body of PDict d \<Rightarrow> dict_get d ''members'' = PList [] | _ \<Rightarrow> False) then
        (case body of PDict d \<Rightarrow>
           let m = text_field (dict_get d ''model'') in
           if m = [] then Inl (ValueError ''model must be a non-empty string of at most 512 characters'')
           else Inr (None, snd (delete_policy m r))
         | _ \<Rightarrow> Inr (None, r))
      else bindE (normalize_policy body) (\<lambda>p.
           bindE (resolve_all stored live (po_members p)) (\<lambda>ms.
           if \<not> distinct (map pm_id ms) then Inl (ValueError ''policy members must be unique'')
           else let p' = p\<lparr>po_members := ms, po_updated := PStr now\<rparr> in
             Inr (Some p', r\<lparr>policies := AList.update (po_model p') p' (policies r)\<rparr>))))"

section \<open>Lemmas\<close>

lemma live_by_id_Some: "live_by_id cs i = Some c \<Longrightarrow> c \<in> set cs \<and> ca_id c = i"
  unfolding live_by_id_def by (drule map_of_SomeD) auto

lemma slot_count_up: "slot_count (slot_up i fl) j = (if i = j then slot_count fl j + 1 else slot_count fl j)"
  by (rule slots.count_up)

lemma find_first: "find P xs = Some x \<Longrightarrow> \<exists>pre post. xs = pre @ x # post \<and> P x \<and> (\<forall>y \<in> set pre. \<not> P y)"
proof (induction xs)
  case (Cons y ys)
  show ?case
  proof (cases "P y")
    case True
    then show ?thesis using Cons.prems by (intro exI[of _ "[]"] exI[of _ ys]) simp
  next
    case False
    then obtain pre post where "ys = pre @ x # post" "P x" "\<forall>z \<in> set pre. \<not> P z"
      using Cons by auto
    then show ?thesis using False by (intro exI[of _ "y # pre"] exI[of _ post]) simp
  qed
qed simp

lemma sort_desc_mset [simp]: "mset (sort_desc f xs) = mset xs"
  by (simp add: sort_desc_def)

text \<open>The selection in one equation: which member is chosen, and what it reserves.\<close>

lemma select_member_cases:
  assumes "map_of (policies r) model = Some p" "select_member model cs r = (Some c, r')"
  shows "\<exists>m. m \<in> set (po_members p) \<and> live_by_id cs (pm_id m) = Some c \<and>
    r' = r\<lparr>inflight := slot_up (pm_id m) (inflight r)\<rparr> \<and>
    (find (has_room (inflight r)) (filter (\<lambda>m. live_by_id cs (pm_id m) \<noteq> None) (po_members p)) = Some m \<or>
     (find (has_room (inflight r)) (filter (\<lambda>m. live_by_id cs (pm_id m) \<noteq> None) (po_members p)) = None \<and>
      min_by (\<lambda>m. slot_count (inflight r) (pm_id m)) (filter (\<lambda>m. live_by_id cs (pm_id m) \<noteq> None) (po_members p)) = Some m))"
proof -
  let ?ms = "filter (\<lambda>m. live_by_id cs (pm_id m) \<noteq> None) (po_members p)"
  let ?f = "find (has_room (inflight r)) ?ms"
  show ?thesis
  proof (cases ?f)
    case (Some m)
    then obtain pre post where "?ms = pre @ m # post" using find_first[OF Some] by blast
    then have "m \<in> set ?ms" by (metis in_set_conv_decomp)
    then show ?thesis using assms Some by (intro exI[of _ m]) (auto simp: select_member_def Let_def)
  next
    case None
    show ?thesis
    proof (cases "min_by (\<lambda>m. slot_count (inflight r) (pm_id m)) ?ms")
      case (Some m)
      then have "m \<in> set ?ms" using min_by_Some by fastforce
      then show ?thesis using assms None Some
        by (intro exI[of _ m]) (simp add: select_member_def Let_def)
    next
      case n: None
      then show ?thesis using assms None by (simp add: select_member_def Let_def)
    qed
  qed
qed

lemma balanced_owner_spec:
  assumes "select_balanced fromiso model cs r = Inr ((c, i), r')"
  shows "c \<in> set cs" "i = ca_id c" "inflight r' = slot_up i (inflight r)"
    "\<And>x. x \<in> set cs \<Longrightarrow> slot_count (inflight r) (ca_id c) \<le> slot_count (inflight r) (ca_id x)"
proof -
  let ?o = "ranking fromiso cs"
  let ?t = "least_loaded (\<lambda>c. slot_count (inflight r) (ca_id c)) ?o"
  have ne: "?o \<noteq> []" using assms by (auto simp: select_balanced_def Let_def)
  then have t: "?t \<noteq> []" by (rule least_loaded_nonempty)
  have set: "set ?o = set cs" by (simp add: ranking_def sort_desc_def)
  have c: "c \<in> set ?t" and "i = ca_id c" "inflight r' = slot_up i (inflight r)"
    using assms ne t by (auto simp: select_balanced_def Let_def)
  show "c \<in> set cs" using c least_loaded_subset set by fastforce
  show "i = ca_id c" "inflight r' = slot_up i (inflight r)" by fact+
  show "slot_count (inflight r) (ca_id c) \<le> slot_count (inflight r) (ca_id x)" if "x \<in> set cs" for x
    using least_loaded_min[OF c, of x] that set by simp
qed

fun balance_requests :: "(string \<Rightarrow> rat option) \<Rightarrow> string \<Rightarrow> candidate list \<Rightarrow> nat \<Rightarrow> routing \<Rightarrow> routing result" where
  "balance_requests fromiso model cs 0 r = Inr r"
| "balance_requests fromiso model cs (Suc n) r =
     bindE (select_balanced fromiso model cs r) (\<lambda>(x, r'). balance_requests fromiso model cs n r')"

lemma balance_requests_spread:
  assumes "balance_requests fromiso model cs n r = Inr r'"
    and "\<forall>i \<in> ca_id ` set cs. \<forall>j \<in> ca_id ` set cs. slot_count (inflight r) i \<le> slot_count (inflight r) j + 1"
  shows "\<forall>i \<in> ca_id ` set cs. \<forall>j \<in> ca_id ` set cs. slot_count (inflight r') i \<le> slot_count (inflight r') j + 1"
  using assms
proof (induction n arbitrary: r)
  case (Suc n)
  obtain c i r1 where s: "select_balanced fromiso model cs r = Inr ((c, i), r1)"
    "balance_requests fromiso model cs n r1 = Inr r'" using Suc.prems(1) by (auto simp: except_simps)
  note B = balanced_owner_spec[OF s(1)]
  let ?f = "slot_count (inflight r)"
  have "slot_count (inflight r1) = ?f(ca_id c := ?f (ca_id c) + 1)"
    using B(2,3) by (auto simp: slot_count_up fun_eq_iff)
  moreover have "\<forall>i \<in> ca_id ` set cs. \<forall>j \<in> ca_id ` set cs. (?f(ca_id c := ?f (ca_id c) + 1)) i
      \<le> (?f(ca_id c := ?f (ca_id c) + 1)) j + 1"
    using Suc.prems(2) B(1,4) by (intro spread_step) auto
  ultimately show ?case using Suc.IH[OF s(2)] by simp
qed simp

text \<open>A stored policy is its own normal form.\<close>

definition pmember_ok :: "pmember \<Rightarrow> bool" where
  "pmember_ok m \<longleftrightarrow> py_strip (pm_id m) = pm_id m \<and> pm_id m \<noteq> [] \<and>
     (\<forall>n. pm_limit m = Some n \<longrightarrow> 1 \<le> n \<and> n \<le> max_concurrency)"

definition policy_ok :: "policy \<Rightarrow> bool" where
  "policy_ok p \<longleftrightarrow> py_strip (po_model p) = po_model p \<and> po_model p \<noteq> [] \<and> length (po_model p) \<le> 512 \<and>
     1 \<le> length (po_members p) \<and> length (po_members p) \<le> max_members \<and> distinct (map pm_id (po_members p)) \<and>
     (\<forall>m \<in> set (po_members p). pmember_ok m)"

lemma member_limit_ok: "member_limit v = Inr (Some n) \<Longrightarrow> 1 \<le> n \<and> n \<le> max_concurrency"
  by (auto simp: member_limit_def split: pyval.splits if_splits)

lemma policy_rows_ok:
  "policy_rows rows acc = Inr ms \<Longrightarrow> distinct (map pm_id acc) \<Longrightarrow>
   \<forall>m \<in> set acc. pmember_ok m \<Longrightarrow>
   distinct (map pm_id ms) \<and> length ms = length acc + length rows \<and>
   (\<forall>m \<in> set ms. pmember_ok m)"
proof (induction rows acc rule: policy_rows.induct)
  case (2 d rows acc)
  let ?i = "text_field (dict_get d ''deployment_id'')"
  obtain n where n: "?i \<noteq> []" "?i \<notin> pm_id ` set acc" "member_limit (dict_get d ''max_concurrency'') = Inr n"
    "policy_rows rows (acc @ [\<lparr>pm_id = ?i, pm_limit = n\<rparr>]) = Inr ms"
    using 2(2) by (auto simp: Let_def except_simps split: if_splits)
  have "distinct (map pm_id (acc @ [\<lparr>pm_id = ?i, pm_limit = n\<rparr>]))" using 2(3) n(2) by auto
  moreover have "\<forall>m \<in> set (acc @ [\<lparr>pm_id = ?i, pm_limit = n\<rparr>]). pmember_ok m"
    using 2(4) n(1,3) member_limit_ok by (auto simp: text_field_strip pmember_ok_def)
  ultimately have "distinct (map pm_id ms) \<and> length ms = length (acc @ [\<lparr>pm_id = ?i, pm_limit = n\<rparr>]) + length rows \<and>
      (\<forall>m \<in> set ms. pmember_ok m)"
    by (rule 2(1)[OF refl n(1,2) n(4)])
  then show ?case by simp
qed simp_all

lemma normalize_policy_ok: "normalize_policy v = Inr p \<Longrightarrow> policy_ok p"
proof -
  assume n: "normalize_policy v = Inr p"
  then obtain d rows ms where d: "v = PDict d" "text_field (dict_get d ''model'') \<noteq> []"
    "length (text_field (dict_get d ''model'')) \<le> 512" "dict_get d ''members'' = PList rows"
    "1 \<le> length rows" "length rows \<le> max_members" "policy_rows rows [] = Inr ms"
    "p = \<lparr>po_model = text_field (dict_get d ''model''), po_members = ms, po_updated = dict_get d ''updated_at''\<rparr>"
    by (auto simp: normalize_policy_def Let_def except_simps split: pyval.splits if_splits)
  from policy_rows_ok[OF d(7)] show ?thesis using d by (simp add: policy_ok_def text_field_strip)
qed

definition row_of :: "pmember \<Rightarrow> pyval" where
  "row_of m = PDict [(''deployment_id'', PStr (pm_id m)),
     (''max_concurrency'', case pm_limit m of None \<Rightarrow> PNone | Some n \<Rightarrow> PInt n)]"

lemma policy_rows_json:
  assumes "distinct (map pm_id (acc @ ms))"
    "\<forall>m \<in> set ms. pmember_ok m"
  shows "policy_rows (map row_of ms) acc = Inr (acc @ ms)"
  using assms
proof (induction ms arbitrary: acc)
  case (Cons m ms)
  obtain i n where m: "m = \<lparr>pm_id = i, pm_limit = n\<rparr>" by (cases m)
  have ok: "pmember_ok m" using Cons.prems(2) by simp
  have "member_limit (case n of None \<Rightarrow> PNone | Some n \<Rightarrow> PInt n) = Inr n"
    using ok m by (cases n) (auto simp: member_limit_def pmember_ok_def)
  moreover have "i \<notin> pm_id ` set acc" "i \<noteq> []" "py_strip i = i"
    using Cons.prems(1) ok m by (auto simp: pmember_ok_def)
  moreover have "policy_rows (map row_of ms) (acc @ [m]) = Inr ((acc @ [m]) @ ms)"
    using Cons.prems by (intro Cons.IH) auto
  ultimately show ?case unfolding list.map(2) row_of_def[of m] by (simp add: dict_get_def m)
qed simp

lemma normalize_policy_json: "policy_ok p \<Longrightarrow> normalize_policy (policy_json p) = Inr p"
proof -
  assume p: "policy_ok p"
  have "policy_rows (map row_of (po_members p)) [] = Inr (po_members p)"
    using p policy_rows_json[of "[]" "po_members p"] by (simp add: policy_ok_def)
  then show ?thesis using p
    by (simp add: normalize_policy_def policy_json_def dict_get_def policy_ok_def row_of_def[abs_def] Let_def)
qed

definition table_valid :: "(string, policy) dict \<Rightarrow> bool" where
  "table_valid ps \<longleftrightarrow> wf_dict ps \<and> (\<forall>(k, p) \<in> set ps. k = po_model p \<and> policy_ok p)"

lemma load_rows_policies:
  assumes "\<forall>p \<in> set xs. policy_ok p" "distinct (map po_model xs)" "\<forall>p \<in> set xs. po_model p \<notin> fst ` set acc"
  shows "foldl (\<lambda>acc row. case normalize_policy row of Inl e \<Rightarrow> acc | Inr p \<Rightarrow> AList.update (po_model p) p acc) acc
    (map policy_json xs) = acc @ map (\<lambda>p. (po_model p, p)) xs"
  using assms
proof (induction xs arbitrary: acc)
  case (Cons p xs)
  have "AList.update (po_model p) p acc = acc @ [(po_model p, p)]"
    by (rule update_fresh) (use Cons.prems(3) in simp)
  moreover have "\<forall>q \<in> set xs. po_model q \<notin> fst ` set (acc @ [(po_model p, p)])"
    using Cons.prems(2,3) by (auto simp: image_iff)
  ultimately show ?case using Cons.prems Cons.IH[of "acc @ [(po_model p, p)]"]
    by (simp add: normalize_policy_json)
qed simp

lemma tagged_row: "f k = Some p \<Longrightarrow> k \<in> set ks \<Longrightarrow> (g p, p) \<in> set (map (\<lambda>p. (g p, p)) (map (\<lambda>k. the (f k)) ks))"
  by force

lemma policies_roundtrip:
  assumes "table_valid ps"
  shows "map_of (load_policies (Some (save_policies ps))) = map_of ps"
proof -
  let ?ks = "sort_key id (keys_of ps)"
  let ?xs = "map (\<lambda>k. the (map_of ps k)) ?ks"
  have wf: "wf_dict ps" and ok: "\<And>k p. (k, p) \<in> set ps \<Longrightarrow> k = po_model p \<and> policy_ok p"
    using assms by (auto simp: table_valid_def)
  have get: "map_of ps k = Some p \<Longrightarrow> po_model p = k \<and> policy_ok p" for k p
    using ok map_of_SomeD by fastforce
  have ks: "set ?ks = fst ` set ps" "distinct ?ks"
    using wf by (simp_all add: wf_dict_def)
  have some: "\<exists>p. map_of ps k = Some p" if "k \<in> set ?ks" for k
    using that ks(1) by (metis map_of_eq_None_iff option.exhaust)
  have models: "map po_model ?xs = ?ks"
    unfolding map_map by (rule map_idI) (use some get in fastforce)
  have "foldl (\<lambda>acc row. case normalize_policy row of Inl e \<Rightarrow> acc | Inr p \<Rightarrow> AList.update (po_model p) p acc) []
    (map policy_json ?xs) = [] @ map (\<lambda>p. (po_model p, p)) ?xs"
  proof (rule load_rows_policies)
    show "\<forall>p \<in> set ?xs. policy_ok p" using some get by fastforce
    show "distinct (map po_model ?xs)" unfolding models by (rule ks(2))
  qed simp
  then have load: "load_policies (Some (save_policies ps)) = map (\<lambda>p. (po_model p, p)) ?xs"
    by (simp add: load_policies_def save_policies_def dict_get_def comp_def)
  have fsts: "map fst (map (\<lambda>p. (po_model p, p)) xs) = map po_model xs" for xs by (induction xs) simp_all
  have keys: "map fst (map (\<lambda>p. (po_model p, p)) ?xs) = ?ks" unfolding fsts models ..
  have dist: "distinct (map fst (map (\<lambda>p. (po_model p, p)) ?xs))" by (subst keys) (rule ks(2))
  have "map_of (map (\<lambda>p. (po_model p, p)) ?xs) k = map_of ps k" for k
  proof (cases "k \<in> set ?ks")
    case True
    then obtain p where p: "map_of ps k = Some p" using some by blast
    have "(po_model p, p) \<in> set (map (\<lambda>p. (po_model p, p)) ?xs)"
      by (rule tagged_row[of "map_of ps" k, OF p True])
    then have "(k, p) \<in> set (map (\<lambda>p. (po_model p, p)) ?xs)" using get[OF p] by (simp only: simp_thms)
    then have "map_of (map (\<lambda>p. (po_model p, p)) ?xs) k = Some p"
      by (rule map_of_is_SomeI[OF dist])
    then show ?thesis using p by simp
  next
    case False
    have "k \<notin> set (map fst (map (\<lambda>p. (po_model p, p)) ?xs))" by (subst keys) (rule False)
    then have "map_of (map (\<lambda>p. (po_model p, p)) ?xs) k = None"
      unfolding map_of_eq_None_iff list.set_map[of fst] .
    then show ?thesis using False ks(1) by (metis map_of_eq_None_iff)
  qed
  then show ?thesis unfolding load by (simp add: fun_eq_iff)
qed

section \<open>Properties\<close>

text \<open>a policy is honoured: the chosen deployment is live and a member of the policy; it is the first
  live member in priority order that is below its cap, and only when every live member is at its cap
  the first one with the least requests in flight; exactly its own counter goes up, by one, so a cap
  is never exceeded while some live member has room.\<close>

theorem policy_selection:
  assumes "map_of (policies r) model = Some p" and "select_member model cs r = (Some c, r')"
  shows "\<exists>m. m \<in> set (po_members p) \<and> pm_id m = ca_id c \<and> c \<in> set cs \<and>
    (\<forall>i. slot_count (inflight r') i = slot_count (inflight r) i + (if i = ca_id c then 1 else 0)) \<and>
    ((has_room (inflight r) m \<and> (\<forall>n. pm_limit m = Some n \<longrightarrow> slot_count (inflight r') (pm_id m) \<le> n) \<and>
      (\<exists>pre post. filter (\<lambda>m. live_by_id cs (pm_id m) \<noteq> None) (po_members p) = pre @ m # post \<and>
         (\<forall>x \<in> set pre. \<not> has_room (inflight r) x))) \<or>
     (\<forall>x \<in> set (po_members p). live_by_id cs (pm_id x) \<noteq> None \<longrightarrow> \<not> has_room (inflight r) x \<and>
        slot_count (inflight r) (pm_id m) \<le> slot_count (inflight r) (pm_id x)))"
proof -
  let ?ms = "filter (\<lambda>m. live_by_id cs (pm_id m) \<noteq> None) (po_members p)"
  obtain m where m: "m \<in> set (po_members p)" "live_by_id cs (pm_id m) = Some c"
    "r' = r\<lparr>inflight := slot_up (pm_id m) (inflight r)\<rparr>"
    "find (has_room (inflight r)) ?ms = Some m \<or> (find (has_room (inflight r)) ?ms = None \<and>
       min_by (\<lambda>m. slot_count (inflight r) (pm_id m)) ?ms = Some m)"
    using select_member_cases[OF assms] by blast
  have c: "c \<in> set cs" "ca_id c = pm_id m" using live_by_id_Some[OF m(2)] by auto
  have count: "\<forall>i. slot_count (inflight r') i = slot_count (inflight r) i + (if i = ca_id c then 1 else 0)"
    using m(3) c(2) by (simp add: slot_count_up)
  from m(4) show ?thesis
  proof
    assume f: "find (has_room (inflight r)) ?ms = Some m"
    have first: "\<exists>pre post. ?ms = pre @ m # post \<and> (\<forall>x \<in> set pre. \<not> has_room (inflight r) x)"
      and "has_room (inflight r) m" using find_first[OF f] by blast+
    have "\<forall>n. pm_limit m = Some n \<longrightarrow> slot_count (inflight r') (pm_id m) \<le> n"
      using \<open>has_room (inflight r) m\<close> count c(2) by (auto simp: has_room_def)
    then show ?thesis using m(1) c count first \<open>has_room (inflight r) m\<close>
      by (intro exI[of _ m] conjI disjI1) (simp_all only: simp_thms)
  next
    assume f: "find (has_room (inflight r)) ?ms = None \<and> min_by (\<lambda>m. slot_count (inflight r) (pm_id m)) ?ms = Some m"
    have "\<forall>x \<in> set ?ms. slot_count (inflight r) (pm_id m) \<le> slot_count (inflight r) (pm_id x)"
      using min_by_Some[OF conjunct2[OF f]] by blast
    moreover have "\<forall>x \<in> set ?ms. \<not> has_room (inflight r) x" using f by (auto simp: find_None_iff)
    ultimately have "\<forall>x \<in> set (po_members p). live_by_id cs (pm_id x) \<noteq> None \<longrightarrow> \<not> has_room (inflight r) x \<and>
        slot_count (inflight r) (pm_id m) \<le> slot_count (inflight r) (pm_id x)" by simp
    then show ?thesis using m(1) c count by (intro exI[of _ m] conjI disjI2) simp_all
  qed
qed

definition demo_policy :: policy where
  "demo_policy = \<lparr>po_model = ''m'', po_members = [\<lparr>pm_id = ''a'', pm_limit = Some 1\<rparr>, \<lparr>pm_id = ''b'', pm_limit = None\<rparr>],
     po_updated = PNone\<rparr>"

definition demo_cand :: "string \<Rightarrow> candidate" where
  "demo_cand i = \<lparr>ca_id = i, ca_deployed = PNone, ca_created = PNone\<rparr>"

definition demo_routing :: routing where
  "demo_routing = \<lparr>policies = [(''m'', demo_policy)], inflight = [(''a'', 1)], turns = []\<rparr>"

theorem policy_selection_witness:
  "fst (select_member ''m'' [demo_cand ''a'', demo_cand ''b''] demo_routing) = Some (demo_cand ''b'') \<and>
   slot_count (inflight (snd (select_member ''m'' [demo_cand ''a'', demo_cand ''b''] demo_routing))) ''b'' = 1"
proof -
  let ?cs = "[demo_cand ''a'', demo_cand ''b'']"
  obtain r' where s: "select_member ''m'' ?cs demo_routing = (Some (demo_cand ''b''), r')"
    by (simp add: select_member_def demo_routing_def demo_policy_def live_by_id_def demo_cand_def has_room_def slot_count_def)
  have p: "map_of (policies demo_routing) ''m'' = Some demo_policy" by (simp add: demo_routing_def)
  have "\<forall>i. slot_count (inflight r') i = slot_count (inflight demo_routing) i + (if i = ca_id (demo_cand ''b'') then 1 else 0)"
    using policy_selection[OF p s] by blast
  then show ?thesis using s by (simp add: demo_routing_def slot_count_def demo_cand_def)
qed

text \<open>C18: without a policy the owners of a shared id are loaded evenly: any number of balanced requests,
  starting from idle owners, leaves the requests in flight of every two owners within one of each
  other, and releasing each reservation once returns every counter to its previous value.\<close>

theorem shared_owner_spread:
  assumes "balance_requests fromiso model cs n \<lparr>policies = ps, inflight = [], turns = ts\<rparr> = Inr r"
    and "x \<in> set cs" and "y \<in> set cs"
  shows "slot_count (inflight r) (ca_id x) \<le> slot_count (inflight r) (ca_id y) + 1 \<and>
    (\<forall>ops k m. outstanding ops k = Some m \<longrightarrow> slot_count (slots.after ops) k = int m)"
proof -
  have "\<forall>i \<in> ca_id ` set cs. \<forall>j \<in> ca_id ` set cs. slot_count (inflight r) i \<le> slot_count (inflight r) j + 1"
    by (rule balance_requests_spread[OF assms(1)]) (simp add: slot_count_def)
  then show ?thesis using assms(2,3) slots.count_outstanding by blast
qed

theorem shared_owner_spread_witness:
  "\<exists>r. balance_requests (\<lambda>_. None) ''m'' [demo_cand ''a'', demo_cand ''b''] 3 \<lparr>policies = [], inflight = [], turns = []\<rparr> = Inr r \<and>
     slot_count (inflight r) ''a'' \<le> slot_count (inflight r) ''b'' + 1"
proof -
  let ?cs = "[demo_cand ''a'', demo_cand ''b'']"
  have ne: "ranking (\<lambda>_. None) ?cs \<noteq> []" unfolding ranking_def by (metis mset_zero_iff sort_desc_mset list.distinct(1))
  have "\<exists>r. balance_requests (\<lambda>_. None) ''m'' ?cs n r0 = Inr r" for n r0
    by (induction n arbitrary: r0) (simp_all add: select_balanced_def Let_def ne)
  then obtain r where r: "balance_requests (\<lambda>_. None) ''m'' ?cs 3 \<lparr>policies = [], inflight = [], turns = []\<rparr> = Inr r"
    by blast
  from shared_owner_spread[OF r, of "demo_cand ''a''" "demo_cand ''b''"] r show ?thesis
    by (simp add: demo_cand_def)
qed

text \<open>C19: routing policies survive a restart: every policy the validation accepts is its own normal form,
  and loading the saved table of valid policies gives the same policy for every model.\<close>

theorem policies_survive_restart:
  assumes "table_valid ps"
  shows "map_of (load_policies (Some (save_policies ps))) = map_of ps \<and>
    (\<forall>v p. normalize_policy v = Inr p \<longrightarrow> normalize_policy (policy_json p) = Inr p)"
  using policies_roundtrip[OF assms] normalize_policy_json normalize_policy_ok by blast

theorem policies_survive_restart_witness:
  "map_of (load_policies (Some (save_policies [(''m'', demo_policy)]))) = map_of [(''m'', demo_policy)]"
proof -
  have "py_strip ''m'' = ''m''" "py_strip ''a'' = ''a''" "py_strip ''b'' = ''b''"
    by (simp_all add: py_strip_def py_space_def)
  then have "table_valid [(''m'', demo_policy)]"
    by (simp add: table_valid_def wf_dict_def policy_ok_def demo_policy_def pmember_ok_def max_members_def max_concurrency_def)
  from policies_survive_restart[OF this] show ?thesis by blast
qed

end
