(* ===== verification/Shell_Scan.thy ===== *)
theory Shell_Scan imports Py_Values
begin

text \<open>
  The shell scanners of \<open>manager.py\<close>.  A launch command found as \<open>sh -c "..."\<close> may only be turned into
  an argument vector when the shell would not have changed it; six character loops look for the
  constructs that do: command newlines, comments, path expansion, brace expansion, and the two
  Bash quotations \<open>$'...'\<close> and \<open>$"..."\<close>.

  A position \<open>index\<close> of a text is the pair of the reversed text before it (\<open>pre\<close>) and the text from it
  on.  Five loops share the rules for quotes and backslashes, \<open>quote_step\<close>; the locale \<open>shell_scanner\<close>
  states that structure once.  \<open>lexemes\<close> is the reference reading of a text against which four scanners
  are specified, and \<open>shlex_quote\<close>, \<open>shlex_join\<close> and \<open>shlex_split\<close> are the functions of Python's \<open>shlex\<close>.
\<close>

section \<open>Quotes\<close>

datatype quote = Bare | Single | Double

abbreviation sq :: char where "sq \<equiv> CHR 0x27"
abbreviation dq :: char where "dq \<equiv> CHR 0x22"
abbreviation bs :: char where "bs \<equiv> CHR 0x5C"

definition separator :: "char \<Rightarrow> bool" where
  "separator c \<longleftrightarrow> py_space c \<or> c \<in> set '';|&()<>''"

text \<open>The branches at the head of the loops: the quote, the text before and the text after the next
  position when the character belongs to quoting, \<open>None\<close> when it is an ordinary character.\<close>

fun quote_step :: "quote \<Rightarrow> string \<Rightarrow> char \<Rightarrow> string \<Rightarrow> (quote \<times> string \<times> string) option" where
  "quote_step Single pre c rest = Some (if c = sq then Bare else Single, c # pre, rest)"
| "quote_step Double pre c rest =
     (if c = dq then Some (Bare, c # pre, rest)
      else if c = bs \<and> rest \<noteq> [] then Some (Double, hd rest # c # pre, tl rest)
      else Some (Double, c # pre, rest))"
| "quote_step Bare pre c rest =
     (if c = sq then Some (Single, c # pre, rest)
      else if c = dq then Some (Double, c # pre, rest)
      else if c = bs \<and> rest \<noteq> [] then Some (Bare, hd rest # c # pre, tl rest)
      else None)"

lemma quote_step_shorter: "quote_step q pre c rest = Some (q', pre', r) \<Longrightarrow> length r < Suc (length rest)"
  by (cases q) (auto split: if_splits)

lemma quote_step_None: "quote_step q pre c rest = None \<Longrightarrow> q = Bare"
  by (cases q) (auto split: if_splits)

section \<open>The scanners\<close>

text \<open>\<open>_has_unquoted_shell_comment\<close>; the state is \<open>word_start\<close>.\<close>

definition comment_hit :: "bool \<Rightarrow> char \<Rightarrow> bool" where
  "comment_hit ws c \<longleftrightarrow> c = CHR ''#'' \<and> ws"

function comment_scan :: "bool \<Rightarrow> quote \<Rightarrow> string \<Rightarrow> string \<Rightarrow> bool" where
  "comment_scan ws q pre [] = False"
| "comment_scan ws q pre (c # rest) = (case quote_step q pre c rest of
      Some (q', pre', r) \<Rightarrow> comment_scan False q' pre' r
    | None \<Rightarrow> if comment_hit ws c then True else comment_scan (separator c) Bare (c # pre) rest)"
  by pat_completeness auto
termination by (relation "measure (\<lambda>(ws, q, pre, t). length t)") (auto dest: quote_step_shorter)

definition has_comment :: "string \<Rightarrow> bool" where
  "has_comment t = comment_scan True Bare [] t"

text \<open>\<open>_has_unquoted_shell_path_expansion\<close>; the state is \<open>word_start\<close> and \<open>bracket_candidate\<close>.\<close>

definition path_hit :: "bool \<Rightarrow> bool \<Rightarrow> string \<Rightarrow> char \<Rightarrow> string \<Rightarrow> bool" where
  "path_hit ws br pre c rest \<longleftrightarrow>
     c \<in> set ''*?'' \<or> (c \<in> set ''@+!'' \<and> take 1 rest = ''('') \<or> (c = CHR '']'' \<and> br) \<or>
     (c = CHR ''~'' \<and> (ws \<or> pre \<noteq> [] \<and> hd pre = CHR ''=''))"

function path_scan :: "bool \<times> bool \<Rightarrow> quote \<Rightarrow> string \<Rightarrow> string \<Rightarrow> bool" where
  "path_scan (ws, br) q pre [] = False"
| "path_scan (ws, br) q pre (c # rest) = (case quote_step q pre c rest of
      Some (q', pre', r) \<Rightarrow> path_scan (False, br) q' pre' r
    | None \<Rightarrow> if separator c then path_scan (True, False) Bare (c # pre) rest
        else if path_hit ws br pre c rest then True
        else path_scan (False, br \<or> c = CHR ''['') Bare (c # pre) rest)"
  by pat_completeness auto
termination by (relation "measure (\<lambda>(s, q, pre, t). length t)") (auto dest: quote_step_shorter)

definition has_path_expansion :: "string \<Rightarrow> bool" where
  "has_path_expansion t = path_scan (True, False) Bare [] t"

text \<open>\<open>_has_unquoted_bash_ansi_c_quoting\<close> and \<open>_has_unquoted_bash_locale_quoting\<close>; the two loops differ in
  the quote character after the dollar.\<close>

function dollar_scan :: "char \<Rightarrow> quote \<Rightarrow> string \<Rightarrow> string \<Rightarrow> bool" where
  "dollar_scan k q pre [] = False"
| "dollar_scan k q pre (c # rest) = (case quote_step q pre c rest of
      Some (q', pre', r) \<Rightarrow> dollar_scan k q' pre' r
    | None \<Rightarrow> if c = CHR ''$'' \<and> take 1 rest = [k] then True else dollar_scan k Bare (c # pre) rest)"
  by pat_completeness auto
termination by (relation "measure (\<lambda>(k, q, pre, t). length t)") (auto dest: quote_step_shorter)

definition has_ansi_c :: "string \<Rightarrow> bool" where
  "has_ansi_c t = dollar_scan sq Bare [] t"

definition has_locale_quote :: "string \<Rightarrow> bool" where
  "has_locale_quote t = dollar_scan dq Bare [] t"

text \<open>\<open>_has_unquoted_bash_brace_expansion\<close>; the state is \<open>brace_stack\<close>.  The regular expression of the
  sequence form \<open>{a..b}\<close> and \<open>{a..b..step}\<close> is \<open>brace_range\<close>.\<close>

record brace =
  b_param :: bool
  b_start :: nat
  b_comma :: bool

definition ascii_letter :: "char \<Rightarrow> bool" where
  "ascii_letter c = (let n = (of_char c :: nat) in 65 \<le> n \<and> n \<le> 90 \<or> 97 \<le> n \<and> n \<le> 122)"

definition range_int :: "string \<Rightarrow> string option" where
  "range_int s = (let t = (case s of [] \<Rightarrow> [] | c # cs \<Rightarrow> if c = CHR ''-'' then cs else s)
     in if t \<noteq> [] \<and> is_digit (hd t) then Some (dropWhile is_digit t) else None)"

definition range_atom :: "string \<Rightarrow> string option" where
  "range_atom s = (case s of [] \<Rightarrow> None | c # cs \<Rightarrow> if ascii_letter c then Some cs else range_int s)"

definition range_dots :: "string \<Rightarrow> string option" where
  "range_dots s = (if take 2 s = ''..'' then Some (drop 2 s) else None)"

definition brace_range :: "string \<Rightarrow> bool" where
  "brace_range s = (case Option.bind (Option.bind (range_atom s) range_dots) range_atom of
     None \<Rightarrow> False
   | Some r \<Rightarrow> r = [] \<or> Option.bind (range_dots r) range_int = Some [])"

definition dollar_escaped :: "string \<Rightarrow> bool" where
  "dollar_escaped pre = odd (length (takeWhile (\<lambda>c. c = bs) (tl pre)))"

definition parameter_open :: "string \<Rightarrow> bool" where
  "parameter_open pre \<longleftrightarrow> pre \<noteq> [] \<and> hd pre = CHR ''$'' \<and> \<not> dollar_escaped pre"

definition brace_hit :: "brace list \<Rightarrow> string \<Rightarrow> char \<Rightarrow> bool" where
  "brace_hit st pre c \<longleftrightarrow> c = CHR ''}'' \<and> (case st of [] \<Rightarrow> False
     | b # bs' \<Rightarrow> \<not> b_param b \<and> (b_comma b \<or> brace_range (drop (b_start b + 1) (rev pre))))"

definition brace_next :: "brace list \<Rightarrow> string \<Rightarrow> char \<Rightarrow> brace list" where
  "brace_next st pre c =
     (if separator c then []
      else if c = CHR ''{''
      then \<lparr>b_param = parameter_open pre, b_start = length pre, b_comma = False\<rparr> # st
      else case st of [] \<Rightarrow> []
         | b # bs' \<Rightarrow> if c = CHR '','' then (if b_param b then b # bs' else b\<lparr>b_comma := True\<rparr> # bs')
                     else if c = CHR ''}'' then bs' else b # bs')"

function brace_scan :: "brace list \<Rightarrow> quote \<Rightarrow> string \<Rightarrow> string \<Rightarrow> bool" where
  "brace_scan st q pre [] = False"
| "brace_scan st q pre (c # rest) = (case quote_step q pre c rest of
      Some (q', pre', r) \<Rightarrow> brace_scan st q' pre' r
    | None \<Rightarrow> if brace_hit st pre c then True else brace_scan (brace_next st pre c) Bare (c # pre) rest)"
  by pat_completeness auto
termination by (relation "measure (\<lambda>(st, q, pre, t). length t)") (auto dest: quote_step_shorter)

definition has_brace_expansion :: "string \<Rightarrow> bool" where
  "has_brace_expansion t = brace_scan [] Bare [] t"

text \<open>\<open>_has_unescaped_shell_newline\<close>; its quoting rules differ: a backslash also escapes a \<open>CR LF\<close> pair,
  and one at the end of the text escapes nothing.\<close>

abbreviation cr :: char where "cr \<equiv> CHR 0x0D"
abbreviation lf :: char where "lf \<equiv> CHR 0x0A"

function newline_scan :: "quote \<Rightarrow> string \<Rightarrow> bool" where
  "newline_scan q [] = False"
| "newline_scan q (c # rest) =
     (if q = Single then newline_scan (if c = sq then Bare else Single) rest
      else if c = dq then newline_scan (if q = Double then Bare else Double) rest
      else if c = sq \<and> q = Bare then newline_scan Single rest
      else if c = bs then
        newline_scan q (if take 1 rest = [cr] then (if take 1 (drop 1 rest) = [lf] then drop 2 rest else drop 1 rest)
                        else drop 1 rest)
      else if q = Bare \<and> (c = cr \<or> c = lf) then
        (let r = (if c = cr \<and> take 1 rest = [lf] then drop 1 rest else rest)
         in if py_strip r \<noteq> [] then True else newline_scan q r)
      else newline_scan q rest)"
  by pat_completeness auto
termination by (relation "measure (\<lambda>(q, t). length t)") auto

definition has_newline :: "string \<Rightarrow> bool" where
  "has_newline t = newline_scan Bare t"

section \<open>Python's shlex\<close>

definition shlex_safe :: "char \<Rightarrow> bool" where
  "shlex_safe c \<longleftrightarrow> ascii_letter c \<or> is_digit c \<or> c \<in> set ''_@%+=:,./-''"

definition shlex_quote :: "string \<Rightarrow> string" where
  "shlex_quote s = (if s = [] then [sq, sq]
     else if \<forall>c \<in> set s. shlex_safe c then s
     else sq # concat (map (\<lambda>c. if c = sq then [sq, dq, sq, dq, sq] else [c]) s) @ [sq])"

definition shlex_join :: "string list \<Rightarrow> string" where
  "shlex_join ws = join_with '' '' (map shlex_quote ws)"

section \<open>The common structure\<close>

text \<open>A quoted word with its quotes: the pieces between single quotes are joined by \<open>"'"\<close>.\<close>

definition quoted :: "string \<Rightarrow> string" where
  "quoted w = sq # concat (map (\<lambda>c. if c = sq then [sq, dq, sq, dq, sq] else [c]) w) @ [sq]"

lemma quoted_plain: "sq \<notin> set w \<Longrightarrow> quoted w = sq # w @ [sq]"
proof -
  assume "sq \<notin> set w"
  then have "concat (map (\<lambda>c. if c = sq then [sq, dq, sq, dq, sq] else [c]) w) = w"
    by (induction w) auto
  then show ?thesis by (simp add: quoted_def)
qed

lemma quoted_split: "sq \<notin> set v \<Longrightarrow> quoted (v @ sq # w) = sq # v @ sq # dq # sq # dq # quoted w"
  using quoted_plain[of v] by (simp add: quoted_def)

lemma quoted_induct [case_names plain split]:
  assumes "\<And>w. sq \<notin> set w \<Longrightarrow> P w" and "\<And>v w. sq \<notin> set v \<Longrightarrow> P w \<Longrightarrow> P (v @ sq # w)"
  shows "P w"
proof (induction "length w" arbitrary: w rule: less_induct)
  case less
  show ?case
  proof (cases "sq \<in> set w")
    case True
    then obtain v u where w: "w = v @ sq # u" "sq \<notin> set v" by (metis split_list_first)
    then have "P u" by (intro less) simp
    then show ?thesis using assms(2) w by blast
  qed (rule assms(1))
qed

lemma shlex_quote_cases: "shlex_quote w = (if w \<noteq> [] \<and> (\<forall>c \<in> set w. shlex_safe c) then w else quoted w)"
  by (auto simp: shlex_quote_def quoted_def)

lemma safe_chars:
  assumes "shlex_safe c"
  shows "c \<noteq> sq" "c \<noteq> dq" "c \<noteq> bs" "c \<noteq> CHR ''(''" "c \<notin> set ''#*?![]~${}''" "\<not> separator c"
  using assms by (auto simp: shlex_safe_def ascii_letter_def is_digit_def separator_def py_space_def Let_def)

text \<open>The words \<open>shlex.quote\<close> leaves alone are followed by a space or by the end of the command.\<close>

definition word_end :: "string \<Rightarrow> bool" where
  "word_end rest \<longleftrightarrow> rest = [] \<or> hd rest = CHR '' ''"

text \<open>\<open>found t\<close>: outside all quotes, with some state carried so far, the scan of \<open>t\<close> finds something.  The
  laws say which text adds nothing to what is found behind it.\<close>

locale bare_scanner =
  fixes found :: "string \<Rightarrow> bool"
  assumes found_Nil: "\<not> found []"
    and found_single: "sq \<notin> set w \<Longrightarrow> found (sq # w @ sq # rest) \<Longrightarrow> found rest"
    and found_double: "found (dq # sq # dq # rest) \<Longrightarrow> found rest"
    and found_space: "found (CHR '' '' # rest) \<Longrightarrow> found rest"
    and found_safe: "shlex_safe c \<Longrightarrow> take 1 rest \<noteq> ''('' \<Longrightarrow> found (c # rest) \<Longrightarrow> found rest"
begin

lemma found_quoted: "found (quoted w @ rest) \<Longrightarrow> found rest"
proof (induction w arbitrary: rest rule: quoted_induct)
  case (plain w)
  then show ?case using found_single[of w rest] by (simp add: quoted_plain)
next
  case (split v w)
  have "found (sq # v @ sq # (dq # sq # dq # quoted w @ rest))"
    using split.prems by (simp add: quoted_split[OF split.hyps])
  then show ?case using found_single[OF split.hyps] found_double split.IH by blast
qed

lemma found_word:
  "\<forall>c \<in> set w. shlex_safe c \<Longrightarrow> word_end rest \<Longrightarrow> found (w @ rest) \<Longrightarrow> found rest"
proof (induction w)
  case (Cons c w)
  have "take 1 (w @ rest) \<noteq> ''(''"
  proof (cases w)
    case Nil
    then show ?thesis using Cons.prems(2) by (cases rest) (auto simp: word_end_def)
  next
    case (Cons e u)
    then show ?thesis using Cons.prems(1) safe_chars(4)[of "CHR ''(''"] by auto
  qed
  then have "found (w @ rest)" using Cons.prems found_safe[of c "w @ rest"] by simp
  then show ?case using Cons.prems(1,2) by (intro Cons.IH) auto
qed simp

text \<open>Nothing is found in a command line written by \<open>shlex.join\<close>.\<close>

lemma shlex_join_silent: "\<not> found (shlex_join ws)"
proof (induction ws)
  case Nil
  then show ?case by (simp add: shlex_join_def found_Nil)
next
  case (Cons w ws)
  have word: "found (shlex_quote w @ rest) \<Longrightarrow> word_end rest \<Longrightarrow> found rest" for rest
    using found_word found_quoted by (auto simp: shlex_quote_cases split: if_splits)
  show ?case
  proof (cases ws)
    case Nil
    then show ?thesis using word[of "[]"] found_Nil by (auto simp: shlex_join_def word_end_def)
  next
    case (Cons v vs)
    have j: "shlex_join (w # ws) = shlex_quote w @ CHR '' '' # shlex_join ws" by (simp add: shlex_join_def Cons)
    have "word_end (CHR '' '' # shlex_join ws)" by (simp add: word_end_def)
    then show ?thesis unfolding j using word found_space Cons.IH by blast
  qed
qed

end

text \<open>The structure of the five loops with \<open>quote_step\<close>: quoting moves the position and forgets at most
  part of the state (\<open>skip\<close>), an ordinary character is a finding (\<open>hit\<close>) or advances the state.\<close>

locale shell_scanner =
  fixes scan :: "'s \<Rightarrow> quote \<Rightarrow> string \<Rightarrow> string \<Rightarrow> bool"
    and hit :: "'s \<Rightarrow> string \<Rightarrow> char \<Rightarrow> string \<Rightarrow> bool"
    and adv :: "'s \<Rightarrow> string \<Rightarrow> char \<Rightarrow> 's"
    and skip :: "'s \<Rightarrow> 's"
  assumes scan_Nil: "\<not> scan s q pre []"
    and scan_Cons: "scan s q pre (c # rest) \<longleftrightarrow> (case quote_step q pre c rest of
        Some (q', pre', r) \<Rightarrow> scan (skip s) q' pre' r
      | None \<Rightarrow> hit s pre c rest \<or> scan (adv s pre c) Bare (c # pre) rest)"
    and safe_no_hit: "shlex_safe c \<Longrightarrow> take 1 rest \<noteq> ''('' \<Longrightarrow> \<not> hit s pre c rest"
    and space_no_hit: "\<not> hit s pre (CHR '' '') rest"
begin

lemma single_run: "sq \<notin> set w \<Longrightarrow> scan s Single pre (w @ sq # rest) \<Longrightarrow> \<exists>s' pre'. scan s' Bare pre' rest"
proof (induction w arbitrary: s pre)
  case Nil
  then show ?case by (auto simp: scan_Cons)
next
  case (Cons c w)
  have "scan (skip s) Single (c # pre) (w @ sq # rest)"
    using Cons.prems by (simp add: scan_Cons split: if_splits)
  then show ?case using Cons.prems(1) by (intro Cons.IH) auto
qed

end

sublocale shell_scanner \<subseteq> bare_scanner "\<lambda>t. \<exists>s pre. scan s Bare pre t"
proof (unfold_locales, goal_cases)
  case (5 c rest)
  then show ?case using safe_chars(1-3)[OF 5(1)] by (auto simp: scan_Cons safe_no_hit)
qed (auto simp: scan_Nil scan_Cons space_no_hit dest: single_run)

text \<open>The five loops are instances.\<close>

interpretation comment: shell_scanner comment_scan "\<lambda>s pre c rest. comment_hit s c" "\<lambda>s pre c. separator c" "\<lambda>s. False"
  by unfold_locales (auto simp: comment_hit_def dest: safe_chars split: option.split)

interpretation path: shell_scanner path_scan "\<lambda>(ws, br) pre c rest. \<not> separator c \<and> path_hit ws br pre c rest"
    "\<lambda>(ws, br) pre c. if separator c then (True, False) else (False, br \<or> c = CHR ''['')" "\<lambda>(ws, br). (False, br)"
proof (unfold_locales, goal_cases)
  case (1 s q pre)
  then show ?case by (cases s) simp
next
  case (2 s q pre c rest)
  then show ?case by (cases s; cases "quote_step q pre c rest") auto
next
  case (3 c rest s pre)
  from safe_chars(5)[OF 3(1)] show ?case using 3(2) by (cases s) (auto simp: path_hit_def)
next
  case (4 s pre rest)
  have "separator (CHR '' '')" by (simp add: separator_def py_space_def)
  then show ?case by (cases s) simp
qed

interpretation ansi: shell_scanner "\<lambda>s :: unit. dollar_scan sq" "\<lambda>s pre c rest. c = CHR ''$'' \<and> take 1 rest = [sq]" "\<lambda>s pre c. s" "\<lambda>s. s"
  by unfold_locales (auto dest: safe_chars split: option.split)

interpretation loc: shell_scanner "\<lambda>s :: unit. dollar_scan dq" "\<lambda>s pre c rest. c = CHR ''$'' \<and> take 1 rest = [dq]" "\<lambda>s pre c. s" "\<lambda>s. s"
  by unfold_locales (auto dest: safe_chars split: option.split)

interpretation brace: shell_scanner brace_scan "\<lambda>s pre c rest. brace_hit s pre c" brace_next "\<lambda>s. s"
  by unfold_locales (auto simp: brace_hit_def dest: safe_chars split: option.split)

text \<open>The newline scanner has its own quoting rules and is an instance of the wider interface.\<close>

lemma newline_single: "sq \<notin> set w \<Longrightarrow> newline_scan Single (w @ sq # rest) = newline_scan Bare rest"
  by (induction w) auto

interpretation newline: bare_scanner "newline_scan Bare"
proof (unfold_locales, goal_cases)
  case (5 c rest)
  moreover from 5(1) have "c \<noteq> cr" "c \<noteq> lf"
    by (auto simp: shlex_safe_def ascii_letter_def is_digit_def)
  ultimately show ?case using safe_chars(1-3)[OF 5(1)] by simp
qed (auto simp: newline_single)

section \<open>The reference reading\<close>

text \<open>A text as a sequence of lexemes: an ordinary character, a quote that opens or closes, a character
  between quotes, or a character behind a backslash.\<close>

datatype lexeme = Plain char | Opening char | Closing char | Inside char | Escaped char

fun lex_char :: "lexeme \<Rightarrow> char" where
  "lex_char (Plain c) = c"
| "lex_char (Opening c) = c"
| "lex_char (Closing c) = c"
| "lex_char (Inside c) = c"
| "lex_char (Escaped c) = c"

fun lexemes :: "quote \<Rightarrow> string \<Rightarrow> lexeme list" where
  "lexemes q [] = []"
| "lexemes Single (c # t) = (if c = sq then Closing c # lexemes Bare t else Inside c # lexemes Single t)"
| "lexemes Double (c # t) =
     (if c = dq then Closing c # lexemes Bare t
      else if c = bs then (case t of [] \<Rightarrow> [Inside c] | d # u \<Rightarrow> Escaped d # lexemes Double u)
      else Inside c # lexemes Double t)"
| "lexemes Bare (c # t) =
     (if c = sq then Opening c # lexemes Single t
      else if c = dq then Opening c # lexemes Double t
      else if c = bs then (case t of [] \<Rightarrow> [Plain c] | d # u \<Rightarrow> Escaped d # lexemes Bare u)
      else Plain c # lexemes Bare t)"

definition is_separator :: "lexeme \<Rightarrow> bool" where
  "is_separator l = (case l of Plain c \<Rightarrow> separator c | _ \<Rightarrow> False)"

definition word_start :: "lexeme list \<Rightarrow> bool" where
  "word_start ls \<longleftrightarrow> ls = [] \<or> is_separator (last ls)"

text \<open>An ordinary \<open>[\<close> in the current word.\<close>

definition open_bracket :: "lexeme list \<Rightarrow> bool" where
  "open_bracket ls \<longleftrightarrow> Plain (CHR ''['') \<in> set (takeWhile (\<lambda>l. \<not> is_separator l) (rev ls))"

text \<open>The ordinary character \<open>c\<close> between \<open>before\<close> and \<open>behind\<close> makes the shell expand a path.\<close>

definition path_at :: "lexeme list \<Rightarrow> char \<Rightarrow> lexeme list \<Rightarrow> bool" where
  "path_at before c behind \<longleftrightarrow>
     c \<in> set ''*?'' \<or> (c \<in> set ''@+!'' \<and> take 1 behind = [Plain (CHR ''('')]) \<or>
     (c = CHR '']'' \<and> open_bracket before) \<or>
     (c = CHR ''~'' \<and> (word_start before \<or> lex_char (last before) = CHR ''=''))"

lemma quote_step_lexemes:
  "quote_step q pre c rest = Some (q', pre', r) \<Longrightarrow>
   \<exists>l. lexemes q (c # rest) = l # lexemes q' r \<and> (\<forall>d. l \<noteq> Plain d) \<and> pre' \<noteq> [] \<and> hd pre' = lex_char l"
  by (cases q) (auto split: if_splits list.splits)

lemma plain_lexemes: "quote_step q pre c rest = None \<Longrightarrow> lexemes q (c # rest) = Plain c # lexemes Bare rest"
  by (cases q) (auto split: if_splits list.splits)

lemma next_lexeme:
  "take 1 rest = ''('' \<longleftrightarrow> take 1 (lexemes Bare rest) = [Plain (CHR ''('')]"
  "take 1 rest = [sq] \<longleftrightarrow> take 1 (lexemes Bare rest) = [Opening sq]"
  "take 1 rest = [dq] \<longleftrightarrow> take 1 (lexemes Bare rest) = [Opening dq]"
  by (cases rest; auto split: list.splits)+

lemma split_plain:
  "(\<exists>as d bs. l # ls = as @ Plain d # bs \<and> Q as d bs) \<longleftrightarrow>
   (\<exists>d. l = Plain d \<and> Q [] d ls) \<or> (\<exists>as d bs. ls = as @ Plain d # bs \<and> Q (l # as) d bs)"
  (is "?L \<longleftrightarrow> ?A \<or> ?B")
proof
  assume ?L
  then obtain as d bs where x: "l # ls = as @ Plain d # bs" "Q as d bs" by blast
  then show "?A \<or> ?B" by (cases as) auto
next
  assume "?A \<or> ?B"
  then show ?L by (metis append_Cons append_Nil)
qed

context shell_scanner
begin

text \<open>If the state and the text before always stand for the lexemes before (\<open>R\<close>), the scanner finds
  exactly the ordinary characters that satisfy \<open>P\<close>.\<close>

lemma scan_iff_lexemes:
  assumes hit: "\<And>s pre b c rest. R s pre b \<Longrightarrow> hit s pre c rest \<longleftrightarrow> P b c (lexemes Bare rest)"
    and adv: "\<And>s pre b c. R s pre b \<Longrightarrow> R (adv s pre c) (c # pre) (b @ [Plain c])"
    and skip: "\<And>s pre b l pre'. R s pre b \<Longrightarrow> \<forall>d. l \<noteq> Plain d \<Longrightarrow> pre' \<noteq> [] \<Longrightarrow> hd pre' = lex_char l \<Longrightarrow>
        R (skip s) pre' (b @ [l])"
    and start: "R s pre b"
  shows "scan s q pre t \<longleftrightarrow> (\<exists>as c bs. lexemes q t = as @ Plain c # bs \<and> P (b @ as) c bs)"
  using start
proof (induction "length t" arbitrary: t s q pre b rule: less_induct)
  case less
  show ?case
  proof (cases t)
    case Nil
    then show ?thesis by (simp add: scan_Nil)
  next
    case (Cons c rest)
    show ?thesis
    proof (cases "quote_step q pre c rest")
      case None
      let ?ls = "lexemes Bare rest"
      have "scan s q pre t \<longleftrightarrow> hit s pre c rest \<or> scan (adv s pre c) Bare (c # pre) rest"
        using None Cons by (simp add: scan_Cons)
      also have "\<dots> \<longleftrightarrow> P b c ?ls \<or> (\<exists>as d bs. ?ls = as @ Plain d # bs \<and> P ((b @ [Plain c]) @ as) d bs)"
        using less.hyps[OF _ adv[OF less.prems], of rest c Bare] hit[OF less.prems] Cons by simp
      also have "\<dots> \<longleftrightarrow> (\<exists>as d bs. Plain c # ?ls = as @ Plain d # bs \<and> P (b @ as) d bs)"
        by (simp add: split_plain)
      finally show ?thesis using plain_lexemes[OF None] Cons by simp
    next
      case (Some x)
      obtain q' pre' r where st: "quote_step q pre c rest = Some (q', pre', r)" using Some by (cases x) auto
      obtain l where l: "lexemes q (c # rest) = l # lexemes q' r" "\<forall>d. l \<noteq> Plain d" "pre' \<noteq> []" "hd pre' = lex_char l"
        using quote_step_lexemes[OF st] by blast
      have "scan s q pre t \<longleftrightarrow> scan (skip s) q' pre' r" using st Cons by (simp add: scan_Cons)
      also have "\<dots> \<longleftrightarrow> (\<exists>as d bs. lexemes q' r = as @ Plain d # bs \<and> P ((b @ [l]) @ as) d bs)"
        using less.hyps[OF _ skip[OF less.prems l(2-4)], of r q'] quote_step_shorter[OF st] Cons by simp
      also have "\<dots> \<longleftrightarrow> (\<exists>as d bs. l # lexemes q' r = as @ Plain d # bs \<and> P (b @ as) d bs)"
        using l(2) by (simp add: split_plain)
      finally show ?thesis using l(1) Cons by simp
    qed
  qed
qed

end

lemma comment_iff: "has_comment t \<longleftrightarrow> (\<exists>as bs. lexemes Bare t = as @ Plain (CHR ''#'') # bs \<and> word_start as)"
proof -
  have "comment_scan True Bare [] t \<longleftrightarrow>
      (\<exists>as c bs. lexemes Bare t = as @ Plain c # bs \<and> c = CHR ''#'' \<and> word_start ([] @ as))"
    by (rule comment.scan_iff_lexemes[where R = "\<lambda>s pre b. s = word_start b" and P = "\<lambda>b c bs. c = CHR ''#'' \<and> word_start b"])
      (auto simp: comment_hit_def word_start_def is_separator_def split: lexeme.splits)
  then show ?thesis by (auto simp: has_comment_def)
qed

lemma open_bracket_snoc: "open_bracket (b @ [l]) \<longleftrightarrow> \<not> is_separator l \<and> (l = Plain (CHR ''['') \<or> open_bracket b)"
  by (auto simp: open_bracket_def)

lemma path_iff: "has_path_expansion t \<longleftrightarrow> (\<exists>as c bs. lexemes Bare t = as @ Plain c # bs \<and> path_at as c bs)"
proof -
  let ?R = "\<lambda>(ws, br) pre b. ws = word_start b \<and> br = open_bracket b \<and>
      (pre \<noteq> [] \<and> hd pre = CHR ''='') = (b \<noteq> [] \<and> lex_char (last b) = CHR ''='')"
  have sep: "separator (CHR ''['') = False" "\<And>c. c \<in> set ''*?@+!]~'' \<Longrightarrow> \<not> separator c"
    by (auto simp: separator_def py_space_def)
  have "path_scan (True, False) Bare [] t \<longleftrightarrow>
      (\<exists>as c bs. lexemes Bare t = as @ Plain c # bs \<and> path_at ([] @ as) c bs)"
  proof (rule path.scan_iff_lexemes[where R = ?R and P = path_at], goal_cases)
    case (1 s pre b c rest)
    have "path_at b c (lexemes Bare rest) \<Longrightarrow> c \<in> set ''*?@+!]~''" by (auto simp: path_at_def)
    moreover have "\<not> (\<exists>ws br. False)" by simp
    ultimately show ?case using 1 sep(2)[of c] next_lexeme(1)[of rest]
      by (cases s) (auto simp: path_hit_def path_at_def word_start_def)
  next
    case (2 s pre b c)
    then show ?case
      using sep(1) by (cases s) (auto simp: open_bracket_snoc word_start_def is_separator_def)
  next
    case (3 s pre b l pre')
    have "\<not> is_separator l" using 3(2) by (cases l) (auto simp: is_separator_def)
    then show ?case using 3 by (cases s) (auto simp: open_bracket_snoc word_start_def)
  qed (simp add: word_start_def open_bracket_def)
  then show ?thesis by (simp add: has_path_expansion_def)
qed

lemma dollar_iff:
  "has_ansi_c t \<longleftrightarrow> (\<exists>as bs. lexemes Bare t = as @ Plain (CHR ''$'') # Opening sq # bs)"
  "has_locale_quote t \<longleftrightarrow> (\<exists>as bs. lexemes Bare t = as @ Plain (CHR ''$'') # Opening dq # bs)"
proof -
  have one: "take 1 xs = [x] \<longleftrightarrow> (\<exists>ys. xs = x # ys)" for xs and x :: lexeme by (cases xs) auto
  have "dollar_scan sq Bare [] t \<longleftrightarrow>
      (\<exists>as c bs. lexemes Bare t = as @ Plain c # bs \<and> c = CHR ''$'' \<and> take 1 bs = [Opening sq])"
    by (rule ansi.scan_iff_lexemes[where R = "\<lambda>s pre b. True" and P = "\<lambda>b c bs. c = CHR ''$'' \<and> take 1 bs = [Opening sq]"])
      (simp_all only: next_lexeme)
  then show "has_ansi_c t \<longleftrightarrow> (\<exists>as bs. lexemes Bare t = as @ Plain (CHR ''$'') # Opening sq # bs)"
    unfolding has_ansi_c_def one by blast
  have "dollar_scan dq Bare [] t \<longleftrightarrow>
      (\<exists>as c bs. lexemes Bare t = as @ Plain c # bs \<and> c = CHR ''$'' \<and> take 1 bs = [Opening dq])"
    by (rule loc.scan_iff_lexemes[where R = "\<lambda>s pre b. True" and P = "\<lambda>b c bs. c = CHR ''$'' \<and> take 1 bs = [Opening dq]"])
      (simp_all only: next_lexeme)
  then show "has_locale_quote t \<longleftrightarrow> (\<exists>as bs. lexemes Bare t = as @ Plain (CHR ''$'') # Opening dq # bs)"
    unfolding has_locale_quote_def one by blast
qed

section \<open>Properties\<close>

text \<open>C20: four scanners decide exactly what the shell's reading of the text says: a comment is an
  unquoted and unescaped \<open>#\<close> at the start of a word; a path expansion is such a \<open>*\<close> or \<open>?\<close>, an
  extended-glob operator before a parenthesis, a \<open>]\<close> that closes an unquoted bracket of the same word,
  or a \<open>~\<close> at the start of a word or behind an equals sign; the Bash quotations are an unquoted and
  unescaped dollar directly before an opening quote.  A quoted or escaped character never counts.\<close>

theorem shell_scanners_exact:
  "(has_comment t \<longleftrightarrow> (\<exists>as bs. lexemes Bare t = as @ Plain (CHR ''#'') # bs \<and> word_start as)) \<and>
   (has_path_expansion t \<longleftrightarrow> (\<exists>as c bs. lexemes Bare t = as @ Plain c # bs \<and> path_at as c bs)) \<and>
   (has_ansi_c t \<longleftrightarrow> (\<exists>as bs. lexemes Bare t = as @ Plain (CHR ''$'') # Opening sq # bs)) \<and>
   (has_locale_quote t \<longleftrightarrow> (\<exists>as bs. lexemes Bare t = as @ Plain (CHR ''$'') # Opening dq # bs))"
  by (intro conjI comment_iff path_iff dollar_iff)

text \<open>C21: no false alarm on quoted commands: in a command line that \<open>shlex.join\<close> wrote from any words
  whatsoever, newlines, quotes and all metacharacters included, none of the six scanners finds
  anything.\<close>

theorem quoted_command_accepted:
  "\<not> has_newline (shlex_join ws) \<and> \<not> has_comment (shlex_join ws) \<and>
   \<not> has_path_expansion (shlex_join ws) \<and> \<not> has_brace_expansion (shlex_join ws) \<and>
   \<not> has_ansi_c (shlex_join ws) \<and> \<not> has_locale_quote (shlex_join ws)"
  unfolding has_newline_def has_comment_def has_path_expansion_def has_brace_expansion_def has_ansi_c_def
    has_locale_quote_def
  using newline.shlex_join_silent comment.shlex_join_silent path.shlex_join_silent
    brace.shlex_join_silent ansi.shlex_join_silent loc.shlex_join_silent by blast

end
