(* ===== verification/Launch_Args.thy ===== *)
theory Launch_Args imports Shell_Scan "HOL-Library.Sublist"
begin

text \<open>
  Argument vectors of model servers (\<open>manager.py\<close>): removal and rejection of credentials, lookup of an
  option, shell expansion in plain arguments, environment-backed speculative configurations, and the
  reading of the editable launch settings from a container's command for the three engines.

  Parameters: \<open>decode\<close> is \<open>json.loads\<close> on a text (\<open>None\<close>: it raises), \<open>fl\<close> is \<open>float\<close> on a text.
\<close>

section \<open>Options of an argument vector\<close>

definition option_key :: "string \<Rightarrow> string" where
  "option_key t = before_char (CHR ''='') t"

definition is_inline :: "string \<Rightarrow> bool" where
  "is_inline t \<longleftrightarrow> CHR ''='' \<in> set t"

text \<open>\<open>_without_cli_options\<close>\<close>

fun without_options :: "string set \<Rightarrow> string list \<Rightarrow> string list" where
  "without_options names [] = []"
| "without_options names [v] = (if option_key v \<in> names then [] else [v])"
| "without_options names (v # w # vs) =
     (if option_key v \<in> names
      then if \<not> is_inline v \<and> \<not> starts_with ''--'' w then without_options names vs
           else without_options names (w # vs)
      else v # without_options names (w # vs))"

definition dashes :: "string \<Rightarrow> string" where
  "dashes s = map (\<lambda>c. if c = CHR ''_'' then CHR ''-'' else c) s"

definition credential_options :: "string list" where
  "credential_options = [''--hf-token'', ''--hf_token'', ''--api-key'', ''--api_key'', ''--token'',
     ''--auth-token'', ''--auth_token'', ''--access-token'', ''--access_token'', ''--bearer-token'',
     ''--bearer_token'', ''--password'', ''--secret'', ''--client-secret'', ''--client_secret'',
     ''--credential'', ''--credentials'', ''--authorization'', ''--huggingface-token'', ''--huggingface_token'']"

definition sensitive :: "string \<Rightarrow> bool" where
  "sensitive v = (let key = dashes (map lower_char (option_key v));
       name = (if starts_with ''--'' key then drop 2 key else key)
     in starts_with ''--'' v \<and>
       (key \<in> dashes ` set credential_options \<or> ends_with ''-token'' name \<or> ends_with ''-password'' name \<or>
        ends_with ''-secret'' name \<or> ends_with ''-credential'' name \<or> ends_with ''-credentials'' name \<or>
        contains ''api-key'' name))"

text \<open>\<open>_without_sensitive_cli_credentials\<close>\<close>

fun strip_credentials :: "string list \<Rightarrow> string list" where
  "strip_credentials [] = []"
| "strip_credentials [v] = (if sensitive v then [] else [v])"
| "strip_credentials (v # w # vs) =
     (if sensitive v then if is_inline v then strip_credentials (w # vs) else strip_credentials vs
      else v # strip_credentials (w # vs))"

definition without_credentials :: "pyval \<Rightarrow> string list" where
  "without_credentials args = (case args of PList xs \<Rightarrow> strip_credentials (map py_str xs) | _ \<Rightarrow> [])"

text \<open>\<open>_reject_sensitive_cli_credentials\<close>\<close>

fun is_str :: "pyval \<Rightarrow> bool" where
  "is_str (PStr s) = True"
| "is_str _ = False"

definition reject_credentials :: "pyval \<Rightarrow> unit result" where
  "reject_credentials args = (case args of
     PNone \<Rightarrow> Inr ()
   | PList xs \<Rightarrow>
       if \<not> list_all is_str xs then Inl (ValueError ''extra_args must be an array of strings'')
       else if strip_credentials (map py_str xs) \<noteq> map py_str xs
       then Inl (ValueError ''configure credentials in Settings, not launch arguments'')
       else Inr ()
   | _ \<Rightarrow> Inl (ValueError ''extra_args must be an array of strings''))"

text \<open>\<open>_cli_option\<close> without a cast: the last value supplied for one of the names.\<close>

fun option_scan :: "string set \<Rightarrow> string option \<Rightarrow> string list \<Rightarrow> string option" where
  "option_scan names found [] = found"
| "option_scan names found (t # ts) =
     option_scan names
       (if option_key t \<notin> names then found
        else if is_inline t then Some (after_char (CHR ''='') t)
        else (case ts of [] \<Rightarrow> found | u # us \<Rightarrow> if \<not> starts_with ''-'' u then Some u else found)) ts"

definition cli_option :: "string list \<Rightarrow> string set \<Rightarrow> string option" where
  "cli_option args names = option_scan names None args"

definition cli_int :: "string list \<Rightarrow> string set \<Rightarrow> int option" where
  "cli_int args names = (case cli_option args names of None \<Rightarrow> None
     | Some t \<Rightarrow> (case int_of_text t of Inl e \<Rightarrow> None | Inr n \<Rightarrow> Some n))"

definition cli_float :: "(string \<Rightarrow> pyfloat option) \<Rightarrow> string list \<Rightarrow> string set \<Rightarrow> pyfloat option" where
  "cli_float fl args names = Option.bind (cli_option args names) fl"

fun index_of :: "'a \<Rightarrow> 'a list \<Rightarrow> nat option" where
  "index_of x [] = None"
| "index_of x (y # ys) = (if x = y then Some 0 else map_option Suc (index_of x ys))"

text \<open>\<open>_post_model_tokens\<close> and the same anchor in \<open>_container_load_settings\<close>\<close>

definition model_index :: "string list \<Rightarrow> string \<Rightarrow> nat" where
  "model_index cmd m = (case index_of ''serve'' cmd of Some i \<Rightarrow> i + 2
     | None \<Rightarrow> (case index_of m cmd of Some i \<Rightarrow> i + 1 | None \<Rightarrow> length cmd))"

definition post_model_tokens :: "string list \<Rightarrow> string \<Rightarrow> string list" where
  "post_model_tokens cmd m = (case index_of ''serve'' cmd of Some i \<Rightarrow> drop (i + 2) cmd
     | None \<Rightarrow> (case index_of m cmd of Some i \<Rightarrow> drop (i + 1) cmd | None \<Rightarrow> []))"

section \<open>Shell expansion in plain arguments\<close>

text \<open>\<open>_environment_reference\<close> on a text: the name of an exact \<open>${NAME}\<close>.\<close>

definition name_char :: "char \<Rightarrow> bool" where
  "name_char c \<longleftrightarrow> ascii_letter c \<or> is_digit c \<or> c = CHR ''_''"

definition environment_reference :: "string \<Rightarrow> string option" where
  "environment_reference v = (let s = py_strip v; n = butlast (drop 2 s) in
     if starts_with ''${'' s \<and> 3 < length s \<and> last s = CHR ''}'' \<and> list_all name_char n \<and> \<not> is_digit (hd n)
     then Some n else None)"

text \<open>\<open>_has_unresolvable_shell_value\<close>: the regular expression has a match at this position.\<close>

definition expansion_at :: "string \<Rightarrow> bool" where
  "expansion_at t = (case t of [] \<Rightarrow> False
     | c # r \<Rightarrow>
         (c = CHR ''$'' \<and> r \<noteq> [] \<and> (hd r \<in> set ''{(_@*#?!$-'' \<or> ascii_letter (hd r) \<or> is_digit (hd r))) \<or>
         c = CHR 0x60 \<or> (c = bs \<and> (take 2 r = [cr, lf] \<or> take 1 r = [lf])) \<or> c \<in> set '';&|<>'')"

fun unresolvable_value :: "string \<Rightarrow> bool" where
  "unresolvable_value [] = False"
| "unresolvable_value (c # t) = (expansion_at (c # t) \<or> unresolvable_value t)"

text \<open>\<open>_has_unresolvable_shell_tokens\<close>\<close>

definition spec_option :: string where "spec_option = ''--speculative-config''"

definition bad_spec :: "string \<Rightarrow> bool" where
  "bad_spec v \<longleftrightarrow> environment_reference v = None \<and> unresolvable_value v"

fun unresolvable_tokens :: "string list \<Rightarrow> bool" where
  "unresolvable_tokens [] = False"
| "unresolvable_tokens (t # ts) =
     (if option_key t = spec_option
      then if is_inline t then bad_spec (after_char (CHR ''='') t) \<or> unresolvable_tokens ts
           else (case ts of [] \<Rightarrow> False | v # vs \<Rightarrow> bad_spec v \<or> unresolvable_tokens vs)
      else unresolvable_value t \<or> unresolvable_tokens ts)"

text \<open>\<open>_speculative_config\<close>; \<open>env\<close> is the environment of the container.\<close>

definition speculative_config ::
    "(string \<Rightarrow> pyval option) \<Rightarrow> string list \<Rightarrow> (string, string) dict \<Rightarrow> bool \<Rightarrow> ((string \<times> pyval) list \<times> string option) result" where
  "speculative_config decode args env strict = (case cli_option args {spec_option} of
     None \<Rightarrow> Inr ([], None)
   | Some raw \<Rightarrow>
       if raw = [] then Inr ([], None)
       else (let key = environment_reference raw;
           src = (case key of Some k \<Rightarrow> ''environment variable '' @ k | None \<Rightarrow> spec_option)
         in case (case key of None \<Rightarrow> Some raw | Some k \<Rightarrow> map_of env k) of
              None \<Rightarrow> if strict then Inl (ValueError (''--speculative-config references undefined environment variable '' @ the key))
                      else Inr ([], key)
            | Some txt \<Rightarrow> (case decode txt of
                None \<Rightarrow> if strict then Inl (ValueError (src @ '' must contain valid JSON'')) else Inr ([], key)
              | Some (PDict d) \<Rightarrow> Inr (d, key)
              | Some _ \<Rightarrow> if strict then Inl (ValueError (src @ '' must contain a JSON object'')) else Inr ([], key))))"

section \<open>shlex.split\<close>

text \<open>\<open>shlex.split\<close> in POSIX mode.  \<open>Esc None\<close> is a backslash outside quotes, \<open>Esc (Some q)\<close> one inside.\<close>

datatype lstate = Between | InWord | InQuote char | Esc "char option"

definition emit :: "string \<Rightarrow> string list result \<Rightarrow> string list result" where
  "emit tok r = bindE r (\<lambda>ws. Inr (tok # ws))"

definition shlex_space :: "char \<Rightarrow> bool" where
  "shlex_space c \<longleftrightarrow> c \<in> {CHR '' '', CHR 0x09, cr, lf}"

fun shlex_loop :: "lstate \<Rightarrow> bool \<Rightarrow> string \<Rightarrow> string \<Rightarrow> string list result" where
  "shlex_loop Between qd tok [] = Inr []"
| "shlex_loop InWord qd tok [] = (if tok \<noteq> [] \<or> qd then Inr [tok] else Inr [])"
| "shlex_loop (InQuote k) qd tok [] = Inl (ValueError ''No closing quotation'')"
| "shlex_loop (Esc k) qd tok [] = Inl (ValueError ''No escaped character'')"
| "shlex_loop Between qd tok (c # t) =
     (if shlex_space c then shlex_loop Between False [] t
      else if c = bs then shlex_loop (Esc None) False [] t
      else if c = sq \<or> c = dq then shlex_loop (InQuote c) True [] t
      else shlex_loop InWord False [c] t)"
| "shlex_loop InWord qd tok (c # t) =
     (if shlex_space c
      then (if tok \<noteq> [] \<or> qd then emit tok (shlex_loop Between False [] t) else shlex_loop Between qd tok t)
      else if c = sq \<or> c = dq then shlex_loop (InQuote c) True tok t
      else if c = bs then shlex_loop (Esc None) qd tok t
      else shlex_loop InWord qd (tok @ [c]) t)"
| "shlex_loop (InQuote k) qd tok (c # t) =
     (if c = k then shlex_loop InWord True tok t
      else if c = bs \<and> k = dq then shlex_loop (Esc (Some k)) True tok t
      else shlex_loop (InQuote k) True (tok @ [c]) t)"
| "shlex_loop (Esc None) qd tok (c # t) = shlex_loop InWord qd (tok @ [c]) t"
| "shlex_loop (Esc (Some k)) qd tok (c # t) =
     shlex_loop (InQuote k) True (tok @ (if c \<noteq> bs \<and> c \<noteq> k then [bs, c] else [c])) t"

definition shlex_split :: "string \<Rightarrow> string list result" where
  "shlex_split t = shlex_loop Between False [] t"

section \<open>The shell command around a vLLM server\<close>

text \<open>A match of \<open>_shell_vllm_command\<close>: the position of its start, the executable, the model and the
  flags.  The expression is deterministic once its start is fixed: no repetition in it can give back a
  character that the next part accepts.\<close>

record vllm_match =
  m_start :: nat
  m_exe :: string
  m_model :: string
  m_flags :: string

definition arg_char :: "char \<Rightarrow> bool" where
  "arg_char c \<longleftrightarrow> \<not> py_space c \<and> c \<noteq> CHR '';''"

definition model_at :: "string \<Rightarrow> (string \<times> string) option" where
  "model_at t = (case t of [] \<Rightarrow> None
     | c # r \<Rightarrow>
         if (c = dq \<or> c = sq) \<and> c \<in> set r then Some (c # before_char c r @ [c], after_char c r)
         else if arg_char c then Some (takeWhile arg_char t, dropWhile arg_char t)
         else None)"

definition vllm_at :: "nat \<Rightarrow> string \<Rightarrow> vllm_match option" where
  "vllm_at p t = (let exe = takeWhile arg_char t; r = dropWhile arg_char t;
       r1 = dropWhile py_space r; r2 = drop 5 r1
     in if (exe = ''vllm'' \<or> ends_with ''/vllm'' exe) \<and> r1 \<noteq> r \<and> starts_with ''serve'' r1 \<and>
           r2 \<noteq> [] \<and> py_space (hd r2)
        then map_option (\<lambda>(m, f). \<lparr>m_start = p, m_exe = exe, m_model = m, m_flags = f\<rparr>)
               (model_at (dropWhile py_space r2))
        else None)"

text \<open>\<open>\w\<close> below 256\<close>

definition word_char :: "char \<Rightarrow> bool" where
  "word_char c = (let n = (of_char c :: nat) in ascii_letter c \<or> is_digit c \<or> n = 95 \<or>
     n \<in> {170, 178, 179, 181, 185, 186, 188, 189, 190} \<or> 192 \<le> n \<and> n \<noteq> 215 \<and> n \<noteq> 247)"

definition vllm_here :: "nat \<Rightarrow> char option \<Rightarrow> string \<Rightarrow> vllm_match option" where
  "vllm_here p prev t =
     (case (if p = 0 then vllm_at p t else None) of
        Some m \<Rightarrow> Some m
      | None \<Rightarrow>
         if take 1 t = '';'' then vllm_at p (dropWhile py_space (tl t))
         else if starts_with ''exec'' t \<and> (case prev of None \<Rightarrow> True | Some c \<Rightarrow> \<not> word_char c) \<and>
                 drop 4 t \<noteq> [] \<and> py_space (t ! 4)
         then vllm_at p (dropWhile py_space (drop 4 t))
         else None)"

fun vllm_search :: "nat \<Rightarrow> char option \<Rightarrow> string \<Rightarrow> vllm_match option" where
  "vllm_search p prev [] = None"
| "vllm_search p prev (c # t) = (case vllm_here p prev (c # t) of Some m \<Rightarrow> Some m
     | None \<Rightarrow> vllm_search (Suc p) (Some c) t)"

definition shell_vllm_command :: "string \<Rightarrow> vllm_match option" where
  "shell_vllm_command script = vllm_search 0 None script"

definition shell_form :: "string list \<Rightarrow> bool" where
  "shell_form cmd \<longleftrightarrow> 3 \<le> length cmd \<and> cmd ! (length cmd - 2) \<in> {''-c'', ''-lc''}"

text \<open>\<open>_vllm_exec_prefix_is_replayable\<close> and \<open>_sglang_exec_prefix_is_replayable\<close>\<close>

definition vllm_replayable :: "string list \<Rightarrow> bool" where
  "vllm_replayable cmd =
     (if shell_form cmd then
        (case shell_vllm_command (last cmd) of None \<Rightarrow> False
         | Some m \<Rightarrow> m_exe m = ''vllm'' \<and> py_strip (take (m_start m) (last cmd)) = [])
      else index_of ''serve'' cmd = Some 1 \<and> cmd ! 0 = ''vllm'')"

definition sglang_replayable :: "string list \<Rightarrow> bool" where
  "sglang_replayable cmd \<longleftrightarrow> 3 \<le> length cmd \<and> cmd ! 1 = ''-m'' \<and> cmd ! 2 = ''sglang.launch_server'' \<and> cmd ! 0 = ''python3''"

end
