(* ===== verification/Load_Settings.thy ===== *)
theory Load_Settings imports Launch_Args
begin

text \<open>
  \<open>_container_load_settings\<close>: the launch settings that the controller shows and edits, read from the
  command of a discovered container, for SGLang, NInfer and vLLM, and \<open>_thinking_config\<close>.
\<close>

section \<open>Thinking mode\<close>

definition thinking_config :: "(string \<Rightarrow> pyval option) \<Rightarrow> string list \<Rightarrow> string \<times> (string \<times> pyval) list \<times> string option" where
  "thinking_config decode args =
     (case cli_option args {''--default-chat-template-kwargs''} of
        None \<Rightarrow> (''default'', [], None)
      | Some raw \<Rightarrow> (case decode raw of
          Some (PDict d) \<Rightarrow> (case dict_get d ''enable_thinking'' of
              PBool b \<Rightarrow> ((if b then ''enabled'' else ''disabled''), d, Some ''enable_thinking'')
            | _ \<Rightarrow> (case dict_get d ''thinking'' of
                PBool b \<Rightarrow> ((if b then ''enabled'' else ''disabled''), d, Some ''thinking'')
              | _ \<Rightarrow> (''default'', d, None)))
        | _ \<Rightarrow> (''default'', [], None)))"

section \<open>Settings\<close>

record guards =
  g_path :: bool
  g_brace :: bool
  g_ansi :: bool
  g_locale :: bool
  g_wrapper :: bool

record settings =
  ls_editable :: bool
  ls_engine :: string
  ls_gpu :: "pyfloat option"
  ls_max :: "int option"
  ls_kv :: "string option"
  ls_context :: "int option"
  ls_tensor :: "int option"
  ls_thinking :: "string option"
  ls_extra :: "string list"
  ls_flags :: string
  ls_artifact :: "string option"
  ls_guards :: guards

definition no_guards :: guards where
  "no_guards = \<lparr>g_path = False, g_brace = False, g_ansi = False, g_locale = False, g_wrapper = False\<rparr>"

text \<open>The loop that drops the options with a field of their own: \<open>--flag value\<close>, \<open>--flag=value\<close>, and a
  flag that ends the command.\<close>

fun drop_managed :: "string set \<Rightarrow> string set \<Rightarrow> string list \<Rightarrow> string list" where
  "drop_managed managed skip [] = []"
| "drop_managed managed skip [t] = (if option_key t \<in> managed \<or> t \<in> skip then [] else [t])"
| "drop_managed managed skip (t # u # ts) =
     (if option_key t \<in> managed
      then if is_inline t then drop_managed managed skip (u # ts) else drop_managed managed skip ts
      else if t \<in> skip then drop_managed managed skip (u # ts)
      else t # drop_managed managed skip (u # ts))"

section \<open>SGLang\<close>

definition sglang_managed :: "string set" where
  "sglang_managed = {''--model-path'', ''--host'', ''--port'', ''--tp-size'', ''--context-length'',
     ''--max-running-requests'', ''--mem-fraction-static'', ''--kv-cache-dtype''}"

fun sglang_editable :: "string list \<Rightarrow> string list" where
  "sglang_editable [] = []"
| "sglang_editable (t # ts) =
     (if t \<in> {''python'', ''python3'', ''-m'', ''sglang.launch_server''} then sglang_editable ts
      else if t = ''--model-path'' \<and> ts \<noteq> [] then sglang_editable (tl ts)
      else t # sglang_editable ts)"

definition sglang_settings ::
    "(string \<Rightarrow> pyval option) \<Rightarrow> (string \<Rightarrow> pyfloat option) \<Rightarrow> string list \<Rightarrow> string \<Rightarrow> settings" where
  "sglang_settings decode fl cmd m =
     \<lparr>ls_editable = ''--model-path'' \<in> set cmd, ls_engine = ''sglang'',
      ls_gpu = cli_float fl cmd {''--mem-fraction-static''},
      ls_max = cli_int cmd {''--max-running-requests''},
      ls_kv = cli_option cmd {''--kv-cache-dtype''},
      ls_context = cli_int cmd {''--context-length''},
      ls_tensor = cli_int cmd {''--tp-size''},
      ls_thinking = Some (fst (thinking_config decode cmd)),
      ls_extra = drop_managed sglang_managed {''-m'', ''python'', ''python3'', ''sglang.launch_server'', m} cmd,
      ls_flags = shlex_join (sglang_editable cmd),
      ls_artifact = None, ls_guards = no_guards\<rparr>"

section \<open>NInfer\<close>

definition ninfer_managed :: "string set" where
  "ninfer_managed = {''--host'', ''--port'', ''--max-context'', ''--max-concurrency'', ''--kv-dtype''}"

text \<open>The loop with its two results: the artifact path and the extra arguments.\<close>

fun ninfer_loop :: "string option \<Rightarrow> string list \<Rightarrow> string list \<Rightarrow> string option \<times> string list" where
  "ninfer_loop art acc [] = (art, acc)"
| "ninfer_loop art acc (t # ts) =
     (if option_key t \<in> ninfer_managed
      then ninfer_loop art acc (if \<not> is_inline t \<and> ts \<noteq> [] then tl ts else ts)
      else if t = ''ninfer-serve'' then ninfer_loop art acc ts
      else if \<not> starts_with ''-'' t \<and> art = None then ninfer_loop (Some t) acc ts
      else if t = ''--no-thinking'' then ninfer_loop art acc ts
      else ninfer_loop art (acc @ [t]) ts)"

definition ninfer_settings :: "string list \<Rightarrow> settings" where
  "ninfer_settings cmd = (let (art, extra) = ninfer_loop None [] cmd in
     \<lparr>ls_editable = ''ninfer-serve'' \<in> set cmd, ls_engine = ''ninfer'', ls_gpu = None,
      ls_max = cli_int cmd {''--max-concurrency''},
      ls_kv = cli_option cmd {''--kv-dtype''},
      ls_context = cli_int cmd {''--max-context''},
      ls_tensor = None,
      ls_thinking = (if ''--no-thinking'' \<in> set cmd then Some ''disabled'' else None),
      ls_extra = extra, ls_flags = shlex_join extra, ls_artifact = art, ls_guards = no_guards\<rparr>)"

section \<open>vLLM\<close>

definition vllm_managed :: "string set" where
  "vllm_managed = {''--host'', ''--port'', ''--gpu-memory-utilization'', ''--gpu_memory_utilization'',
     ''--max-model-len'', ''--max-model-length'', ''--max-num-seqs'', ''--kv-cache-dtype''}"

text \<open>What a shell-wrapped command contributes: the command to analyse, the flags, the command newline,
  the comment and the guards.\<close>

record wrapped =
  w_flags :: string
  w_cmd :: "string list"
  w_newline :: bool
  w_comment :: bool
  w_guards :: guards

definition shell_path :: "string list \<Rightarrow> string" where
  "shell_path cmd = map (\<lambda>c. if c = bs then CHR ''/'' else c) (hd cmd)"

definition wrapper_unsupported :: "string list \<Rightarrow> bool" where
  "wrapper_unsupported cmd =
     (let options = take (length cmd - 3) (tl cmd) in
      shell_path cmd \<notin> {''bash'', ''/bin/bash'', ''/usr/bin/bash''} \<or>
      (\<exists>x \<in> set options. x \<notin> {''--noprofile'', ''--norc''}) \<or>
      cmd ! (length cmd - 2) = ''-lc'' \<and> ''--noprofile'' \<notin> set options)"

definition wrapped_command :: "string list \<Rightarrow> vllm_match \<Rightarrow> wrapped" where
  "wrapped_command cmd m =
     (let flags = py_strip (m_flags m); txt = m_model m @ m_flags m;
          bash = (last (split_on (CHR ''/'') (shell_path cmd)) = ''bash'')
      in \<lparr>w_flags = flags,
          w_cmd = (case (shlex_split (m_model m), shlex_split flags) of
             (Inr (x # xs), Inr ys) \<Rightarrow> [''vllm'', ''serve'', x] @ ys
           | _ \<Rightarrow> cmd),
          w_newline = has_newline (m_flags m), w_comment = has_comment (m_flags m),
          w_guards = \<lparr>g_path = has_path_expansion txt, g_brace = bash \<and> has_brace_expansion txt,
             g_ansi = bash \<and> has_ansi_c txt, g_locale = bash \<and> has_locale_quote txt,
             g_wrapper = wrapper_unsupported cmd\<rparr>\<rparr>)"

definition shell_wrapped :: "string list \<Rightarrow> wrapped option" where
  "shell_wrapped cmd = (if shell_form cmd
     then map_option (wrapped_command cmd) (shell_vllm_command (last cmd)) else None)"

definition vllm_settings ::
    "(string \<Rightarrow> pyval option) \<Rightarrow> (string \<Rightarrow> pyfloat option) \<Rightarrow> string list \<Rightarrow> string \<Rightarrow> settings" where
  "vllm_settings decode fl cmd m =
     (let sh = shell_wrapped cmd;
          a = (case sh of None \<Rightarrow> cmd | Some w \<Rightarrow> w_cmd w);
          given = (case sh of None \<Rightarrow> [] | Some w \<Rightarrow> w_flags w);
          region = drop (model_index a m) a
      in \<lparr>ls_editable = ''serve'' \<in> set a \<and>
            (case sh of Some w \<Rightarrow> \<not> w_newline w \<and> \<not> w_comment w
             | None \<Rightarrow> \<not> unresolvable_tokens (post_model_tokens a m)),
          ls_engine = ''vllm'',
          ls_gpu = cli_float fl a {''--gpu-memory-utilization'', ''--gpu_memory_utilization''},
          ls_max = cli_int a {''--max-num-seqs''},
          ls_kv = cli_option a {''--kv-cache-dtype''},
          ls_context = cli_int a {''--max-model-len'', ''--max-model-length''},
          ls_tensor = cli_int a {''--tensor-parallel-size'', ''-tp''},
          ls_thinking = Some (fst (thinking_config decode a)),
          ls_extra = drop_managed vllm_managed {} region,
          ls_flags = (if given = [] then shlex_join region else given),
          ls_artifact = None,
          ls_guards = (case sh of None \<Rightarrow> no_guards | Some w \<Rightarrow> w_guards w)\<rparr>)"

definition load_settings ::
    "(string \<Rightarrow> pyval option) \<Rightarrow> (string \<Rightarrow> pyfloat option) \<Rightarrow> string list \<Rightarrow> string \<Rightarrow> string \<Rightarrow> settings" where
  "load_settings decode fl cmd engine m =
     (if engine = ''sglang'' then sglang_settings decode fl cmd m
      else if engine = ''ninfer'' then ninfer_settings cmd
      else vllm_settings decode fl cmd m)"

section \<open>Quoting and splitting\<close>

lemma split_single:
  "sq \<notin> set w \<Longrightarrow> shlex_loop (InQuote sq) qd tok (w @ sq # rest) = shlex_loop InWord True (tok @ w) rest"
  by (induction w arbitrary: qd tok) auto

lemma split_quoted:
  "shlex_loop InWord qd tok (quoted w @ rest) = shlex_loop InWord True (tok @ w) rest"
proof (induction w arbitrary: qd tok rest rule: quoted_induct)
  case (plain w)
  then show ?case by (simp add: quoted_plain split_single shlex_space_def)
next
  case (split v w)
  then show ?case by (simp add: quoted_split split_single shlex_space_def)
qed

lemma split_enter: "shlex_loop Between qd tok (quoted w @ rest) = shlex_loop InWord False [] (quoted w @ rest)"
  by (simp add: quoted_def shlex_space_def)

lemma shlex_space_separator: "shlex_space c \<Longrightarrow> separator c"
  unfolding shlex_space_def by (elim insertE emptyE) (simp_all add: separator_def py_space_def)

lemma split_safe:
  "\<forall>c \<in> set w. shlex_safe c \<Longrightarrow> shlex_loop InWord qd tok (w @ rest) = shlex_loop InWord qd (tok @ w) rest"
proof (induction w arbitrary: tok)
  case (Cons c w)
  from Cons.prems have "\<not> separator c" "c \<noteq> sq" "c \<noteq> dq" "c \<noteq> bs" using safe_chars by auto
  moreover have "\<not> shlex_space c" using shlex_space_separator \<open>\<not> separator c\<close> by blast
  ultimately show ?case using Cons by simp
qed simp

lemma split_enter_safe:
  "w \<noteq> [] \<Longrightarrow> \<forall>c \<in> set w. shlex_safe c \<Longrightarrow> shlex_loop Between qd tok (w @ rest) = shlex_loop InWord False [] (w @ rest)"
proof (cases w)
  case (Cons c v)
  assume "\<forall>c \<in> set w. shlex_safe c"
  then have "\<not> separator c" "c \<noteq> sq" "c \<noteq> dq" "c \<noteq> bs" using safe_chars Cons by auto
  moreover have "\<not> shlex_space c" using shlex_space_separator \<open>\<not> separator c\<close> by blast
  ultimately show ?thesis using Cons by simp
qed simp

lemma split_word:
  "\<exists>qd. (w \<noteq> [] \<or> qd) \<and> shlex_loop Between False [] (shlex_quote w @ rest) = shlex_loop InWord qd w rest"
proof (cases "w \<noteq> [] \<and> (\<forall>c \<in> set w. shlex_safe c)")
  case True
  then show ?thesis by (intro exI[of _ False]) (simp add: shlex_quote_cases split_enter_safe split_safe)
next
  case False
  then have "shlex_quote w = quoted w" unfolding shlex_quote_cases by (rule if_not_P)
  then show ?thesis by (intro exI[of _ True]) (simp add: split_enter split_quoted)
qed

lemma shlex_roundtrip: "shlex_split (shlex_join ws) = Inr ws"
  unfolding shlex_split_def
proof (induction ws)
  case Nil
  then show ?case by (simp add: shlex_join_def)
next
  case (Cons w ws)
  show ?case
  proof (cases ws)
    case Nil
    obtain qd where "w \<noteq> [] \<or> qd" "shlex_loop Between False [] (shlex_quote w @ []) = shlex_loop InWord qd w []"
      using split_word by blast
    then show ?thesis using Nil by (simp add: shlex_join_def)
  next
    case (Cons v vs)
    let ?r = "CHR '' '' # shlex_join ws"
    have j: "shlex_join (w # ws) = shlex_quote w @ ?r" by (simp add: shlex_join_def Cons)
    obtain qd where "w \<noteq> [] \<or> qd" "shlex_loop Between False [] (shlex_quote w @ ?r) = shlex_loop InWord qd w ?r"
      using split_word by blast
    then show ?thesis unfolding j using Cons.IH by (simp add: shlex_space_def emit_def)
  qed
qed

section \<open>What is dropped and what is kept\<close>

lemma drop_managed_props:
  "subseq (drop_managed managed skip ts) ts \<and> filter (\<lambda>t. option_key t \<in> managed) (drop_managed managed skip ts) = []"
proof (induction managed skip ts rule: drop_managed.induct)
  case (3 managed skip t u ts)
  then show ?case by (cases "option_key t \<in> managed"; cases "is_inline t"; cases "t \<in> skip")
      (auto intro: list_emb_Cons)
qed auto

lemma ninfer_loop_props:
  "\<exists>xs. snd (ninfer_loop art acc ts) = acc @ xs \<and> subseq xs ts \<and> filter (\<lambda>t. option_key t \<in> ninfer_managed) xs = []"
proof (induction "length ts" arbitrary: art acc ts rule: less_induct)
  case less
  show ?case
  proof (cases ts)
    case (Cons t us)
    let ?rest = "if \<not> is_inline t \<and> us \<noteq> [] then tl us else us"
    have rest: "subseq ?rest us" by (cases us) auto
    have drop: "\<exists>xs. snd (ninfer_loop a acc r) = acc @ xs \<and> subseq xs ts \<and>
        filter (\<lambda>t. option_key t \<in> ninfer_managed) xs = []" if "subseq r us" for a r
    proof -
      have "length r < length ts" using list_emb_length[OF that] Cons by simp
      from less[OF this, of a acc] obtain xs where "snd (ninfer_loop a acc r) = acc @ xs" "subseq xs r"
        "filter (\<lambda>t. option_key t \<in> ninfer_managed) xs = []" by blast
      moreover have "subseq xs ts" using subseq_order.trans[OF \<open>subseq xs r\<close> that] Cons by (simp add: list_emb_Cons)
      ultimately show ?thesis by blast
    qed
    have keep: "\<exists>xs. snd (ninfer_loop art (acc @ [t]) us) = acc @ xs \<and> subseq xs ts \<and>
        filter (\<lambda>t. option_key t \<in> ninfer_managed) xs = []" if n: "option_key t \<notin> ninfer_managed"
    proof -
      from less[of us art "acc @ [t]"] Cons obtain xs where "snd (ninfer_loop art (acc @ [t]) us) = acc @ t # xs"
        "subseq xs us" "filter (\<lambda>t. option_key t \<in> ninfer_managed) xs = []" by auto
      then show ?thesis using n Cons by (intro exI[of _ "t # xs"]) simp
    qed
    show ?thesis
    proof (cases "option_key t \<in> ninfer_managed")
      case True
      then show ?thesis using drop[OF rest, of art] unfolding Cons by (simp only: ninfer_loop.simps if_True)
    next
      case False
      have "subseq us us" by simp
      from drop[OF this] keep[OF False] show ?thesis unfolding Cons by (simp only: ninfer_loop.simps if_False False simp_thms split: if_split)
    qed
  qed simp
qed

text \<open>The arguments that the settings editor shows as text, and the options it shows as fields.\<close>

definition editable_args :: "string list \<Rightarrow> string \<Rightarrow> string \<Rightarrow> string list" where
  "editable_args cmd engine m =
     (if engine = ''sglang'' then sglang_editable cmd
      else if engine = ''ninfer'' then snd (ninfer_loop None [] cmd)
      else let a = (case shell_wrapped cmd of None \<Rightarrow> cmd | Some w \<Rightarrow> w_cmd w) in drop (model_index a m) a)"

definition managed_options :: "string \<Rightarrow> string set" where
  "managed_options engine = (if engine = ''sglang'' then sglang_managed
     else if engine = ''ninfer'' then ninfer_managed else vllm_managed)"

lemma wrapped_region:
  assumes "shell_wrapped cmd = Some w" "w_cmd w \<noteq> cmd"
  shows "shlex_split (w_flags w) = Inr (drop (model_index (w_cmd w) m) (w_cmd w))"
proof -
  obtain v where v: "w = wrapped_command cmd v" using assms(1) by (auto simp: shell_wrapped_def split: if_splits)
  then obtain x xs ys where "shlex_split (m_model v) = Inr (x # xs)" "shlex_split (py_strip (m_flags v)) = Inr ys"
    using assms(2) by (auto simp: wrapped_command_def Let_def split: sum.splits list.splits)
  then show ?thesis using v by (simp add: wrapped_command_def Let_def model_index_def)
qed

lemma extra_args_props:
  "filter (\<lambda>t. option_key t \<in> managed_options engine) (ls_extra (load_settings decode fl cmd engine m)) = [] \<and>
   subseq (ls_extra (load_settings decode fl cmd engine m))
     (case shell_wrapped cmd of Some w \<Rightarrow> if engine \<notin> {''sglang'', ''ninfer''} then w_cmd w else cmd | None \<Rightarrow> cmd)"
proof -
  have n: "subseq (snd (ninfer_loop None [] cmd)) cmd"
    "filter (\<lambda>t. option_key t \<in> ninfer_managed) (snd (ninfer_loop None [] cmd)) = []"
    using ninfer_loop_props[of None "[]" cmd] by auto
  have d: "subseq (drop_managed M {} (drop k a)) a" for M k and a :: "string list"
    by (rule subseq_order.trans[OF conjunct1[OF drop_managed_props]]) (metis append_take_drop_id list_emb_append2 subseq_order.refl)
  consider "engine = ''sglang''" | "engine = ''ninfer''" | "engine \<noteq> ''sglang''" "engine \<noteq> ''ninfer''" by blast
  then show ?thesis
  proof cases
    case 1
    then show ?thesis using drop_managed_props
      by (simp add: load_settings_def managed_options_def sglang_settings_def split: option.split)
  next
    case 2
    then show ?thesis using n
      by (simp add: load_settings_def managed_options_def ninfer_settings_def case_prod_beta split: option.split)
  next
    case 3
    then show ?thesis using drop_managed_props d
      by (simp add: load_settings_def managed_options_def vllm_settings_def Let_def split: option.split)
  qed
qed

section \<open>Credentials\<close>

lemma strip_credentials_props:
  "subseq (strip_credentials vs) vs \<and> filter sensitive (strip_credentials vs) = []"
proof (induction vs rule: strip_credentials.induct)
  case (3 v w vs)
  then show ?case by (cases "sensitive v"; cases "is_inline v") (auto intro: list_emb_Cons)
qed auto

lemma strip_credentials_id: "strip_credentials vs = vs \<longleftrightarrow> filter sensitive vs = []"
proof
  assume "strip_credentials vs = vs"
  then show "filter sensitive vs = []" using strip_credentials_props[of vs] by simp
next
  show "filter sensitive vs = [] \<Longrightarrow> strip_credentials vs = vs"
    by (induction vs rule: strip_credentials.induct) (auto split: if_splits)
qed

lemma strip_credentials_pair:
  "filter sensitive pre = [] \<Longrightarrow> sensitive f \<Longrightarrow> \<not> is_inline f \<Longrightarrow>
   strip_credentials (pre @ f # v # post) = pre @ strip_credentials post"
proof (induction pre rule: strip_credentials.induct)
  case (3 u w us)
  then show ?case by (auto split: if_splits)
qed (auto split: if_splits)

section \<open>Properties\<close>


definition demo_cmd :: "string list" where
  "demo_cmd = [''bash'', ''--noprofile'', ''-lc'', ''exec vllm serve m --seed 1'']"

lemma demo_wrapped: "\<exists>w. shell_wrapped demo_cmd = Some w \<and> w_cmd w = [''vllm'', ''serve'', ''m'', ''--seed'', ''1'']"
proof -
  have "map_option w_cmd (shell_wrapped demo_cmd) = Some [''vllm'', ''serve'', ''m'', ''--seed'', ''1'']" by code_simp
  then show ?thesis by auto
qed




end
