(* ===== verification/Agent_Credentials.thy ===== *)
theory Agent_Credentials imports Py_Values
begin

text \<open>
  The credentials a node shows to the cluster (\<open>cluster.py\<close>, class \<open>AgentCredentials\<close>): the bearer token
  and the controller that owns it, the one-time pairing code, and the short-lived join code.

  Every operation returns its result together with the state it leaves, because the expiry of a join
  code changes the state of a call that then fails.  Random values and the time are arguments: \<open>tok\<close> for
  \<open>secrets.token_urlsafe(32)\<close>, \<open>p\<close> and \<open>j\<close> for the six digits of \<open>secrets.randbelow\<close>.  A missing text is
  the empty one and a missing time is 0, as the code reads them; the constant \<open>created_at\<close> and failing disk
  writes are left out.
\<close>

section \<open>State\<close>

record creds =
  c_node :: "string option"
  c_token :: string
  c_pairing :: string
  c_join :: string
  c_issued :: rat
  c_owner :: string
  c_claimed :: "rat option"
  c_paired :: "rat option"
  c_rotated :: "rat option"

text \<open>\<open>_load_or_create\<close>; \<open>file\<close> is the content of a readable \<open>agent.json\<close>.\<close>

definition load_or_create :: "creds option \<Rightarrow> rat \<Rightarrow> string \<Rightarrow> string \<Rightarrow> string \<Rightarrow> string \<Rightarrow> creds" where
  "load_or_create file now node tok p j =
     (let fresh = \<lparr>c_node = Some node, c_token = tok, c_pairing = p, c_join = j, c_issued = now, c_owner = [],
            c_claimed = None, c_paired = None, c_rotated = None\<rparr>
      in case file of None \<Rightarrow> fresh
       | Some v \<Rightarrow>
           if c_token v \<noteq> [] \<and> c_pairing v \<noteq> [] then
             (if c_join v = [] then v\<lparr>c_join := j, c_issued := now\<rparr>
              else if c_issued v = 0 then v\<lparr>c_issued := now\<rparr> else v)
           else fresh)"

definition node_id :: "creds \<Rightarrow> string result" where
  "node_id d = (case c_node d of None \<Rightarrow> Inl (KeyError ''node_id'') | Some i \<Rightarrow> Inr i)"

section \<open>Operations\<close>

text \<open>\<open>secrets.compare_digest\<close> on texts: it refuses characters outside ASCII.\<close>

definition ascii :: "string \<Rightarrow> bool" where
  "ascii s \<longleftrightarrow> list_all (\<lambda>c. (of_char c :: nat) < 128) s"

definition same_text :: "string \<Rightarrow> string \<Rightarrow> bool result" where
  "same_text a b = (if ascii a \<and> ascii b then Inr (a = b)
     else Inl (TypeError ''comparing strings with non-ASCII characters is not supported''))"

definition accepts_token :: "creds \<Rightarrow> string \<Rightarrow> bool result" where
  "accepts_token d t = (if t = [] then Inr False else same_text t (c_token d))"

definition authorize :: "rat \<Rightarrow> string \<Rightarrow> string \<Rightarrow> creds \<Rightarrow> bool result \<times> creds" where
  "authorize now t ctl d = (case accepts_token d t of
     Inl e \<Rightarrow> (Inl e, d)
   | Inr ok \<Rightarrow>
       if \<not> ok \<or> py_strip ctl = [] then (Inr False, d)
       else if c_owner d \<noteq> [] then (same_text (c_owner d) (py_strip ctl), d)
       else (Inr True, d\<lparr>c_owner := py_strip ctl, c_claimed := Some now\<rparr>))"

definition rotate_join :: "rat \<Rightarrow> string \<Rightarrow> creds \<Rightarrow> creds" where
  "rotate_join now j d = d\<lparr>c_join := j, c_issued := now\<rparr>"

definition join_ttl :: rat where "join_ttl = 600"

definition current_join :: "rat \<Rightarrow> string \<Rightarrow> creds \<Rightarrow> string \<times> creds" where
  "current_join now j d = (let d' = (if now - c_issued d > join_ttl then rotate_join now j d else d) in (c_join d', d'))"

definition consume_join :: "string \<Rightarrow> rat \<Rightarrow> string \<Rightarrow> string \<Rightarrow> creds \<Rightarrow> unit result \<times> creds" where
  "consume_join code now j1 j2 d =
     (if code = [] then (Inl (ValueError ''invalid or expired cluster join code''), d)
      else let (cur, d') = current_join now j1 d in
        (case same_text code cur of
           Inl e \<Rightarrow> (Inl e, d')
         | Inr ok \<Rightarrow> if ok then (Inr (), rotate_join now j2 d')
                     else (Inl (ValueError ''invalid or expired cluster join code''), d')))"

definition revoke_access :: "rat \<Rightarrow> string \<Rightarrow> string \<Rightarrow> string \<Rightarrow> creds \<Rightarrow> creds" where
  "revoke_access now tok p j d = d\<lparr>c_token := tok, c_pairing := p, c_join := j, c_issued := now, c_owner := [],
     c_claimed := None, c_paired := None, c_rotated := Some now\<rparr>"

definition validate_pairing :: "string \<Rightarrow> creds \<Rightarrow> unit result" where
  "validate_pairing code d = (if code = [] then Inl (ValueError ''invalid pairing code'')
     else bindE (same_text code (c_pairing d)) (\<lambda>ok. checkE ok (ValueError ''invalid pairing code'')))"

text \<open>\<open>pair\<close> answers with the node's id and the new token.  The state is replaced before the id is
  read.\<close>

definition pair_node :: "string \<Rightarrow> string \<Rightarrow> rat \<Rightarrow> string \<Rightarrow> string \<Rightarrow> creds \<Rightarrow> (string \<times> string) result \<times> creds" where
  "pair_node code ctl now tok p d = (case validate_pairing code d of
     Inl e \<Rightarrow> (Inl e, d)
   | Inr u \<Rightarrow>
       if py_strip ctl = [] then (Inl (ValueError ''controller id is required''), d)
       else let d' = d\<lparr>c_token := tok, c_pairing := p, c_owner := py_strip ctl, c_paired := Some now\<rparr>
         in (bindE (node_id d') (\<lambda>i. Inr (i, tok)), d'))"

section \<open>Sequences of calls\<close>

datatype call =
    Authorize rat string string
  | CurrentJoin rat string
  | ConsumeJoin string rat string string
  | Revoke rat string string string
  | Pair string string rat string string

fun perform :: "call \<Rightarrow> creds \<Rightarrow> creds" where
  "perform (Authorize now t ctl) d = snd (authorize now t ctl d)"
| "perform (CurrentJoin now j) d = snd (current_join now j d)"
| "perform (ConsumeJoin code now j1 j2) d = snd (consume_join code now j1 j2 d)"
| "perform (Revoke now tok p j) d = revoke_access now tok p j d"
| "perform (Pair code ctl now tok p) d = snd (pair_node code ctl now tok p d)"

fun perform_all :: "call list \<Rightarrow> creds \<Rightarrow> creds" where
  "perform_all [] d = d"
| "perform_all (k # ks) d = perform_all ks (perform k d)"

text \<open>The calls that replace the token: a revocation, and a pairing with the right code.\<close>

fun rebinds :: "call \<Rightarrow> creds \<Rightarrow> bool" where
  "rebinds (Revoke now tok p j) d = True"
| "rebinds (Pair code ctl now tok p) d = (is_ok (validate_pairing code d) \<and> py_strip ctl \<noteq> [])"
| "rebinds k d = False"

fun keeps_bond :: "call list \<Rightarrow> creds \<Rightarrow> bool" where
  "keeps_bond [] d = True"
| "keeps_bond (k # ks) d = (\<not> rebinds k d \<and> keeps_bond ks (perform k d))"

fun drawn :: "call \<Rightarrow> string list" where
  "drawn (Revoke now tok p j) = [tok]"
| "drawn (Pair code ctl now tok p) = [tok]"
| "drawn k = []"

section \<open>Lemmas\<close>

lemma same_text_True: "same_text a b = Inr True \<longleftrightarrow> ascii a \<and> ascii b \<and> a = b"
  by (auto simp: same_text_def)

lemma authorize_True:
  "fst (authorize now t ctl d) = Inr True \<longleftrightarrow>
   t \<noteq> [] \<and> ascii t \<and> t = c_token d \<and> py_strip ctl \<noteq> [] \<and>
   (c_owner d \<noteq> [] \<longrightarrow> ascii (c_owner d) \<and> c_owner d = py_strip ctl)"
  by (auto simp: authorize_def accepts_token_def same_text_def split: sum.splits if_splits)

lemma bond_simps [simp]:
  "c_token (snd (authorize now t ctl d)) = c_token d"
  "c_pairing (snd (authorize now t ctl d)) = c_pairing d"
  "c_owner d \<noteq> [] \<Longrightarrow> c_owner (snd (authorize now t ctl d)) = c_owner d"
  "c_token (rotate_join now j d) = c_token d" "c_owner (rotate_join now j d) = c_owner d"
  "c_pairing (rotate_join now j d) = c_pairing d"
  by (auto simp: authorize_def rotate_join_def split: sum.splits)

lemma join_bond [simp]:
  "c_token (snd (current_join now j d)) = c_token d" "c_owner (snd (current_join now j d)) = c_owner d"
  "c_pairing (snd (current_join now j d)) = c_pairing d"
  by (auto simp: current_join_def Let_def)

lemma consume_bond [simp]:
  "c_token (snd (consume_join code now j1 j2 d)) = c_token d"
  "c_owner (snd (consume_join code now j1 j2 d)) = c_owner d"
  "c_pairing (snd (consume_join code now j1 j2 d)) = c_pairing d"
  using join_bond[of now j1 d] by (auto simp: consume_join_def case_prod_beta split: sum.splits)

lemma pair_refused: "\<not> rebinds (Pair code ctl now tok p) d \<Longrightarrow> snd (pair_node code ctl now tok p d) = d"
  by (auto simp: pair_node_def is_ok_iff split: sum.splits)

lemma keep_step:
  "\<not> rebinds k d \<Longrightarrow> c_owner d \<noteq> [] \<Longrightarrow> c_token (perform k d) = c_token d \<and> c_owner (perform k d) = c_owner d"
  using pair_refused by (cases k) auto

lemma keeps_bond_owner:
  "keeps_bond ks d \<Longrightarrow> c_owner d \<noteq> [] \<Longrightarrow>
   c_token (perform_all ks d) = c_token d \<and> c_owner (perform_all ks d) = c_owner d"
  by (induction ks arbitrary: d) (use keep_step in fastforce)+

lemma perform_all_append: "perform_all (ks @ ls) d = perform_all ls (perform_all ks d)"
  by (induction ks arbitrary: d) auto

text \<open>A token that is not the current one and is not drawn again never comes back.\<close>

lemma token_step: "T \<noteq> c_token d \<Longrightarrow> T \<notin> set (drawn k) \<Longrightarrow> T \<noteq> c_token (perform k d)"
proof (cases k)
  case (Pair code ctl now tok p)
  assume "T \<noteq> c_token d" "T \<notin> set (drawn k)"
  then show ?thesis using Pair by (auto simp: pair_node_def Let_def split: sum.splits)
qed (auto simp: revoke_access_def)

lemma token_gone: "T \<noteq> c_token d \<Longrightarrow> T \<notin> (\<Union>k \<in> set ks. set (drawn k)) \<Longrightarrow> T \<noteq> c_token (perform_all ks d)"
proof (induction ks arbitrary: d)
  case (Cons k ks)
  then show ?case using token_step[of T d k] by simp
qed simp

lemma rebind_token: "rebinds k d \<Longrightarrow> \<exists>tok. drawn k = [tok] \<and> c_token (perform k d) = tok"
  by (cases k) (auto simp: revoke_access_def pair_node_def is_ok_iff Let_def)

lemma pair_success:
  "pair_node code ctl now tok p d = (Inr r, d') \<Longrightarrow>
   r = (the (c_node d), tok) \<and> c_token d' = tok \<and> c_owner d' = py_strip ctl \<and> py_strip ctl \<noteq> [] \<and> c_pairing d' = p"
  by (auto simp: pair_node_def Let_def node_id_def except_simps split: sum.splits if_splits option.splits)

text \<open>What opens the pairing: the code in force, and only in ASCII.\<close>

lemma validate_ok: "validate_pairing code d = Inr () \<longleftrightarrow> code \<noteq> [] \<and> ascii code \<and> code = c_pairing d"
  by (auto simp: validate_pairing_def same_text_def)

text \<open>A pairing code works once: unless the random source draws the same digits again, the code of a
  successful pairing is refused from then on.\<close>

fun drawn_codes :: "call \<Rightarrow> string list" where
  "drawn_codes (Revoke now tok p j) = [p]"
| "drawn_codes (Pair code ctl now tok p) = [p]"
| "drawn_codes k = []"

lemma code_step: "C \<noteq> c_pairing d \<Longrightarrow> C \<notin> set (drawn_codes k) \<Longrightarrow> C \<noteq> c_pairing (perform k d)"
proof (cases k)
  case (Pair code ctl now tok p)
  assume "C \<noteq> c_pairing d" "C \<notin> set (drawn_codes k)"
  then show ?thesis using Pair by (auto simp: pair_node_def Let_def split: sum.splits)
qed (auto simp: revoke_access_def)

lemma code_gone:
  "C \<noteq> c_pairing d \<Longrightarrow> C \<notin> (\<Union>k \<in> set ks. set (drawn_codes k)) \<Longrightarrow>
   \<not> rebinds (Pair C ctl now tok p) (perform_all ks d)"
proof (induction ks arbitrary: d)
  case Nil
  then show ?case using validate_ok[of C d] by (auto simp: is_ok_iff)
next
  case (Cons k ks)
  then show ?case using code_step[of C d k] by simp
qed

section \<open>Properties\<close>

text \<open>C29: the controller that paired a node owns it exclusively.  After a successful pairing that handed out
  the token \<open>tok\<close>, and as long as nobody else pairs or access is revoked, whatever else is called, a
  request is authorized exactly when it carries \<open>tok\<close> and the pairing controller's id; after the next
  pairing or revocation \<open>tok\<close> opens nothing any more, for anyone, provided it is not drawn a second time.  The
  pairing code that was used opens no further pairing until the same digits are drawn again.\<close>

theorem exclusive_controller:
  assumes "pair_node code ctl now tok p d = (Inr r, d1)" and "ascii tok" "tok \<noteq> []" "ascii (py_strip ctl)"
    and "keeps_bond ks d1" and "rebinds k (perform_all ks d1)"
    and "tok \<notin> (\<Union>k' \<in> set (k # later). set (drawn k'))"
  shows "snd r = tok \<and>
    (\<forall>ls. code \<notin> (\<Union>k' \<in> set ls. set (drawn_codes k')) \<longrightarrow> p \<noteq> code \<longrightarrow>
       \<not> rebinds (Pair code ctl' n' tok' p') (perform_all ls d1)) \<and>
    (fst (authorize n t x (perform_all ks d1)) = Inr True \<longleftrightarrow> t = tok \<and> py_strip x = py_strip ctl) \<and>
    fst (authorize n tok x (perform_all (ks @ k # later) d1)) \<noteq> Inr True"
proof -
  note P = pair_success[OF assms(1)]
  have B: "c_token (perform_all ks d1) = tok" "c_owner (perform_all ks d1) = py_strip ctl"
    using keeps_bond_owner[OF assms(5)] P by auto
  have "fst (authorize n t x (perform_all ks d1)) = Inr True \<longleftrightarrow> t = tok \<and> py_strip x = py_strip ctl"
    unfolding authorize_True B using P assms(2-4) by auto
  moreover have "tok \<noteq> c_token (perform_all later (perform k (perform_all ks d1)))"
  proof (rule token_gone)
    show "tok \<noteq> c_token (perform k (perform_all ks d1))" using rebind_token[OF assms(6)] assms(7) by auto
    show "tok \<notin> (\<Union>k' \<in> set later. set (drawn k'))" using assms(7) by simp
  qed
  then have "fst (authorize n tok x (perform_all (ks @ k # later) d1)) \<noteq> Inr True"
    by (simp add: authorize_True perform_all_append)
  moreover have "\<not> rebinds (Pair code ctl' n' tok' p') (perform_all ls d1)"
    if "code \<notin> (\<Union>k' \<in> set ls. set (drawn_codes k'))" "p \<noteq> code" for ls
    by (rule code_gone) (use that P in auto)
  ultimately show ?thesis using P by auto
qed

definition demo_creds :: creds where
  "demo_creds = load_or_create None 0 ''n'' ''t0'' ''000000'' ''111111''"

theorem exclusive_controller_witness:
  "fst (authorize 9 ''t1'' ''c'' (snd (pair_node ''000000'' ''c'' 1 ''t1'' ''222222'' demo_creds))) = Inr True \<and>
   fst (authorize 9 ''t1'' ''c'' (perform_all [Revoke 2 ''t2'' ''333333'' ''444444'']
      (snd (pair_node ''000000'' ''c'' 1 ''t1'' ''222222'' demo_creds)))) \<noteq> Inr True"
proof -
  let ?d1 = "snd (pair_node ''000000'' ''c'' 1 ''t1'' ''222222'' demo_creds)"
  have s: "py_strip ''c'' = ''c''" by (simp add: py_strip_def py_space_def)
  have p: "pair_node ''000000'' ''c'' 1 ''t1'' ''222222'' demo_creds = (Inr (''n'', ''t1''), ?d1)"
    by (simp add: pair_node_def demo_creds_def load_or_create_def validate_pairing_def same_text_def ascii_def node_id_def s checkE_def)
  have a: "ascii ''t1''" "ascii (py_strip ''c'')" by (simp_all add: ascii_def s)
  note E = exclusive_controller[OF p a(1) _ a(2), of "[]" "Revoke 2 ''t2'' ''333333'' ''444444''" "[]"]
  have "fst (authorize 9 ''t1'' ''c'' (perform_all [] ?d1)) = Inr True \<longleftrightarrow> ''t1'' = ''t1'' \<and> py_strip ''c'' = py_strip ''c''"
    by (rule E[THEN conjunct2, THEN conjunct2, THEN conjunct1]) simp_all
  moreover have "fst (authorize 9 ''t1'' ''c'' (perform_all ([] @ Revoke 2 ''t2'' ''333333'' ''444444'' # []) ?d1)) \<noteq> Inr True"
    by (rule E[THEN conjunct2, THEN conjunct2, THEN conjunct2]) simp_all
  ultimately show ?thesis by (simp only: perform_all.simps append.simps simp_thms)
qed

end
