(* ===== verification/Node_Registry.thy ===== *)
theory Node_Registry imports Py_Values
begin

text \<open>
  The controller's list of paired nodes and its client of their agents (\<open>cluster.py\<close>, class
  \<open>NodeRegistry\<close>): pairing, changes and removal, the views without secrets, the forward tokens, the
  choice of a data-plane address, the loop over the addresses of an agent, and the status probes with
  their cache and generations.

  A node is the dictionary of \<open>nodes.json\<close>; rows that are not objects are outside the model.  Parameters:
  \<open>parse\<close> for \<open>urlparse\<close>, \<open>sha\<close> for the hexadecimal SHA-256 of a text, \<open>ip\<close> for \<open>ipaddress.ip_address\<close> (the
  canonical text and whether it is version 4), and the answers of the network as values.  Disk failures
  are left out.
\<close>

section \<open>Nodes\<close>

type_synonym node = "(string \<times> pyval) list"

record url =
  u_scheme :: string
  u_host :: string
  u_user :: string
  u_password :: string
  u_query :: string
  u_fragment :: string

definition rstrip_char :: "char \<Rightarrow> string \<Rightarrow> string" where
  "rstrip_char c s = rev (dropWhile (\<lambda>x. x = c) (rev s))"

definition normalize_agent_url :: "(string \<Rightarrow> url result) \<Rightarrow> string \<Rightarrow> string result" where
  "normalize_agent_url parse v = (let u = rstrip_char (CHR ''/'') (py_strip v) in
     bindE (parse u) (\<lambda>p.
       if u_scheme p \<notin> {''http'', ''https''} \<or> u_host p = []
       then Inl (ValueError ''agent URL must be an http(s) URL with a hostname'')
       else if u_user p \<noteq> [] \<or> u_password p \<noteq> [] \<or> u_query p \<noteq> [] \<or> u_fragment p \<noteq> []
       then Inl (ValueError ''agent URL cannot contain credentials, query, or fragment'')
       else Inr u))"

record registry =
  nodes :: "node list"
  cache :: "(string, rat \<times> node) dict"
  gens :: "(string, nat) dict"

definition load_nodes :: "node list option \<Rightarrow> node list" where
  "load_nodes file = (case file of None \<Rightarrow> [] | Some ns \<Rightarrow> ns)"

definition has_id :: "string \<Rightarrow> node \<Rightarrow> bool" where
  "has_id i n \<longleftrightarrow> dict_get n ''id'' = PStr i"

definition local_id :: string where "local_id = ''local''"

definition local_node :: node where
  "local_node = [(''id'', PStr local_id), (''name'', PStr ''This node''), (''local'', PBool True)]"

definition get_node :: "string \<Rightarrow> registry \<Rightarrow> node option" where
  "get_node i r = (if i = local_id then Some local_node else find (has_id i) (nodes r))"

definition remote_node :: "string \<Rightarrow> registry \<Rightarrow> node result" where
  "remote_node i r = (case get_node i r of
     None \<Rightarrow> Inl (ValueError ''remote node not found'')
   | Some n \<Rightarrow> if n = [] \<or> i = local_id then Inl (ValueError ''remote node not found'') else Inr n)"

text \<open>\<open>node[key] = value\<close> changes the first node with the id, the one \<open>get\<close> returned.\<close>

fun change_first :: "string \<Rightarrow> (node \<Rightarrow> node) \<Rightarrow> node list \<Rightarrow> node list" where
  "change_first i f [] = []"
| "change_first i f (n # ns) = (if has_id i n then f n # ns else n # change_first i f ns)"

definition change_node :: "string \<Rightarrow> (node \<Rightarrow> node) \<Rightarrow> registry \<Rightarrow> registry" where
  "change_node i f r = r\<lparr>nodes := change_first i f (nodes r)\<rparr>"

definition forget_status :: "string \<Rightarrow> registry \<Rightarrow> registry" where
  "forget_status i r = r\<lparr>cache := AList.delete i (cache r)\<rparr>"

definition secret_keys :: "string list" where
  "secret_keys = [''agent_token'', ''forward_token'', ''forward_token_hash'']"

definition public_config :: "node \<Rightarrow> node" where
  "public_config n = filter (\<lambda>(k, v). k \<notin> set secret_keys) n"

definition node_enabled :: "node \<Rightarrow> bool" where
  "node_enabled n = (if has_key n ''enabled'' then py_truthy (dict_get n ''enabled'') else True)"

section \<open>The loop over the addresses of an agent\<close>

text \<open>What one address answers, and what the loop makes of it.  An answer that is not JSON is
  \<open>Answer None\<close>.\<close>

datatype attempt = Answer "pyval option" | BadStatus int string | NoConnect string | HttpFail string

datatype dialled = Got pyval | NotJson | Refused int string | Unreachable string | NoTarget

fun dial :: "attempt list \<Rightarrow> string option \<Rightarrow> dialled" where
  "dial [] e = (case e of None \<Rightarrow> NoTarget | Some m \<Rightarrow> Unreachable m)"
| "dial (Answer (Some v) # as) e = Got v"
| "dial (Answer None # as) e = NotJson"
| "dial (BadStatus c t # as) e = Refused c t"
| "dial (HttpFail m # as) e = Unreachable m"
| "dial (NoConnect m # as) e = dial as (Some m)"

definition node_label :: "node \<Rightarrow> string \<Rightarrow> string" where
  "node_label n i = (if has_key n ''name'' then py_str (dict_get n ''name'') else i)"

text \<open>\<open>request\<close>; the error of a refusing agent carries the status code.\<close>

datatype agent_error = AgentStatus int string | AgentFailure pyexc

definition agent_request :: "string \<Rightarrow> bool \<Rightarrow> attempt list \<Rightarrow> registry \<Rightarrow> agent_error + pyval" where
  "agent_request i allow_disabled as r = (case remote_node i r of
     Inl e \<Rightarrow> Inl (AgentFailure e)
   | Inr n \<Rightarrow>
       if \<not> allow_disabled \<and> \<not> node_enabled n
       then Inl (AgentFailure (ValueError (''node '' @ node_label n i @ '' is disabled'')))
       else (case dial as None of
           Got v \<Rightarrow> Inr v
         | NotJson \<Rightarrow> Inl (AgentFailure (ValueError ''invalid JSON''))
         | Refused c t \<Rightarrow> Inl (AgentStatus c (node_label n i @ '' agent error: HTTP '' @ dec_int c @ '': '' @ take 500 t))
         | Unreachable m \<Rightarrow> Inl (AgentFailure (RuntimeError (''could not contact '' @ node_label n i @ '': '' @ m)))
         | NoTarget \<Rightarrow> Inl (AgentFailure (RuntimeError (node_label n i @ '' agent has no connectable endpoints'')))))"

section \<open>Pairing, change and removal\<close>

definition text_or_none :: "string option \<Rightarrow> pyval" where
  "text_or_none t = (case t of None \<Rightarrow> PNone | Some s \<Rightarrow> if py_strip s = [] then PNone else PStr (py_strip s))"

definition paired_node :: "string \<Rightarrow> string option \<Rightarrow> string option \<Rightarrow> string option \<Rightarrow> pyval \<Rightarrow> node \<Rightarrow> node" where
  "paired_node u nm fip fif now p =
     [(''id'', dict_get p ''node_id''),
      (''name'', PStr (py_strip (case nm of Some (c # s) \<Rightarrow> c # s
          | _ \<Rightarrow> py_str (py_or (dict_get p ''name'') (PStr ''Remote node''))))),
      (''agent_url'', PStr u), (''agent_token'', dict_get p ''agent_token''),
      (''fabric_ip'', text_or_none fip), (''fabric_interface'', text_or_none fif),
      (''enabled'', PBool True), (''hidden_from_dashboard'', PBool False),
      (''protocol_version'', dict_get p ''protocol_version''), (''paired_at'', now),
      (''usage_reconciled'', PBool False)]"

text \<open>\<open>pair_remote\<close>: the new node replaces every node with its id and goes to the end.  An agent answers
  with texts for its id and its name.\<close>

definition pair_remote :: "(string \<Rightarrow> url result) \<Rightarrow> string \<Rightarrow> string option \<Rightarrow> string option \<Rightarrow> string option \<Rightarrow> pyval \<Rightarrow>
    attempt list \<Rightarrow> registry \<Rightarrow> node result \<times> registry" where
  "pair_remote parse addr nm fip fif now as r = (case normalize_agent_url parse addr of
     Inl e \<Rightarrow> (Inl e, r)
   | Inr u \<Rightarrow> (case dial as None of
        NoTarget \<Rightarrow> (Inl (RuntimeError ''node agent has no connectable endpoints''), r)
      | NotJson \<Rightarrow> (Inl (ValueError ''invalid JSON''), r)
      | Refused c t \<Rightarrow> (Inl (ValueError (''agent rejected pairing: '' @ take 300 t)), r)
      | Unreachable m \<Rightarrow> (Inl (ValueError (''could not contact node agent: '' @ m)), r)
      | Got v \<Rightarrow> (case v of
           PDict p \<Rightarrow>
             if \<not> py_truthy (dict_get p ''agent_token'') \<or> \<not> py_truthy (dict_get p ''node_id'')
             then (Inl (ValueError ''node agent returned an invalid pairing response''), r)
             else let n = paired_node u nm fip fif now p; i = py_str (dict_get p ''node_id'')
               in (Inr (public_config n),
                   forget_status i (r\<lparr>nodes := filter (\<lambda>m. dict_get m ''id'' \<noteq> dict_get p ''node_id'') (nodes r) @ [n]\<rparr>))
         | _ \<Rightarrow> (Inl (AttributeError ''get''), r))))"

definition update_keys :: "string list" where
  "update_keys = [''name'', ''fabric_ip'', ''fabric_interface'', ''enabled'', ''hidden_from_dashboard'']"

definition apply_changes :: "node \<Rightarrow> node \<Rightarrow> node" where
  "apply_changes ch n = foldl (\<lambda>m k. if has_key ch k then AList.update k (dict_get ch k) m else m) n update_keys"

fun is_pybool :: "pyval \<Rightarrow> bool" where
  "is_pybool (PBool b) = True"
| "is_pybool _ = False"

text \<open>\<open>update\<close>: the listed keys are assigned before the address is checked, so a bad address leaves them
  changed in memory.\<close>

definition update_node :: "(string \<Rightarrow> url result) \<Rightarrow> string \<Rightarrow> node \<Rightarrow> registry \<Rightarrow> node result \<times> registry" where
  "update_node parse i ch r = (case remote_node i r of
     Inl e \<Rightarrow> (Inl e, r)
   | Inr n \<Rightarrow>
       if has_key ch ''hidden_from_dashboard'' \<and> \<not> is_pybool (dict_get ch ''hidden_from_dashboard'')
       then (Inl (ValueError ''hidden_from_dashboard must be a boolean''), r)
       else let n1 = apply_changes ch n; r1 = change_node i (apply_changes ch) r in
         if has_key ch ''agent_url'' then
           (case normalize_agent_url parse (py_str (py_or (dict_get ch ''agent_url'') (PStr []))) of
              Inl e \<Rightarrow> (Inl e, r1)
            | Inr u \<Rightarrow> (Inr (public_config (AList.update ''agent_url'' (PStr u) n1)),
                forget_status i (change_node i (\<lambda>m. AList.update ''agent_url'' (PStr u) (apply_changes ch m)) r)))
         else (Inr (public_config n1), forget_status i r1))"

definition remove_node :: "string \<Rightarrow> registry \<Rightarrow> bool \<times> registry" where
  "remove_node i r = (let ns = filter (\<lambda>m. \<not> has_id i m) (nodes r) in
     if length ns = length (nodes r) then (False, r\<lparr>nodes := ns\<rparr>)
     else (True, forget_status i (r\<lparr>nodes := ns\<rparr>)))"

definition mark_reconciled :: "string \<Rightarrow> registry \<Rightarrow> unit result \<times> registry" where
  "mark_reconciled i r = (case remote_node i r of
     Inl e \<Rightarrow> (Inl e, r)
   | Inr n \<Rightarrow> if dict_get n ''usage_reconciled'' = PBool True then (Inr (), r)
       else (Inr (), change_node i (AList.update ''usage_reconciled'' (PBool True)) r))"

section \<open>Forward tokens\<close>

definition set_forward_token :: "(string \<Rightarrow> string) \<Rightarrow> string \<Rightarrow> string \<Rightarrow> registry \<Rightarrow> unit result \<times> registry" where
  "set_forward_token sha i tok r = (case remote_node i r of
     Inl e \<Rightarrow> (Inl e, r)
   | Inr n \<Rightarrow> (Inr (), change_node i (\<lambda>m. AList.update ''forward_token_hash'' (PStr (sha tok)) (AList.delete ''forward_token'' m)) r))"

definition accepts_forward_token :: "(string \<Rightarrow> string) \<Rightarrow> string \<Rightarrow> string \<Rightarrow> registry \<Rightarrow> bool" where
  "accepts_forward_token sha i tok r = (case get_node i r of None \<Rightarrow> False
     | Some n \<Rightarrow> n \<noteq> [] \<and> i \<noteq> local_id \<and> node_enabled n \<and> tok \<noteq> [] \<and>
         sha tok = str_or_empty (dict_get n ''forward_token_hash''))"

section \<open>The data-plane address\<close>

definition endpoint :: "string \<Rightarrow> string" where
  "endpoint a = ''http://'' @ (if CHR '':'' \<in> set a then ''['' @ a @ '']'' else a) @ '':7878''"

definition direct_transfer_source ::
    "(string \<Rightarrow> (string \<times> bool) option) \<Rightarrow> (string \<Rightarrow> url result) \<Rightarrow> string \<Rightarrow> registry \<Rightarrow> string option" where
  "direct_transfer_source ip parse i r = (case remote_node i r of
     Inl e \<Rightarrow> None
   | Inr n \<Rightarrow> if \<not> node_enabled n then None
       else (case ip (str_or_empty (dict_get n ''fabric_ip'')) of
          None \<Rightarrow> None
        | Some (a, v4) \<Rightarrow> if \<not> has_key n ''agent_url'' \<or> \<not> is_ok (parse (py_str (dict_get n ''agent_url''))) then None
            else Some (endpoint a)))"

definition rdma_interfaces :: "node \<Rightarrow> node list" where
  "rdma_interfaces st = (case py_or (dict_get st ''interfaces'') (PList []) of
     PList xs \<Rightarrow> concat (map (\<lambda>v. case v of PDict d \<Rightarrow> if py_truthy (dict_get d ''rdma'') then [d] else [] | _ \<Rightarrow> []) xs)
   | _ \<Rightarrow> [])"

fun first_ipv4 :: "(string \<Rightarrow> (string \<times> bool) option) \<Rightarrow> pyval list \<Rightarrow> string option" where
  "first_ipv4 ip [] = None"
| "first_ipv4 ip (v # vs) = (case ip (py_str v) of
     Some (a, True) \<Rightarrow> Some a
   | _ \<Rightarrow> first_ipv4 ip vs)"

definition interface_ipv4 :: "(string \<Rightarrow> (string \<times> bool) option) \<Rightarrow> node \<Rightarrow> string option" where
  "interface_ipv4 ip d = (case py_or (dict_get d ''ipv4'') (PList []) of PList vs \<Rightarrow> first_ipv4 ip vs | _ \<Rightarrow> None)"

text \<open>The loop over the candidate interfaces; \<open>only\<close> says that one interface is configured by name.\<close>

fun choose_interface :: "(string \<Rightarrow> (string \<times> bool) option) \<Rightarrow> string \<Rightarrow> bool \<Rightarrow> node list \<Rightarrow> string result" where
  "choose_interface ip nm only [] = Inl (RuntimeError (nm @ '' reports RDMA interfaces but none has a usable UP IPv4 endpoint''))"
| "choose_interface ip nm only (d # ds) =
     (if \<not> py_truthy (dict_get d ''up'') then
        (if only then Inl (RuntimeError (nm @ '' RDMA interface '' @ py_str (dict_get d ''name'') @ '' is down''))
         else choose_interface ip nm only ds)
      else (case interface_ipv4 ip d of
          Some a \<Rightarrow> Inr (''http://'' @ a @ '':7878'')
        | None \<Rightarrow> if only then Inl (RuntimeError (nm @ '' RDMA interface '' @ py_str (dict_get d ''name'') @ '' has no usable IPv4 address''))
            else choose_interface ip nm only ds))"

text \<open>\<open>resolve_direct_transfer_source\<close>; \<open>st\<close> is the status a probe of the node returns.\<close>

definition resolve_transfer_source ::
    "(string \<Rightarrow> (string \<times> bool) option) \<Rightarrow> (string \<Rightarrow> url result) \<Rightarrow> string \<Rightarrow> node \<Rightarrow> registry \<Rightarrow> string option result" where
  "resolve_transfer_source ip parse i st r = (case remote_node i r of
     Inl e \<Rightarrow> Inr None
   | Inr n \<Rightarrow>
       if \<not> node_enabled n then Inr None
       else if py_truthy (dict_get n ''fabric_ip'') then
         (case direct_transfer_source ip parse i r of
            None \<Rightarrow> Inl (RuntimeError (node_label n i @ '' has no valid HTTP fabric endpoint''))
          | Some e \<Rightarrow> Inr (Some e))
       else let want = text_field (dict_get n ''fabric_interface'');
                rdma = rdma_interfaces st;
                cands = filter (\<lambda>d. want = [] \<or> dict_get d ''name'' = PStr want) rdma in
         if want \<noteq> [] \<and> cands = []
         then Inl (RuntimeError (node_label n i @ '' has no reported RDMA interface named '' @ want))
         else if cands \<noteq> [] then map_sum id Some (choose_interface ip (node_label n i) (want \<noteq> []) cands)
         else if dict_get st ''fabric_ready'' = PBool True
         then Inl (RuntimeError (node_label n i @ '' reports a fabric but no usable UP RDMA IPv4 endpoint''))
         else Inr None)"

end
