(* ===== verification/Node_Probes.thy ===== *)
theory Node_Probes imports Node_Registry
begin

text \<open>
  Status probes of cluster nodes (\<open>cluster.py\<close>): when a cached status is served, when a probe in flight is
  shared, what a probe makes of the agent's answers, and the generation check that keeps a status read
  before a lifecycle action from being published after it.  Probes of several nodes and lifecycle
  actions interleave: \<open>probing\<close> is the step relation of the registry with its open probes.

  Texts of exceptions and the clock are arguments.  The task object of \<open>asyncio\<close> is a number; a finished
  task leaves the table of probes in flight.
\<close>

section \<open>Serving a status\<close>

definition status_ttl :: rat where "status_ttl = 4"
definition negative_window :: rat where "negative_window = 60"

definition cached_status :: "rat \<Rightarrow> string \<Rightarrow> registry \<Rightarrow> node option" where
  "cached_status now i r = (case map_of (cache r) i of
     Some (t, st) \<Rightarrow> if now - t < status_ttl then Some st else None | None \<Rightarrow> None)"

definition generation :: "string \<Rightarrow> registry \<Rightarrow> nat" where
  "generation i r = (case map_of (gens r) i of None \<Rightarrow> 0 | Some g \<Rightarrow> g)"

definition invalidate_status :: "string \<Rightarrow> registry \<Rightarrow> registry" where
  "invalidate_status i r = (forget_status i r)\<lparr>gens := AList.update i (generation i r + 1) (gens r)\<rparr>"

record flight =
  f_task :: nat
  f_done :: bool
  f_details :: bool

definition reusable_probe :: "flight option \<Rightarrow> bool \<Rightarrow> bool" where
  "reusable_probe fl details = (case fl of None \<Rightarrow> False | Some f \<Rightarrow> \<not> f_done f \<and> (f_details f \<or> \<not> details))"

text \<open>What \<open>probe\<close> does: return a status, return a status and refresh it in the background, wait for the
  task in flight, or start a task.\<close>

datatype decision = Serve node | ServeAndRefresh node bool | Join nat | Start

definition probe_decision :: "rat \<Rightarrow> string \<Rightarrow> bool \<Rightarrow> bool \<Rightarrow> bool \<Rightarrow> flight option \<Rightarrow> registry \<Rightarrow> decision" where
  "probe_decision now i force details allow_stale fl r =
     (let wait = (if \<not> force \<and> reusable_probe fl details then Join (f_task (the fl)) else Start) in
      case (if force then None else map_of (cache r) i) of
        None \<Rightarrow> wait
      | Some (t, st) \<Rightarrow>
          let age = now - t; negative = (dict_get st ''online'' = PBool False) in
          if age < status_ttl \<and> (\<not> details \<or> has_key st ''docker_ready'' \<or> negative) then Serve st
          else if details \<and> allow_stale \<and> negative \<and> age < negative_window
          then ServeAndRefresh st (\<not> reusable_probe fl True)
          else wait)"

text \<open>\<open>_start_probe\<close> and \<open>_forget_probe\<close> on the table of probes in flight\<close>

definition start_probe :: "string \<Rightarrow> nat \<Rightarrow> bool \<Rightarrow> (string, flight) dict \<Rightarrow> (string, flight) dict" where
  "start_probe i task details fs = AList.update i \<lparr>f_task = task, f_done = False, f_details = details\<rparr> fs"

definition forget_probe :: "string \<Rightarrow> nat \<Rightarrow> (string, flight) dict \<Rightarrow> (string, flight) dict" where
  "forget_probe i task fs = (case map_of fs i of
     Some f \<Rightarrow> if f_task f = task then AList.delete i fs else fs | None \<Rightarrow> fs)"

section \<open>The result of a probe\<close>

text \<open>An answer of \<open>request\<close>: an object, a refusal with its status code, or another failure with its text.\<close>

datatype reply = Ok node | Http int string | Fail string

fun reply_text :: "reply \<Rightarrow> string" where
  "reply_text (Ok d) = []"
| "reply_text (Http c m) = m"
| "reply_text (Fail m) = m"

definition merge :: "node \<Rightarrow> node \<Rightarrow> node" where
  "merge a b = foldl (\<lambda>d (k, v). AList.update k v d) a b"

definition protocol_version :: int where "protocol_version = 2"

definition docker_issue :: "node \<Rightarrow> string list" where
  "docker_issue st = (if dict_get st ''docker_ready'' = PBool False
     then [(let m = text_field (dict_get st ''status_message'') in if m = [] then ''Docker is unavailable'' else m)] else [])"

text \<open>The status after the details call, and its issues.\<close>

definition with_details :: "bool \<Rightarrow> node option \<Rightarrow> reply \<Rightarrow> node \<Rightarrow> node \<times> string list" where
  "with_details wanted cached details st =
     (if \<not> wanted then (st, [])
      else case details of
        Ok d \<Rightarrow> (merge st d, [])
      | e \<Rightarrow> ((case cached of None \<Rightarrow> st | Some c \<Rightarrow> merge c st), [''agent telemetry unavailable: '' @ reply_text e]))"

definition with_name :: "bool \<Rightarrow> node \<Rightarrow> bool \<Rightarrow> node \<Rightarrow> node \<times> string list" where
  "with_name details public renamed st =
     (let nm = text_field (dict_get public ''name'') in
      if details \<and> nm \<noteq> [] \<and> text_field (dict_get st ''name'') \<noteq> nm
      then if renamed then (AList.update ''name'' (PStr nm) st, []) else (st, [''node name synchronization pending''])
      else (st, []))"

definition online_result :: "node \<Rightarrow> node \<Rightarrow> string list \<Rightarrow> int \<Rightarrow> pyval \<Rightarrow> node" where
  "online_result public st issues latency seen =
     (let r = merge (merge public st)
          [(''status'', PStr (if issues = [] then ''online'' else ''degraded'')), (''online'', PBool True),
           (''latency_ms'', PInt latency), (''last_seen'', seen)];
          r = AList.update ''name'' (py_or (dict_get public ''name'') (dict_get st ''name'')) r;
          r = AList.update ''hidden_from_dashboard'' (PBool (py_truthy (dict_get public ''hidden_from_dashboard''))) r
      in AList.update ''status_message'' (if issues = [] then PNone else PStr (join_with ''; '' issues)) r)"

definition unreachable_result :: "node \<Rightarrow> node option \<Rightarrow> string \<Rightarrow> node" where
  "unreachable_result public cached m = merge public
     [(''status'', PStr ''unreachable''), (''online'', PBool False),
      (''last_seen'', (case cached of None \<Rightarrow> PNone | Some c \<Rightarrow> dict_get c ''last_seen'')), (''status_message'', PStr m)]"

text \<open>The body of \<open>_probe_now\<close>: the status endpoint answers for the health endpoint when an old agent
  does not have it (404).\<close>

record answers =
  a_health :: reply
  a_status :: reply
  a_details :: reply
  a_renamed :: bool
  a_latency :: int
  a_seen :: pyval

definition probe_result :: "bool \<Rightarrow> node \<Rightarrow> node option \<Rightarrow> answers \<Rightarrow> node" where
  "probe_result details n cached a =
     (let public = public_config n;
          first = (case a_health a of Http c m \<Rightarrow> if c = 404 then (a_status a, True) else (Http c m, False) | x \<Rightarrow> (x, False))
      in if \<not> node_enabled n then merge public [(''status'', PStr ''disabled''), (''online'', PBool False)]
         else case fst first of
           Ok st \<Rightarrow>
             let proto = (if py_eq_int (dict_get st ''protocol_version'') protocol_version then [] else [''agent protocol version mismatch'']);
                 (st1, i1) = with_details (details \<and> \<not> snd first) cached (a_details a) st;
                 (st2, i2) = with_name details public (a_renamed a) st1
             in online_result public st2 (proto @ docker_issue st @ i1 @ docker_issue st1 @ i2) (a_latency a) (a_seen a)
         | e \<Rightarrow> unreachable_result public cached (reply_text e))"

text \<open>The end of \<open>_probe_now\<close>: a status whose generation is no longer the node's starts over (\<open>None\<close>).\<close>

definition publish :: "string \<Rightarrow> nat \<Rightarrow> rat \<Rightarrow> node \<Rightarrow> registry \<Rightarrow> registry option" where
  "publish i g now st r = (if g \<noteq> generation i r then None else Some (r\<lparr>cache := AList.update i (now, st) (cache r)\<rparr>))"

section \<open>All nodes\<close>

text \<open>\<open>public_nodes\<close>; a probe that raised is its text.\<close>

definition public_nodes :: "node \<Rightarrow> pyval \<Rightarrow> (node \<times> (string + node)) list \<Rightarrow> node list" where
  "public_nodes local seen remote =
     merge [(''id'', PStr local_id), (''name'', py_or (dict_get local ''name'') (PStr ''This node'')), (''local'', PBool True),
        (''enabled'', PBool True), (''status'', PStr ''online''), (''online'', PBool True), (''last_seen'', seen)] local #
     map (\<lambda>(n, x). case x of
        Inl m \<Rightarrow> merge (public_config n) [(''status'', PStr ''unreachable''), (''online'', PBool False), (''status_message'', PStr m)]
      | Inr st \<Rightarrow> st) remote"

section \<open>Interleaving\<close>

text \<open>An open probe remembers the node and the generation it read; \<open>o_at\<close> is the step of its last start.
  The clock \<open>s_clock\<close> counts steps; \<open>s_acted\<close> and \<open>s_read\<close> are histories, of the last lifecycle action on a
  node and of the start of the probe whose result is cached.\<close>

record open_probe =
  o_node :: string
  o_gen :: nat
  o_at :: nat

record system =
  s_reg :: registry
  s_open :: "(nat, open_probe) dict"
  s_clock :: nat
  s_acted :: "string \<Rightarrow> nat"
  s_read :: "string \<Rightarrow> nat"

inductive probing :: "system \<Rightarrow> system \<Rightarrow> bool" where
  start: "probing s (s\<lparr>s_open := AList.update k \<lparr>o_node = i, o_gen = generation i (s_reg s), o_at = s_clock s\<rparr> (s_open s),
      s_clock := Suc (s_clock s)\<rparr>)" if "map_of (s_open s) k = None"
| act: "probing s (s\<lparr>s_reg := invalidate_status i (s_reg s), s_acted := (s_acted s)(i := s_clock s),
      s_clock := Suc (s_clock s)\<rparr>)"
| drop: "probing s (s\<lparr>s_reg := forget_status i (s_reg s), s_clock := Suc (s_clock s)\<rparr>)"
| finish: "probing s (s\<lparr>s_reg := r, s_open := AList.delete k (s_open s), s_read := (s_read s)(o_node p := o_at p),
      s_clock := Suc (s_clock s)\<rparr>)"
    if "map_of (s_open s) k = Some p" "publish (o_node p) (o_gen p) now st (s_reg s) = Some r"
| again: "probing s (s\<lparr>s_open := AList.update k (p\<lparr>o_gen := generation (o_node p) (s_reg s), o_at := s_clock s\<rparr>) (s_open s),
      s_clock := Suc (s_clock s)\<rparr>)"
    if "map_of (s_open s) k = Some p" "publish (o_node p) (o_gen p) now st (s_reg s) = None"
| fail: "probing s (s\<lparr>s_open := AList.delete k (s_open s), s_clock := Suc (s_clock s)\<rparr>)"

inductive_cases probing_cases: "probing s t"

definition initial_system :: "node list \<Rightarrow> system" where
  "initial_system ns = \<lparr>s_reg = \<lparr>nodes = ns, cache = [], gens = []\<rparr>, s_open = [], s_clock = 1, s_acted = (\<lambda>_. 0), s_read = (\<lambda>_. 0)\<rparr>"

text \<open>The invariant: a cached status was read by a probe that started after the last action on its node,
  and so was the reading of every open probe whose generation is the current one.\<close>

definition current_reads :: "system \<Rightarrow> bool" where
  "current_reads s \<longleftrightarrow> (\<forall>i. s_acted s i < s_clock s) \<and>
     (\<forall>i e. map_of (cache (s_reg s)) i = Some e \<longrightarrow> s_acted s i < s_read s i) \<and>
     (\<forall>k p. map_of (s_open s) k = Some p \<longrightarrow> o_gen p \<le> generation (o_node p) (s_reg s) \<and>
        (o_gen p = generation (o_node p) (s_reg s) \<longrightarrow> s_acted s (o_node p) < o_at p))"

lemma generation_invalidate [simp]:
  "generation j (invalidate_status i r) = (if i = j then generation i r + 1 else generation j r)"
  by (auto simp: generation_def invalidate_status_def forget_status_def dict_simps)

lemma generation_forget [simp]: "generation j (forget_status i r) = generation j r"
  by (simp add: generation_def forget_status_def)

lemma cache_invalidate: "map_of (cache (invalidate_status i r)) = (map_of (cache r))(i := None)"
  by (simp add: invalidate_status_def forget_status_def dict_simps)

lemma publish_Some:
  "publish i g now st r = Some r' \<longleftrightarrow> g = generation i r \<and> r' = r\<lparr>cache := AList.update i (now, st) (cache r)\<rparr>"
  by (auto simp: publish_def)

lemma probing_current: "probing s t \<Longrightarrow> current_reads s \<Longrightarrow> current_reads t"
proof (induction rule: probing.induct)
  case (start s k i)
  then show ?case by (auto simp: current_reads_def dict_simps less_Suc_eq)
next
  case (act s i)
  have le: "o_gen p \<le> generation (o_node p) (s_reg s)" if "map_of (s_open s) k = Some p" for k p
    using act that by (auto simp: current_reads_def)
  then have "o_gen p \<le> Suc (generation (o_node p) (s_reg s)) \<and> o_gen p \<noteq> Suc (generation (o_node p) (s_reg s))"
    if "map_of (s_open s) k = Some p" for k p
    using le[OF that] by linarith
  then show ?case
    using act unfolding current_reads_def by (auto simp: cache_invalidate less_Suc_eq split: if_splits)
next
  case (drop s i)
  then show ?case by (auto simp: current_reads_def forget_status_def dict_simps less_Suc_eq generation_def split: if_splits)
next
  case (finish s k p now st r)
  then show ?case
    unfolding current_reads_def publish_Some by (auto simp: dict_simps less_Suc_eq generation_def split: if_splits)
next
  case (again s k p now st)
  then show ?case by (auto simp: current_reads_def dict_simps less_Suc_eq)
next
  case (fail s k)
  then show ?case by (auto simp: current_reads_def dict_simps less_Suc_eq split: if_splits)
qed

lemma probing_reach: "probing\<^sup>*\<^sup>* (initial_system ns) s \<Longrightarrow> current_reads s"
proof (induction rule: rtranclp_induct)
  case base
  show ?case by (simp add: initial_system_def current_reads_def)
next
  case (step s t)
  then show ?case using probing_current by blast
qed

section \<open>The registry as a map\<close>

text \<open>What \<open>get\<close> returns for every remote id.\<close>

definition remotes :: "registry \<Rightarrow> string \<Rightarrow> node option" where
  "remotes r i = find (has_id i) (nodes r)"

lemma find_change: "find (has_id j) (change_first i f ns) = (if i = j then map_option f (find (has_id i) ns) else find (has_id j) ns)"
  if "\<And>n. has_id i n \<Longrightarrow> has_id i (f n)"
proof (induction ns)
  case (Cons n ns)
  have "has_id i n \<Longrightarrow> i \<noteq> j \<Longrightarrow> \<not> has_id j n \<and> \<not> has_id j (f n)" using that[of n] by (auto simp: has_id_def)
  then show ?case using Cons that by auto
qed simp

lemma has_id_unique: "has_id i n \<Longrightarrow> has_id j n \<Longrightarrow> i = j"
  by (simp add: has_id_def)

lemma find_filter_other: "find (has_id j) (filter (\<lambda>m. \<not> has_id i m) ns) = (if i = j then None else find (has_id j) ns)"
proof (cases "i = j")
  case True
  have "find (has_id j) (filter (\<lambda>m. \<not> has_id j m) ns) = None" by (induction ns) auto
  then show ?thesis using True by simp
next
  case False
  then have "has_id i m \<Longrightarrow> \<not> has_id j m" for m using has_id_unique by blast
  then show ?thesis using False by (induction ns) auto
qed

lemma find_append: "find P (xs @ ys) = (case find P xs of None \<Rightarrow> find P ys | Some x \<Rightarrow> Some x)"
  by (induction xs) auto

lemma has_id_update [simp]: "k \<noteq> ''id'' \<Longrightarrow> has_id i (AList.update k v n) = has_id i n"
  by (simp add: has_id_def dict_get_def dict_simps)

lemma has_id_delete [simp]: "k \<noteq> ''id'' \<Longrightarrow> has_id i (AList.delete k n) = has_id i n"
  by (simp add: has_id_def dict_get_def dict_simps)

lemma has_id_changes [simp]: "has_id i (apply_changes ch n) = has_id i n"
proof -
  have "\<forall>k \<in> set ks. k \<noteq> ''id'' \<Longrightarrow> has_id i (foldl (\<lambda>m k. if has_key ch k then AList.update k (dict_get ch k) m else m) n ks) = has_id i n"
    for ks by (induction ks arbitrary: n) auto
  then show ?thesis by (simp add: apply_changes_def update_keys_def)
qed

lemma nodes_forget [simp]: "nodes (forget_status i r) = nodes r"
  by (simp add: forget_status_def)

lemma remotes_forget [simp]: "remotes (forget_status i r) = remotes r"
  by (simp add: remotes_def fun_eq_iff)

lemma remotes_change: "(\<And>n. has_id i n \<Longrightarrow> has_id i (f n)) \<Longrightarrow>
    remotes (change_node i f r) = (remotes r)(i := map_option f (remotes r i))"
  by (auto simp: remotes_def change_node_def find_change fun_eq_iff)

lemma remote_node_ok: "remote_node i r = Inr n \<longleftrightarrow> i \<noteq> local_id \<and> remotes r i = Some n \<and> n \<noteq> []"
  by (auto simp: remote_node_def get_node_def remotes_def split: option.splits if_splits)

lemma remotes_pair:
  assumes "pair_remote parse addr nm fip fif now as r = (Inr v, r')"
  shows "\<exists>p u. dial as None = Got (PDict p) \<and> normalize_agent_url parse addr = Inr u \<and>
    v = public_config (paired_node u nm fip fif now p) \<and>
    (\<forall>i. dict_get p ''node_id'' = PStr i \<longrightarrow> remotes r' = (remotes r)(i \<mapsto> paired_node u nm fip fif now p))"
proof -
  obtain p u where p: "dial as None = Got (PDict p)" "normalize_agent_url parse addr = Inr u"
    "v = public_config (paired_node u nm fip fif now p)"
    "r' = forget_status (py_str (dict_get p ''node_id''))
       (r\<lparr>nodes := filter (\<lambda>m. dict_get m ''id'' \<noteq> dict_get p ''node_id'') (nodes r) @ [paired_node u nm fip fif now p]\<rparr>)"
    using assms by (auto simp: pair_remote_def Let_def split: sum.splits dialled.splits pyval.splits if_splits)
  have "remotes r' = (remotes r)(i \<mapsto> paired_node u nm fip fif now p)" if i: "dict_get p ''node_id'' = PStr i" for i
  proof
    fix j
    have new: "has_id k (paired_node u nm fip fif now p) \<longleftrightarrow> i = k" for k
      using i by (auto simp: has_id_def paired_node_def dict_get_def)
    have filt: "filter (\<lambda>m. dict_get m ''id'' \<noteq> dict_get p ''node_id'') (nodes r) = filter (\<lambda>m. \<not> has_id i m) (nodes r)"
      by (simp add: has_id_def i)
    show "remotes r' j = ((remotes r)(i \<mapsto> paired_node u nm fip fif now p)) j"
      unfolding p(4) by (auto simp: remotes_def filt find_append find_filter_other new split: option.split)
  qed
  then show ?thesis using p by blast
qed

lemma remotes_remove: "i \<noteq> local_id \<Longrightarrow> remotes (snd (remove_node i r)) = (remotes r)(i := None)"
  by (auto simp: remove_node_def Let_def remotes_def find_filter_other fun_eq_iff)

lemma remotes_update:
  assumes "update_node parse i ch r = (Inr v, r')"
  shows "\<exists>n f. remotes r i = Some n \<and> remotes r' = (remotes r)(i \<mapsto> f n) \<and> v = public_config (f n) \<and> has_id i (f n) = has_id i n"
proof -
  obtain n where n: "remote_node i r = Inr n" using assms by (auto simp: update_node_def split: sum.splits)
  then have s: "remotes r i = Some n" by (simp add: remote_node_ok)
  show ?thesis
  proof (cases "has_key ch ''agent_url''")
    case False
    then have "v = public_config (apply_changes ch n)" "r' = forget_status i (change_node i (apply_changes ch) r)"
      using assms n by (auto simp: update_node_def Let_def split: if_splits)
    then show ?thesis using s by (intro exI[of _ n] exI[of _ "apply_changes ch"]) (simp add: remotes_change)
  next
    case True
    then obtain u where u: "v = public_config (AList.update ''agent_url'' (PStr u) (apply_changes ch n))"
      "r' = forget_status i (change_node i (\<lambda>m. AList.update ''agent_url'' (PStr u) (apply_changes ch m)) r)"
      using assms n by (auto simp: update_node_def Let_def split: if_splits sum.splits)
    then show ?thesis using s
      by (intro exI[of _ n] exI[of _ "\<lambda>m. AList.update ''agent_url'' (PStr u) (apply_changes ch m)"]) (simp add: remotes_change)
  qed
qed

lemma public_no_secret: "map_of (public_config n) k = (if k \<in> set secret_keys then None else map_of n k)"
  unfolding public_config_def by (induction n) auto

text \<open>A change with a bad address is refused, yet its other keys are already changed in memory.\<close>

lemma refused_update_changes_memory:
  assumes "remote_node i r = Inr n" "has_key ch ''agent_url''" "\<not> has_key ch ''hidden_from_dashboard''"
    and "normalize_agent_url parse (py_str (py_or (dict_get ch ''agent_url'') (PStr []))) = Inl e"
  shows "fst (update_node parse i ch r) = Inl e \<and>
    remotes (snd (update_node parse i ch r)) = (remotes r)(i \<mapsto> apply_changes ch n)"
proof -
  have "remotes r i = Some n" using assms(1) by (simp add: remote_node_ok)
  then show ?thesis using assms by (simp add: update_node_def Let_def remotes_change)
qed

section \<open>Properties\<close>

text \<open>C24: the registry behaves as a map from ids to nodes: pairing binds the id the agent reported, to a node
  made of its answer and the request, and no other id; a change rewrites one node and keeps its id; a
  removal unbinds one id; and the views handed out by pairing and change hold no secret.\<close>

theorem registry_refines_map:
  assumes "pair_remote parse addr nm fip fif now as r = (Inr v, r')" and "update_node parse i ch s = (Inr w, s')"
    and "j \<noteq> local_id"
  shows "(\<exists>p u. dial as None = Got (PDict p) \<and> normalize_agent_url parse addr = Inr u \<and>
      (\<forall>k. dict_get p ''node_id'' = PStr k \<longrightarrow> remotes r' = (remotes r)(k \<mapsto> paired_node u nm fip fif now p))) \<and>
    (\<exists>n f. remotes s i = Some n \<and> remotes s' = (remotes s)(i \<mapsto> f n) \<and> has_id i (f n) = has_id i n) \<and>
    remotes (snd (remove_node j q)) = (remotes q)(j := None) \<and>
    (\<forall>k \<in> set secret_keys. map_of v k = None \<and> map_of w k = None)"
proof -
  obtain p u where p: "dial as None = Got (PDict p)" "normalize_agent_url parse addr = Inr u"
    "v = public_config (paired_node u nm fip fif now p)"
    "\<forall>k. dict_get p ''node_id'' = PStr k \<longrightarrow> remotes r' = (remotes r)(k \<mapsto> paired_node u nm fip fif now p)"
    using remotes_pair[OF assms(1)] by blast
  obtain n f where f: "remotes s i = Some n" "remotes s' = (remotes s)(i \<mapsto> f n)" "w = public_config (f n)"
    "has_id i (f n) = has_id i n" using remotes_update[OF assms(2)] by blast
  have "\<forall>k \<in> set secret_keys. map_of v k = None \<and> map_of w k = None"
    by (simp add: p(3) f(3) public_no_secret)
  then show ?thesis using p f remotes_remove[OF assms(3)] by blast
qed

definition demo_parse :: "string \<Rightarrow> url result" where
  "demo_parse s = Inr \<lparr>u_scheme = ''http'', u_host = ''h'', u_user = [], u_password = [], u_query = [], u_fragment = []\<rparr>"

definition demo_answer :: "attempt list" where
  "demo_answer = [NoConnect ''down'', Answer (Some (PDict [(''node_id'', PStr ''n1''), (''agent_token'', PStr ''secret'')]))]"

definition demo_registry :: registry where
  "demo_registry = \<lparr>nodes = [], cache = [], gens = []\<rparr>"

theorem registry_refines_map_witness:
  "\<exists>v r' w s'. pair_remote demo_parse ''http://h'' None None None PNone demo_answer demo_registry = (Inr v, r') \<and>
     update_node demo_parse ''n1'' [(''name'', PStr ''x'')] r' = (Inr w, s') \<and>
     map_of v ''agent_token'' = None \<and> remotes (snd (remove_node ''n1'' s')) ''n1'' = None"
proof -
  obtain v r' where a: "pair_remote demo_parse ''http://h'' None None None PNone demo_answer demo_registry = (Inr v, r')"
    and r': "\<exists>n. remotes r' ''n1'' = Some (n :: node) \<and> n \<noteq> []"
    by (simp add: pair_remote_def demo_answer_def normalize_agent_url_def demo_parse_def dict_get_def Let_def
        remotes_def demo_registry_def has_id_def paired_node_def)
  obtain n where n: "remote_node ''n1'' r' = Inr n" using r' by (auto simp: remote_node_ok local_id_def)
  obtain w s' where b: "update_node demo_parse ''n1'' [(''name'', PStr ''x'')] r' = (Inr w, s')"
    using n by (simp add: update_node_def Let_def has_key_def)
  have "''n1'' \<noteq> local_id" by (simp add: local_id_def)
  note R = registry_refines_map[OF a b this, of s']
  from R have "\<forall>k \<in> set secret_keys. map_of v k = None \<and> map_of w k = None" by blast
  moreover from R have "remotes (snd (remove_node ''n1'' s')) = (remotes s')(''n1'' := None)" by blast
  ultimately show ?thesis using a b by (auto simp: secret_keys_def)
qed

text \<open>C25: no status from before a lifecycle action is served after it: in every interleaving of probes of any
  nodes with lifecycle actions on them, pairing changes, retries and failed probes, a status in the
  cache was read by a probe that started, or started over, after the last action on its node.\<close>

theorem no_stale_status:
  assumes "probing\<^sup>*\<^sup>* (initial_system ns) s" and "map_of (cache (s_reg s)) i = Some e"
  shows "s_acted s i < s_read s i"
  using probing_reach[OF assms(1)] assms(2) by (auto simp: current_reads_def)

theorem no_stale_status_witness:
  "\<exists>s e. probing\<^sup>*\<^sup>* (initial_system []) s \<and> map_of (cache (s_reg s)) ''n'' = Some e \<and> s_acted s ''n'' < s_read s ''n'' \<and>
     s_acted s ''n'' = 1"
proof -
  let ?s0 = "initial_system []"
  obtain s1 where s1: "probing ?s0 s1" "s_open s1 = []" "s_acted s1 ''n'' = 1" using probing.act[of ?s0 "''n''"]
    by (force simp: initial_system_def)
  let ?p = "\<lparr>o_node = ''n'', o_gen = generation ''n'' (s_reg s1), o_at = s_clock s1\<rparr>"
  obtain s2 where s2: "probing s1 s2" "s_open s2 = [(0, ?p)]" "s_reg s2 = s_reg s1" "s_acted s2 = s_acted s1"
    using probing.start[of s1 0 "''n''"] s1(2) by force
  obtain r where r: "publish (o_node ?p) (o_gen ?p) 0 [] (s_reg s2) = Some r" "map_of (cache r) ''n'' = Some (0, [])"
    by (simp add: publish_Some s2(3) dict_simps)
  obtain s3 where s3: "probing s2 s3" "s_reg s3 = r" "s_acted s3 = s_acted s2"
    using probing.finish[OF _ r(1), of 0] s2(2) by force
  have reach: "probing\<^sup>*\<^sup>* ?s0 s3"
    by (rule rtranclp.rtrancl_into_rtrancl[OF rtranclp.rtrancl_into_rtrancl[OF r_into_rtranclp[of probing]]]) (fact s1(1) s2(1) s3(1))+
  have e: "map_of (cache (s_reg s3)) ''n'' = Some (0, [])" using s3(2) r(2) by simp
  have "s_acted s3 ''n'' = 1" using s3(3) s2(4) s1(3) by simp
  then show ?thesis using no_stale_status[OF reach e] reach e by blast
qed

end
