(* ===== verification/Workload_Ledger.thy ===== *)
theory Workload_Ledger imports Py_Values
begin

text \<open>
  The durable ownership claims of managed containers (\<open>sparkdeck/workload_ownership.py\<close>).  The state is the
  content of the ledger's file: \<open>NoFile\<close>, text that is not JSON or cannot be read (\<open>Broken\<close>), or a value.
  Every operation reads it, changes the claims and writes it back; a write that fails is left out.

  Parameters: \<open>fl\<close> is \<open>float\<close> on a text, \<open>now\<close> the time of the call.
\<close>

section \<open>Claims\<close>

datatype claim_state = Pending | Active

record claim =
  cl_state :: claim_state
  cl_owner :: "string option"
  cl_at :: pyfloat

datatype ledger_file = NoFile | Broken | Content pyval

fun state_text :: "claim_state \<Rightarrow> string" where
  "state_text Pending = ''pending''"
| "state_text Active = ''active''"

definition ledger_error :: pyexc where
  "ledger_error = ValueError ''cannot verify managed workload ownership; repair managed-containers.json and retry''"

definition owner_of :: "pyval \<Rightarrow> string option" where
  "owner_of v = (let s = str_or_empty v in if s = [] then None else Some s)"

definition read_claim :: "(string \<Rightarrow> pyfloat option) \<Rightarrow> pyval \<Rightarrow> claim result" where
  "read_claim fl v = (case v of
     PDict d \<Rightarrow>
       let st = dict_get d ''state'' in
       if st \<noteq> PStr ''pending'' \<and> st \<noteq> PStr ''active'' then Inl (ValueError ''invalid container claim state'')
       else bindE (py_float fl (py_or (dict_get d ''claimed_at'') (PFloat (Finite 0) ''0.0''))) (\<lambda>t.
         Inr \<lparr>cl_state = (if st = PStr ''pending'' then Pending else Active), cl_owner = owner_of (dict_get d ''deployment_id''),
             cl_at = t\<rparr>)
   | _ \<Rightarrow> Inl (ValueError ''invalid container claim''))"

fun read_claims :: "(string \<Rightarrow> pyfloat option) \<Rightarrow> (string \<times> pyval) list \<Rightarrow> (string, claim) dict \<Rightarrow> (string, claim) dict result" where
  "read_claims fl [] acc = Inr acc"
| "read_claims fl ((raw, v) # rows) acc =
     (if py_strip raw = [] then Inl (ValueError ''invalid container claim'')
      else bindE (read_claim fl v) (\<lambda>c. read_claims fl rows (AList.update (py_strip raw) c acc)))"

text \<open>\<open>_load\<close>: every error but an overflow becomes the ledger's own.\<close>

definition load_claims :: "(string \<Rightarrow> pyfloat option) \<Rightarrow> ledger_file \<Rightarrow> (string, claim) dict result" where
  "load_claims fl disk = (case disk of
     NoFile \<Rightarrow> Inr []
   | Broken \<Rightarrow> Inl ledger_error
   | Content v \<Rightarrow> (case v of
        PDict d \<Rightarrow> (case (py_eq_int (dict_get d ''version'') 1, dict_get d ''containers'') of
            (True, PDict rows) \<Rightarrow> (case read_claims fl rows [] of
                Inr cs \<Rightarrow> Inr cs
              | Inl OverflowError \<Rightarrow> Inl OverflowError
              | Inl e \<Rightarrow> Inl ledger_error)
          | _ \<Rightarrow> Inl ledger_error)
      | _ \<Rightarrow> Inl ledger_error))"

definition claim_json :: "claim \<Rightarrow> pyval" where
  "claim_json c = PDict [(''state'', PStr (state_text (cl_state c))),
     (''deployment_id'', case cl_owner c of None \<Rightarrow> PNone | Some s \<Rightarrow> PStr s), (''claimed_at'', PFloat (cl_at c) [])]"

definition save_claims :: "(string, claim) dict \<Rightarrow> ledger_file" where
  "save_claims cs = Content (PDict [(''version'', PInt 1), (''containers'', PDict (map (\<lambda>(k, c). (k, claim_json c)) cs))])"

section \<open>Operations\<close>

text \<open>\<open>str(deployment_id or "") or None\<close> for an optional text\<close>

definition opt_text :: "string option \<Rightarrow> string option" where
  "opt_text t = (case t of Some (c # s) \<Rightarrow> Some (c # s) | _ \<Rightarrow> None)"

definition claim_workload :: "(string \<Rightarrow> pyfloat option) \<Rightarrow> pyfloat \<Rightarrow> string \<Rightarrow> string option \<Rightarrow> ledger_file \<Rightarrow> ledger_file result" where
  "claim_workload fl now name dep disk = (let n = py_strip name in
     if n = [] then Inl (ValueError ''managed container name is required'')
     else bindE (load_claims fl disk) (\<lambda>cs.
       Inr (save_claims (AList.update n \<lparr>cl_state = Pending, cl_owner = opt_text dep, cl_at = now\<rparr> cs))))"

text \<open>\<open>float(existing.get("claimed_at") or time.time())\<close>\<close>

definition keep_time :: "pyfloat \<Rightarrow> claim option \<Rightarrow> pyfloat" where
  "keep_time now c = (case c of None \<Rightarrow> now | Some x \<Rightarrow> if cl_at x = Finite 0 then now else cl_at x)"

definition keep_owner :: "string option \<Rightarrow> claim option \<Rightarrow> string option" where
  "keep_owner dep c = (case opt_text dep of Some s \<Rightarrow> Some s
     | None \<Rightarrow> (case c of None \<Rightarrow> None | Some x \<Rightarrow> opt_text (cl_owner x)))"

definition confirm_workload :: "(string \<Rightarrow> pyfloat option) \<Rightarrow> pyfloat \<Rightarrow> string \<Rightarrow> string option \<Rightarrow> ledger_file \<Rightarrow> ledger_file result" where
  "confirm_workload fl now name dep disk = (let n = py_strip name in
     bindE (load_claims fl disk) (\<lambda>cs.
       Inr (save_claims (AList.update n \<lparr>cl_state = Active, cl_owner = keep_owner dep (map_of cs n),
          cl_at = keep_time now (map_of cs n)\<rparr> cs))))"

definition release_workload :: "(string \<Rightarrow> pyfloat option) \<Rightarrow> string \<Rightarrow> ledger_file \<Rightarrow> ledger_file result" where
  "release_workload fl name disk = (let n = py_strip name in
     bindE (load_claims fl disk) (\<lambda>cs.
       Inr (if map_of cs n = None then disk else save_claims (AList.delete n cs))))"

text \<open>\<open>reconcile\<close>: the observed containers become the claims; a table that stays equal is not written
  (equality of dictionaries does not look at their order).\<close>

definition observed_names :: "(string \<times> string option) list \<Rightarrow> (string \<times> string option) list" where
  "observed_names obs = map (\<lambda>(n, dep). (n, opt_text dep)) (filter (\<lambda>(n, dep). py_strip n \<noteq> []) obs)"

definition reconciled_claim :: "pyfloat \<Rightarrow> (string, claim) dict \<Rightarrow> string \<times> string option \<Rightarrow> string \<times> claim" where
  "reconciled_claim now cs = (\<lambda>(n, dep). (n, \<lparr>cl_state = Active,
     cl_owner = (case dep of Some s \<Rightarrow> Some s | None \<Rightarrow> (case map_of cs n of None \<Rightarrow> None | Some c \<Rightarrow> cl_owner c)),
     cl_at = keep_time now (map_of cs n)\<rparr>))"

definition same_dict :: "(string, claim) dict \<Rightarrow> (string, claim) dict \<Rightarrow> bool" where
  "same_dict a b \<longleftrightarrow> length a = length b \<and> list_all (\<lambda>(k, v). map_of b k = Some v) a"

definition reconcile_workloads :: "(string \<Rightarrow> pyfloat option) \<Rightarrow> pyfloat \<Rightarrow> (string, string option) dict \<Rightarrow> ledger_file \<Rightarrow> ledger_file result" where
  "reconcile_workloads fl now obs disk = bindE (load_claims fl disk) (\<lambda>cs.
     let upd = map (reconciled_claim now cs) (observed_names obs) in
     Inr (if same_dict upd cs then disk else save_claims upd))"

section \<open>Lemmas\<close>

text \<open>A table as \<open>_load\<close> returns it: distinct, stripped, non-empty names; no empty owner; the time of a
  missing text is a number.\<close>

definition table_ok :: "(string, claim) dict \<Rightarrow> bool" where
  "table_ok cs \<longleftrightarrow> wf_dict cs \<and> (\<forall>(n, c) \<in> set cs. py_strip n = n \<and> n \<noteq> [] \<and> cl_owner c \<noteq> Some [])"

lemma set_update: "(k, v) \<in> set (AList.update a b d) \<Longrightarrow> (k, v) = (a, b) \<or> (k, v) \<in> set d"
  by (induction d) (auto split: if_splits)

lemma ledger_ok_Nil [simp]: "table_ok []"
  by (simp add: table_ok_def)

lemma ledger_ok_update:
  "table_ok cs \<Longrightarrow> py_strip n = n \<Longrightarrow> n \<noteq> [] \<Longrightarrow> cl_owner c \<noteq> Some [] \<Longrightarrow> table_ok (AList.update n c cs)"
  by (auto simp: table_ok_def dest!: set_update)

lemma ledger_ok_delete: "table_ok cs \<Longrightarrow> table_ok (AList.delete n cs)"
  by (auto simp: table_ok_def AList.delete_eq)

lemma read_claim_owner: "read_claim fl v = Inr c \<Longrightarrow> cl_owner c \<noteq> Some []"
  by (auto simp: read_claim_def Let_def owner_of_def except_simps split: pyval.splits if_splits)

lemma read_claims_ok: "read_claims fl rows acc = Inr cs \<Longrightarrow> table_ok acc \<Longrightarrow> table_ok cs"
proof (induction fl rows acc rule: read_claims.induct)
  case (2 fl raw v rows acc)
  then obtain c where c: "py_strip raw \<noteq> []" "read_claim fl v = Inr c"
    "read_claims fl rows (AList.update (py_strip raw) c acc) = Inr cs"
    by (auto simp: except_simps split: if_splits)
  show ?case
    by (rule "2.IH"[OF c(1) c(3)]) (use 2 c read_claim_owner in \<open>auto intro: ledger_ok_update\<close>)
qed simp

lemma load_claims_Inr:
  assumes "load_claims fl disk = Inr cs"
  shows "disk = NoFile \<and> cs = [] \<or> (\<exists>rows. read_claims fl rows [] = Inr cs)"
proof (cases disk)
  case (Content v)
  then obtain d rows where d: "v = PDict d" "py_eq_int (dict_get d ''version'') 1" "dict_get d ''containers'' = PDict rows"
    using assms by (auto simp: load_claims_def split: pyval.splits bool.splits)
  have "read_claims fl rows [] = Inr cs"
  proof (cases "read_claims fl rows []")
    case (Inl e)
    then show ?thesis using assms d Content by (cases e) (simp_all add: load_claims_def)
  qed (use assms d Content in \<open>simp add: load_claims_def\<close>)
  then show ?thesis by blast
qed (use assms in \<open>simp_all add: load_claims_def\<close>)

lemma load_claims_ok: "load_claims fl disk = Inr cs \<Longrightarrow> table_ok cs"
  using load_claims_Inr read_claims_ok[OF _ ledger_ok_Nil] by fastforce

lemma owner_text [simp]: "s \<noteq> [] \<Longrightarrow> owner_of (PStr s) = Some s" "owner_of PNone = None"
  by (auto simp: owner_of_def str_or_empty_def py_or_def)

lemma read_claim_json:
  assumes "cl_owner c \<noteq> Some []"
  shows "read_claim fl (claim_json c) = Inr c"
proof -
  obtain st ow t where c: "c = \<lparr>cl_state = st, cl_owner = ow, cl_at = t\<rparr>" by (cases c)
  have "py_float fl (py_or (PFloat t []) (PFloat (Finite 0) ''0.0'')) = Inr t"
    by (cases "t = Finite 0") (simp_all add: py_or_def)
  moreover have "owner_of (case ow of None \<Rightarrow> PNone | Some s \<Rightarrow> PStr s) = ow"
    using assms c by (cases ow) auto
  moreover have "(PStr (state_text st) = PStr ''pending'') = (st = Pending)" "(PStr (state_text st) = PStr ''active'') = (st = Active)"
    by (cases st; simp)+
  ultimately show ?thesis unfolding c
    by (cases st) (simp_all add: read_claim_def claim_json_def dict_get_def Let_def)
qed

lemma read_claims_json:
  assumes "table_ok (acc @ cs)"
  shows "read_claims fl (map (\<lambda>(k, c). (k, claim_json c)) cs) acc = Inr (acc @ cs)"
  using assms
proof (induction cs arbitrary: acc)
  case (Cons e cs)
  obtain n c where e: "e = (n, c)" by (cases e)
  have ok: "py_strip n = n" "n \<noteq> []" "cl_owner c \<noteq> Some []" using Cons.prems by (auto simp: table_ok_def e)
  have "wf_dict (acc @ (n, c) # cs)" using Cons.prems by (simp only: table_ok_def e)
  then have "n \<notin> fst ` set acc" by (simp add: wf_dict_def)
  then have "AList.update n c acc = acc @ [(n, c)]" by (rule update_fresh)
  moreover have "read_claims fl (map (\<lambda>(k, c). (k, claim_json c)) cs) (acc @ [(n, c)]) = Inr ((acc @ [(n, c)]) @ cs)"
    using Cons.prems by (intro Cons.IH) (simp add: e)
  ultimately show ?case using ok by (simp add: e read_claim_json)
qed simp

lemma load_save: "table_ok cs \<Longrightarrow> load_claims fl (save_claims cs) = Inr cs"
  using read_claims_json[of "[]" cs fl] by (simp add: load_claims_def save_claims_def dict_get_def)

lemma opt_text_ne [simp]: "opt_text t \<noteq> Some []"
  by (auto simp: opt_text_def split: option.splits list.splits)

lemma keep_owner_ne: "keep_owner dep c \<noteq> Some []"
  using opt_text_ne by (auto simp: keep_owner_def split: option.splits)

lemma observed_reconciled:
  "map fst (map (reconciled_claim now cs) (observed_names obs)) = filter (\<lambda>n. py_strip n \<noteq> []) (keys_of obs)"
  by (induction obs) (auto simp: observed_names_def reconciled_claim_def)

lemma reconciled_ok:
  assumes "table_ok cs" "wf_dict obs" "\<forall>(n, dep) \<in> set obs. py_strip n = n"
  shows "table_ok (map (reconciled_claim now cs) (observed_names obs))"
proof -
  have owner: "cl_owner c \<noteq> Some []" if "map_of cs n = Some c" for n c
    using assms(1) map_of_SomeD[OF that] by (auto simp: table_ok_def)
  have "cl_owner (snd (reconciled_claim now cs (n, dep))) \<noteq> Some []" if "dep \<noteq> Some []" for n dep
    using that owner by (auto simp: reconciled_claim_def split: option.splits)
  then have "\<forall>(n, c) \<in> set (map (reconciled_claim now cs) (observed_names obs)). py_strip n = n \<and> n \<noteq> [] \<and> cl_owner c \<noteq> Some []"
    using assms(3) by (fastforce simp: observed_names_def reconciled_claim_def)
  moreover have "wf_dict (map (reconciled_claim now cs) (observed_names obs))"
    unfolding wf_dict_def observed_reconciled using assms(2) by (simp add: wf_dict_def)
  ultimately show ?thesis by (simp add: table_ok_def)
qed

text \<open>Equal dictionaries have the same lookups.\<close>

lemma same_dict_lookup: "same_dict a b \<Longrightarrow> wf_dict a \<Longrightarrow> wf_dict b \<Longrightarrow> map_of a = map_of b"
proof -
  assume s: "same_dict a b" "wf_dict a" "wf_dict b"
  have keys: "set (keys_of a) \<subseteq> set (keys_of b)"
    using s(1) by (force simp: same_dict_def list_all_iff dest: map_of_SomeD)
  have "card (set (keys_of a)) = card (set (keys_of b))"
    using s distinct_card[of "keys_of a"] distinct_card[of "keys_of b"] by (simp add: same_dict_def wf_dict_def)
  then have eq: "set (keys_of a) = set (keys_of b)" using keys by (metis List.finite_set card_subset_eq)
  show ?thesis
  proof
    fix k
    show "map_of a k = map_of b k"
    proof (cases "map_of a k")
      case None
      then show ?thesis using eq by (metis map_of_eq_None_iff set_map)
    next
      case (Some v)
      then show ?thesis using s(1) map_of_SomeD[OF Some] by (auto simp: same_dict_def list_all_iff)
    qed
  qed
qed

text \<open>A confirmation with a blank name is written, and the file can no longer be loaded.\<close>

lemma blank_confirmation:
  "load_claims fl disk = Inr cs \<Longrightarrow> confirm_workload fl now [] dep disk = Inr disk' \<Longrightarrow>
   \<exists>v. disk' = Content v \<and> (\<exists>rows c. v = PDict [(''version'', PInt 1), (''containers'', PDict (map (\<lambda>(k, c). (k, claim_json c)) rows))]
     \<and> ([], c) \<in> set rows)"
  by (force simp: confirm_workload_def save_claims_def Let_def intro: map_of_SomeD simp add: update_conv')

section \<open>Properties\<close>



end
