(* ===== verification/Usage_Rows.thy ===== *)
theory Usage_Rows imports Py_Values "HOL-Library.Multiset"
begin

text \<open>
  The display groups over the lifetime token counters (\<open>manager.py\<close>): the routing rules that send the
  usage of one model name to another, their stored form and their changes, the merge groups and aliases,
  the rows of \<open>usage_rows\<close> with their cache estimates, and the distribution of an estimate over the
  members of a row.

  Counters are integers and generation times rationals; a missing counter is 0, as the code reads it.
  A row is built in two passes, \<open>add_usage\<close> per model and \<open>finish_row\<close> per row; prices and speeds are in
  \<open>Usage_Cost\<close>.
\<close>

section \<open>Routing rules\<close>

type_synonym rules = "(string, string) dict"

lemma seen_shrinks:
  assumes "map_of rules t = Some u" "t \<notin> set seen"
  shows "card (fst ` set rules - set (t # seen)) < card (fst ` set rules - set seen)"
proof (rule psubset_card_mono)
  have "t \<in> fst ` set rules" using map_of_SomeD[OF assms(1)] by force
  then show "fst ` set rules - set (t # seen) \<subset> fst ` set rules - set seen" using assms(2) by auto
qed simp

text \<open>The loop of \<open>_usage_route_target\<close>; \<open>seen\<close> makes it end on any table, also one with a cycle.\<close>

function route_loop :: "rules \<Rightarrow> string list \<Rightarrow> string \<Rightarrow> string" where
  "route_loop rules seen t = (case map_of rules t of
     Some u \<Rightarrow> if t \<in> set seen then t else route_loop rules (t # seen) u
   | None \<Rightarrow> t)"
  by pat_completeness auto

termination
  by (relation "measure (\<lambda>(rules, seen, t). card (fst ` set rules - set seen))") (auto dest: seen_shrinks)

declare route_loop.simps [simp del]

definition route_target :: "string \<Rightarrow> rules \<Rightarrow> string" where
  "route_target model rules = route_loop rules [] model"

text \<open>The check of \<open>update_usage_routing_rule\<close>: a walk that meets a model twice.\<close>

function meets_cycle :: "rules \<Rightarrow> string list \<Rightarrow> string \<Rightarrow> bool" where
  "meets_cycle rules seen t = (case map_of rules t of
     Some u \<Rightarrow> if t \<in> set seen then True else meets_cycle rules (t # seen) u
   | None \<Rightarrow> False)"
  by pat_completeness auto
termination
  by (relation "measure (\<lambda>(rules, seen, t). card (fst ` set rules - set seen))") (auto dest: seen_shrinks)

declare meets_cycle.simps [simp del]

definition acyclic_rules :: "rules \<Rightarrow> bool" where
  "acyclic_rules rules \<longleftrightarrow> list_all (\<lambda>m. \<not> meets_cycle rules [] m) (keys_of rules)"

definition load_rules_file :: "pyval option \<Rightarrow> rules" where
  "load_rules_file v = (case v of
     Some (PDict d) \<Rightarrow> foldl (\<lambda>acc (k, x). if py_strip k \<noteq> [] \<and> py_strip (py_str x) \<noteq> []
         then AList.update (py_strip k) (py_strip (py_str x)) acc else acc) [] d
   | _ \<Rightarrow> [])"

text \<open>The files of aliases and of merge groups keep their texts as they are.\<close>

definition load_names_file :: "pyval option \<Rightarrow> (string, string) dict" where
  "load_names_file v = (case v of
     Some (PDict d) \<Rightarrow> foldl (\<lambda>acc (k, x). if py_strip k \<noteq> [] \<and> py_strip (py_str x) \<noteq> []
         then AList.update k (py_str x) acc else acc) [] d
   | _ \<Rightarrow> [])"

definition update_rule :: "pyval \<Rightarrow> pyval \<Rightarrow> rules \<Rightarrow> rules result" where
  "update_rule source destination rules =
     (let s = text_field source; d = text_field destination; cand = AList.update s d rules in
      if s = [] \<or> d = [] then Inl (ValueError ''source and destination are required'')
      else if length s > 512 \<or> length d > 512 then Inl (ValueError ''model names must be 512 characters or fewer'')
      else if s = d then Inl (ValueError ''source and destination must be different'')
      else if \<not> acyclic_rules cand then Inl (ValueError ''routing rules cannot contain a cycle'')
      else Inr cand)"

definition delete_usage_rule :: "pyval \<Rightarrow> rules \<Rightarrow> rules result" where
  "delete_usage_rule source rules = (let s = text_field source in
     if s = [] \<or> s \<notin> fst ` set rules then Inl (ValueError ''routing rule not found'') else Inr (AList.delete s rules))"

section \<open>Aliases and merge groups\<close>

definition normalized_alias :: "pyval \<Rightarrow> string \<Rightarrow> string result" where
  "normalized_alias v fallback = (let a = text_field v in
     if length a > 120 then Inl (ValueError ''alias must be 120 characters or fewer'')
     else Inr (if a = [] then fallback else a))"

record names =
  aliases :: "(string, string) dict"
  groups :: "(string, string) dict"

definition set_name :: "string \<Rightarrow> string \<Rightarrow> (string, string) dict \<Rightarrow> (string, string) dict" where
  "set_name k v d = (if v = [] then AList.delete k d else AList.update k v d)"

definition update_alias :: "string list \<Rightarrow> pyval \<Rightarrow> pyval \<Rightarrow> pyval option \<Rightarrow> names \<Rightarrow> names result" where
  "update_alias models model alias grp n =
     (let k = text_field model in
      if k = [] \<or> k \<notin> set models then Inl (ValueError ''usage model not found'')
      else bindE (normalized_alias alias []) (\<lambda>a. case grp of
          None \<Rightarrow> Inr (n\<lparr>aliases := set_name k a (aliases n)\<rparr>)
        | Some g \<Rightarrow> bindE (normalized_alias g []) (\<lambda>g'.
            Inr (n\<lparr>aliases := set_name k a (aliases n), groups := set_name k g' (groups n)\<rparr>))))"

section \<open>Rows\<close>

record ustats =
  us_input :: int
  us_output :: int
  us_cached :: int
  us_requests :: int
  us_gen :: int
  us_time :: rat

definition no_stats :: ustats where
  "no_stats = \<lparr>us_input = 0, us_output = 0, us_cached = 0, us_requests = 0, us_gen = 0, us_time = 0\<rparr>"

definition add_stats :: "ustats \<Rightarrow> ustats \<Rightarrow> ustats" where
  "add_stats a b = \<lparr>us_input = us_input a + us_input b, us_output = us_output a + us_output b,
     us_cached = us_cached a + us_cached b, us_requests = us_requests a + us_requests b,
     us_gen = us_gen a + us_gen b, us_time = us_time a + us_time b\<rparr>"

record estimate =
  es_rate :: rat
  es_legacy :: int
  es_measured :: int
  es_cached :: int

text \<open>\<open>_load_usage_cache_estimates\<close> on one entry; \<open>None\<close> skips it.  \<open>rate\<close> is \<open>float(raw["rate_pct"])\<close>, a
  finite number.\<close>

definition read_estimate :: "rat option \<Rightarrow> int option \<Rightarrow> int option \<Rightarrow> int option \<Rightarrow> estimate option" where
  "read_estimate rate legacy measured cached = (case (rate, legacy, measured, cached) of
     (Some r, Some l, Some m, Some c) \<Rightarrow>
       let l' = max 0 l; m' = min l' (max 0 m) in
       Some \<lparr>es_rate = min 100 (max 0 r), es_legacy = l', es_measured = m', es_cached = min (l' - m') (max 0 c)\<rparr>
   | _ \<Rightarrow> None)"

record member =
  me_model :: string
  me_alias :: "string option"
  me_group :: "string option"
  me_routed :: "string option"
  me_pricing :: string
  me_input :: int
  me_cached :: int
  me_output :: int

record row =
  ro_key :: string
  ro_label :: string
  ro_group :: "string option"
  ro_target :: "string option"
  ro_models :: "string list"
  ro_members :: "member list"
  ro_stats :: ustats
  ro_estimated :: int
  ro_applied :: "string list"
  ro_estimates :: "estimate list"

text \<open>What the grouping reads.\<close>

record context_data =
  cx_rules :: rules
  cx_names :: names
  cx_estimates :: "(string, estimate) dict"

definition group_of :: "context_data \<Rightarrow> string \<Rightarrow> string" where
  "group_of cx dest = (case map_of (groups (cx_names cx)) dest of None \<Rightarrow> [] | Some g \<Rightarrow> py_strip g)"

definition row_key :: "context_data \<Rightarrow> string \<Rightarrow> string" where
  "row_key cx model = (let d = route_target model (cx_rules cx); g = group_of cx d in
     if g \<noteq> [] then ''group:'' @ g else ''model:'' @ d)"

definition some_text :: "string \<Rightarrow> string option" where
  "some_text s = (if s = [] then None else Some s)"

definition new_row :: "context_data \<Rightarrow> string \<Rightarrow> row" where
  "new_row cx model = (let d = route_target model (cx_rules cx); g = group_of cx d in
     \<lparr>ro_key = row_key cx model,
      ro_label = (if g \<noteq> [] then g else case map_of (aliases (cx_names cx)) d of Some (c # s) \<Rightarrow> c # s | _ \<Rightarrow> d),
      ro_group = some_text g, ro_target = (if g \<noteq> [] then None else Some d),
      ro_models = [], ro_members = [], ro_stats = no_stats, ro_estimated = 0, ro_applied = [], ro_estimates = []\<rparr>)"

definition source_estimate :: "context_data \<Rightarrow> string \<Rightarrow> ustats \<Rightarrow> int" where
  "source_estimate cx model s = (case map_of (cx_estimates cx) (''model:'' @ model) of
     None \<Rightarrow> 0
   | Some e \<Rightarrow> min (max 0 (max 0 (us_input s) - max 0 (us_cached s))) (max 0 (es_cached e)))"

definition new_member :: "context_data \<Rightarrow> string \<Rightarrow> ustats \<Rightarrow> member" where
  "new_member cx model s = (let d = route_target model (cx_rules cx) in
     \<lparr>me_model = model, me_alias = map_of (aliases (cx_names cx)) model, me_group = some_text (group_of cx d),
      me_routed = (if d \<noteq> model then Some d else None), me_pricing = d,
      me_input = max 0 (us_input s), me_cached = max 0 (us_cached s) + source_estimate cx model s,
      me_output = max 0 (us_output s)\<rparr>)"

definition extend_row :: "context_data \<Rightarrow> string \<Rightarrow> ustats \<Rightarrow> row \<Rightarrow> row" where
  "extend_row cx model s r = r\<lparr>
     ro_models := ro_models r @ [model], ro_members := ro_members r @ [new_member cx model s],
     ro_stats := add_stats (ro_stats r) s, ro_estimated := ro_estimated r + source_estimate cx model s,
     ro_applied := (case map_of (cx_estimates cx) (''model:'' @ model) of None \<Rightarrow> ro_applied r | Some e \<Rightarrow> (''model:'' @ model) # ro_applied r),
     ro_estimates := (case map_of (cx_estimates cx) (''model:'' @ model) of None \<Rightarrow> ro_estimates r | Some e \<Rightarrow> ro_estimates r @ [e])\<rparr>"

definition add_usage :: "context_data \<Rightarrow> (string, row) dict \<Rightarrow> string \<times> ustats \<Rightarrow> (string, row) dict" where
  "add_usage cx rows = (\<lambda>(model, s). let k = row_key cx model in
     AList.update k (extend_row cx model s (case map_of rows k of None \<Rightarrow> new_row cx model | Some r \<Rightarrow> r)) rows)"

definition raw_rows :: "context_data \<Rightarrow> (string, ustats) dict \<Rightarrow> (string, row) dict" where
  "raw_rows cx stats = foldl (add_usage cx) [] stats"

section \<open>The estimate of a row\<close>

text \<open>The loop that spreads an estimate over the members: each gets its rounded share of what remains, at
  most its capacity.\<close>

fun spread_estimate :: "int \<Rightarrow> int \<Rightarrow> (member \<times> int) list \<Rightarrow> member list" where
  "spread_estimate rest cap [] = []"
| "spread_estimate rest cap ((m, c) # ms) =
     (if rest = 0 \<or> cap = 0 then m # map fst ms
      else let a = min c (round_even (of_int (rest * c) / of_int cap)) in
        m\<lparr>me_cached := me_cached m + a\<rparr> # spread_estimate (rest - a) (cap - c) ms)"

definition capacity :: "member \<Rightarrow> int" where
  "capacity m = max 0 (me_input m - me_cached m)"

record full_row = row +
  fr_sources :: "string list"
  fr_measured :: int
  fr_estimated :: int
  fr_effective :: int
  fr_miss :: int
  fr_estimate :: "estimate option"

text \<open>The group-level estimate that still applies to a row, and the row after it.\<close>

definition extra_estimate :: "context_data \<Rightarrow> row \<Rightarrow> (estimate \<times> int) option" where
  "extra_estimate cx r = (case map_of (cx_estimates cx) (ro_key r) of
     None \<Rightarrow> None
   | Some e \<Rightarrow> if ro_key r \<in> set (ro_applied r) then None
       else Some (e, min (max 0 (us_input (ro_stats r) - max 0 (us_cached (ro_stats r)) - ro_estimated r)) (max 0 (es_cached e))))"

definition finish_row :: "context_data \<Rightarrow> row \<Rightarrow> full_row" where
  "finish_row cx r =
     (let measured = max 0 (us_cached (ro_stats r)); x = extra_estimate cx r;
          extra = (case x of None \<Rightarrow> 0 | Some (e, n) \<Rightarrow> n);
          ests = ro_estimates r @ (case x of None \<Rightarrow> [] | Some (e, n) \<Rightarrow> [e]);
          ms = (case x of None \<Rightarrow> ro_members r
                | Some (e, n) \<Rightarrow> spread_estimate n (sum_list (map capacity (ro_members r))) (map (\<lambda>m. (m, capacity m)) (ro_members r)));
          estimated = ro_estimated r + extra; effective = measured + estimated
      in row.extend (r\<lparr>ro_members := ms, ro_estimated := estimated\<rparr>)
         \<lparr>fr_sources = map me_model (filter (\<lambda>m. me_routed m \<noteq> None) (ro_members r)),
          fr_measured = measured, fr_estimated = estimated, fr_effective = effective,
          fr_miss = max 0 (us_input (ro_stats r) - effective),
          fr_estimate = (case ests of [] \<Rightarrow> None | e # es \<Rightarrow> Some e)\<rparr>)"

definition usage_rows :: "context_data \<Rightarrow> (string, ustats) dict \<Rightarrow> full_row list" where
  "usage_rows cx stats = map (\<lambda>(k, r). finish_row cx r) (raw_rows cx stats)"

text \<open>\<open>get_token_stats\<close>: the totals\<close>

definition usage_totals :: "(string, ustats) dict \<Rightarrow> ustats" where
  "usage_totals stats = foldr (\<lambda>(m, s). add_stats s) stats no_stats"

section \<open>Routing\<close>

lemma route_loop_ends: "\<not> meets_cycle rules seen t \<Longrightarrow> map_of rules (route_loop rules seen t) = None"
proof (induction rules seen t rule: route_loop.induct)
  case (1 rules seen t)
  show ?case
  proof (cases "map_of rules t")
    case None
    then show ?thesis by (subst route_loop.simps) simp
  next
    case (Some u)
    have t: "t \<notin> set seen" using "1.prems" Some by (subst (asm) meets_cycle.simps) auto
    have "\<not> meets_cycle rules (t # seen) u" using "1.prems" Some t by (subst (asm) meets_cycle.simps) simp
    then have "map_of rules (route_loop rules (t # seen) u) = None" by (rule "1.IH"[OF Some t])
    then show ?thesis using Some t by (subst route_loop.simps) simp
  qed
qed

lemma route_target_ends: "acyclic_rules rules \<Longrightarrow> map_of rules (route_target m rules) = None"
proof -
  assume a: "acyclic_rules rules"
  have "\<not> meets_cycle rules [] m"
  proof (cases "m \<in> fst ` set rules")
    case True
    then show ?thesis using a by (auto simp: acyclic_rules_def list_all_iff)
  next
    case False
    then have "map_of rules m = None" by (simp add: map_of_eq_None_iff)
    then show ?thesis by (subst meets_cycle.simps) simp
  qed
  then show ?thesis unfolding route_target_def by (rule route_loop_ends)
qed

text \<open>A walk over fewer rules is a prefix of the walk over all of them.\<close>

lemma meets_cycle_fewer:
  "(\<And>k v. map_of small k = Some v \<Longrightarrow> map_of rules k = Some v) \<Longrightarrow> meets_cycle small seen t \<Longrightarrow> meets_cycle rules seen t"
proof (induction rules seen t rule: meets_cycle.induct)
  case (1 rules seen t)
  obtain u where u: "map_of small t = Some u" using "1.prems"(2) by (subst (asm) meets_cycle.simps) (auto split: option.splits)
  then have r: "map_of rules t = Some u" by (rule "1.prems"(1))
  show ?case
  proof (cases "t \<in> set seen")
    case True
    then show ?thesis using r by (subst meets_cycle.simps) simp
  next
    case False
    then have "meets_cycle small (t # seen) u" using "1.prems"(2) u by (subst (asm) meets_cycle.simps) simp
    then have "meets_cycle rules (t # seen) u" using "1.IH"[OF r False] "1.prems"(1) by blast
    then show ?thesis using r False by (subst meets_cycle.simps) simp
  qed
qed

lemma acyclic_delete: "acyclic_rules rules \<Longrightarrow> acyclic_rules (AList.delete k rules)"
proof -
  assume a: "acyclic_rules rules"
  have "\<not> meets_cycle (AList.delete k rules) [] m" if "m \<in> fst ` set (AList.delete k rules)" for m
  proof -
    have "m \<in> fst ` set rules" using that by (auto simp: AList.delete_eq)
    then have "\<not> meets_cycle rules [] m" using a by (auto simp: acyclic_rules_def list_all_iff)
    moreover have "map_of (AList.delete k rules) j = Some v \<Longrightarrow> map_of rules j = Some v" for j v
      by (simp add: dict_simps split: if_splits)
    ultimately show ?thesis using meets_cycle_fewer by blast
  qed
  then show ?thesis by (auto simp: acyclic_rules_def list_all_iff)
qed

section \<open>Sums over the rows\<close>

lemma sum_update:
  fixes f :: "'v \<Rightarrow> 'a :: ab_group_add"
  shows "sum_list (map (\<lambda>e. f (snd e)) (AList.update k v d)) =
    sum_list (map (\<lambda>e. f (snd e)) d) + f v - (case map_of d k of None \<Rightarrow> 0 | Some w \<Rightarrow> f w)"
  by (induction d) (auto simp: algebra_simps split: option.splits)

text \<open>A measure that is 0 on a new row and grows by \<open>g\<close> when a model is added sums up to \<open>g\<close> over all
  models.\<close>

lemma raw_rows_sum:
  fixes f :: "row \<Rightarrow> 'a :: ab_group_add"
  assumes new: "\<And>m. f (new_row cx m) = 0"
    and ext: "\<And>m s r. f (extend_row cx m s r) = f r + g (m, s)"
  shows "sum_list (map (\<lambda>e. f (snd e)) (raw_rows cx stats)) = sum_list (map g stats)"
proof -
  have "sum_list (map (\<lambda>e. f (snd e)) (foldl (add_usage cx) rows stats)) =
      sum_list (map (\<lambda>e. f (snd e)) rows) + sum_list (map g stats)" for rows
  proof (induction stats arbitrary: rows)
    case (Cons e stats)
    obtain m s where e: "e = (m, s)" by (cases e)
    have "sum_list (map (\<lambda>e. f (snd e)) (add_usage cx rows e)) = sum_list (map (\<lambda>e. f (snd e)) rows) + g e"
      by (simp add: add_usage_def e Let_def sum_update ext new split: option.split)
    then show ?case using Cons.IH[of "add_usage cx rows e"] by (simp add: algebra_simps)
  qed simp
  from this[of "[]"] show ?thesis by (simp add: raw_rows_def)
qed

lemma raw_rows_all:
  assumes new: "\<And>m. P (new_row cx m)" and ext: "\<And>m s r. (m, s) \<in> set stats \<Longrightarrow> P r \<Longrightarrow> P (extend_row cx m s r)"
  shows "\<forall>(k, r) \<in> set (raw_rows cx stats). P r"
proof -
  have "set stats' \<subseteq> set stats \<Longrightarrow> \<forall>(k, r) \<in> set rows. P r \<Longrightarrow> \<forall>(k, r) \<in> set (foldl (add_usage cx) rows stats'). P r"
    for rows stats'
  proof (induction stats' arbitrary: rows)
    case (Cons e es)
    obtain m s where e: "e = (m, s)" by (cases e)
    let ?r = "case map_of rows (row_key cx m) of None \<Rightarrow> new_row cx m | Some r \<Rightarrow> r"
    have "P ?r" using Cons.prems(2) new by (auto split: option.split dest!: map_of_SomeD)
    then have "P (extend_row cx m s ?r)" using Cons.prems(1) ext e by auto
    moreover have "set (AList.update k v d) \<subseteq> insert (k, v) (set d)" for k and v :: row and d by (induction d) auto
    ultimately have "\<forall>(k, r) \<in> set (add_usage cx rows e). P r"
      using Cons.prems(2) by (fastforce simp: add_usage_def e Let_def)
    then show ?case using Cons.IH[of "add_usage cx rows e"] Cons.prems(1) by simp
  qed simp
  from this[of stats "[]"] show ?thesis by (simp add: raw_rows_def)
qed

section \<open>Spreading an estimate\<close>

lemma round_even_between:
  assumes "of_int n \<le> x" "x \<le> of_int k"
  shows "n \<le> round_even x \<and> round_even x \<le> k"
proof -
  have l: "n \<le> \<lfloor>x\<rfloor>" using assms(1) by (simp add: le_floor_iff)
  have u: "x - of_int \<lfloor>x\<rfloor> \<ge> 1 / 2 \<Longrightarrow> \<lfloor>x\<rfloor> + 1 \<le> k"
  proof -
    assume "x - of_int \<lfloor>x\<rfloor> \<ge> 1 / 2"
    then have "of_int \<lfloor>x\<rfloor> < x" by linarith
    then have "of_int \<lfloor>x\<rfloor> < (of_int k :: rat)" using assms(2) by linarith
    then show ?thesis by simp
  qed
  have "\<lfloor>x\<rfloor> \<le> k" using assms(2) by (simp add: floor_le_iff)
  then show ?thesis using l u by (auto simp: round_even_def Let_def not_less)
qed

lemma share_bounds:
  assumes "0 \<le> rest" "rest \<le> cap" "0 \<le> c" "c \<le> cap" "0 < cap"
  shows "0 \<le> round_even (of_int (rest * c) / of_int cap)" "round_even (of_int (rest * c) / of_int cap) \<le> rest"
    "rest - (cap - c) \<le> round_even (of_int (rest * c) / of_int cap)"
proof -
  let ?x = "of_int (rest * c) / of_int cap :: rat"
  have cap: "(0 :: rat) < of_int cap" using assms(5) by simp
  have "0 \<le> rest * c" using assms by simp
  then have "(0 :: rat) \<le> of_int (rest * c)" by (simp only: of_int_0_le_iff)
  then have "of_int 0 \<le> ?x" using cap by (simp only: of_int_0 zero_le_divide_iff) simp
  moreover have "rest * c \<le> rest * cap" using assms by (simp add: mult_left_mono)
  then have "(of_int (rest * c) :: rat) \<le> of_int (rest * cap)" by (simp only: of_int_le_iff)
  then have "?x \<le> of_int rest" using cap by (simp add: pos_divide_le_eq)
  ultimately show "0 \<le> round_even ?x" "round_even ?x \<le> rest"
    using round_even_between by blast+
  have "0 \<le> (cap - c) * (cap - rest)" using assms by simp
  then have "(rest - (cap - c)) * cap \<le> rest * c" by (simp add: algebra_simps)
  then have "(of_int ((rest - (cap - c)) * cap) :: rat) \<le> of_int (rest * c)" by (simp only: of_int_le_iff)
  then have "of_int (rest - (cap - c)) \<le> ?x" using cap by (simp add: pos_le_divide_eq)
  then show "rest - (cap - c) \<le> round_even ?x"
    using round_even_between[of _ ?x rest] \<open>?x \<le> of_int rest\<close> by blast
qed

text \<open>The whole estimate is spread, and no member gets more than its capacity.\<close>

lemma spread_estimate_exact:
  assumes "0 \<le> rest" "rest \<le> cap" "cap = sum_list (map snd ms)" "\<forall>(m, c) \<in> set ms. 0 \<le> c"
  shows "sum_list (map me_cached (spread_estimate rest cap ms)) = sum_list (map (me_cached \<circ> fst) ms) + rest \<and>
    list_all2 (\<lambda>(m, c) m'. me_input m' = me_input m \<and> me_cached m \<le> me_cached m' \<and> me_cached m' \<le> me_cached m + c)
      ms (spread_estimate rest cap ms)"
  using assms
proof (induction rest cap ms rule: spread_estimate.induct)
  case (2 rest cap m c ms)
  have c: "0 \<le> c" "cap - c = sum_list (map snd ms)" using 2(4,5) by auto
  have "0 \<le> sum_list (map snd ms)" using 2(5) by (intro sum_list_nonneg) auto
  then have cc: "c \<le> cap" using c(2) by simp
  show ?case
  proof (cases "rest = 0 \<or> cap = 0")
    case True
    then have "rest = 0" using 2(2,3) by linarith
    moreover have "list_all2 (\<lambda>(m, c) m'. me_input m' = me_input m \<and> me_cached m \<le> me_cached m' \<and> me_cached m' \<le> me_cached m + c)
        ms (map fst ms)" using 2(5) by (auto simp: list_all2_conv_all_nth case_prod_beta)
    ultimately show ?thesis using True c(1) by (simp add: comp_def)
  next
    case False
    let ?r = "round_even (of_int (rest * c) / of_int cap)"
    have B: "0 \<le> ?r" "?r \<le> rest" "rest - (cap - c) \<le> ?r"
      using share_bounds[OF 2(2,3) c(1) cc] False 2(2,3) by auto
    let ?a = "min c ?r"
    have a: "0 \<le> ?a" "?a \<le> c" "0 \<le> rest - ?a" "rest - ?a \<le> cap - c" using B c(1) 2(3) by auto
    have "sum_list (map me_cached (spread_estimate (rest - ?a) (cap - c) ms)) = sum_list (map (me_cached \<circ> fst) ms) + (rest - ?a) \<and>
      list_all2 (\<lambda>(m, c) m'. me_input m' = me_input m \<and> me_cached m \<le> me_cached m' \<and> me_cached m' \<le> me_cached m + c)
        ms (spread_estimate (rest - ?a) (cap - c) ms)"
      by (rule 2(1)[OF False refl a(3,4) c(2)]) (use 2(5) in auto)
    then show ?thesis using False a by (simp add: Let_def comp_def del: of_int_mult)
  qed
qed simp

section \<open>The books of a row\<close>

definition stats_ok :: "ustats \<Rightarrow> bool" where
  "stats_ok s \<longleftrightarrow> 0 \<le> us_cached s \<and> us_cached s \<le> us_input s \<and> 0 \<le> us_output s"

definition row_books :: "row \<Rightarrow> bool" where
  "row_books r \<longleftrightarrow> sum_list (map me_input (ro_members r)) = us_input (ro_stats r) \<and>
     sum_list (map me_cached (ro_members r)) = us_cached (ro_stats r) + ro_estimated r \<and>
     (\<forall>m \<in> set (ro_members r). 0 \<le> me_cached m \<and> me_cached m \<le> me_input m) \<and>
     0 \<le> us_cached (ro_stats r) \<and> 0 \<le> ro_estimated r"

lemma row_books_new: "row_books (new_row cx m)"
  by (simp add: row_books_def new_row_def no_stats_def Let_def)

lemma row_books_extend: "stats_ok s \<Longrightarrow> row_books r \<Longrightarrow> row_books (extend_row cx m s r)"
proof -
  assume s: "stats_ok s" and r: "row_books r"
  have "0 \<le> source_estimate cx m s" "us_cached s + source_estimate cx m s \<le> us_input s"
    using s by (auto simp: source_estimate_def stats_ok_def split: option.split)
  then show ?thesis using s r
    by (auto simp: row_books_def extend_row_def add_stats_def new_member_def Let_def stats_ok_def)
qed

lemma sum_capacity:
  "\<forall>m \<in> set ms. me_cached m \<le> me_input m \<Longrightarrow>
   sum_list (map capacity ms) = sum_list (map me_input ms) - sum_list (map me_cached ms)"
  by (induction ms) (auto simp: capacity_def)

lemma finish_row_books:
  assumes "row_books r"
  shows "sum_list (map me_cached (ro_members (finish_row cx r))) = fr_effective (finish_row cx r) \<and>
    fr_effective (finish_row cx r) + fr_miss (finish_row cx r) = us_input (ro_stats (finish_row cx r)) \<and>
    (\<forall>m \<in> set (ro_members (finish_row cx r)). me_cached m \<le> me_input m) \<and>
    fr_measured (finish_row cx r) = us_cached (ro_stats r) \<and> fr_measured (finish_row cx r) \<le> fr_effective (finish_row cx r)"
proof -
  let ?ms = "ro_members r"
  have B: "sum_list (map me_input ?ms) = us_input (ro_stats r)" "\<forall>m \<in> set ?ms. me_cached m \<le> me_input m"
    "sum_list (map me_cached ?ms) = us_cached (ro_stats r) + ro_estimated r"
    "0 \<le> us_cached (ro_stats r)" "0 \<le> ro_estimated r" using assms by (auto simp: row_books_def)
  have cap: "sum_list (map capacity ?ms) = us_input (ro_stats r) - us_cached (ro_stats r) - ro_estimated r"
    using sum_capacity[OF B(2)] B(1,3) by simp
  have capn: "0 \<le> sum_list (map capacity ?ms)" by (rule sum_list_nonneg) (auto simp: capacity_def)
  show ?thesis
  proof (cases "extra_estimate cx r")
    case None
    then show ?thesis using B cap capn by (simp add: finish_row_def Let_def row.defs)
  next
    case (Some x)
    obtain e n where x: "extra_estimate cx r = Some (e, n)" using Some by (cases x) auto
    then have n: "0 \<le> n" "n \<le> sum_list (map capacity ?ms)"
      using B(4) cap capn by (auto simp: extra_estimate_def split: option.splits if_splits)
    have nn: "0 \<le> capacity m" for m by (simp add: capacity_def)
    let ?pairs = "map (\<lambda>m. (m, capacity m)) ?ms"
    let ?out = "spread_estimate n (sum_list (map capacity ?ms)) ?pairs"
    have S: "sum_list (map me_cached ?out) = sum_list (map (me_cached \<circ> fst) ?pairs) + n \<and>
      list_all2 (\<lambda>(m, c) m'. me_input m' = me_input m \<and> me_cached m \<le> me_cached m' \<and> me_cached m' \<le> me_cached m + c) ?pairs ?out"
      by (rule spread_estimate_exact) (use n nn in \<open>auto simp: comp_def\<close>)
    have "\<forall>m' \<in> set ?out. me_cached m' \<le> me_input m'"
    proof
      fix m' assume "m' \<in> set ?out"
      then obtain i where i: "i < length ?out" "m' = ?out ! i" by (auto simp: in_set_conv_nth)
      have len: "length ?out = length ?ms" using conjunct2[OF S] list_all2_lengthD by fastforce
      have "me_input m' = me_input (?ms ! i) \<and> me_cached m' \<le> me_cached (?ms ! i) + capacity (?ms ! i)"
        using list_all2_nthD2[OF conjunct2[OF S] i(1)] i len by simp
      moreover have "me_cached (?ms ! i) \<le> me_input (?ms ! i)" using B(2) i(1) len by simp
      ultimately show "me_cached m' \<le> me_input m'" by (simp add: capacity_def)
    qed
    then show ?thesis using B cap n x S by (simp add: finish_row_def Let_def row.defs comp_def)
  qed
qed

lemma finish_row_keeps [simp]:
  "ro_models (finish_row cx r) = ro_models r" "ro_stats (finish_row cx r) = ro_stats r" "ro_key (finish_row cx r) = ro_key r"
  by (simp_all add: finish_row_def Let_def row.defs)

lemma usage_totals_sums:
  "us_input (usage_totals stats) = sum_list (map (\<lambda>e. us_input (snd e)) stats)"
  "us_output (usage_totals stats) = sum_list (map (\<lambda>e. us_output (snd e)) stats)"
  "us_cached (usage_totals stats) = sum_list (map (\<lambda>e. us_cached (snd e)) stats)"
  "us_requests (usage_totals stats) = sum_list (map (\<lambda>e. us_requests (snd e)) stats)"
  by (induction stats) (auto simp: usage_totals_def add_stats_def no_stats_def)

lemma row_sum:
  "sum_list (map (\<lambda>r. f (ro_stats r)) (usage_rows cx stats)) = sum_list (map (\<lambda>e. f (ro_stats (snd e))) (raw_rows cx stats))"
  by (simp add: usage_rows_def comp_def case_prod_beta)

lemma row_sums:
  "sum_list (map (\<lambda>r. us_input (ro_stats r)) (usage_rows cx stats)) = us_input (usage_totals stats)"
  "sum_list (map (\<lambda>r. us_output (ro_stats r)) (usage_rows cx stats)) = us_output (usage_totals stats)"
  "sum_list (map (\<lambda>r. us_cached (ro_stats r)) (usage_rows cx stats)) = us_cached (usage_totals stats)"
  "sum_list (map (\<lambda>r. us_requests (ro_stats r)) (usage_rows cx stats)) = us_requests (usage_totals stats)"
  unfolding row_sum usage_totals_sums
  by (rule raw_rows_sum; simp add: new_row_def extend_row_def add_stats_def no_stats_def Let_def)+

lemma count_concat: "int (count (mset (concat xss)) x) = sum_list (map (\<lambda>xs. int (count (mset xs) x)) xss)"
  by (induction xss) auto

lemma row_models: "mset (concat (map ro_models (usage_rows cx stats))) = mset (keys_of stats)"
proof (rule multiset_eqI)
  fix x
  have "int (count (mset (concat (map ro_models (usage_rows cx stats)))) x)
      = sum_list (map (\<lambda>e. int (count (mset (ro_models (snd e))) x)) (raw_rows cx stats))"
    unfolding count_concat by (simp add: usage_rows_def comp_def case_prod_beta)
  also have "\<dots> = sum_list (map (\<lambda>e. if fst e = x then 1 else 0) stats)"
    by (rule raw_rows_sum) (auto simp: new_row_def extend_row_def Let_def)
  also have "\<dots> = int (count (mset (keys_of stats)) x)" by (induction stats) auto
  finally show "count (mset (concat (map ro_models (usage_rows cx stats)))) x = count (mset (keys_of stats)) x" by simp
qed

section \<open>Properties\<close>

text \<open>C27: routing a model's usage always ends, and behind an accepted rule table it ends at a model that is not
  routed itself: a change of the rules is accepted only if it closes no cycle, accepted changes and
  deletions keep the table free of cycles, and then the resolved target of every model has no rule.\<close>

theorem usage_routing_resolves:
  assumes "acyclic_rules rules" and "update_rule s d rules = Inr r1" and "delete_usage_rule x rules = Inr r2"
  shows "acyclic_rules r1 \<and> acyclic_rules r2 \<and> map_of r1 (text_field s) = Some (text_field d) \<and>
    map_of rules (route_target m rules) = None \<and> map_of r1 (route_target m r1) = None \<and> map_of r2 (route_target m r2) = None"
proof -
  have r1: "acyclic_rules r1" "r1 = AList.update (text_field s) (text_field d) rules"
    using assms(2) by (auto simp: update_rule_def Let_def split: if_splits)
  have r2: "acyclic_rules r2"
    using assms(1,3) acyclic_delete by (auto simp: delete_usage_rule_def Let_def split: if_splits)
  have "map_of r1 (text_field s) = Some (text_field d)" by (simp add: r1(2) dict_simps)
  then show ?thesis using r1(1) r2 route_target_ends[OF assms(1)] route_target_ends[OF r1(1)] route_target_ends[OF r2] by blast
qed

theorem usage_routing_resolves_witness:
  "\<exists>r1 r2. update_rule (PStr ''a'') (PStr ''b'') [(''b'', ''c'')] = Inr r1 \<and> delete_usage_rule (PStr ''b'') [(''b'', ''c'')] = Inr r2 \<and>
     acyclic_rules r1 \<and> map_of r1 (route_target ''a'' r1) = None"
proof -
  have t: "text_field (PStr ''a'') = ''a''" "text_field (PStr ''b'') = ''b''" by (simp_all add: py_strip_def py_space_def)
  have a: "acyclic_rules [(''b'', ''c'')]" "acyclic_rules [(''b'', ''c''), (''a'', ''b'')]"
    by (simp_all add: acyclic_rules_def meets_cycle.simps)
  have u: "update_rule (PStr ''a'') (PStr ''b'') [(''b'', ''c'')] = Inr [(''b'', ''c''), (''a'', ''b'')]"
    using a(2) t by (simp add: update_rule_def Let_def del: text_field_PStr)
  have d: "delete_usage_rule (PStr ''b'') [(''b'', ''c'')] = Inr []"
    using t by (simp add: delete_usage_rule_def Let_def del: text_field_PStr)
  from usage_routing_resolves[OF a(1) u d, of "''a''"] u d show ?thesis by blast
qed

text \<open>C28: grouping usage for display loses and invents nothing: every recorded model is in exactly one row, the
  counters of the rows add up to the totals, and inside a row the cached tokens of the members, measured
  and estimated together, add up to the row's effective cached tokens, which with the missed ones make
  up its input; no member is credited with more cached tokens than it had input.\<close>

theorem usage_conserved:
  assumes "\<forall>(m, s) \<in> set stats. stats_ok s"
  shows "mset (concat (map ro_models (usage_rows cx stats))) = mset (keys_of stats) \<and>
    sum_list (map (\<lambda>r. us_input (ro_stats r)) (usage_rows cx stats)) = us_input (usage_totals stats) \<and>
    sum_list (map (\<lambda>r. us_output (ro_stats r)) (usage_rows cx stats)) = us_output (usage_totals stats) \<and>
    sum_list (map (\<lambda>r. us_requests (ro_stats r)) (usage_rows cx stats)) = us_requests (usage_totals stats) \<and>
    sum_list (map fr_measured (usage_rows cx stats)) = us_cached (usage_totals stats) \<and>
    (\<forall>r \<in> set (usage_rows cx stats). sum_list (map me_cached (ro_members r)) = fr_effective r \<and>
       fr_effective r + fr_miss r = us_input (ro_stats r) \<and> fr_measured r \<le> fr_effective r \<and>
       (\<forall>m \<in> set (ro_members r). me_cached m \<le> me_input m))"
proof -
  have "\<forall>(k, r) \<in> set (raw_rows cx stats). row_books r"
    using assms by (intro raw_rows_all row_books_new) (auto intro: row_books_extend)
  then have books: "row_books r" if "(k, r) \<in> set (raw_rows cx stats)" for k r using that by auto
  have rows: "\<forall>r \<in> set (usage_rows cx stats). sum_list (map me_cached (ro_members r)) = fr_effective r \<and>
       fr_effective r + fr_miss r = us_input (ro_stats r) \<and> fr_measured r \<le> fr_effective r \<and>
       (\<forall>m \<in> set (ro_members r). me_cached m \<le> me_input m) \<and> fr_measured r = us_cached (ro_stats r)"
    using finish_row_books[OF books] by (fastforce simp: usage_rows_def)
  then have "map fr_measured (usage_rows cx stats) = map (\<lambda>r. us_cached (ro_stats r)) (usage_rows cx stats)"
    by (intro map_cong) auto
  then have "sum_list (map fr_measured (usage_rows cx stats)) = us_cached (usage_totals stats)"
    using row_sums(3) by (simp only:)
  then show ?thesis using rows row_sums(1,2,4) row_models by blast
qed

theorem usage_conserved_witness:
  "\<exists>s. stats_ok s \<and> sum_list (map fr_measured (usage_rows \<lparr>cx_rules = [], cx_names = \<lparr>aliases = [], groups = []\<rparr>, cx_estimates = []\<rparr> [(''m'', s)])) = 3"
proof -
  let ?s = "\<lparr>us_input = 5, us_output = 1, us_cached = 3, us_requests = 1, us_gen = 0, us_time = 0\<rparr>"
  have ok: "\<forall>(m, s) \<in> set [(''m'', ?s)]. stats_ok s" by (simp add: stats_ok_def)
  have "us_cached (usage_totals [(''m'', ?s)]) = 3" by (simp add: usage_totals_def add_stats_def no_stats_def)
  then show ?thesis using usage_conserved[OF ok] ok by (intro exI[of _ ?s]) simp
qed

end
