(* ===== verification/Usage_Cost.thy ===== *)
theory Usage_Cost imports Usage_Rows "HOL-Library.Char_ord" "HOL-Library.List_Lexorder"
begin

text \<open>
  Prices and speeds of the usage rows (\<open>manager.py\<close>): the deployment whose rates price a model name, the
  cost of a model's tokens, the price of a row and the owner of its price editor, and the rolling decode
  speed over the newest million output tokens.

  Rates and times are rationals.  Parameters: \<open>table\<close> is the built-in price table \<open>MODEL_PRICING\<close>, \<open>fl\<close> is
  \<open>float\<close> on a text.
\<close>

section \<open>Identity of a model\<close>

definition stats_key :: "string \<Rightarrow> string \<Rightarrow> string" where
  "stats_key model variant = (if variant = [] then model else model @ '' ['' @ variant @ '']'')"

definition flag_value :: "string \<Rightarrow> string list \<Rightarrow> string list" where
  "flag_value flag cmd = (case dropWhile (\<lambda>t. t \<noteq> flag) cmd of
     f # v # vs \<Rightarrow> if py_lower v \<noteq> ''auto'' then [v] else [] | _ \<Rightarrow> [])"

definition variant_from_cmd :: "string list \<Rightarrow> string" where
  "variant_from_cmd cmd = join_with ''+'' (flag_value ''--quantization'' cmd @ flag_value ''--dtype'' cmd)"

section \<open>Deployments and their rates\<close>

record rates =
  rt_input :: "rat option"
  rt_cache :: "rat option"
  rt_output :: "rat option"

record priced =
  pd_id :: string
  pd_explicit :: string
  pd_model :: string
  pd_args :: "string list"
  pd_rates :: rates
  pd_desired :: string
  pd_status :: string
  pd_created :: "rat option"

definition pricing_value :: "(string \<Rightarrow> pyfloat option) \<Rightarrow> pyval \<Rightarrow> rat option result" where
  "pricing_value fl v = (if v = PNone \<or> v = PStr [] then Inr None
     else case py_float fl v of
       Inl OverflowError \<Rightarrow> Inl OverflowError
     | Inl e \<Rightarrow> Inl (ValueError ''must be a non-negative number'')
     | Inr (Finite x) \<Rightarrow> if x < 0 then Inl (ValueError ''must be a non-negative number'') else Inr (Some x)
     | Inr _ \<Rightarrow> Inl (ValueError ''must be a non-negative number''))"

text \<open>\<open>_deployment_pricing_model_key\<close>; \<open>pd_model\<close> is the model of the deployment or of its settings.\<close>

definition pricing_key :: "priced \<Rightarrow> string" where
  "pricing_key d = (if py_strip (pd_explicit d) \<noteq> [] then py_strip (pd_explicit d)
     else if pd_model d = [] then [] else stats_key (pd_model d) (variant_from_cmd (pd_args d)))"

definition has_rates :: "rates \<Rightarrow> bool" where
  "has_rates r \<longleftrightarrow> rt_input r \<noteq> None \<or> rt_cache r \<noteq> None \<or> rt_output r \<noteq> None"

text \<open>\<open>_deployment_pricing_owner_key\<close>: creation time, an absent one last, then the id.  A strict order on the
  keys, and the first least element.\<close>

definition owner_before :: "priced \<Rightarrow> priced \<Rightarrow> bool" where
  "owner_before a b = (let rest = (py_casefold (pd_id a) < py_casefold (pd_id b) \<or>
               py_casefold (pd_id a) = py_casefold (pd_id b) \<and> pd_id a < pd_id b)
     in case (pd_created a, pd_created b) of
       (Some x, Some y) \<Rightarrow> x < y \<or> x = y \<and> rest
     | (Some x, None) \<Rightarrow> True
     | (None, Some y) \<Rightarrow> False
     | (None, None) \<Rightarrow> rest)"

fun least_owner :: "priced list \<Rightarrow> priced option" where
  "least_owner [] = None"
| "least_owner (d # ds) = (case least_owner ds of None \<Rightarrow> Some d | Some e \<Rightarrow> if owner_before e d then Some e else Some d)"

definition is_live :: "priced \<Rightarrow> bool" where
  "is_live d \<longleftrightarrow> py_casefold (if pd_desired d = [] then ''running'' else pd_desired d) \<noteq> ''stopped'' \<and>
     py_casefold (pd_status d) \<notin> {''stopped'', ''error'', ''removed''}"

definition pricing_resolution :: "priced list \<Rightarrow> string \<Rightarrow> priced option" where
  "pricing_resolution ds model =
     (let key = py_casefold (py_strip model);
          matches = filter (\<lambda>d. py_casefold (pricing_key d) = key) ds;
          with_rates = filter (\<lambda>d. has_rates (pd_rates d)) matches;
          live = filter is_live matches
      in if key = [] then None
         else if with_rates \<noteq> [] then
           (if list_all (\<lambda>d. pd_rates d = pd_rates (hd with_rates)) with_rates then least_owner with_rates else None)
         else if matches = [] then None
         else if length matches = 1 then Some (hd matches)
         else if length live = 1 then Some (hd live)
         else least_owner matches)"

text \<open>\<open>_usage_member_pricing\<close>: the editor of a usage member\<close>

definition member_pricing :: "priced list \<Rightarrow> string \<Rightarrow> (string \<times> rates) option" where
  "member_pricing ds model = (case pricing_resolution ds model of
     None \<Rightarrow> None | Some d \<Rightarrow> if py_strip (pd_id d) = [] then None else Some (py_strip (pd_id d), pd_rates d))"

section \<open>Cost\<close>

record tokens =
  tk_input :: int
  tk_cached :: int
  tk_output :: int

definition positive_or :: "rat option \<Rightarrow> rat \<Rightarrow> rat" where
  "positive_or v x = (case v of Some y \<Rightarrow> if y > 0 then y else x | None \<Rightarrow> x)"

definition overlaps :: "string \<Rightarrow> string \<Rightarrow> bool" where
  "overlaps a b \<longleftrightarrow> contains a b \<or> contains b a"

text \<open>The rates of a model: standalone settings, else the built-in table, each overridden field by field by
  the deployment.\<close>

definition base_rates :: "(string \<times> rates) list \<Rightarrow> (string \<times> rat \<times> rat \<times> rat) list \<Rightarrow> string \<Rightarrow> rat \<times> rat \<times> rat" where
  "base_rates standalone table model =
     (let (i, c, ou) = (case find (\<lambda>(k, r). overlaps (py_lower k) (py_lower model)) standalone of
            None \<Rightarrow> (0, 0, 0)
          | Some (k, r) \<Rightarrow> (positive_or (rt_input r) 0, positive_or (rt_cache r) 0, positive_or (rt_output r) 0))
      in if i = 0 \<and> ou = 0 then
           (case find (\<lambda>(p, x). overlaps (py_lower p) (py_casefold model)) table of
              None \<Rightarrow> (i, c, ou) | Some (p, x) \<Rightarrow> x)
         else (i, c, ou))"

definition override :: "rat option \<Rightarrow> rat \<Rightarrow> rat" where
  "override v x = (case v of None \<Rightarrow> x | Some y \<Rightarrow> y)"

definition model_rates :: "priced list \<Rightarrow> (string \<times> rates) list \<Rightarrow> (string \<times> rat \<times> rat \<times> rat) list \<Rightarrow> string \<Rightarrow> rat \<times> rat \<times> rat" where
  "model_rates ds standalone table model =
     (let (i, c, ou) = base_rates standalone table model in
      case pricing_resolution ds model of
        None \<Rightarrow> (i, c, ou)
      | Some d \<Rightarrow> (override (rt_input (pd_rates d)) i, override (rt_cache (pd_rates d)) c, override (rt_output (pd_rates d)) ou))"

definition cents :: "int \<Rightarrow> rat \<Rightarrow> rat" where
  "cents n rate = round_digits 2 (of_int n / 1000000 * rate)"

definition token_cost :: "rat \<times> rat \<times> rat \<Rightarrow> tokens \<Rightarrow> rat" where
  "token_cost = (\<lambda>(i, c, ou) t. round_digits 2
     (cents (max 0 (tk_input t - tk_cached t)) i + cents (tk_cached t) c + cents (tk_output t) ou))"

text \<open>\<open>calculate_cost(...)["total_cost"]\<close>\<close>

definition calculate_cost :: "priced list \<Rightarrow> (string \<times> rates) list \<Rightarrow> (string \<times> rat \<times> rat \<times> rat) list \<Rightarrow> string \<Rightarrow> tokens option \<Rightarrow> rat" where
  "calculate_cost ds standalone table model t =
     (case t of None \<Rightarrow> 0 | Some tk \<Rightarrow> token_cost (model_rates ds standalone table model) tk)"

text \<open>The pricing model of a routed row: the first candidate with persisted rates or with a positive rate.\<close>

definition is_priced :: "priced list \<Rightarrow> (string \<times> rates) list \<Rightarrow> (string \<times> rat \<times> rat \<times> rat) list \<Rightarrow> string \<Rightarrow> bool" where
  "is_priced ds standalone table m \<longleftrightarrow>
     (case member_pricing ds m of Some (i, r) \<Rightarrow> has_rates r | None \<Rightarrow> False) \<or>
     (case model_rates ds standalone table m of (i, c, ou) \<Rightarrow> i \<noteq> 0 \<or> c \<noteq> 0 \<or> ou \<noteq> 0)"

definition pricing_model :: "priced list \<Rightarrow> (string \<times> rates) list \<Rightarrow> (string \<times> rat \<times> rat \<times> rat) list \<Rightarrow> string \<Rightarrow> string list \<Rightarrow> string" where
  "pricing_model ds standalone table target models =
     (case find (is_priced ds standalone table) (target # filter (\<lambda>m. m \<noteq> target) models) of
        None \<Rightarrow> target | Some m \<Rightarrow> m)"

definition row_cost :: "priced list \<Rightarrow> (string \<times> rates) list \<Rightarrow> (string \<times> rat \<times> rat \<times> rat) list \<Rightarrow> full_row \<Rightarrow> rat" where
  "row_cost ds standalone table r = round_digits 2 (max 0 (case ro_target r of
     Some (c # s) \<Rightarrow> calculate_cost ds standalone table (pricing_model ds standalone table (c # s) (ro_models r))
         (Some \<lparr>tk_input = us_input (ro_stats r), tk_cached = fr_effective r, tk_output = us_output (ro_stats r)\<rparr>)
   | _ \<Rightarrow> sum_list (map (\<lambda>m. calculate_cost ds standalone table (me_pricing m)
         (Some \<lparr>tk_input = me_input m, tk_cached = me_cached m, tk_output = me_output m\<rparr>)) (ro_members r))))"

text \<open>The editors of a merge group: in the sorted order of the members, each deployment gives its rates to
  its first member only.\<close>

fun assign_editors :: "(string \<Rightarrow> (string \<times> rates) option) \<Rightarrow> string list \<Rightarrow> member list \<Rightarrow> (member \<times> (string \<times> rates) option) list" where
  "assign_editors price owners [] = []"
| "assign_editors price owners (m # ms) = (case price (me_pricing m) of
     Some (d, r) \<Rightarrow> if d \<in> set owners then (m, None) # assign_editors price owners ms
        else (m, Some (d, r)) # assign_editors price (d # owners) ms
   | None \<Rightarrow> (m, None) # assign_editors price owners ms)"

section \<open>Speed\<close>

record sample =
  sm_tokens :: rat
  sm_start :: rat
  sm_end :: rat

definition speed_window :: rat where "speed_window = 1000000"

text \<open>\<open>_append_speed_sample\<close>: the newest samples up to the window, at most 250000.\<close>

fun retain_samples :: "sample list \<Rightarrow> rat \<Rightarrow> nat \<Rightarrow> sample list" where
  "retain_samples [] kept n = []"
| "retain_samples (s # ss) kept n =
     (let k = kept + max 0 (sm_tokens s) in
      if k \<ge> speed_window \<or> n + 1 \<ge> 250000 then [s] else s # retain_samples ss k (n + 1))"

definition append_sample :: "int \<Rightarrow> rat option \<Rightarrow> rat \<Rightarrow> sample list \<Rightarrow> sample list" where
  "append_sample tok gen ended ss = (case gen of None \<Rightarrow> ss
     | Some g \<Rightarrow> if g \<le> 0 \<or> tok \<le> 0 then ss
         else rev (retain_samples (\<lparr>sm_tokens = of_int tok, sm_start = ended - g, sm_end = ended\<rparr> # rev ss) 0 0))"

text \<open>\<open>_rolling_speed_for_samples\<close>: the aggregate rate is constant between boundaries; the sweep goes back in
  time until the window is full.\<close>

definition sample_rate :: "sample \<Rightarrow> rat" where
  "sample_rate s = sm_tokens s / (sm_end s - sm_start s)"

definition add_delta :: "rat \<Rightarrow> rat \<Rightarrow> (rat, rat) dict \<Rightarrow> (rat, rat) dict" where
  "add_delta t x d = AList.update t ((case map_of d t of None \<Rightarrow> 0 | Some y \<Rightarrow> y) + x) d"

definition rate_deltas :: "sample list \<Rightarrow> (rat, rat) dict" where
  "rate_deltas ss = foldl (\<lambda>d s. add_delta (sm_end s) (- sample_rate s) (add_delta (sm_start s) (sample_rate s) d)) [] ss"

fun sweep :: "(rat, rat) dict \<Rightarrow> rat list \<Rightarrow> rat \<Rightarrow> rat \<Rightarrow> rat \<Rightarrow> rat \<times> rat" where
  "sweep d (upper # lower # bs) rate sel act =
     (let rate' = rate - (case map_of d upper of None \<Rightarrow> 0 | Some y \<Rightarrow> y) in
      if rate' \<le> 0 \<or> upper \<le> lower then sweep d (lower # bs) rate' sel act
      else let used = min (rate' * (upper - lower)) (speed_window - sel); sel' = sel + used; act' = act + used / rate' in
        if sel' \<ge> speed_window then (sel', act') else sweep d (lower # bs) rate' sel' act')"
| "sweep d bs rate sel act = (sel, act)"

record speed =
  sp_tokens :: int
  sp_active :: rat
  sp_rate :: "rat option"

definition rolling_for_samples :: "sample list \<Rightarrow> speed" where
  "rolling_for_samples ss = (if ss = [] then \<lparr>sp_tokens = 0, sp_active = 0, sp_rate = None\<rparr>
     else let d = rate_deltas ss; (sel, act) = sweep d (rev (sort (keys_of d))) 0 0 0
       in \<lparr>sp_tokens = trunc_rat sel, sp_active = act, sp_rate = (if act > 0 then Some (sel / act) else None)\<rparr>)"

text \<open>\<open>rolling_generation_speed\<close>: the speeds of the origins are summed; \<open>origins\<close> are the sample tables whose
  epochs are current, \<open>own\<close> is the node's own table.\<close>

definition rolling_speed :: "(string, sample list) dict list \<Rightarrow> (string, sample list) dict \<Rightarrow> string list \<Rightarrow> speed" where
  "rolling_speed origins own models =
     (let of_model = (\<lambda>t m. case map_of t m of None \<Rightarrow> [] | Some ss \<Rightarrow> ss);
          tables = (if list_all (\<lambda>t. list_all (\<lambda>m. of_model t m = []) models) origins then [own] else origins);
          usable = (\<lambda>s. sm_tokens s > 0 \<and> sm_start s < sm_end s);
          speeds = filter (\<lambda>sp. sp_rate sp \<noteq> None)
            (map (\<lambda>t. rolling_for_samples (filter usable (concat (map (of_model t) models)))) tables);
          total = sum_list (map sp_tokens speeds); rate = sum_list (map (\<lambda>sp. the (sp_rate sp)) speeds)
      in if speeds = [] then \<lparr>sp_tokens = 0, sp_active = 0, sp_rate = None\<rparr>
         else \<lparr>sp_tokens = total, sp_active = (if rate > 0 then of_int total / rate else 0),
               sp_rate = (if rate = 0 then None else Some rate)\<rparr>)"

section \<open>Lemmas\<close>

text \<open>The sweep never counts more than the window, and time only for tokens it counted.\<close>

lemma sweep_bounds:
  "0 \<le> sel \<Longrightarrow> sel \<le> speed_window \<Longrightarrow> 0 \<le> act \<Longrightarrow>
   sel \<le> fst (sweep d bs rate sel act) \<and> fst (sweep d bs rate sel act) \<le> speed_window \<and> act \<le> snd (sweep d bs rate sel act)"
proof (induction d bs rate sel act rule: sweep.induct)
  case (1 d upper lower bs rate sel act)
  let ?r = "rate - (case map_of d upper of None \<Rightarrow> 0 | Some y \<Rightarrow> y)"
  let ?u = "min (?r * (upper - lower)) (speed_window - sel)"
  show ?case
  proof (cases "?r \<le> 0 \<or> upper \<le> lower")
    case True
    then show ?thesis using 1(1)[OF refl True 1(3-5)] by (simp add: Let_def)
  next
    case False
    then have u: "0 \<le> ?u" "sel + ?u \<le> speed_window" using 1(4) by auto
    have t: "0 \<le> ?u / ?r" using u(1) False by simp
    show ?thesis
    proof (cases "sel + ?u \<ge> speed_window")
      case True
      then show ?thesis using False u t by (simp add: Let_def)
    next
      case n: False
      have ih: "sel + ?u \<le> fst (sweep d (lower # bs) ?r (sel + ?u) (act + ?u / ?r)) \<and>
          fst (sweep d (lower # bs) ?r (sel + ?u) (act + ?u / ?r)) \<le> speed_window \<and>
          act + ?u / ?r \<le> snd (sweep d (lower # bs) ?r (sel + ?u) (act + ?u / ?r))"
        by (rule 1(2)[OF refl False refl refl refl n]) (use 1(3,5) u t in auto)
      have eq: "sweep d (upper # lower # bs) rate sel act = sweep d (lower # bs) ?r (sel + ?u) (act + ?u / ?r)"
        using False n by (simp only: sweep.simps Let_def if_False)
      show ?thesis unfolding eq using ih u(1) t by linarith
    qed
  qed
qed auto

text \<open>No deployment gives its rates to two members.\<close>

lemma assign_editors_distinct:
  "distinct (concat (map (\<lambda>(m, e). case e of None \<Rightarrow> [] | Some (d, r) \<Rightarrow> [d]) (assign_editors price owners ms))) \<and>
   set (concat (map (\<lambda>(m, e). case e of None \<Rightarrow> [] | Some (d, r) \<Rightarrow> [d]) (assign_editors price owners ms))) \<inter> set owners = {}"
proof (induction ms arbitrary: owners)
  case (Cons m ms)
  show ?case
  proof (cases "price (me_pricing m)")
    case None
    then show ?thesis using Cons[of owners] by simp
  next
    case (Some x)
    obtain d r where x: "x = (d, r)" by (cases x)
    show ?thesis
    proof (cases "d \<in> set owners")
      case True
      then show ?thesis using Cons[of owners] Some x by simp
    next
      case False
      then show ?thesis using Cons[of "d # owners"] Some x by simp
    qed
  qed
qed simp

end
