(* ===== verification/Env_File.thy ===== *)
theory Env_File imports Load_Settings
begin

text \<open>
  Settings kept in a \<open>KEY=VALUE\<close> file (\<open>sparkdeck/envfile_settings.py\<close>): reading its entries, the checks of
  submitted updates, and the rewriting of the lines they address.  The file is a text; its lines keep
  their terminators, as \<open>str.splitlines(keepends=True)\<close> does.  Modification times, inode and size are
  the record \<open>file_stat\<close>: the reads before and behind the rewriting are parameters, since another process
  may write in between.
\<close>

section \<open>Lines of a text\<close>

text \<open>The terminators of \<open>str.splitlines\<close> below code point 256, besides the pair \<open>CR LF\<close>.\<close>

definition line_break :: "char \<Rightarrow> bool" where
  "line_break c = (let n = (of_char c :: nat) in 10 \<le> n \<and> n \<le> 13 \<or> 28 \<le> n \<and> n \<le> 30 \<or> n = 133)"

fun lines_keep :: "string \<Rightarrow> string list" where
  "lines_keep [] = []"
| "lines_keep (c # s) =
     (if c = cr \<and> take 1 s = [lf] then [cr, lf] # lines_keep (drop 1 s)
      else if line_break c then [c] # lines_keep s
      else case lines_keep s of [] \<Rightarrow> [[c]] | l # ls \<Rightarrow> (c # l) # ls)"

definition line_body :: "string \<Rightarrow> string" where
  "line_body l = (if l \<noteq> [] \<and> line_break (last l)
     then (if ends_with [cr, lf] l then butlast (butlast l) else butlast l) else l)"

definition splitlines :: "string \<Rightarrow> string list" where
  "splitlines s = map line_body (lines_keep s)"

text \<open>\<open>line.rstrip("\r\n")\<close> and what it strips\<close>

definition rstrip_newline :: "string \<Rightarrow> string" where
  "rstrip_newline l = rev (dropWhile (\<lambda>c. c = cr \<or> c = lf) (rev l))"

definition utf8_length :: "string \<Rightarrow> nat" where
  "utf8_length s = sum_list (map (\<lambda>c. if (of_char c :: nat) < 128 then 1 else 2) s)"

section \<open>Entries\<close>

definition key_start :: "char \<Rightarrow> bool" where
  "key_start c \<longleftrightarrow> ascii_letter c \<or> c = CHR ''_''"

definition key_char :: "char \<Rightarrow> bool" where
  "key_char c \<longleftrightarrow> key_start c \<or> is_digit c"

definition blank :: "char \<Rightarrow> bool" where
  "blank c \<longleftrightarrow> c = CHR '' '' \<or> c = CHR 0x09"

definition key_name :: "string \<Rightarrow> bool" where
  "key_name s \<longleftrightarrow> s \<noteq> [] \<and> key_start (hd s) \<and> list_all key_char s"

text \<open>A match of \<open>_ACTIVE_LINE\<close> or \<open>_COMMENTED_LINE\<close>: its groups, and the text behind it.\<close>

record line_match =
  m_indent :: string
  m_export :: string
  m_key :: string
  m_rest :: string

definition match_key :: "string \<Rightarrow> string \<Rightarrow> string \<Rightarrow> line_match option" where
  "match_key ind ex s = (let k = takeWhile key_char s; r = dropWhile blank (dropWhile key_char s) in
     if key_name k \<and> take 1 r = ''='' then Some \<lparr>m_indent = ind, m_export = ex, m_key = k, m_rest = drop 1 r\<rparr> else None)"

definition match_assignment :: "string \<Rightarrow> string \<Rightarrow> line_match option" where
  "match_assignment ind s =
     (let b = takeWhile blank (drop 6 s) in
      if starts_with ''export'' s \<and> b \<noteq> [] then
        (case match_key ind (''export'' @ b) (dropWhile blank (drop 6 s)) of
           None \<Rightarrow> match_key ind [] s | Some m \<Rightarrow> Some m)
      else match_key ind [] s)"

definition match_active :: "string \<Rightarrow> line_match option" where
  "match_active l = match_assignment (takeWhile py_space l) (dropWhile py_space l)"

definition match_commented :: "string \<Rightarrow> line_match option" where
  "match_commented l = (let s = dropWhile py_space l in
     if take 1 s = ''#'' then match_assignment (takeWhile py_space l) (dropWhile blank (drop 1 s)) else None)"

text \<open>\<open>_split_value\<close>: the text behind \<open>=\<close> as value and trailing comment.\<close>

fun close_double :: "string \<Rightarrow> (string \<times> string) option" where
  "close_double [] = None"
| "close_double (c # s) =
     (if c = bs then (case s of [] \<Rightarrow> None
        | d # t \<Rightarrow> map_option (\<lambda>(v, r). (c # d # v, r)) (close_double t))
      else if c = dq then Some ([c], s)
      else map_option (\<lambda>(v, r). (c # v, r)) (close_double s))"

fun split_comment :: "string \<Rightarrow> string \<times> string" where
  "split_comment [] = ([], [])"
| "split_comment (c # s) =
     (if py_space c \<and> take 1 (dropWhile py_space s) = ''#'' then ([], c # s)
      else (let (v, r) = split_comment s in (c # v, r)))"

definition split_value :: "string \<Rightarrow> string \<times> string" where
  "split_value raw = (let t = py_lstrip raw in
     if take 1 t = [sq] then
       (if sq \<in> set (drop 1 t)
        then (sq # takeWhile (\<lambda>c. c \<noteq> sq) (drop 1 t) @ [sq], drop 1 (dropWhile (\<lambda>c. c \<noteq> sq) (drop 1 t)))
        else (t, []))
     else if take 1 t = [dq] then
       (case close_double (drop 1 t) of None \<Rightarrow> (t, []) | Some (v, r) \<Rightarrow> (dq # v, r))
     else split_comment t)"

record env_entry =
  e_key :: string
  e_value :: string
  e_enabled :: bool
  e_line :: nat

definition line_entry :: "nat \<Rightarrow> string \<Rightarrow> env_entry option" where
  "line_entry n l = (case match_active l of
       Some m \<Rightarrow> Some \<lparr>e_key = m_key m, e_value = fst (split_value (m_rest m)), e_enabled = True, e_line = n\<rparr>
     | None \<Rightarrow> map_option (\<lambda>m. \<lparr>e_key = m_key m, e_value = fst (split_value (m_rest m)), e_enabled = False, e_line = n\<rparr>)
                 (match_commented l))"

fun line_entries :: "nat \<Rightarrow> string list \<Rightarrow> env_entry list" where
  "line_entries n [] = []"
| "line_entries n (l # ls) =
     (case line_entry n l of None \<Rightarrow> line_entries (n + 1) ls | Some e \<Rightarrow> e # line_entries (n + 1) ls)"

definition parse_env_file :: "string \<Rightarrow> env_entry list" where
  "parse_env_file t = line_entries 1 (splitlines t)"

section \<open>Secrets\<close>

text \<open>The searches of \<open>SECRET_KEY_PATTERN\<close> and \<open>SECRET_VALUE_PATTERN\<close>, which ignore case.\<close>

definition secret_key :: "string \<Rightarrow> bool" where
  "secret_key k \<longleftrightarrow> list_ex (\<lambda>w. contains w (py_lower k))
     [''token'', ''key'', ''secret'', ''password'', ''passwd'', ''credential'', ''auth'', ''dsn'']"

definition userinfo_here :: "string \<Rightarrow> bool" where
  "userinfo_here s = (let plain = (\<lambda>c. \<not> py_space c \<and> c \<notin> set ''/:@''); pass = (\<lambda>c. \<not> py_space c \<and> c \<notin> set ''/@'');
       u = drop 3 s; r = dropWhile plain u; p = drop 1 r
     in starts_with ''://'' s \<and> takeWhile plain u \<noteq> [] \<and> take 1 r = '':'' \<and>
        takeWhile pass p \<noteq> [] \<and> take 1 (dropWhile pass p) = ''@'')"

definition bearer_value :: "string \<Rightarrow> bool" where
  "bearer_value s = (let t = py_lstrip s; r = drop 6 t in
     starts_with ''bearer'' (py_lower t) \<and> takeWhile py_space r \<noteq> [] \<and> dropWhile py_space r \<noteq> [])"

fun userinfo_somewhere :: "string \<Rightarrow> bool" where
  "userinfo_somewhere [] = False"
| "userinfo_somewhere (c # s) = (userinfo_here (c # s) \<or> userinfo_somewhere s)"

definition secret_value :: "string \<Rightarrow> bool" where
  "secret_value s = (userinfo_somewhere s \<or> bearer_value s)"

definition is_secret_entry :: "string \<Rightarrow> string option \<Rightarrow> bool" where
  "is_secret_entry k v = (secret_key k \<or> (case v of None \<Rightarrow> False | Some s \<Rightarrow> s \<noteq> [] \<and> secret_value s))"

section \<open>Submitted updates\<close>

definition env_value_limit :: int where "env_value_limit = 8 * 1024"
definition env_updates_limit :: int where "env_updates_limit = 128"
definition env_file_limit :: int where "env_file_limit = 256 * 1024"
definition env_entries_limit :: int where "env_entries_limit = 512"

definition validate_value :: "string \<Rightarrow> string \<Rightarrow> unit result" where
  "validate_value k v =
     (if list_ex (\<lambda>c. c = cr \<or> c = lf \<or> c = CHR 0x00) v
      then Inl (ValueError (''environment variable '' @ k @ '' cannot contain a newline or NUL''))
      else checkE (int (utf8_length v) \<le> env_value_limit) (ValueError (''environment variable '' @ k @ '' exceeds 8 KiB'')))"

definition literal_safe :: "char \<Rightarrow> bool" where
  "literal_safe c \<longleftrightarrow> ascii_letter c \<or> is_digit c \<or> c \<in> set ''_./:@%+=,-''"

definition shell_literal :: "string \<Rightarrow> string" where
  "shell_literal v = (if v = [] \<or> list_all literal_safe v then v
     else sq # concat (map (\<lambda>c. if c = sq then [sq, bs, sq, sq] else [c]) v) @ [sq])"

text \<open>A normalised operation: key, pinned line, value and enabled; the pair of two \<open>None\<close> deletes.\<close>

record env_op =
  o_key :: string
  o_line :: "nat option"
  o_value :: "string option"
  o_enabled :: "bool option"

definition op_line :: "string \<Rightarrow> pyval \<Rightarrow> nat option result" where
  "op_line k v = (case v of
       PNone \<Rightarrow> Inr None
     | PInt i \<Rightarrow> if i < 1 then Inl (ValueError (''update for '' @ k @ '' has an invalid line number'')) else Inr (Some (nat i))
     | _ \<Rightarrow> Inl (ValueError (''update for '' @ k @ '' has an invalid line number'')))"

definition op_enabled :: "string \<Rightarrow> (string \<times> pyval) list \<Rightarrow> bool result" where
  "op_enabled k d = (case dict_get d ''enabled'' of
       PBool b \<Rightarrow> Inr b
     | _ \<Rightarrow> Inl (ValueError (''update for '' @ k @ '' must include a boolean '' @ [sq] @ ''enabled'' @ [sq])))"

definition op_change :: "string \<Rightarrow> nat option \<Rightarrow> (string \<times> pyval) list \<Rightarrow> env_op result" where
  "op_change k pin d = (case dict_get d ''value'' of
       PNone \<Rightarrow> bindE (op_enabled k d) (\<lambda>b. Inr \<lparr>o_key = k, o_line = pin, o_value = None, o_enabled = Some b\<rparr>)
     | PStr v \<Rightarrow> bindE (op_enabled k d) (\<lambda>b. bindE (validate_value k v) (\<lambda>_.
         Inr \<lparr>o_key = k, o_line = pin, o_value = Some v, o_enabled = Some b\<rparr>))
     | _ \<Rightarrow> Inl (ValueError (''update for '' @ k @ '' has a non-string value'')))"

definition op_action :: "string \<Rightarrow> nat option \<Rightarrow> pyval \<Rightarrow> env_op result" where
  "op_action k pin raw = (case raw of
       PNone \<Rightarrow> Inr \<lparr>o_key = k, o_line = pin, o_value = None, o_enabled = None\<rparr>
     | PStr v \<Rightarrow> bindE (validate_value k v) (\<lambda>_. Inr \<lparr>o_key = k, o_line = pin, o_value = Some v, o_enabled = Some True\<rparr>)
     | PDict c \<Rightarrow> op_change k pin c
     | _ \<Rightarrow> Inl (ValueError (''update for '' @ k @ '' must be a string, null, or an object'')))"

definition normalized_op :: "pyval \<Rightarrow> env_op result" where
  "normalized_op op = (case op of
       PDict d \<Rightarrow>
         if \<not> set (keys_of d) \<subseteq> {''key'', ''value'', ''line''}
         then Inl (ValueError ''each update operation must use key, value, line'')
         else if \<not> has_key d ''value'' then Inl (ValueError ''each update operation must include a value'')
         else (case dict_get d ''key'' of
             PStr k \<Rightarrow>
               if \<not> key_name k then Inl (ValueError (''invalid environment variable name: '' @ repr_str k))
               else bindE (op_line k (dict_get d ''line'')) (\<lambda>pin. op_action k pin (dict_get d ''value''))
           | v \<Rightarrow> Inl (ValueError (''invalid environment variable name: '' @ py_repr v)))
     | _ \<Rightarrow> Inl (ValueError ''each update operation must use key, value, line''))"

definition normalized_ops :: "pyval list \<Rightarrow> env_op list result" where
  "normalized_ops ops = bindE (checkE (int (length ops) \<le> env_updates_limit)
       (ValueError ''cannot update more than 128 variables at once'')) (\<lambda>_. mapE normalized_op ops)"

definition normalized_updates :: "pyval \<Rightarrow> env_op list result" where
  "normalized_updates u = (case u of
       PDict d \<Rightarrow> normalized_ops (map (\<lambda>(k, v). PDict [(''key'', PStr k), (''value'', v)]) d)
     | PList ops \<Rightarrow> normalized_ops ops
     | _ \<Rightarrow> Inl (ValueError ''updates must be an object or a list of operations''))"

section \<open>Rewriting\<close>

text \<open>The entry an unpinned operation addresses: the last active one of its key, else the last one.\<close>

definition address_entry :: "env_entry \<Rightarrow> (string, env_entry) dict \<Rightarrow> (string, env_entry) dict" where
  "address_entry e d = (case map_of d (e_key e) of
       None \<Rightarrow> AList.update (e_key e) e d
     | Some x \<Rightarrow> if e_enabled e \<or> \<not> e_enabled x then AList.update (e_key e) e d else d)"

definition addressed :: "env_entry list \<Rightarrow> (string, env_entry) dict" where
  "addressed es = fold address_entry es []"

definition at_line :: "env_entry list \<Rightarrow> nat \<Rightarrow> env_entry option" where
  "at_line es n = find (\<lambda>e. e_line e = n) es"

record edit =
  ed_lines :: "string list"
  ed_updated :: "string list"
  ed_deleted :: "string list"
  ed_enabled :: "string list"
  ed_appended :: "string list"

definition target_entry :: "env_entry list \<Rightarrow> env_op \<Rightarrow> env_entry option result" where
  "target_entry es p = (case o_line p of
       Some n \<Rightarrow> (case at_line es n of
           Some e \<Rightarrow> if e_key e = o_key p then Inr (Some e)
             else Inl (ValueError (''update for '' @ o_key p @ '' targets line '' @ dec_nat n @ '', which is not an entry for that variable''))
         | None \<Rightarrow> Inl (ValueError (''update for '' @ o_key p @ '' targets line '' @ dec_nat n @ '', which is not an entry for that variable'')))
     | None \<Rightarrow> Inr (map_of (addressed es) (o_key p)))"

definition marker :: "bool \<Rightarrow> string" where
  "marker on = (if on then [] else ''# '')"

text \<open>The new text of the line of an entry: \<open>was\<close> tells whether the entry was active when the file was read.\<close>

definition new_line :: "bool \<Rightarrow> string \<Rightarrow> string option \<Rightarrow> bool \<Rightarrow> string \<Rightarrow> string" where
  "new_line was k v on old =
     (let original = rstrip_newline old; nl = drop (length original) old;
          m = (if was then match_active original else match_commented original);
          ind = (case m of None \<Rightarrow> [] | Some x \<Rightarrow> m_indent x);
          ex = (case m of None \<Rightarrow> [] | Some x \<Rightarrow> m_export x);
          vc = (case m of None \<Rightarrow> ([], []) | Some x \<Rightarrow> split_value (m_rest x));
          new = (case v of None \<Rightarrow> fst vc | Some t \<Rightarrow> shell_literal t)
      in ind @ marker on @ ex @ k @ ''='' @ new @ snd vc @ nl)"

definition set_entry :: "string \<Rightarrow> string option \<Rightarrow> bool \<Rightarrow> env_entry \<Rightarrow> edit \<Rightarrow> edit" where
  "set_entry k v on e d = d\<lparr>
     ed_lines := (ed_lines d)[e_line e - 1 := new_line (e_enabled e) k v on (ed_lines d ! (e_line e - 1))],
     ed_enabled := ed_enabled d @ (if on \<and> \<not> e_enabled e then [k] else []),
     ed_updated := ed_updated d @ [k]\<rparr>"

definition append_entry :: "string \<Rightarrow> string \<Rightarrow> string option \<Rightarrow> bool \<Rightarrow> edit \<Rightarrow> edit" where
  "append_entry nl k v on d = d\<lparr>
     ed_appended := ed_appended d @ [marker on @ k @ ''='' @ shell_literal (case v of None \<Rightarrow> [] | Some s \<Rightarrow> s) @ nl],
     ed_enabled := ed_enabled d @ (if on then [k] else []),
     ed_updated := ed_updated d @ [k]\<rparr>"

definition apply_op :: "env_entry list \<Rightarrow> string \<Rightarrow> edit \<Rightarrow> env_op \<Rightarrow> edit result" where
  "apply_op es nl d p = bindE (target_entry es p) (\<lambda>t.
     if o_value p = None \<and> o_enabled p = None then (case t of
         None \<Rightarrow> Inl (ValueError (''cannot delete '' @ o_key p @ '': no such variable in the env file''))
       | Some e \<Rightarrow> Inr (d\<lparr>ed_lines := (ed_lines d)[e_line e - 1 := []], ed_deleted := ed_deleted d @ [o_key p]\<rparr>))
     else (case t of
         Some e \<Rightarrow> Inr (set_entry (o_key p) (o_value p) (o_enabled p = Some True) e d)
       | None \<Rightarrow> Inr (append_entry nl (o_key p) (o_value p) (o_enabled p = Some True) d)))"

definition dominant_newline :: "string list \<Rightarrow> string" where
  "dominant_newline ls = (if length ls < length (filter (ends_with [cr, lf]) ls) * 2 then [cr, lf] else [lf])"

definition close_last :: "string \<Rightarrow> string list \<Rightarrow> string list" where
  "close_last nl ls = (if ls \<noteq> [] \<and> \<not> (ends_with [lf] (last ls) \<or> ends_with [cr] (last ls))
     then butlast ls @ [last ls @ nl] else ls)"

definition rendered :: "string \<Rightarrow> edit \<Rightarrow> string" where
  "rendered nl d = concat (if ed_appended d = [] then ed_lines d else close_last nl (ed_lines d) @ ed_appended d)"

record file_stat =
  st_mtime :: rat
  st_ino :: nat
  st_size :: nat

definition rewrite :: "string \<Rightarrow> env_op list \<Rightarrow> (string \<times> edit) result" where
  "rewrite text ops =
     bindE (checkE (int (utf8_length text) \<le> env_file_limit) (ValueError ''env file exceeds 256 KiB'')) (\<lambda>_.
     let es = parse_env_file text; ls = lines_keep text; nl = dominant_newline ls in
     bindE (checkE (int (length es) \<le> env_entries_limit) (ValueError ''env file cannot contain more than 512 entries'')) (\<lambda>_.
     bindE (foldE (apply_op es nl) \<lparr>ed_lines = ls, ed_updated = [], ed_deleted = [], ed_enabled = [], ed_appended = []\<rparr> ops) (\<lambda>d.
     let out = rendered nl d in
     bindE (checkE (int (utf8_length out) \<le> env_file_limit) (ValueError ''updated env file would exceed 256 KiB'')) (\<lambda>_.
     bindE (checkE (int (length (parse_env_file out)) \<le> env_entries_limit) (ValueError ''updated env file would exceed 512 entries'')) (\<lambda>_.
     Inr (out, d))))))"

text \<open>The file afterwards and the reported changes; \<open>st0\<close> and \<open>st1\<close> are the two readings of its status.\<close>

definition apply_env_updates ::
  "bool \<Rightarrow> rat option \<Rightarrow> file_stat \<Rightarrow> file_stat \<Rightarrow> string \<Rightarrow> pyval \<Rightarrow> (string \<times> edit) result" where
  "apply_env_updates absolute expected st0 st1 text u =
     bindE (checkE absolute (ValueError ''env file path must be absolute'')) (\<lambda>_.
     bindE (normalized_updates u) (\<lambda>ops.
     bindE (checkE (case expected of None \<Rightarrow> True | Some m \<Rightarrow> st_mtime st0 = m)
       (RuntimeError ''changed on disk since it was read'')) (\<lambda>_.
     bindE (rewrite text ops) (\<lambda>r.
     bindE (checkE (st_mtime st1 = st_mtime st0 \<and> st_ino st1 = st_ino st0 \<and> st_size st1 = st_size st0)
       (RuntimeError ''changed on disk while it was being rewritten'')) (\<lambda>_. Inr r)))))"

section \<open>Controls of the editor\<close>

definition control_candidates :: "(string, string list) dict" where
  "control_candidates =
     [(''context_window'', [''MAX_MODEL_LEN'']),
      (''max_concurrency'', [''MAX_NUM_SEQS'']),
      (''max_num_batched_tokens'', [''MAX_NUM_BATCHED_TOKENS'']),
      (''kv_cache_dtype'', [''KV_CACHE_DTYPE'']),
      (''gpu_memory_utilization'', [''GPU_MEMORY_UTILIZATION'', ''GPU_MEMORY_UTILIZATION_TEXT'']),
      (''served_model_name'', [''SERVED_MODEL_NAME''])]"

definition field_mapping :: "env_entry list \<Rightarrow> (string, string) dict" where
  "field_mapping es = List.map_filter (\<lambda>(c, ks).
     map_option (Pair c) (find (\<lambda>k. k \<in> set (map e_key es)) ks)) control_candidates"

definition reject_unmapped :: "string \<Rightarrow> pyexc" where
  "reject_unmapped c = (case map_of control_candidates c of
       None \<Rightarrow> ValueError (''launch control '' @ [sq] @ c @ [sq] @ '' cannot be edited through the settings env file'')
     | Some ks \<Rightarrow> ValueError (''the settings env file has no variable backing '' @ [sq] @ c @ [sq] @ ''; add one of ''
         @ join_with '', '' ks @ '' to the file to edit it''))"

definition unset_update :: pyval where
  "unset_update = PDict [(''value'', PNone), (''enabled'', PBool False)]"

definition submit_control ::
  "(string, string) dict \<Rightarrow> (string, pyval) dict \<Rightarrow> string \<Rightarrow> pyval \<Rightarrow> (string, pyval) dict result" where
  "submit_control m u c v = (case map_of m c of
       None \<Rightarrow> Inl (reject_unmapped c)
     | Some k \<Rightarrow> Inr (AList.update k (PStr (py_str v)) u))"

definition control_update ::
  "(string, string) dict \<Rightarrow> (string, pyval) dict \<Rightarrow> string \<times> pyval \<Rightarrow> (string, pyval) dict result" where
  "control_update m u cv = (case cv of (c, v) \<Rightarrow>
     if v = PNone then Inr (case map_of m c of None \<Rightarrow> u | Some k \<Rightarrow> AList.update k unset_update u)
     else if v = PStr [] then Inr u
     else submit_control m u c v)"

definition scalar_update ::
  "(string, string) dict \<Rightarrow> (string, pyval) dict \<Rightarrow> string \<times> pyval \<Rightarrow> (string, pyval) dict result" where
  "scalar_update m u cv = (case cv of (c, v) \<Rightarrow>
     if v = PNone \<or> v = PStr [] \<and> c \<noteq> ''served_model_name'' then Inr u
     else submit_control m u c v)"

definition resolve_control_updates ::
  "(string, pyval) dict \<Rightarrow> pyval \<Rightarrow> pyval \<Rightarrow> env_entry list \<Rightarrow> (string, pyval) dict result" where
  "resolve_control_updates lc gpu name es = (let m = field_mapping es in
     bindE (foldE (control_update m) [] lc) (\<lambda>u.
       foldE (scalar_update m) u [(''gpu_memory_utilization'', gpu), (''served_model_name'', name)]))"

end
