(* ===== verification/Env_Reading.thy ===== *)
theory Env_Reading imports Env_File
begin

text \<open>
  Reading of a \<open>KEY=VALUE\<close> file: the lines of a text put together again, the entries of the lines, the
  entry that is effective for a variable, and the parts of a matched line.
\<close>

section \<open>Lines\<close>

lemma concat_lines: "concat (lines_keep s) = s"
proof (induction s rule: lines_keep.induct)
  case (2 c s)
  show ?case
  proof (cases "c = cr \<and> take 1 s = [lf]")
    case True
    then obtain u where "s = lf # u" by (cases s) auto
    then show ?thesis using "2.IH"(1)[OF True] True by simp
  next
    case False
    show ?thesis
    proof (cases "line_break c")
      case True
      then show ?thesis using "2.IH"(2)[OF False True] False by auto
    next
      case nb: False
      then show ?thesis using "2.IH"(3)[OF False nb] False by (auto split: list.splits)
    qed
  qed
qed simp

text \<open>A list of lines as \<open>splitlines(keepends=True)\<close> returns it: every line ends with its only terminator,
  except that the last line may have none.\<close>

definition no_break :: "string \<Rightarrow> bool" where
  "no_break b \<longleftrightarrow> (\<forall>c \<in> set b. \<not> line_break c)"

definition terminator :: "string \<Rightarrow> bool" where
  "terminator t \<longleftrightarrow> t = [cr, lf] \<or> (\<exists>c. t = [c] \<and> line_break c)"

definition terminated :: "string \<Rightarrow> bool" where
  "terminated l \<longleftrightarrow> (\<exists>b t. l = b @ t \<and> no_break b \<and> terminator t)"

fun proper_lines :: "string list \<Rightarrow> bool" where
  "proper_lines [] = True"
| "proper_lines [l] = (terminated l \<or> l \<noteq> [] \<and> no_break l)"
| "proper_lines (l # m # ls) = (terminated l \<and> \<not> (last l = cr \<and> take 1 m = [lf]) \<and> proper_lines (m # ls))"

lemma no_break_simps [simp]:
  "no_break []" "no_break (c # s) \<longleftrightarrow> \<not> line_break c \<and> no_break s"
  "no_break (a @ b) \<longleftrightarrow> no_break a \<and> no_break b"
  by (auto simp: no_break_def)

lemma breaks [simp]: "line_break cr" "line_break lf"
  by (simp_all add: line_break_def)

lemma terminator_cases:
  assumes "terminator t"
  obtains "t = [cr, lf]" | c where "t = [c]" "line_break c"
  using assms by (auto simp: terminator_def)

lemma lines_terminated:
  "no_break b \<Longrightarrow> terminator t \<Longrightarrow> \<not> (t = [cr] \<and> take 1 s = [lf]) \<Longrightarrow> lines_keep (b @ t @ s) = (b @ t) # lines_keep s"
proof (induction b)
  case Nil
  from Nil.prems(2) show ?case
    by (cases rule: terminator_cases) (use Nil.prems(3) in auto)
next
  case (Cons c b)
  then show ?case by auto
qed

lemma lines_unterminated: "no_break b \<Longrightarrow> b \<noteq> [] \<Longrightarrow> lines_keep b = [b]"
proof (induction b)
  case (Cons c b)
  then show ?case by (cases b) auto
qed simp

lemma proper_head: "proper_lines (m # ls) \<Longrightarrow> m \<noteq> []"
  by (cases ls) (auto simp: terminated_def terminator_def)

lemma lines_of_proper: "proper_lines ls \<Longrightarrow> lines_keep (concat ls) = ls"
proof (induction ls rule: proper_lines.induct)
  case (2 l)
  then consider b t where "l = b @ t" "no_break b" "terminator t" | "l \<noteq> []" "no_break l"
    by (auto simp: terminated_def)
  then show ?case
  proof cases
    case 1
    then show ?thesis using lines_terminated[of b t "[]"] by simp
  next
    case 2
    then show ?thesis using lines_unterminated[of l] by simp
  qed
next
  case (3 l m ls)
  then obtain b t where l: "l = b @ t" "no_break b" "terminator t" by (auto simp: terminated_def)
  obtain d m' where m: "m = d # m'" using proper_head 3(2) by (cases m) auto
  have "\<not> (t = [cr] \<and> take 1 (concat (m # ls)) = [lf])"
    using 3(2) l by (auto simp: m)
  then have "lines_keep (b @ t @ concat (m # ls)) = (b @ t) # lines_keep (concat (m # ls))"
    by (rule lines_terminated[OF l(2,3)])
  then show ?case using 3 l by simp
qed simp

lemma proper_cons:
  assumes "proper_lines ls" "terminated l" "\<not> (last l = cr \<and> take 1 (concat ls) = [lf])"
  shows "proper_lines (l # ls)"
proof (cases ls)
  case (Cons m ms)
  then obtain d m' where m: "m = d # m'" using proper_head[of m ms] assms(1) by (cases m) auto
  show ?thesis using assms unfolding Cons m by simp
qed (use assms in simp)

lemma not_both: "terminated l \<Longrightarrow> \<not> no_break l"
  by (auto simp: terminated_def terminator_def)

lemma terminator_terminated: "terminator t \<Longrightarrow> terminated t"
  unfolding terminated_def by (metis append_Nil no_break_simps(1))

lemma terminated_prepend: "terminated l \<Longrightarrow> \<not> line_break c \<Longrightarrow> terminated (c # l)"
  unfolding terminated_def by (metis append_Cons no_break_simps(2))

lemma proper_prepend: "proper_lines (l # ls) \<Longrightarrow> \<not> line_break c \<Longrightarrow> proper_lines ((c # l) # ls)"
proof (cases ls)
  case (Cons m ms)
  assume "proper_lines (l # ls)" "\<not> line_break c"
  moreover have "l \<noteq> []" using \<open>proper_lines (l # ls)\<close> Cons by (auto simp: terminated_def terminator_def)
  ultimately show ?thesis using Cons by (auto intro: terminated_prepend)
qed (auto intro: terminated_prepend)

lemma proper_lines_keep: "proper_lines (lines_keep s)"
proof (induction s rule: lines_keep.induct)
  case (2 c s)
  show ?case
  proof (cases "c = cr \<and> take 1 s = [lf]")
    case True
    have "terminated [cr, lf]" by (rule terminator_terminated) (simp add: terminator_def)
    then have "proper_lines ([cr, lf] # lines_keep (drop 1 s))" by (rule proper_cons[OF "2.IH"(1)[OF True]]) simp
    then show ?thesis using True by simp
  next
    case False
    show ?thesis
    proof (cases "line_break c")
      case True
      have "terminated [c]" using True by (intro terminator_terminated) (simp add: terminator_def)
      then show ?thesis using "2.IH"(2)[OF False True] False True by (auto intro!: proper_cons simp: concat_lines)
    next
      case nb: False
      then show ?thesis using "2.IH"(3)[OF False nb] False by (auto split: list.splits intro: proper_prepend)
    qed
  qed
qed simp

text \<open>Replacing the body of one line.\<close>

lemma proper_update:
  assumes "proper_lines ls" "i < length ls" "ls ! i = b @ t" "no_break b" "b \<noteq> []" "t = [] \<or> terminator t"
    "no_break b'" "b' \<noteq> []"
  shows "proper_lines (ls[i := b' @ t])"
  using assms
proof (induction ls arbitrary: i rule: proper_lines.induct)
  case (2 l)
  then show ?case by (auto simp: terminated_def)
next
  case (3 l m ls)
  have fin: "terminated (b' @ t)" if "terminated (b @ t)"
  proof -
    have "terminator t"
    proof (rule ccontr)
      assume "\<not> terminator t"
      then have "no_break (b @ t)" using 3 by auto
      then show False using that not_both by blast
    qed
    then show ?thesis using 3(8) by (auto simp: terminated_def)
  qed
  show ?case
  proof (cases i)
    case 0
    have "t \<noteq> []" using 3 0 by (auto simp: terminated_def terminator_def)
    then show ?thesis using 3 0 fin by simp
  next
    case (Suc j)
    have "proper_lines ((m # ls)[j := b' @ t])" using 3 Suc by auto
    moreover have "take 1 ((m # ls) ! j) = [lf] \<longleftrightarrow> False" if "j = 0"
      using that 3 Suc by (cases b) auto
    ultimately show ?thesis using 3 Suc
      by (cases j; cases b') auto
  qed
qed simp

section \<open>Entries of lines\<close>

lemma line_entry_line: "line_entry n l = Some e \<Longrightarrow> e_line e = n"
  by (auto simp: line_entry_def split: option.splits)

lemma line_entries_mem:
  "e \<in> set (line_entries n ls) \<Longrightarrow>
   n \<le> e_line e \<and> e_line e < n + length ls \<and> line_entry (e_line e) (ls ! (e_line e - n)) = Some e"
proof (induction ls arbitrary: n)
  case (Cons l ls)
  consider "line_entry n l = Some e" | "e \<in> set (line_entries (n + 1) ls)"
    using Cons.prems by (auto split: option.splits)
  then show ?case
  proof cases
    case 1
    then show ?thesis using line_entry_line[OF 1] by simp
  next
    case 2
    then show ?thesis using Cons.IH[OF 2] by (auto simp: nth_Cons' Suc_diff_le)
  qed
qed simp

lemma line_entries_update:
  assumes "e \<in> set (line_entries n ls)" "line_entry (e_line e) l' = Some e'"
  shows "line_entries n (ls[e_line e - n := l']) = map (\<lambda>x. if e_line x = e_line e then e' else x) (line_entries n ls)"
  using assms
proof (induction ls arbitrary: n)
  case (Cons l ls)
  have other: "map (\<lambda>x. if e_line x = e_line e then e' else x) xs = xs"
    if "\<And>x. x \<in> set xs \<Longrightarrow> e_line x \<noteq> e_line e" for xs
    using that by (intro map_idI) auto
  consider "line_entry n l = Some e" | "e \<in> set (line_entries (n + 1) ls)"
    using Cons.prems(1) by (auto split: option.splits)
  then show ?case
  proof cases
    case 1
    have "e_line x \<noteq> n" if "x \<in> set (line_entries (n + 1) ls)" for x
      using line_entries_mem[OF that] by simp
    then show ?thesis using 1 line_entry_line[OF 1] Cons.prems(2) other[of "line_entries (n + 1) ls"] by simp
  next
    case 2
    then have "n < e_line e" using line_entries_mem[OF 2] by simp
    then have "e_line e - n = Suc (e_line e - (n + 1))" by simp
    then have "(l # ls)[e_line e - n := l'] = l # ls[e_line e - (n + 1) := l']" by simp
    then show ?thesis using Cons.IH[OF 2 Cons.prems(2)] \<open>n < e_line e\<close>
      by (auto split: option.splits dest: line_entry_line)
  qed
qed simp

text \<open>The entry whose value the shell ends up with: the last active one, else the last one of the key.\<close>

definition effective :: "env_entry list \<Rightarrow> string \<Rightarrow> env_entry option" where
  "effective es k = (let on = filter (\<lambda>e. e_key e = k \<and> e_enabled e) es; all = filter (\<lambda>e. e_key e = k) es in
     if on \<noteq> [] then Some (last on) else if all \<noteq> [] then Some (last all) else None)"

lemma last_filter: "filter P xs \<noteq> [] \<Longrightarrow> P (last (filter P xs)) \<and> last (filter P xs) \<in> set xs"
  using last_in_set[of "filter P xs"] by auto

lemma effective_snoc:
  "effective (es @ [e]) k =
     (if e_key e \<noteq> k then effective es k
      else case effective es k of None \<Rightarrow> Some e
        | Some x \<Rightarrow> if e_enabled e \<or> \<not> e_enabled x then Some e else Some x)"
proof -
  let ?on = "filter (\<lambda>e. e_key e = k \<and> e_enabled e) es" and ?all = "filter (\<lambda>e. e_key e = k) es"
  consider "?all = []" "?on = []" | "?all \<noteq> []" "?on = []" "\<not> e_enabled (last ?all)" | "?all \<noteq> []" "?on \<noteq> []" "e_enabled (last ?on)"
    using last_filter[of "\<lambda>e. e_key e = k \<and> e_enabled e" es] last_filter[of "\<lambda>e. e_key e = k" es]
    by (auto simp: filter_empty_conv)
  then show ?thesis by cases (auto simp: effective_def Let_def)
qed

lemma addressed_effective: "map_of (addressed es) k = effective es k"
proof (induction es rule: rev_induct)
  case Nil
  then show ?case by (simp add: addressed_def effective_def)
next
  case (snoc e es)
  have "addressed (es @ [e]) = address_entry e (addressed es)" by (simp add: addressed_def)
  then show ?case using snoc
    by (cases "e_key e = k"; cases "effective es k"; cases "map_of (addressed es) (e_key e)")
      (auto simp: address_entry_def effective_snoc dict_simps)
qed

lemma effective_mem: "effective es k = Some e \<Longrightarrow> e \<in> set es \<and> e_key e = k"
  using last_filter[of "\<lambda>e. e_key e = k \<and> e_enabled e" es] last_filter[of "\<lambda>e. e_key e = k" es]
  by (auto simp: effective_def Let_def split: if_splits)

text \<open>Replacing the effective entry by an active one leaves it effective.\<close>

lemma last_filter_mark:
  "filter P xs \<noteq> [] \<Longrightarrow> last (filter P xs) = x \<Longrightarrow> \<exists>as bs. xs = as @ x # bs \<and> P x \<and> (\<forall>y \<in> set bs. \<not> P y)"
proof (induction xs rule: rev_induct)
  case (snoc y xs)
  show ?case
  proof (cases "P y")
    case True
    then show ?thesis using snoc.prems by force
  next
    case False
    then obtain as bs where "xs = as @ x # bs" "P x" "\<forall>y \<in> set bs. \<not> P y" using snoc by auto
    then show ?thesis using False by (intro exI[of _ as] exI[of _ "bs @ [y]"]) auto
  qed
qed simp

lemma effective_update:
  assumes "effective es k = Some e" "inj_on e_line (set es)" "e_key e' = k" "e_enabled e'"
  shows "effective (map (\<lambda>x. if e_line x = e_line e then e' else x) es) k = Some e'"
proof -
  let ?f = "\<lambda>x. if e_line x = e_line e then e' else x" and ?P = "\<lambda>e. e_key e = k \<and> e_enabled e"
  have e: "e \<in> set es" using effective_mem[OF assms(1)] by simp
  then have ne: "filter ?P (map ?f es) \<noteq> []" using assms(3,4) by (auto simp: filter_empty_conv)
  have same: "?f x = x" if "x \<in> set es" "x \<noteq> e" for x
    using that e assms(2) by (auto dest: inj_onD)
  have "last (filter ?P (map ?f es)) = e'"
  proof (cases "filter ?P es = []")
    case True
    have "x = e'" if "x \<in> set (filter ?P (map ?f es))" for x
      using that True by (auto simp: filter_empty_conv split: if_splits)
    then show ?thesis using last_in_set[OF ne] by blast
  next
    case False
    then have "last (filter ?P es) = e" using assms(1) by (simp add: effective_def)
    then obtain as bs where es: "es = as @ e # bs" "\<forall>y \<in> set bs. \<not> ?P y"
      using last_filter_mark[OF False] by blast
    have "e \<notin> set bs" using es effective_mem[OF assms(1)] False \<open>last (filter ?P es) = e\<close> last_filter[OF False] by auto
    then have "?f x = x" if "x \<in> set bs" for x using same[of x] that es \<open>e \<notin> set bs\<close> by (cases "x = e") auto
    then have "map ?f bs = bs" by (rule map_idI)
    then have "filter ?P (map ?f bs) = []" using es by (simp add: filter_empty_conv)
    then show ?thesis using assms(3,4) unfolding es by simp
  qed
  then show ?thesis using ne by (simp add: effective_def)
qed

section \<open>Matching a line\<close>

lemma key_char_not_blank: "key_char c \<Longrightarrow> \<not> blank c \<and> \<not> py_space c \<and> c \<noteq> CHR ''='' \<and> c \<noteq> CHR ''#'' \<and> \<not> line_break c"
  by (auto simp: key_char_def key_start_def ascii_letter_def is_digit_def blank_def py_space_def line_break_def Let_def)

lemma blank_space: "blank c \<Longrightarrow> py_space c \<and> \<not> line_break c"
  by (auto simp: blank_def py_space_def line_break_def)

lemma match_key_parts:
  assumes "match_key ind ex s = Some m"
  shows "m_indent m = ind \<and> m_export m = ex \<and> key_name (m_key m) \<and>
    (\<exists>b. s = m_key m @ b @ ''='' @ m_rest m \<and> list_all blank b)"
proof -
  let ?r = "dropWhile blank (dropWhile key_char s)"
  have m: "key_name (takeWhile key_char s)" "take 1 ?r = ''=''"
    "m = \<lparr>m_indent = ind, m_export = ex, m_key = takeWhile key_char s, m_rest = drop 1 ?r\<rparr>"
    using assms by (auto simp: match_key_def Let_def split: if_splits)
  then have "?r = ''='' @ m_rest m" by (cases ?r) auto
  then have "s = takeWhile key_char s @ takeWhile blank (dropWhile key_char s) @ ''='' @ m_rest m"
    by (metis takeWhile_dropWhile_id)
  then show ?thesis using m by (metis (no_types, lifting) line_match.select_convs(1-3) list_all_iff set_takeWhileD)
qed

definition export_word :: "string \<Rightarrow> bool" where
  "export_word ex \<longleftrightarrow> ex = [] \<or> (\<exists>b. ex = ''export'' @ b \<and> b \<noteq> [] \<and> list_all blank b)"

lemma match_assignment_parts:
  assumes "match_assignment ind s = Some m"
  shows "m_indent m = ind \<and> export_word (m_export m) \<and> key_name (m_key m) \<and>
    (\<exists>b. s = m_export m @ m_key m @ b @ ''='' @ m_rest m \<and> list_all blank b)"
proof -
  let ?b = "takeWhile blank (drop 6 s)"
  consider "match_key ind [] s = Some m"
    | "starts_with ''export'' s" "?b \<noteq> []" "match_key ind (''export'' @ ?b) (dropWhile blank (drop 6 s)) = Some m"
    using assms by (auto simp: match_assignment_def Let_def split: if_splits option.splits)
  then show ?thesis
  proof cases
    case 1
    then show ?thesis using match_key_parts[OF 1] by (simp add: export_word_def)
  next
    case 2
    then have "s = ''export'' @ ?b @ dropWhile blank (drop 6 s)" by (auto simp: starts_with_iff)
    moreover have "list_all blank ?b" by (metis list_all_iff set_takeWhileD)
    ultimately show ?thesis using match_key_parts[OF 2(3)] 2(2) by (force simp: export_word_def)
  qed
qed

lemma match_key_build:
  assumes "key_name k"
  shows "match_key ind ex (k @ ''='' @ r) = Some \<lparr>m_indent = ind, m_export = ex, m_key = k, m_rest = r\<rparr>"
proof -
  have "key_char c" if "c \<in> set k" for c using assms that by (auto simp: key_name_def list_all_iff)
  moreover have "\<not> key_char (CHR ''='')" using key_char_not_blank by blast
  ultimately have "takeWhile key_char (k @ ''='' @ r) = k" "dropWhile key_char (k @ ''='' @ r) = ''='' @ r"
    by (simp_all add: takeWhile_append2 dropWhile_append2)
  then show ?thesis using assms by (simp add: match_key_def blank_def)
qed

lemma starts_with_within: "starts_with p (k @ c # r) \<Longrightarrow> c \<notin> set p \<Longrightarrow> length p \<le> length k"
proof (induction p arbitrary: k)
  case (Cons d p)
  then show ?case by (cases k) auto
qed simp

lemma match_assignment_build:
  assumes "key_name k" "export_word ex"
  shows "match_assignment ind (ex @ k @ ''='' @ r) = Some \<lparr>m_indent = ind, m_export = ex, m_key = k, m_rest = r\<rparr>"
proof -
  have kc: "key_char c" if "c \<in> set k" for c using assms(1) that by (auto simp: key_name_def list_all_iff)
  from assms(2) consider "ex = []" | b where "ex = ''export'' @ b" "b \<noteq> []" "list_all blank b"
    by (auto simp: export_word_def)
  then show ?thesis
  proof cases
    case 1
    let ?s = "k @ ''='' @ r"
    have "takeWhile blank (drop 6 ?s) = []" if "starts_with ''export'' ?s"
    proof -
      have "length ''export'' \<le> length k"
        using that by (intro starts_with_within[of "''export''" k "CHR ''=''" r]) simp_all
      then have "drop 6 ?s = drop 6 k @ ''='' @ r" by simp
      moreover have "\<not> blank (hd (drop 6 k @ ''='' @ r))"
      proof (cases "drop 6 k")
        case (Cons c u)
        then have "c \<in> set k" by (metis in_set_dropD list.set_intros(1))
        then show ?thesis using Cons kc[of c] key_char_not_blank[of c] by simp
      qed (simp add: blank_def)
      ultimately show ?thesis by (cases "drop 6 ?s") auto
    qed
    then show ?thesis using 1 assms match_key_build by (auto simp: match_assignment_def Let_def)
  next
    case 2
    have hd: "\<not> blank (hd k)" "k \<noteq> []" using assms(1) kc key_char_not_blank by (auto simp: key_name_def)
    then have "takeWhile blank (b @ k @ ''='' @ r) = b" "dropWhile blank (b @ k @ ''='' @ r) = k @ ''='' @ r"
      using 2(3) by (cases k; auto simp: list_all_iff takeWhile_append2 dropWhile_append2)+
    then show ?thesis using 2 match_key_build[OF assms(1)]
      by (simp add: match_assignment_def Let_def starts_with_iff)
  qed
qed


lemma match_line_parts:
  assumes "match_active l = Some m \<or> match_commented l = Some m"
  shows "list_all py_space (m_indent m)" "export_word (m_export m)" "key_name (m_key m)"
    "set (m_indent m) \<union> set (m_export m) \<union> set (m_key m) \<union> set (m_rest m) \<subseteq> set l"
proof -
  obtain s where s: "match_assignment (takeWhile py_space l) s = Some m" "set s \<subseteq> set l"
  proof (cases "match_active l")
    case None
    let ?t = "dropWhile py_space l"
    have "match_assignment (takeWhile py_space l) (dropWhile blank (drop 1 ?t)) = Some m"
      using assms None by (auto simp: match_commented_def Let_def split: if_splits)
    moreover have "set (dropWhile blank (drop 1 ?t)) \<subseteq> set l"
      by (meson in_set_dropD set_dropWhileD subsetI)
    ultimately show ?thesis by (rule that)
  next
    case (Some m')
    show ?thesis
    proof (cases "m = m'")
      case True
      then show ?thesis using Some that[of "dropWhile py_space l"] by (auto simp: match_active_def dest: set_dropWhileD)
    next
      case False
      then have "match_commented l = Some m" using assms Some by auto
      then show ?thesis using that[of "dropWhile blank (drop 1 (dropWhile py_space l))"]
        by (auto simp: match_commented_def Let_def split: if_splits dest: set_dropWhileD in_set_dropD)
    qed
  qed
  have "set (takeWhile py_space l) \<subseteq> set l" by (meson set_takeWhileD subsetI)
  moreover obtain b where "s = m_export m @ m_key m @ b @ ''='' @ m_rest m" "list_all blank b"
    "m_indent m = takeWhile py_space l" "export_word (m_export m)" "key_name (m_key m)"
    using match_assignment_parts[OF s(1)] by blast
  ultimately show "list_all py_space (m_indent m)" "export_word (m_export m)" "key_name (m_key m)"
    "set (m_indent m) \<union> set (m_export m) \<union> set (m_key m) \<union> set (m_rest m) \<subseteq> set l"
    using s(2) by (auto simp: list_all_iff dest: set_takeWhileD)
qed

lemma match_active_build:
  assumes "list_all py_space ind" "export_word ex" "key_name k"
  shows "match_active (ind @ ex @ k @ ''='' @ r) = Some \<lparr>m_indent = ind, m_export = ex, m_key = k, m_rest = r\<rparr>"
proof -
  let ?t = "ex @ k @ ''='' @ r"
  have "k \<noteq> []" "\<not> py_space (hd k)"
    using assms(3) key_char_not_blank[of "hd k"] by (auto simp: key_name_def key_char_def)
  then have "?t \<noteq> []" "\<not> py_space (hd ?t)"
    using assms(2) by (cases k; auto simp: export_word_def py_space_def)+
  then have "takeWhile py_space (ind @ ?t) = ind" "dropWhile py_space (ind @ ?t) = ?t"
    using assms(1) by (cases ?t; auto simp: list_all_iff takeWhile_append2 dropWhile_append2)+
  then show ?thesis using match_assignment_build[OF assms(3,2)] by (simp add: match_active_def)
qed

section \<open>Values\<close>

lemma split_value_subset: "set (snd (split_value r)) \<subseteq> set r"
proof -
  have dbl: "close_double t = Some (v, u) \<Longrightarrow> set u \<subseteq> set t" for t v u
    by (induction t arbitrary: v rule: close_double.induct) (fastforce split: if_splits list.splits)+
  have cmt: "set (snd (split_comment t)) \<subseteq> set t" for t
    by (induction t) (auto simp: case_prod_beta Let_def)
  have behind: "set (drop 1 (dropWhile (\<lambda>c. c \<noteq> sq) (drop 1 t))) \<subseteq> set t" for t
    by (meson in_set_dropD set_dropWhileD subsetI)
  have "set (py_lstrip r) \<subseteq> set r" by (auto simp: py_lstrip_def dest: set_dropWhileD)
  moreover have "set (snd (split_value r)) \<subseteq> set (py_lstrip r)"
    using dbl[of "drop 1 (py_lstrip r)"] cmt[of "py_lstrip r"] behind[of "py_lstrip r"]
    by (auto simp: split_value_def Let_def split: option.splits dest: in_set_dropD set_dropWhileD)
  ultimately show ?thesis by blast
qed

text \<open>What may stand behind a value without becoming part of it.\<close>

definition clean_tail :: "string \<Rightarrow> bool" where
  "clean_tail t \<longleftrightarrow> t = [] \<or> py_space (hd t) \<and> take 1 (dropWhile py_space t) = ''#''"

text \<open>The tail of an unquoted value is clean.\<close>

lemma split_comment_tail: "clean_tail (snd (split_comment t))"
  by (induction t) (auto simp: clean_tail_def case_prod_beta Let_def)

lemma literal_safe_char: "literal_safe c \<Longrightarrow> \<not> py_space c \<and> c \<noteq> sq \<and> c \<noteq> dq \<and> c \<noteq> bs \<and> shlex_safe c"
  by (auto simp: literal_safe_def shlex_safe_def ascii_letter_def is_digit_def py_space_def Let_def)

lemma split_comment_word: "\<forall>c \<in> set w. \<not> py_space c \<Longrightarrow> clean_tail t \<Longrightarrow> split_comment (w @ t) = (w, t)"
proof (induction w)
  case Nil
  then show ?case by (cases t) (auto simp: clean_tail_def)
qed simp

lemma shell_literal_cases:
  "shell_literal v = v \<and> list_all literal_safe v \<or>
   shell_literal v = sq # concat (map (\<lambda>c. if c = sq then [sq, bs, sq, sq] else [c]) v) @ [sq]"
  by (auto simp: shell_literal_def)

lemma split_value_literal:
  assumes "v \<noteq> []" "sq \<notin> set v" "clean_tail t"
  shows "split_value (shell_literal v @ t) = (shell_literal v, t)"
proof -
  have id: "concat (map (\<lambda>c. if c = sq then [sq, bs, sq, sq] else [c]) v) = v"
    using assms(2) by (induction v) auto
  from shell_literal_cases[of v] show ?thesis
  proof
    assume a: "shell_literal v = v \<and> list_all literal_safe v"
    then have safe: "\<forall>c \<in> set v. \<not> py_space c \<and> c \<noteq> sq \<and> c \<noteq> dq"
      using literal_safe_char by (auto simp: list_all_iff)
    obtain c u where "v = c # u" using assms(1) by (cases v) auto
    then have "py_lstrip (v @ t) = v @ t" "take 1 (v @ t) = [c]" "c \<noteq> sq" "c \<noteq> dq"
      using safe by (auto simp: py_lstrip_def)
    then show ?thesis using a split_comment_word[of v t] safe assms(3) by (simp add: split_value_def)
  next
    assume "shell_literal v = sq # concat (map (\<lambda>c. if c = sq then [sq, bs, sq, sq] else [c]) v) @ [sq]"
    then have "shell_literal v @ t = sq # v @ sq # t" using id by simp
    moreover have "\<not> py_space sq" by (simp add: py_space_def)
    moreover have "takeWhile (\<lambda>c. c \<noteq> sq) (v @ sq # t) = v" using assms(2) by (induction v) auto
    moreover have "dropWhile (\<lambda>c. c \<noteq> sq) (v @ sq # t) = sq # t" using assms(2) by (induction v) auto
    ultimately show ?thesis using id \<open>shell_literal v = _\<close> by (simp add: split_value_def py_lstrip_def)
  qed
qed

text \<open>The shell reads the literal as one word, the submitted value.\<close>

end
