(* ===== verification/Env_Update.thy ===== *)
theory Env_Update imports Env_Reading
begin

text \<open>
  Rewriting of a \<open>KEY=VALUE\<close> file: the written literal as the shell reads it, the lines an update leaves
  alone, and the entries of the rewritten text.
\<close>

section \<open>The literal in the shell\<close>

abbreviation literal_body :: "string \<Rightarrow> string" where
  "literal_body v \<equiv> concat (map (\<lambda>c. if c = sq then [sq, bs, sq, sq] else [c]) v)"

lemma literal_body_split: "shlex_loop (InQuote sq) True tok (literal_body v @ [sq]) = Inr [tok @ v]"
  by (induction v arbitrary: tok) (simp_all add: shlex_space_def)

lemma literal_split: "v \<noteq> [] \<Longrightarrow> shlex_split (shell_literal v) = Inr [v]"
proof -
  assume ne: "v \<noteq> []"
  from shell_literal_cases[of v] show ?thesis
  proof
    assume a: "shell_literal v = v \<and> list_all literal_safe v"
    then have "\<forall>c \<in> set v. shlex_safe c" using literal_safe_char by (auto simp: list_all_iff)
    then show ?thesis using a ne split_enter_safe[of v False "[]" "[]"] split_safe[of v False "[]" "[]"]
      by (simp add: shlex_split_def)
  next
    assume "shell_literal v = sq # literal_body v @ [sq]"
    then show ?thesis using literal_body_split[of "[]" v] by (simp add: shlex_split_def shlex_space_def)
  qed
qed

text \<open>Nothing in the literal is open to expansion: outside single quotes there are only harmless characters.\<close>

definition inert :: "string \<Rightarrow> bool" where
  "inert t = list_all (\<lambda>l. case l of Plain c \<Rightarrow> literal_safe c | Opening c \<Rightarrow> c = sq | _ \<Rightarrow> True) (lexemes Bare t)"

lemma literal_inert: "inert (shell_literal v)"
proof -
  have plain: "lexemes Bare w = map Plain w" if "list_all literal_safe w" for w
    using that by (induction w) (auto dest: literal_safe_char)
  let ?ok = "\<lambda>l. case l of Plain c \<Rightarrow> literal_safe c | Opening c \<Rightarrow> c = sq | _ \<Rightarrow> True"
  have body: "list_all ?ok (lexemes Single (literal_body w @ [sq]))" for w
    by (induction w) simp_all
  from shell_literal_cases[of v] show ?thesis
  proof
    assume "shell_literal v = v \<and> list_all literal_safe v"
    then show ?thesis using plain[of v] by (auto simp: inert_def list_all_iff)
  qed (use body in \<open>simp add: inert_def\<close>)
qed

section \<open>The rewriting\<close>

text \<open>The line numbers an operation can touch.\<close>

definition addresses :: "env_entry list \<Rightarrow> env_op \<Rightarrow> nat \<Rightarrow> bool" where
  "addresses es p n = (case target_entry es p of Inr (Some e) \<Rightarrow> e_line e = n | _ \<Rightarrow> False)"

lemma apply_op_delete:
  assumes "target_entry es p = Inr t" "o_value p = None \<and> o_enabled p = None"
  shows "apply_op es nl d p = (case t of
     None \<Rightarrow> Inl (ValueError (''cannot delete '' @ o_key p @ '': no such variable in the env file''))
   | Some e \<Rightarrow> Inr (d\<lparr>ed_lines := (ed_lines d)[e_line e - 1 := []], ed_deleted := ed_deleted d @ [o_key p]\<rparr>))"
  unfolding apply_op_def assms(1) bindE.simps by (rule if_P[OF assms(2)])

lemma apply_op_write:
  assumes "target_entry es p = Inr t" "\<not> (o_value p = None \<and> o_enabled p = None)"
  shows "apply_op es nl d p = (case t of
     Some e \<Rightarrow> Inr (set_entry (o_key p) (o_value p) (o_enabled p = Some True) e d)
   | None \<Rightarrow> Inr (append_entry nl (o_key p) (o_value p) (o_enabled p = Some True) d))"
  unfolding apply_op_def assms(1) bindE.simps by (rule if_not_P[OF assms(2)])

lemma target_line:
  assumes "target_entry es p = Inr (Some e)"
  shows "e \<in> set es"
  using assms effective_mem[of es "o_key p" e]
  by (auto simp: target_entry_def at_line_def addressed_effective find_Some_iff split: option.splits if_splits)

lemma apply_op_lines:
  assumes "apply_op es nl d p = Inr d'" "\<forall>e \<in> set es. 1 \<le> e_line e"
  shows "length (ed_lines d') = length (ed_lines d) \<and>
    (\<forall>i. \<not> addresses es p (i + 1) \<longrightarrow> ed_lines d' ! i = ed_lines d ! i)"
proof -
  from assms(1) obtain t where t: "target_entry es p = Inr t"
    by (auto simp: apply_op_def except_simps)
  have "(\<exists>e x. t = Some e \<and> ed_lines d' = (ed_lines d)[e_line e - 1 := x]) \<or> t = None \<and> ed_lines d' = ed_lines d"
  proof (cases "o_value p = None \<and> o_enabled p = None")
    case True
    then show ?thesis using assms(1) apply_op_delete[OF t True] by (cases t) auto
  next
    case False
    then show ?thesis using assms(1) apply_op_write[OF t False]
      by (cases t) (auto simp: set_entry_def append_entry_def)
  qed
  then show ?thesis
  proof
    assume "\<exists>e x. t = Some e \<and> ed_lines d' = (ed_lines d)[e_line e - 1 := x]"
    then obtain e x where e: "t = Some e" "ed_lines d' = (ed_lines d)[e_line e - 1 := x]" by blast
    then have "1 \<le> e_line e" using t target_line[of es p e] assms(2) by simp
    moreover have "addresses es p n \<longleftrightarrow> e_line e = n" for n using t e(1) by (simp add: addresses_def)
    ultimately show ?thesis unfolding e(2) by (auto simp: nth_list_update)
  qed simp
qed

lemma apply_ops_lines:
  assumes "foldE (apply_op es nl) d ops = Inr d'" "\<forall>e \<in> set es. 1 \<le> e_line e"
  shows "length (ed_lines d') = length (ed_lines d) \<and>
    (\<forall>i. (\<forall>p \<in> set ops. \<not> addresses es p (i + 1)) \<longrightarrow> ed_lines d' ! i = ed_lines d ! i)"
  using assms(1)
proof (induction ops arbitrary: d)
  case (Cons p ops)
  then obtain d1 where d1: "apply_op es nl d p = Inr d1" "foldE (apply_op es nl) d1 ops = Inr d'"
    by (auto simp: except_simps)
  show ?case using apply_op_lines[OF d1(1) assms(2)] Cons.IH[OF d1(2)] by auto
qed simp

lemma parse_lines_positive: "\<forall>e \<in> set (parse_env_file t). 1 \<le> e_line e"
  using line_entries_mem by (auto simp: parse_env_file_def)

lemma rewrite_parts:
  assumes "rewrite text ops = Inr (out, d)"
  shows "foldE (apply_op (parse_env_file text) (dominant_newline (lines_keep text)))
      \<lparr>ed_lines = lines_keep text, ed_updated = [], ed_deleted = [], ed_enabled = [], ed_appended = []\<rparr> ops = Inr d"
    "out = rendered (dominant_newline (lines_keep text)) d"
    "int (utf8_length out) \<le> env_file_limit" "int (length (parse_env_file out)) \<le> env_entries_limit"
  using assms by (auto simp: rewrite_def except_simps Let_def)

lemma apply_parts:
  assumes "apply_env_updates absolute expected st0 st1 text u = Inr (out, d)"
  shows "\<exists>ops. normalized_updates u = Inr ops \<and> rewrite text ops = Inr (out, d)"
  using assms by (auto simp: apply_env_updates_def except_simps)

definition env_demo :: string where
  "env_demo = ''# notes'' @ [lf] @ ''export A=1 # first'' @ [cr, lf] @ ''B=2''"

definition stat_demo :: file_stat where
  "stat_demo = \<lparr>st_mtime = 5, st_ino = 1, st_size = 30\<rparr>"

lemma proper_mem: "proper_lines ls \<Longrightarrow> l \<in> set ls \<Longrightarrow> terminated l \<or> no_break l"
  by (induction ls rule: proper_lines.induct) auto

lemma line_body_parts:
  assumes "no_break b" "t = [] \<or> terminator t"
  shows "line_body (b @ t) = b"
proof -
  have last: "\<not> line_break (last b)" if "b \<noteq> []" using assms(1) that by (auto simp: no_break_def)
  have two: "\<not> ends_with [cr, lf] (b @ [c])" for c
  proof
    assume "ends_with [cr, lf] (b @ [c])"
    then obtain u where "b @ [c] = (u @ [cr]) @ [lf]" by (auto simp: ends_with_iff)
    then show False using last by (metis append1_eq_conv breaks(1) last_snoc snoc_eq_iff_butlast)
  qed
  consider "t = []" | "t = [cr, lf]" | c where "t = [c]" "line_break c"
    using assms(2) by (auto simp: terminator_def)
  then show ?thesis
  proof cases
    case 1
    then show ?thesis using last by (auto simp: line_body_def)
  next
    case 2
    then have "ends_with [cr, lf] (b @ t)" by (auto simp: ends_with_iff)
    moreover have "butlast (butlast (b @ t)) = b" using 2 by (simp add: butlast_append)
    ultimately show ?thesis using 2 by (simp add: line_body_def)
  next
    case 3
    then show ?thesis using two by (simp add: line_body_def)
  qed
qed

text \<open>A text whose only line breaks are \<open>CR\<close> and \<open>LF\<close>.\<close>

definition plain_breaks :: "string \<Rightarrow> bool" where
  "plain_breaks s = list_all (\<lambda>c. line_break c \<longrightarrow> c = cr \<or> c = lf) s"

lemma rstrip_parts:
  assumes "no_break b" "t = [] \<or> terminator t" "plain_breaks t"
  shows "rstrip_newline (b @ t) = b"
proof -
  have "\<forall>c \<in> set t. c = cr \<or> c = lf"
    using assms(2,3) by (auto simp: terminator_def plain_breaks_def)
  then have "dropWhile (\<lambda>c. c = cr \<or> c = lf) (rev t @ rev b) = dropWhile (\<lambda>c. c = cr \<or> c = lf) (rev b)"
    by (subst dropWhile_append2) auto
  moreover have "dropWhile (\<lambda>c. c = cr \<or> c = lf) (rev b) = rev b"
  proof (cases b rule: rev_cases)
    case (snoc u c)
    then show ?thesis using assms(1) by auto
  qed simp
  ultimately show ?thesis by (simp add: rstrip_newline_def)
qed

lemma line_parts:
  assumes "l \<in> set (lines_keep s)" "plain_breaks s"
  shows "\<exists>b t. l = b @ t \<and> no_break b \<and> (t = [] \<or> terminator t) \<and> line_body l = b \<and> rstrip_newline l = b"
proof -
  obtain b t where bt: "l = b @ t" "no_break b" "t = [] \<or> terminator t"
    using proper_mem[OF proper_lines_keep assms(1)] by (auto simp: terminated_def)
  have "set l \<subseteq> set s" using assms(1) by (metis UN_upper concat_lines set_concat)
  then have "plain_breaks t" using assms(2) bt(1) by (auto simp: plain_breaks_def list_all_iff)
  then show ?thesis using bt line_body_parts[OF bt(2,3)] rstrip_parts[OF bt(2,3)] by blast
qed

text \<open>What stands behind the value of a line.\<close>

definition line_tail :: "bool \<Rightarrow> string \<Rightarrow> string" where
  "line_tail was b = (case if was then match_active b else match_commented b of
     None \<Rightarrow> [] | Some x \<Rightarrow> snd (split_value (m_rest x)))"

lemma entry_match:
  assumes "line_entry n b = Some e"
  shows "\<exists>m. (if e_enabled e then match_active b else match_commented b) = Some m \<and> m_key m = e_key e"
  using assms by (auto simp: line_entry_def split: option.splits)

lemma literal_no_break: "no_break v \<Longrightarrow> no_break (shell_literal v)"
proof -
  assume v: "no_break v"
  have "\<not> line_break sq" "\<not> line_break bs" by (simp_all add: line_break_def)
  then have "no_break (literal_body w)" if "no_break w" for w using that by (induction w) auto
  then show ?thesis using v shell_literal_cases[of v] \<open>\<not> line_break sq\<close> by auto
qed

text \<open>The rewritten line reads as the entry with the new value.\<close>

lemma new_line_reads:
  assumes entry: "line_entry n b = Some e" and b: "no_break b"
    and l: "rstrip_newline l = b" "l = b @ t"
    and v: "v \<noteq> []" "sq \<notin> set v" "no_break v" and tail: "clean_tail (line_tail (e_enabled e) b)"
  shows "\<exists>b'. new_line (e_enabled e) (e_key e) (Some v) True l = b' @ t \<and> no_break b' \<and> b' \<noteq> [] \<and>
    line_entry n b' = Some (e\<lparr>e_value := shell_literal v, e_enabled := True\<rparr>)"
proof -
  obtain m where m: "(if e_enabled e then match_active b else match_commented b) = Some m" "m_key m = e_key e"
    using entry_match[OF entry] by blast
  have parts: "list_all py_space (m_indent m)" "export_word (m_export m)" "key_name (m_key m)"
    "set (m_indent m) \<union> set (m_export m) \<union> set (m_key m) \<union> set (m_rest m) \<subseteq> set b"
    using match_line_parts[of b m] m(1) by (auto split: if_splits)
  let ?tail = "snd (split_value (m_rest m))"
  let ?b = "m_indent m @ m_export m @ e_key e @ ''='' @ (shell_literal v @ ?tail)"
  have new: "new_line (e_enabled e) (e_key e) (Some v) True l = ?b @ t"
    unfolding new_line_def Let_def l(1) m(1) by (simp add: l(2) marker_def)
  have "no_break x" if "set x \<subseteq> set b" for x using b that by (auto simp: no_break_def)
  moreover have "set ?tail \<subseteq> set b" using split_value_subset[of "m_rest m"] parts(4) by blast
  moreover have "\<not> line_break (CHR ''='')" by (simp add: line_break_def)
  ultimately have nb: "no_break ?b"
    using parts(4) m(2) literal_no_break[OF v(3)] by simp
  have "clean_tail ?tail" using tail m(1) by (simp add: line_tail_def)
  then have "split_value (shell_literal v @ ?tail) = (shell_literal v, ?tail)"
    by (rule split_value_literal[OF v(1,2)])
  moreover have "match_active ?b = Some \<lparr>m_indent = m_indent m, m_export = m_export m, m_key = e_key e,
      m_rest = shell_literal v @ ?tail\<rparr>"
    using match_active_build[OF parts(1-3)] unfolding m(2) .
  ultimately have "line_entry n ?b = Some (e\<lparr>e_value := shell_literal v, e_enabled := True\<rparr>)"
    using line_entry_line[OF entry] by (simp add: line_entry_def)
  then show ?thesis using new nb by (intro exI[of _ ?b]) simp
qed

lemma set_entry_reads:
  assumes e: "effective (parse_env_file text) k = Some e" and plain: "plain_breaks text"
    and v: "v \<noteq> []" "sq \<notin> set v" "no_break v"
    and tail: "clean_tail (line_tail (e_enabled e) (splitlines text ! (e_line e - 1)))"
    and d: "ed_lines d = lines_keep text" "ed_appended d = []"
  shows "parse_env_file (rendered nl (set_entry k (Some v) True e d)) =
    map (\<lambda>x. if e_line x = e_line e then e\<lparr>e_value := shell_literal v, e_enabled := True\<rparr> else x) (parse_env_file text)"
proof -
  let ?ls = "lines_keep text" and ?i = "e_line e - 1"
  have mem: "e \<in> set (line_entries 1 (map line_body ?ls))" and key: "e_key e = k"
    using effective_mem[OF e] by (auto simp: parse_env_file_def splitlines_def)
  have i: "?i < length ?ls" "line_entry (e_line e) (line_body (?ls ! ?i)) = Some e" "1 \<le> e_line e"
    using line_entries_mem[OF mem] by auto
  obtain b t where bt: "?ls ! ?i = b @ t" "no_break b" "t = [] \<or> terminator t"
    "line_body (?ls ! ?i) = b" "rstrip_newline (?ls ! ?i) = b"
    using line_parts[OF nth_mem[OF i(1)] plain] by blast
  have "clean_tail (line_tail (e_enabled e) b)" using tail i(1) bt(4) by (simp add: splitlines_def)
  then obtain b' where b': "new_line (e_enabled e) (e_key e) (Some v) True (?ls ! ?i) = b' @ t" "no_break b'" "b' \<noteq> []"
    "line_entry (e_line e) b' = Some (e\<lparr>e_value := shell_literal v, e_enabled := True\<rparr>)"
    using new_line_reads[OF _ bt(2,5,1) v] i(2) bt(4) by metis
  have "b \<noteq> []" using i(2) bt(4) by (auto simp: line_entry_def match_active_def match_commented_def
      match_assignment_def match_key_def key_name_def)
  then have "proper_lines (?ls[?i := b' @ t])"
    by (rule proper_update[OF proper_lines_keep i(1) bt(1,2) _ bt(3) b'(2,3)])
  then have "lines_keep (concat (?ls[?i := b' @ t])) = ?ls[?i := b' @ t]" by (rule lines_of_proper)
  moreover have "rendered nl (set_entry k (Some v) True e d) = concat (?ls[?i := b' @ t])"
    using d b'(1) key by (simp add: rendered_def set_entry_def)
  ultimately have "splitlines (rendered nl (set_entry k (Some v) True e d)) = (map line_body ?ls)[e_line e - 1 := b']"
    using line_body_parts[OF b'(2) bt(3)] by (simp add: splitlines_def map_update)
  then show ?thesis using line_entries_update[OF mem b'(4)] by (simp add: parse_env_file_def splitlines_def)
qed

lemma inj_lines: "inj_on e_line (set (parse_env_file t))"
proof (rule inj_onI)
  fix x y
  assume x: "x \<in> set (parse_env_file t)" and y: "y \<in> set (parse_env_file t)" and xy: "e_line x = e_line y"
  have "Some x = Some y"
    using line_entries_mem[of x 1 "splitlines t"] line_entries_mem[of y 1 "splitlines t"] x y xy
    unfolding parse_env_file_def by metis
  then show "x = y" by simp
qed

lemma apply_op_appended:
  assumes "apply_op es nl d p = Inr d'"
  shows "length (ed_appended d') = length (ed_appended d) + (if target_entry es p = Inr None then 1 else 0)"
proof -
  from assms obtain t where t: "target_entry es p = Inr t" by (auto simp: apply_op_def except_simps)
  show ?thesis
  proof (cases "o_value p = None \<and> o_enabled p = None")
    case True
    then show ?thesis using assms apply_op_delete[OF t True] t by (cases t) auto
  next
    case False
    then show ?thesis using assms apply_op_write[OF t False] t
      by (cases t) (auto simp: set_entry_def append_entry_def)
  qed
qed

lemma apply_ops_appended:
  "foldE (apply_op es nl) d ops = Inr d' \<Longrightarrow>
   length (ed_appended d') = length (ed_appended d) + length (filter (\<lambda>p. target_entry es p = Inr None) ops)"
proof (induction ops arbitrary: d)
  case (Cons p ops)
  then obtain d1 where d1: "apply_op es nl d p = Inr d1" "foldE (apply_op es nl) d1 ops = Inr d'"
    by (auto simp: except_simps)
  show ?case using apply_op_appended[OF d1(1)] Cons.IH[OF d1(2)] by simp
qed simp

text \<open>A value with a quote is written in several quoted pieces, of which \<open>_split_value\<close> takes only the first
  one for the value; the next update keeps the other pieces behind the new value.\<close>

lemma quoted_pieces_kept:
  "new_line True ''A'' (Some ''x'') True (''A='' @ shell_literal (''it'' @ [sq] @ ''s'')) = ''A=x'' @ [bs, sq, sq] @ ''s'' @ [sq]"
  by code_simp

section \<open>Properties\<close>


definition env_quote_update :: pyval where
  "env_quote_update = PDict [(''A'', PStr ''two words''), (''C'', PStr ''3'')]"




end
