(* ===== verification/Fan_Control.thy ===== *)
theory Fan_Control imports Py_Values
begin

text \<open>
  The control algorithms of the fan daemon (\<open>Fan/fancontroller/controller.py\<close>): conversion between percent
  and duty bytes, the piecewise-linear curve, the PID controller with anti-windup, the two-threshold
  controller, the temperature smoother and the slew limiter.  Every controller is a record with one
  function per method; \<open>math.exp\<close> is the parameter \<open>ex\<close> of the smoother.
\<close>

section \<open>Duty bytes\<close>

definition pct_to_byte :: "rat \<Rightarrow> int" where
  "pct_to_byte p = (if p \<le> 0 then 0 else if 100 \<le> p then 255 else round_even (p * 255 / 100))"

definition byte_to_pct :: "int \<Rightarrow> rat" where
  "byte_to_pct b = of_int b * 100 / 255"

section \<open>The curve\<close>

record fan_curve =
  fc_points :: "(rat \<times> rat) list"
  fc_floor :: rat

definition default_points :: "(rat \<times> rat) list" where
  "default_points = [(40, 0), (60, 30), (75, 60), (90, 100)]"

definition new_curve :: "(rat \<times> rat) list \<Rightarrow> rat \<Rightarrow> fan_curve" where
  "new_curve ps fl = \<lparr>fc_points = sort_key fst (if ps = [] then default_points else ps), fc_floor = fl\<rparr>"

definition set_points :: "(rat \<times> rat) list \<Rightarrow> fan_curve \<Rightarrow> fan_curve" where
  "set_points ps c = c\<lparr>fc_points := sort_key fst (map (\<lambda>(t, d). (t, max 0 (min 100 d))) ps)\<rparr>"

text \<open>The loop over neighbouring points: the duty of the first segment that contains \<open>temp\<close>.\<close>

fun segment_duty :: "rat \<Rightarrow> (rat \<times> rat) list \<Rightarrow> rat option" where
  "segment_duty temp ((t0, d0) # (t1, d1) # ps) =
     (if t0 \<le> temp \<and> temp \<le> t1
      then Some (d0 + (if t0 < t1 then (temp - t0) / (t1 - t0) else 0) * (d1 - d0))
      else segment_duty temp ((t1, d1) # ps))"
| "segment_duty temp ps = None"

definition evaluate_pct :: "fan_curve \<Rightarrow> rat \<Rightarrow> rat" where
  "evaluate_pct c temp = (case fc_points c of
       [] \<Rightarrow> fc_floor c
     | p # ps \<Rightarrow> max (fc_floor c)
         (if temp \<le> fst p then snd p
          else if fst (last (p # ps)) \<le> temp then snd (last (p # ps))
          else (case segment_duty temp (p # ps) of None \<Rightarrow> snd (last (p # ps)) | Some d \<Rightarrow> d)))"

definition curve_update :: "fan_curve \<Rightarrow> rat \<Rightarrow> int" where
  "curve_update c temp = pct_to_byte (evaluate_pct c temp)"

section \<open>The PID controller\<close>

record pid =
  kp :: rat
  ki :: rat
  kd :: rat
  setpoint :: rat
  pid_floor :: rat
  integral :: rat
  last_err :: "rat option"
  last_t :: "rat option"

definition pid_reset :: "pid \<Rightarrow> pid" where
  "pid_reset p = p\<lparr>integral := 0, last_err := None, last_t := None\<rparr>"

definition pid_times :: "pid \<Rightarrow> rat \<Rightarrow> rat \<Rightarrow> rat \<times> rat" where
  "pid_times p err t = (case last_t p of
       None \<Rightarrow> (0, 0)
     | Some t0 \<Rightarrow> let dt = max (1 / 1000) (t - t0) in
         (dt, (err - (case last_err p of None \<Rightarrow> 0 | Some e \<Rightarrow> e)) / dt))"

definition pid_integral :: "pid \<Rightarrow> rat \<Rightarrow> rat \<Rightarrow> rat \<Rightarrow> rat" where
  "pid_integral p err dt d_err = (let new_i = integral p + err * dt; tentative = kp p * err + ki p * new_i + kd p * d_err
     in if (255 < tentative \<and> 0 < err) \<or> (tentative < 0 \<and> err < 0) then integral p else new_i)"

definition pid_update :: "pid \<Rightarrow> rat \<Rightarrow> rat \<Rightarrow> pid \<times> int" where
  "pid_update p temp t = (let err = temp - setpoint p; (dt, d_err) = pid_times p err t;
       i = pid_integral p err dt d_err; out = kp p * err + ki p * i + kd p * d_err;
       clamped = max 0 (min 255 out); floor_byte = of_int (pct_to_byte (pid_floor p))
     in (p\<lparr>integral := i, last_err := Some err, last_t := Some t\<rparr>,
         round_even (if clamped < floor_byte then floor_byte else clamped)))"

section \<open>Two thresholds\<close>

record hysteresis =
  on_temp :: rat
  off_temp :: rat
  on_duty :: int
  off_duty :: int
  is_on :: bool

definition hyst_update :: "hysteresis \<Rightarrow> rat \<Rightarrow> hysteresis \<times> int" where
  "hyst_update h temp = (let on = (if \<not> is_on h \<and> on_temp h \<le> temp then True
       else if is_on h \<and> temp \<le> off_temp h then False else is_on h)
     in (h\<lparr>is_on := on\<rparr>, if on then on_duty h else off_duty h))"

section \<open>Smoothing and slewing\<close>

text \<open>A value with the time it was set; \<open>None\<close> before the first sample.\<close>

record tracker =
  tr_value :: "rat option"
  tr_time :: "rat option"

definition tr_reset :: tracker where
  "tr_reset = \<lparr>tr_value = None, tr_time = None\<rparr>"

definition tr_set :: "rat \<Rightarrow> rat \<Rightarrow> tracker" where
  "tr_set v t = \<lparr>tr_value = Some v, tr_time = Some t\<rparr>"

definition smooth_update :: "(rat \<Rightarrow> rat) \<Rightarrow> tracker \<Rightarrow> rat \<Rightarrow> rat \<Rightarrow> rat \<Rightarrow> tracker \<times> rat" where
  "smooth_update ex s temp t tau =
     (if tau \<le> 0 then (tr_set temp t, temp)
      else let v = (case (tr_value s, tr_time s) of
             (Some v, Some t0) \<Rightarrow> v + (1 - ex (- (max 0 (t - t0)) / tau)) * (temp - v)
           | _ \<Rightarrow> temp)
        in (tr_set v t, v))"

definition slew_delta :: "rat \<Rightarrow> rat \<Rightarrow> rat" where
  "slew_delta step delta = (if step < delta then step else if delta < - step then - step else delta)"

definition slew_update :: "tracker \<Rightarrow> rat \<Rightarrow> rat \<Rightarrow> rat \<Rightarrow> tracker \<times> rat" where
  "slew_update s target t rate =
     (let v = (case (tr_value s, tr_time s) of
         (Some v, Some t0) \<Rightarrow> v + slew_delta (max 0 rate * max 0 (t - t0)) (target - v)
       | _ \<Rightarrow> target)
      in (tr_set v t, v))"

section \<open>Rounding and bytes\<close>

lemma pct_to_byte_bounds: "0 \<le> pct_to_byte p \<and> pct_to_byte p \<le> 255"
  using round_even_bounds[of 0 "p * 255 / 100" 255] by (auto simp: pct_to_byte_def)

lemma pct_to_byte_mono: "p \<le> q \<Longrightarrow> pct_to_byte p \<le> pct_to_byte q"
  using pct_to_byte_bounds[of p] pct_to_byte_bounds[of q] round_even_mono[of "p * 255 / 100" "q * 255 / 100"]
  by (auto simp: pct_to_byte_def)

lemma byte_to_pct_mono: "a \<le> b \<Longrightarrow> byte_to_pct a \<le> byte_to_pct b"
  by (simp add: byte_to_pct_def divide_right_mono mult_right_mono)

lemma byte_to_pct_bounds: "0 \<le> b \<Longrightarrow> b \<le> 255 \<Longrightarrow> 0 \<le> byte_to_pct b \<and> byte_to_pct b \<le> 100"
  by (simp add: byte_to_pct_def field_simps)

text \<open>The conversions are inverse on bytes.\<close>

lemma byte_roundtrip: "0 \<le> b \<Longrightarrow> b \<le> 255 \<Longrightarrow> pct_to_byte (byte_to_pct b) = b"
proof -
  assume b: "0 \<le> b" "b \<le> 255"
  consider "b = 0" | "b = 255" | "0 < b" "b < 255" using b by linarith
  then show ?thesis
  proof cases
    case 3
    have "\<not> byte_to_pct b \<le> 0" "\<not> 100 \<le> byte_to_pct b" using 3 by (simp_all add: byte_to_pct_def field_simps)
    then show ?thesis by (simp add: pct_to_byte_def) (simp add: byte_to_pct_def)
  qed (simp_all add: pct_to_byte_def byte_to_pct_def)
qed

section \<open>Monotone curves\<close>

definition rising :: "(rat \<times> rat) list \<Rightarrow> bool" where
  "rising ps = sorted_wrt (\<lambda>p q. fst p \<le> fst q \<and> snd p \<le> snd q) ps"

lemma segment_next:
  "\<not> (t0 \<le> x \<and> x \<le> t1) \<Longrightarrow> segment_duty x ((t0, d0) # (t1, d1) # ps) = segment_duty x ((t1, d1) # ps)"
  by (rule trans[OF segment_duty.simps(1) if_not_P])

lemma segment_here:
  "t0 \<le> x \<and> x \<le> t1 \<Longrightarrow> segment_duty x ((t0, d0) # (t1, d1) # ps) =
   Some (d0 + (if t0 < t1 then (x - t0) / (t1 - t0) else 0) * (d1 - d0))"
  by (rule trans[OF segment_duty.simps(1) if_P])

lemma segment_bounds:
  "rising (p # ps) \<Longrightarrow> segment_duty temp (p # ps) = Some d \<Longrightarrow>
   fst p \<le> temp \<and> snd p \<le> d \<and> d \<le> snd (last (p # ps)) \<and> temp \<le> fst (last (p # ps))"
proof (induction temp "p # ps" arbitrary: p ps rule: segment_duty.induct)
  case (1 temp t0 d0 t1 d1 qs)
  have le: "t0 \<le> t1" "d0 \<le> d1" "rising ((t1, d1) # qs)" using "1.prems"(1) by (auto simp: rising_def)
  have last: "t1 \<le> fst (last ((t1, d1) # qs)) \<and> d1 \<le> snd (last ((t1, d1) # qs))"
    using le(3) last_in_set[of qs] by (auto simp: rising_def)
  show ?case
  proof (cases "t0 \<le> temp \<and> temp \<le> t1")
    case True
    let ?f = "if t0 < t1 then (temp - t0) / (t1 - t0) else 0"
    have "0 \<le> ?f" "?f \<le> 1" using True by (auto simp: field_simps)
    then have f: "0 \<le> ?f * (d1 - d0)" "?f * (d1 - d0) \<le> 1 * (d1 - d0)"
      using le(2) by (intro mult_nonneg_nonneg mult_right_mono; simp)+
    moreover have "d = d0 + ?f * (d1 - d0)" using segment_here[OF True] "1.prems"(2) by simp
    moreover have "d0 \<le> d \<and> d \<le> d1" if "0 \<le> w" "w \<le> 1 * (d1 - d0)" "d = d0 + w" for w
      using that by simp
    ultimately have "d0 \<le> d \<and> d \<le> d1" by blast
    then show ?thesis using True last by auto
  next
    case False
    then have "segment_duty temp ((t1, d1) # qs) = Some d" using "1.prems"(2) segment_next[OF False] by simp
    then show ?thesis using "1.hyps"[OF False le(3)] le by auto
  qed
qed simp_all

lemma segment_mono:
  "rising ps \<Longrightarrow> x \<le> y \<Longrightarrow> segment_duty x ps = Some a \<Longrightarrow> segment_duty y ps = Some b \<Longrightarrow> a \<le> b"
proof (induction x ps rule: segment_duty.induct)
  case (1 x t0 d0 t1 d1 qs)
  have le: "t0 \<le> t1" "d0 \<le> d1" "rising ((t1, d1) # qs)" using "1.prems"(1) by (auto simp: rising_def)
  let ?f = "\<lambda>z. if t0 < t1 then (z - t0) / (t1 - t0) else 0"
  consider "t0 \<le> x" "x \<le> t1" "y \<le> t1" | "t0 \<le> x" "x \<le> t1" "\<not> y \<le> t1" | "\<not> (t0 \<le> x \<and> x \<le> t1)" by linarith
  then show ?case
  proof cases
    case 1
    have "?f x \<le> ?f y" using \<open>x \<le> y\<close> by (simp add: divide_right_mono)
    then have "?f x * (d1 - d0) \<le> ?f y * (d1 - d0)" using le(2) by (intro mult_right_mono) auto
    moreover have "a = d0 + ?f x * (d1 - d0)" using segment_here[of t0 x t1] 1 "1.prems"(3) by simp
    moreover have "b = d0 + ?f y * (d1 - d0)" using segment_here[of t0 y t1] 1 "1.prems"(2,4) by simp
    ultimately show ?thesis by linarith
  next
    case 2
    have "segment_duty x ((t0, d0) # (t1, d1) # []) = Some a" using 2 "1.prems"(3) segment_here[of t0 x t1] by simp
    then have "a \<le> d1" using segment_bounds[of "(t0, d0)" "[(t1, d1)]" x a] le by (simp add: rising_def)
    moreover have "segment_duty y ((t1, d1) # qs) = Some b" using 2 "1.prems"(4) segment_next[of t0 y t1] by simp
    then have "d1 \<le> b" using segment_bounds[OF le(3), of y b] by simp
    ultimately show ?thesis by simp
  next
    case 3
    then have x: "segment_duty x ((t1, d1) # qs) = Some a" using "1.prems"(3) segment_next[OF 3] by simp
    then have "t1 \<le> x" using segment_bounds[OF le(3) x] by simp
    show ?thesis
    proof (cases "t0 \<le> y \<and> y \<le> t1")
      case True
      then have "y = x" using "1.prems"(2) \<open>t1 \<le> x\<close> by simp
      then show ?thesis using "1.prems"(3,4) by simp
    next
      case False
      then have "segment_duty y ((t1, d1) # qs) = Some b" using "1.prems"(4) segment_next[OF False] by simp
      then show ?thesis by (rule "1.IH"[OF 3 le(3) "1.prems"(2) x])
    qed
  qed
qed simp_all

lemma segment_some:
  "ps \<noteq> [] \<Longrightarrow> fst p \<le> temp \<Longrightarrow> temp \<le> fst (last (p # ps)) \<Longrightarrow> \<exists>d. segment_duty temp (p # ps) = Some d"
proof (induction temp "p # ps" arbitrary: p ps rule: segment_duty.induct)
  case (1 temp t0 d0 t1 d1 qs)
  show ?case
  proof (cases "temp \<le> t1")
    case False
    then have "qs \<noteq> []" using 1(4) by (cases qs) auto
    then show ?thesis using False 1 by auto
  qed (use 1 in auto)
qed simp_all

lemma evaluate_mono:
  assumes "rising (fc_points c)" "x \<le> y"
  shows "evaluate_pct c x \<le> evaluate_pct c y"
proof (cases "fc_points c")
  case (Cons p ps)
  let ?g = "\<lambda>temp. if temp \<le> fst p then snd p else if fst (last (p # ps)) \<le> temp then snd (last (p # ps))
      else (case segment_duty temp (p # ps) of None \<Rightarrow> snd (last (p # ps)) | Some d \<Rightarrow> d)"
  have r: "rising (p # ps)" using assms(1) Cons by simp
  have pl: "snd p \<le> snd (last (p # ps))" using r last_in_set[of ps] by (auto simp: rising_def)
  have inner: "\<exists>d. segment_duty z (p # ps) = Some d \<and> snd p \<le> d \<and> d \<le> snd (last (p # ps))"
    if "\<not> z \<le> fst p" "\<not> fst (last (p # ps)) \<le> z" for z
  proof -
    have "ps \<noteq> []" using that by auto
    moreover have "fst p \<le> z" "z \<le> fst (last (p # ps))" using that by linarith+
    ultimately obtain d where "segment_duty z (p # ps) = Some d" using segment_some[of ps p z] by blast
    then show ?thesis using segment_bounds[OF r] by blast
  qed
  have "?g x \<le> ?g y"
  proof (cases "\<not> x \<le> fst p \<and> \<not> fst (last (p # ps)) \<le> y")
    case True
    then obtain a b where "segment_duty x (p # ps) = Some a" "segment_duty y (p # ps) = Some b"
      using inner[of x] inner[of y] assms(2) by fastforce
    then show ?thesis using segment_mono[OF r assms(2)] True assms(2) by auto
  next
    case False
    then show ?thesis using inner[of x] inner[of y] pl assms(2) by (auto split: option.splits)
  qed
  then show ?thesis unfolding evaluate_pct_def Cons by (auto simp: max_def)
qed (simp add: evaluate_pct_def)

section \<open>Smoothing and slewing keep the order\<close>

definition tr_le :: "tracker \<Rightarrow> tracker \<Rightarrow> bool" where
  "tr_le a b \<longleftrightarrow> tr_time a = tr_time b \<and> (case (tr_value a, tr_value b) of
     (None, None) \<Rightarrow> True | (Some x, Some y) \<Rightarrow> x \<le> y | _ \<Rightarrow> False)"

lemma tr_le_set [simp]: "tr_le (tr_set x t) (tr_set y t) \<longleftrightarrow> x \<le> y"
  by (simp add: tr_le_def tr_set_def)

text \<open>\<open>math.exp\<close> maps numbers that are not positive into the unit interval.\<close>

definition exp_like :: "(rat \<Rightarrow> rat) \<Rightarrow> bool" where
  "exp_like ex \<longleftrightarrow> (\<forall>x \<le> 0. 0 \<le> ex x \<and> ex x \<le> 1)"

lemma smooth_next:
  "tr_value a = Some v \<Longrightarrow> tr_time a = Some t0 \<Longrightarrow> smooth_update ex a x t tau =
   (if tau \<le> 0 then (tr_set x t, x)
    else (tr_set (v + (1 - ex (- (max 0 (t - t0)) / tau)) * (x - v)) t, v + (1 - ex (- (max 0 (t - t0)) / tau)) * (x - v)))"
  unfolding smooth_update_def Let_def by (simp only: option.case prod.case)

lemma smooth_mono:
  assumes "exp_like ex" "tr_le a b" "x \<le> y"
  shows "tr_le (fst (smooth_update ex a x t tau)) (fst (smooth_update ex b y t tau)) \<and>
    snd (smooth_update ex a x t tau) \<le> snd (smooth_update ex b y t tau)"
proof (cases "tau \<le> 0 \<or> tr_value a = None \<or> tr_time a = None")
  case True
  then show ?thesis using assms(2,3) by (auto simp: smooth_update_def tr_le_def tr_set_def split: option.splits)
next
  case False
  then obtain v w t0 where v: "tr_value a = Some v" "tr_value b = Some w" "tr_time a = Some t0" "tr_time b = Some t0" "v \<le> w"
    using assms(2) by (auto simp: tr_le_def split: option.splits)
  let ?e = "ex (- (max 0 (t - t0)) / tau)"
  have "- (max 0 (t - t0)) / tau \<le> 0" using False by (simp add: divide_nonpos_pos)
  then have "0 \<le> ?e" "?e \<le> 1" using assms(1) by (auto simp: exp_like_def)
  then have "?e * v + (1 - ?e) * x \<le> ?e * w + (1 - ?e) * y"
    using v(5) assms(3) by (intro add_mono mult_left_mono) auto
  moreover have "v + (1 - ?e) * (x - v) = ?e * v + (1 - ?e) * x" "w + (1 - ?e) * (y - w) = ?e * w + (1 - ?e) * y"
    by (simp_all add: algebra_simps)
  ultimately have "v + (1 - ?e) * (x - v) \<le> w + (1 - ?e) * (y - w)" by linarith
  moreover have "\<not> tau \<le> 0" using False by simp
  ultimately show ?thesis
    by (simp only: smooth_next[OF v(1,3)] smooth_next[OF v(2,4)] if_False tr_le_set fst_conv snd_conv simp_thms)
qed

lemma slew_delta_alt: "0 \<le> s \<Longrightarrow> v + slew_delta s (x - v) = max (v - s) (min (v + s) x)"
  by (auto simp: slew_delta_def max_def min_def)

lemma slew_mono:
  assumes "tr_le a b" "x \<le> y"
  shows "tr_le (fst (slew_update a x t r)) (fst (slew_update b y t r)) \<and> snd (slew_update a x t r) \<le> snd (slew_update b y t r)"
proof (cases "tr_value a = None \<or> tr_time a = None")
  case True
  then show ?thesis using assms by (auto simp: slew_update_def tr_le_def tr_set_def split: option.splits)
next
  case False
  then obtain v w t0 where v: "tr_value a = Some v" "tr_value b = Some w" "tr_time a = Some t0" "tr_time b = Some t0" "v \<le> w"
    using assms(1) by (auto simp: tr_le_def split: option.splits)
  let ?s = "max 0 r * max 0 (t - t0)"
  have "0 \<le> ?s" by simp
  then have "v + slew_delta ?s (x - v) \<le> w + slew_delta ?s (y - w)"
    unfolding slew_delta_alt[OF \<open>0 \<le> ?s\<close>] using v(5) assms(2) by (auto simp: max_def min_def)
  then show ?thesis using v by (simp add: slew_update_def Let_def)
qed

text \<open>One step of the limiter moves at most \<open>rate\<close> times the elapsed time, and towards the target.\<close>

lemma slew_step:
  assumes "tr_value a = Some v" "tr_time a = Some t0"
  shows "let w = snd (slew_update a x t r) in
    \<bar>w - v\<bar> \<le> max 0 r * max 0 (t - t0) \<and> min v x \<le> w \<and> w \<le> max v x"
proof -
  have lim: "\<bar>w - v\<bar> \<le> s \<and> min v x \<le> w \<and> w \<le> max v x" if "w = max (v - s) (min (v + s) x)" "0 \<le> s" for w s :: rat
    using that by (auto simp: min_def max_def)
  have "0 \<le> max 0 r * max 0 (t - t0)" by simp
  moreover from this have "snd (slew_update a x t r) =
      max (v - max 0 r * max 0 (t - t0)) (min (v + max 0 r * max 0 (t - t0)) x)"
    unfolding slew_delta_alt[symmetric, OF \<open>0 \<le> max 0 r * max 0 (t - t0)\<close>] using assms by (simp add: slew_update_def Let_def)
  ultimately show ?thesis unfolding Let_def by (intro lim)
qed

end
