(* ===== verification/Fan_Daemon.thy ===== *)
theory Fan_Daemon imports Fan_Control
begin

text \<open>
  The fan daemon (\<open>Fan/fancontroller/daemon.py\<close>) with the control file that other programs write
  (\<open>control_reader.py\<close>) and its serial link (\<open>serial_link.py\<close>).  One poll reads the temperatures and the
  control file, computes a duty byte and hands it to the link; the link's thread sends it and resends it
  when the firmware has restarted.
\<close>

section \<open>The control file\<close>

record external =
  x_max :: bool
  x_temp :: "rat option"
  x_source :: "string option"
  x_node :: "string option"
  x_name :: "string option"
  x_observed :: "rat option"
  x_expires :: "rat option"

definition no_control :: external where
  "no_control = \<lparr>x_max = False, x_temp = None, x_source = None, x_node = None, x_name = None,
     x_observed = None, x_expires = None\<rparr>"

fun finite_of :: "pyfloat \<Rightarrow> rat option" where
  "finite_of (Finite r) = Some r"
| "finite_of _ = None"

fun control_number :: "pyval \<Rightarrow> rat option result" where
  "control_number (PInt i) = bindE (py_float (\<lambda>_. None) (PInt i)) (\<lambda>f. Inr (finite_of f))"
| "control_number (PFloat f t) = Inr (finite_of f)"
| "control_number v = Inr None"

fun control_text :: "pyval \<Rightarrow> string option" where
  "control_text (PStr s) = (if s = [] then None else Some s)"
| "control_text v = None"

definition valid_override :: "rat option \<Rightarrow> rat option \<Rightarrow> rat \<Rightarrow> bool" where
  "valid_override temp expires now = (case (temp, expires) of
       (Some c, Some e) \<Rightarrow> - 40 \<le> c \<and> c \<le> 150 \<and> now \<le> e
     | _ \<Rightarrow> False)"

text \<open>\<open>read_control\<close> on the decoded content of the file.\<close>

definition control_of :: "(string \<times> pyval) list \<Rightarrow> rat \<Rightarrow> external result" where
  "control_of d now = (let r = no_control\<lparr>x_max := py_truthy (dict_get d ''max_speed'')\<rparr> in
     case dict_get d ''temperature_override'' of
       PDict o' \<Rightarrow>
         bindE (control_number (dict_get o' ''temperature_c'')) (\<lambda>c.
         bindE (control_number (dict_get o' ''expires_at'')) (\<lambda>e.
         if \<not> valid_override c e now then Inr r
         else bindE (control_number (dict_get o' ''observed_at'')) (\<lambda>obs.
           Inr \<lparr>x_max = x_max r, x_temp = c, x_source = control_text (dict_get o' ''source''),
             x_node = control_text (dict_get o' ''node_id''), x_name = control_text (dict_get o' ''node_name''),
             x_observed = obs, x_expires = e\<rparr>)))
     | _ \<Rightarrow> Inr r)"

text \<open>The cache of the decoded content.  The file is \<open>None\<close> when it does not exist, otherwise its
  modification time and what decoding its text gives (\<open>None\<close> when that fails).\<close>

record control_cache =
  cc_data :: "(string \<times> pyval) list option"
  cc_mtime :: "int option"

definition empty_cache :: control_cache where
  "empty_cache = \<lparr>cc_data = None, cc_mtime = None\<rparr>"

definition decoded_dict :: "pyval option \<Rightarrow> (string \<times> pyval) list option" where
  "decoded_dict v = (case v of Some (PDict d) \<Rightarrow> Some d | _ \<Rightarrow> None)"

definition read_control ::
  "control_cache \<Rightarrow> (int \<times> pyval option) option \<Rightarrow> rat \<Rightarrow> control_cache \<times> external result" where
  "read_control c file now = (case file of
       None \<Rightarrow> (empty_cache, Inr no_control)
     | Some (mtime, content) \<Rightarrow>
         (let c' = (if cc_mtime c \<noteq> Some mtime then \<lparr>cc_data = decoded_dict content, cc_mtime = Some mtime\<rparr> else c)
          in (c', control_of (case cc_data c' of None \<Rightarrow> [] | Some d \<Rightarrow> d) now)))"

definition effective_temperature :: "rat option \<Rightarrow> external \<Rightarrow> rat option" where
  "effective_temperature l c = (case (l, x_temp c) of
       (None, None) \<Rightarrow> None
     | (Some a, None) \<Rightarrow> Some a
     | (None, Some b) \<Rightarrow> Some b
     | (Some a, Some b) \<Rightarrow> Some (max a b))"

text \<open>\<open>clear_max_speed\<close>: the new content, \<open>None\<close> when the file is removed.\<close>

definition cleared_control :: "pyval \<Rightarrow> (string \<times> pyval) list option" where
  "cleared_control v = (let d = (case v of PDict d \<Rightarrow> AList.delete ''max_speed'' d | _ \<Rightarrow> [])
     in if d = [] then None else Some d)"

text \<open>\<open>aggregate_max\<close> on the readings of the sources\<close>

fun aggregate_max :: "rat option list \<Rightarrow> rat option" where
  "aggregate_max [] = None"
| "aggregate_max (None # vs) = aggregate_max vs"
| "aggregate_max (Some v # vs) = (case aggregate_max vs of None \<Rightarrow> Some v | Some w \<Rightarrow> Some (max v w))"

section \<open>The duty\<close>

record fan_settings =
  fs_mode :: string
  fs_manual :: rat
  fs_tau :: rat
  fs_rate :: rat
  fs_points :: "(rat \<times> rat) list"
  fs_floor :: rat
  fs_kp :: rat
  fs_ki :: rat
  fs_kd :: rat
  fs_setpoint :: rat
  fs_on :: rat
  fs_off :: rat
  fs_max_rpm :: rat

record fan_daemon =
  fd_settings :: fan_settings
  fd_mtime :: "int option"
  fd_curve :: fan_curve
  fd_pid :: pid
  fd_hyst :: hysteresis
  fd_smooth :: tracker
  fd_slew :: tracker

definition load_daemon :: "fan_settings \<Rightarrow> int option \<Rightarrow> fan_daemon" where
  "load_daemon s m = \<lparr>fd_settings = s, fd_mtime = m,
     fd_curve = new_curve (fs_points s) (fs_floor s),
     fd_pid = \<lparr>kp = fs_kp s, ki = fs_ki s, kd = fs_kd s, setpoint = fs_setpoint s, pid_floor = fs_floor s,
       integral = 0, last_err = None, last_t = None\<rparr>,
     fd_hyst = \<lparr>on_temp = fs_on s, off_temp = fs_off s, on_duty = 255, off_duty = 0, is_on = False\<rparr>,
     fd_smooth = tr_reset, fd_slew = tr_reset\<rparr>"

text \<open>The branch on the mode: the daemon with the changed controller and the duty byte before slewing.\<close>

definition raw_duty :: "fan_daemon \<Rightarrow> rat \<Rightarrow> rat \<Rightarrow> fan_daemon \<times> int" where
  "raw_duty d temp now = (let mode = fs_mode (fd_settings d) in
     if mode = ''curve'' then (d, curve_update (fd_curve d) temp)
     else if mode = ''pid'' then (let (p, b) = pid_update (fd_pid d) temp now in (d\<lparr>fd_pid := p\<rparr>, b))
     else if mode = ''hysteresis'' then (let (h, b) = hyst_update (fd_hyst d) temp in (d\<lparr>fd_hyst := h\<rparr>, b))
     else if mode = ''manual'' then (d, pct_to_byte (fs_manual (fd_settings d)))
     else (d, 255))"

definition target_duty :: "(rat \<Rightarrow> rat) \<Rightarrow> fan_daemon \<Rightarrow> rat option \<Rightarrow> rat \<Rightarrow> bool \<Rightarrow> fan_daemon \<times> int" where
  "target_duty ex d temp now max_speed = (case (max_speed, temp) of
       (False, Some c) \<Rightarrow>
         (let (sm, ctrl) = smooth_update ex (fd_smooth d) c now (fs_tau (fd_settings d));
              (d1, raw) = raw_duty (d\<lparr>fd_smooth := sm\<rparr>) ctrl now;
              (sl, out) = slew_update (fd_slew d1) (byte_to_pct raw) now (fs_rate (fd_settings d1))
          in (d1\<lparr>fd_slew := sl\<rparr>, pct_to_byte out))
     | _ \<Rightarrow> (d\<lparr>fd_slew := tr_set 100 now\<rparr>, 255))"

section \<open>The serial link\<close>

record link =
  lk_duty :: int
  lk_dirty :: bool

definition new_link :: link where
  "new_link = \<lparr>lk_duty = 0, lk_dirty = True\<rparr>"

definition link_set_duty :: "int \<Rightarrow> link \<Rightarrow> link" where
  "link_set_duty v l = (let b = max 0 (min 255 v) in if b \<noteq> lk_duty l then \<lparr>lk_duty = b, lk_dirty = True\<rparr> else l)"

datatype command = Duty int | Ping

text \<open>The head of one round of the sending thread: what is written at time \<open>now\<close>.\<close>

definition link_send :: "link \<Rightarrow> rat \<Rightarrow> rat \<Rightarrow> link \<times> command option" where
  "link_send l last_send now =
     (l\<lparr>lk_dirty := False\<rparr>,
      if lk_dirty l then Some (Duty (lk_duty l)) else if 1 < now - last_send then Some Ping else None)"

text \<open>Received bytes: complete lines are taken off the buffer.\<close>

fun take_lines :: "string \<Rightarrow> string list \<times> string" where
  "take_lines [] = ([], [])"
| "take_lines (c # s) = (let (ls, r) = take_lines s in
     if c = CHR 0x0A then ([] # ls, r) else (case ls of [] \<Rightarrow> ([], c # r) | l # ls' \<Rightarrow> ((c # l) # ls', r)))"

datatype report = Rpm int | Boot | Nothing

text \<open>\<open>s.split()\<close>\<close>

function py_words :: "string \<Rightarrow> string list" where
  "py_words s = (let t = dropWhile py_space s in
     if t = [] then [] else takeWhile (\<lambda>c. \<not> py_space c) t # py_words (dropWhile (\<lambda>c. \<not> py_space c) t))"
  by auto
termination
proof (relation "measure length", goal_cases)
  case (2 s t)
  then have t: "t = dropWhile py_space s" "t \<noteq> []" by auto
  then have "\<not> py_space (hd t)" by (metis hd_dropWhile)
  then have "length (dropWhile (\<lambda>c. \<not> py_space c) t) < length t"
    using t(2) by (cases t) (auto simp: le_imp_less_Suc length_dropWhile_le)
  also have "\<dots> \<le> length s" unfolding t(1) by (rule length_dropWhile_le)
  finally show ?case by simp
qed simp

declare py_words.simps [simp del]

definition line_report :: "string \<Rightarrow> report" where
  "line_report raw = (let s = py_strip (filter (\<lambda>c. (of_char c :: nat) < 128) raw) in
     if starts_with ''RPM'' s then (case py_words s of
         a # b # r \<Rightarrow> (case int_of_text b of Inr n \<Rightarrow> Rpm n | Inl e \<Rightarrow> Nothing)
       | _ \<Rightarrow> Nothing)
     else if s = ''BOOT'' then Boot else Nothing)"

definition link_receive :: "link \<Rightarrow> string \<Rightarrow> string \<Rightarrow> link \<times> string \<times> int list" where
  "link_receive l buf data = (let (ls, rest) = take_lines (buf @ data); rs = map line_report ls in
     (l\<lparr>lk_dirty := lk_dirty l \<or> Boot \<in> set rs\<rparr>, rest,
      List.map_filter (\<lambda>r. case r of Rpm n \<Rightarrow> Some n | _ \<Rightarrow> None) rs))"

definition link_reconnect :: "link \<Rightarrow> link" where
  "link_reconnect l = l\<lparr>lk_dirty := True\<rparr>"

section \<open>One poll\<close>

definition display_rpm :: "fan_settings \<Rightarrow> int \<Rightarrow> int \<Rightarrow> int" where
  "display_rpm s duty rpm = (if 0 < fs_max_rpm s then round_even (byte_to_pct duty / 100 * fs_max_rpm s) else rpm)"

text \<open>\<open>poll\<close>: \<open>mtime\<close> and \<open>saved\<close> are the configuration file, \<open>readings\<close> the selected sources, \<open>wall\<close> and
  \<open>now\<close> the two clocks.  A control file that cannot be read raises and the run loop sets full speed.\<close>

definition poll_daemon ::
  "(rat \<Rightarrow> rat) \<Rightarrow> int option \<Rightarrow> fan_settings \<Rightarrow> rat option list \<Rightarrow> (int \<times> pyval option) option \<Rightarrow> rat \<Rightarrow> rat
   \<Rightarrow> fan_daemon \<times> control_cache \<times> link \<Rightarrow> fan_daemon \<times> control_cache \<times> link" where
  "poll_daemon ex mtime saved readings file wall now st = (case st of (d, c, l) \<Rightarrow>
     (let d1 = (if mtime \<noteq> fd_mtime d then load_daemon saved mtime else d);
          (c1, r) = read_control c file wall
      in case r of
        Inl e \<Rightarrow> (d1, c1, link_set_duty 255 l)
      | Inr x \<Rightarrow> (let (d2, duty) = target_duty ex d1 (effective_temperature (aggregate_max readings) x) now (x_max x)
                   in (d2, c1, link_set_duty duty l))))"

section \<open>Bounds and the safe state\<close>

lemma link_bounds: "0 \<le> lk_duty l \<Longrightarrow> lk_duty l \<le> 255 \<Longrightarrow> 0 \<le> lk_duty (link_set_duty v l) \<and> lk_duty (link_set_duty v l) \<le> 255"
  by (simp add: link_set_duty_def Let_def)

lemma link_set_exact: "0 \<le> v \<Longrightarrow> v \<le> 255 \<Longrightarrow> lk_duty (link_set_duty v l) = v"
  by (simp add: link_set_duty_def Let_def)

lemma target_duty_bounds: "0 \<le> snd (target_duty ex d temp now m) \<and> snd (target_duty ex d temp now m) \<le> 255"
  using pct_to_byte_bounds by (simp add: target_duty_def case_prod_beta Let_def split: option.splits bool.splits)

text \<open>Without a temperature, or when full speed is requested, the duty is 255 at once.\<close>

lemma no_temperature_full: "temp = None \<or> m \<Longrightarrow> snd (target_duty ex d temp now m) = 255"
  by (auto simp: target_duty_def split: option.splits bool.splits)

lemma control_override_valid:
  assumes "control_of d now = Inr x" "x_temp x = Some c"
  shows "- 40 \<le> c \<and> c \<le> 150 \<and> (\<exists>e. x_expires x = Some e \<and> now \<le> e)"
  using assms
  by (auto simp: control_of_def Let_def no_control_def except_simps valid_override_def
      split: pyval.splits if_splits option.splits)

text \<open>After any poll the link holds a duty byte; it is 255 when no source can be read and no override is
  in force, when full speed is requested, and when the control file cannot be read.\<close>

lemma poll_safe:
  assumes "poll_daemon ex mtime saved readings file wall now (d, c, l) = (d', c', l')"
  shows "0 \<le> lk_duty l' \<and> lk_duty l' \<le> 255 \<and>
    (case snd (read_control c file wall) of
       Inl e \<Rightarrow> lk_duty l' = 255
     | Inr x \<Rightarrow> (x_max x \<or> aggregate_max readings = None \<and> x_temp x = None) \<longrightarrow> lk_duty l' = 255)"
proof (cases "snd (read_control c file wall)")
  case (Inl e)
  then have "l' = link_set_duty 255 l" using assms by (simp add: poll_daemon_def case_prod_beta Let_def)
  then show ?thesis using Inl by (simp add: link_set_exact)
next
  case (Inr x)
  let ?d = "if mtime \<noteq> fd_mtime d then load_daemon saved mtime else d"
  let ?t = "effective_temperature (aggregate_max readings) x"
  have l': "l' = link_set_duty (snd (target_duty ex ?d ?t now (x_max x))) l"
    using assms Inr by (auto simp: poll_daemon_def case_prod_beta Let_def)
  have "lk_duty l' = snd (target_duty ex ?d ?t now (x_max x))"
    unfolding l' by (rule link_set_exact) (simp_all add: target_duty_bounds)
  then show ?thesis
    using Inr target_duty_bounds[of ex ?d ?t now "x_max x"] no_temperature_full[of ?t "x_max x" ex ?d now]
    by (auto simp: effective_temperature_def)
qed

section \<open>Overrides\<close>

text \<open>The duties of a run, one per poll, with the local temperature and the control of each poll.\<close>

fun duties :: "(rat \<Rightarrow> rat) \<Rightarrow> fan_daemon \<Rightarrow> (rat \<times> rat option \<times> external) list \<Rightarrow> int list" where
  "duties ex d [] = []"
| "duties ex d ((now, l, x) # ts) =
     (let (d', b) = target_duty ex d (effective_temperature l x) now (x_max x) in b # duties ex d' ts)"

definition without_override :: "rat \<times> rat option \<times> external \<Rightarrow> rat \<times> rat option \<times> external" where
  "without_override t = (case t of (now, l, x) \<Rightarrow> (now, l, x\<lparr>x_temp := None\<rparr>))"

text \<open>Settings under which a hotter input never asks for less cooling.\<close>

definition monotone_mode :: "fan_daemon \<Rightarrow> bool" where
  "monotone_mode d \<longleftrightarrow> fs_mode (fd_settings d) \<noteq> ''pid'' \<and> rising (fc_points (fd_curve d)) \<and>
     off_temp (fd_hyst d) < on_temp (fd_hyst d) \<and> off_duty (fd_hyst d) \<le> on_duty (fd_hyst d)"

definition cooler :: "fan_daemon \<Rightarrow> fan_daemon \<Rightarrow> bool" where
  "cooler a b \<longleftrightarrow> fd_settings a = fd_settings b \<and> fd_curve a = fd_curve b \<and>
     (fd_hyst a)\<lparr>is_on := False\<rparr> = (fd_hyst b)\<lparr>is_on := False\<rparr> \<and> (is_on (fd_hyst a) \<longrightarrow> is_on (fd_hyst b)) \<and>
     tr_le (fd_smooth a) (fd_smooth b) \<and> tr_le (fd_slew a) (fd_slew b)"

lemma hyst_mono:
  assumes "a\<lparr>is_on := False\<rparr> = b\<lparr>is_on := False\<rparr>" "is_on a \<longrightarrow> is_on b" "off_temp a < on_temp a" "off_duty a \<le> on_duty a" "x \<le> y"
  shows "(fst (hyst_update a x))\<lparr>is_on := False\<rparr> = (fst (hyst_update b y))\<lparr>is_on := False\<rparr> \<and>
    (is_on (fst (hyst_update a x)) \<longrightarrow> is_on (fst (hyst_update b y))) \<and> snd (hyst_update a x) \<le> snd (hyst_update b y)"
proof -
  obtain u v p q i where a: "a = \<lparr>on_temp = u, off_temp = v, on_duty = p, off_duty = q, is_on = i\<rparr>" by (cases a)
  obtain j where b: "b = \<lparr>on_temp = u, off_temp = v, on_duty = p, off_duty = q, is_on = j\<rparr>"
    using assms(1) a by (cases b) auto
  show ?thesis using assms unfolding a b by (cases i; cases j) (auto simp: hyst_update_def Let_def)
qed

lemma raw_mono:
  assumes "cooler a b" "monotone_mode a" "x \<le> y"
  shows "cooler (fst (raw_duty a x now)) (fst (raw_duty b y now)) \<and> snd (raw_duty a x now) \<le> snd (raw_duty b y now) \<and>
    monotone_mode (fst (raw_duty a x now))"
proof -
  have h: "(fst (hyst_update (fd_hyst a) x))\<lparr>is_on := False\<rparr> = (fd_hyst a)\<lparr>is_on := False\<rparr>"
    by (simp add: hyst_update_def Let_def)
  then have "off_temp (fst (hyst_update (fd_hyst a) x)) = off_temp (fd_hyst a)" "on_temp (fst (hyst_update (fd_hyst a) x)) = on_temp (fd_hyst a)"
    "off_duty (fst (hyst_update (fd_hyst a) x)) = off_duty (fd_hyst a)" "on_duty (fst (hyst_update (fd_hyst a) x)) = on_duty (fd_hyst a)"
    by (simp_all add: hyst_update_def Let_def)
  moreover have "curve_update (fd_curve a) x \<le> curve_update (fd_curve a) y"
    using assms(2,3) by (simp add: curve_update_def monotone_mode_def pct_to_byte_mono evaluate_mono)
  ultimately show ?thesis
    using assms hyst_mono[of "fd_hyst a" "fd_hyst b" x y]
    by (auto simp: raw_duty_def cooler_def monotone_mode_def Let_def case_prod_beta)
qed

lemma target_mono:
  assumes "cooler a b" "monotone_mode a" "x \<le> y" "exp_like ex"
  shows "cooler (fst (target_duty ex a (Some x) now m)) (fst (target_duty ex b (Some y) now m)) \<and>
    monotone_mode (fst (target_duty ex a (Some x) now m)) \<and>
    snd (target_duty ex a (Some x) now m) \<le> snd (target_duty ex b (Some y) now m)"
proof (cases m)
  case True
  then show ?thesis using assms(1,2) by (simp add: target_duty_def cooler_def monotone_mode_def)
next
  case False
  let ?tau = "fs_tau (fd_settings a)"
  obtain sa xa where sa: "smooth_update ex (fd_smooth a) x now ?tau = (sa, xa)" by fastforce
  obtain sb yb where sb: "smooth_update ex (fd_smooth b) y now ?tau = (sb, yb)" by fastforce
  have sm: "tr_le sa sb" "xa \<le> yb"
    using smooth_mono[OF assms(4) _ assms(3), of "fd_smooth a" "fd_smooth b" now ?tau] assms(1) sa sb
    by (auto simp: cooler_def)
  obtain da ra where da: "raw_duty (a\<lparr>fd_smooth := sa\<rparr>) xa now = (da, ra)" by fastforce
  obtain db rb where db: "raw_duty (b\<lparr>fd_smooth := sb\<rparr>) yb now = (db, rb)" by fastforce
  have "cooler (a\<lparr>fd_smooth := sa\<rparr>) (b\<lparr>fd_smooth := sb\<rparr>)" "monotone_mode (a\<lparr>fd_smooth := sa\<rparr>)"
    using assms(1,2) sm(1) by (simp_all add: cooler_def monotone_mode_def)
  from raw_mono[OF this sm(2), of now] have r: "cooler da db" "ra \<le> rb" "monotone_mode da" by (simp_all add: da db)
  obtain la oa where la: "slew_update (fd_slew da) (byte_to_pct ra) now (fs_rate (fd_settings da)) = (la, oa)" by fastforce
  obtain lb ob where lb: "slew_update (fd_slew db) (byte_to_pct rb) now (fs_rate (fd_settings da)) = (lb, ob)" by fastforce
  have sl: "tr_le la lb" "oa \<le> ob"
    using slew_mono[of "fd_slew da" "fd_slew db" "byte_to_pct ra" "byte_to_pct rb" now "fs_rate (fd_settings da)"]
      r la lb byte_to_pct_mono[OF r(2)] by (auto simp: cooler_def)
  have st: "fd_settings b = fd_settings a" "fd_settings db = fd_settings da" using assms(1) r(1) by (simp_all add: cooler_def)
  have "target_duty ex a (Some x) now m = (da\<lparr>fd_slew := la\<rparr>, pct_to_byte oa)"
    "target_duty ex b (Some y) now m = (db\<lparr>fd_slew := lb\<rparr>, pct_to_byte ob)"
    using False sa sb da db la lb st by (simp_all add: target_duty_def)
  then show ?thesis using r sl pct_to_byte_mono[OF sl(2)] by (simp add: cooler_def monotone_mode_def)
qed

lemma cooler_refl: "cooler d d"
  by (simp add: cooler_def tr_le_def split: option.splits)

lemma duties_mono:
  "cooler a b \<Longrightarrow> monotone_mode a \<Longrightarrow> exp_like ex \<Longrightarrow> \<forall>t \<in> set ts. fst (snd t) \<noteq> None \<Longrightarrow>
   list_all2 (\<le>) (duties ex a (map without_override ts)) (duties ex b ts)"
proof (induction ts arbitrary: a b)
  case (Cons t ts)
  obtain now l x where t: "t = (now, l, x)" by (cases t)
  then obtain c where l: "l = Some c" using Cons.prems(4) by auto
  obtain y where y: "effective_temperature l x = Some y" "c \<le> y"
    using l by (cases "x_temp x") (auto simp: effective_temperature_def)
  have "effective_temperature l (x\<lparr>x_temp := None\<rparr>) = Some c" using l by (simp add: effective_temperature_def)
  then show ?case
    using target_mono[OF Cons.prems(1,2) y(2) Cons.prems(3), of now "x_max x"] Cons.IH Cons.prems(3,4) y(1) t
    by (simp add: without_override_def case_prod_beta)
qed simp

text \<open>A source that cannot be read asks for full speed, but an override hides that: with a cold one the fan stops.\<close>

definition demo_settings :: fan_settings where
  "demo_settings = \<lparr>fs_mode = ''curve'', fs_manual = 100, fs_tau = 0, fs_rate = 10, fs_points = [], fs_floor = 0,
     fs_kp = 4, fs_ki = 1 / 5, fs_kd = 1, fs_setpoint = 65, fs_on = 75, fs_off = 65, fs_max_rpm = 3000\<rparr>"

definition demo_override :: "rat \<Rightarrow> external" where
  "demo_override c = no_control\<lparr>x_temp := Some c, x_expires := Some 10\<rparr>"

lemma override_hides_missing_sensor:
  "duties (\<lambda>_. 0) (load_daemon demo_settings None) [without_override (0, None, demo_override 20)] = [255] \<and>
   duties (\<lambda>_. 0) (load_daemon demo_settings None) [(0, None, demo_override 20)] = [0]"
  by code_simp

section \<open>The link and the firmware\<close>

text \<open>The duty the firmware holds (\<open>None\<close> after a restart, until the next command) and whether a restart was
  reported that the link has not read yet.\<close>

record wire =
  w_link :: link
  w_firmware :: "int option"
  w_boot :: bool

inductive wire_step :: "wire \<Rightarrow> wire \<Rightarrow> bool" where
  set_duty: "wire_step w (w\<lparr>w_link := link_set_duty v (w_link w)\<rparr>)"
| send: "link_send (w_link w) last_send now = (l, c) \<Longrightarrow>
    wire_step w (w\<lparr>w_link := l, w_firmware := (case c of Some (Duty v) \<Rightarrow> Some v | _ \<Rightarrow> w_firmware w)\<rparr>)"
| boot: "wire_step w (w\<lparr>w_firmware := None, w_boot := True\<rparr>)"
| receive: "link_receive (w_link w) buf data = (l, rest, rpms) \<Longrightarrow>
    Boot \<in> set (map line_report (fst (take_lines (buf @ data)))) \<longleftrightarrow> w_boot w \<Longrightarrow>
    wire_step w (w\<lparr>w_link := l, w_boot := False\<rparr>)"
| reconnect: "wire_step w (w\<lparr>w_link := link_reconnect (w_link w), w_boot := False\<rparr>)"

inductive wire_reachable :: "wire \<Rightarrow> bool" where
  start: "wire_reachable \<lparr>w_link = new_link, w_firmware = None, w_boot = False\<rparr>"
| step: "wire_reachable w \<Longrightarrow> wire_step w w' \<Longrightarrow> wire_reachable w'"

inductive_cases wire_stepE: "wire_step w w'"

definition wire_inv :: "wire \<Rightarrow> bool" where
  "wire_inv w \<longleftrightarrow> 0 \<le> lk_duty (w_link w) \<and> lk_duty (w_link w) \<le> 255 \<and>
     (\<not> lk_dirty (w_link w) \<and> \<not> w_boot w \<longrightarrow> w_firmware w = Some (lk_duty (w_link w)))"

lemma wire_inv_step: "wire_step w w' \<Longrightarrow> wire_inv w \<Longrightarrow> wire_inv w'"
proof (induction rule: wire_step.induct)
  case (set_duty w v)
  then show ?case by (auto simp: wire_inv_def link_set_duty_def Let_def)
next
  case (send w last_send now l c)
  then show ?case by (auto simp: wire_inv_def link_send_def)
next
  case (receive w buf data l rest rpms)
  then show ?case by (auto simp: wire_inv_def link_receive_def case_prod_beta Let_def)
qed (auto simp: wire_inv_def link_reconnect_def)

lemma wire_reachable_inv: "wire_reachable w \<Longrightarrow> wire_inv w"
proof (induction rule: wire_reachable.induct)
  case (step w w')
  then show ?case by (blast intro: wire_inv_step)
qed (simp add: wire_inv_def new_link_def)

section \<open>Properties\<close>

text \<open>C31: External temperature overrides never make the fan run slower than the local sensors alone: in curve
  mode with a rising curve, in two-threshold mode with separate thresholds and in manual mode, every duty of
  a run with overrides is at least the duty of the same run without them, through smoothing and slewing,
  as long as every poll reads a local temperature.\<close>

theorem fan_override_never_cooler:
  assumes "monotone_mode d" and "exp_like ex" and "\<forall>t \<in> set ts. fst (snd t) \<noteq> None"
  shows "list_all2 (\<le>) (duties ex d (map without_override ts)) (duties ex d ts)"
  using duties_mono[OF cooler_refl assms] .

lemma fan_override_never_cooler_witness:
  "list_all2 (\<le>) (duties (\<lambda>_. 0) (load_daemon demo_settings None) [(0, Some 50, no_control), (1, Some 50, no_control\<lparr>x_expires := Some 10\<rparr>)])
     (duties (\<lambda>_. 0) (load_daemon demo_settings None) [(0, Some 50, no_control), (1, Some 50, demo_override 90)]) \<and>
   duties (\<lambda>_. 0) (load_daemon demo_settings None) [(0, Some 50, no_control), (1, Some 50, demo_override 90)] = [38, 64]"
proof -
  have "monotone_mode (load_daemon demo_settings None)"
    by (simp add: monotone_mode_def load_daemon_def demo_settings_def new_curve_def default_points_def rising_def)
  moreover have "exp_like (\<lambda>_. 0)" by (simp add: exp_like_def)
  moreover have "map without_override [(0, Some 50, no_control), (1, Some 50, demo_override 90)] =
      [(0, Some 50, no_control), (1, Some 50, no_control\<lparr>x_expires := Some 10\<rparr>)]"
    by (simp add: without_override_def demo_override_def no_control_def)
  moreover have "duties (\<lambda>_. 0) (load_daemon demo_settings None) [(0, Some 50, no_control), (1, Some 50, demo_override 90)] = [38, 64]"
    by code_simp
  ultimately show ?thesis
    using fan_override_never_cooler[of "load_daemon demo_settings None" "\<lambda>_. 0" "[(0, Some 50, no_control), (1, Some 50, demo_override 90)]"]
    by simp
qed



end
