(* ===== verification/Nas_Ids.thy ===== *)
theory Nas_Ids imports Launch_Args
begin

text \<open>
  Identities and sizes of the virtual NAS (\<open>sparkdeck/virtual_nas.py\<close>): the checks of model ids, revisions and
  repository files, the name of a model's cache directory, the tests of what an inventory entry holds, and
  the free space a transfer or a download asks for.
\<close>

section \<open>Paths\<close>

text \<open>\<open>PurePosixPath\<close>: its components without the root, and whether there is a root.\<close>

definition posix_parts :: "string \<Rightarrow> string list" where
  "posix_parts s = filter (\<lambda>p. p \<noteq> [] \<and> p \<noteq> ''.'') (split_on (CHR ''/'') s)"

definition posix_absolute :: "string \<Rightarrow> bool" where
  "posix_absolute s \<longleftrightarrow> take 1 s = ''/''"

definition as_posix :: "string list \<Rightarrow> string" where
  "as_posix ps = (if ps = [] then ''.'' else join_with ''/'' ps)"

section \<open>Identities\<close>

definition alnum :: "char \<Rightarrow> bool" where
  "alnum c \<longleftrightarrow> ascii_letter c \<or> is_digit c"

definition model_part :: "string \<Rightarrow> bool" where
  "model_part p \<longleftrightarrow> (case p of [] \<Rightarrow> False
     | c # r \<Rightarrow> alnum c \<and> length r \<le> 95 \<and> list_all (\<lambda>d. alnum d \<or> d \<in> set ''._-'') r)"

definition bad_model :: pyexc where
  "bad_model = ValueError ''model_id must be a safe Hugging Face owner/repository ID''"

definition validate_model_id :: "pyval \<Rightarrow> string result" where
  "validate_model_id v = (let s = text_field v; ps = split_on (CHR ''/'') s in
     if length ps \<noteq> 2 \<or> list_ex (\<lambda>p. p = ''.'' \<or> p = ''..'' \<or> contains ''--'' p) ps \<or> list_ex (\<lambda>p. \<not> model_part p) ps
     then Inl bad_model else Inr s)"

definition section_dirs :: "string list" where
  "section_dirs = [''checkpoints'', ''diffusion_models'', ''unet'', ''vae'', ''text_encoders'', ''clip'', ''clip_vision'',
     ''controlnet'', ''upscale_models'', ''embeddings'', ''latent_upscale_models'', ''style_models'', ''hypernetworks'']"

definition validate_storage_model_id :: "pyval \<Rightarrow> string result" where
  "validate_storage_model_id v = (let s = text_field v in
     case validate_model_id (PStr s) of
       Inr m \<Rightarrow> Inr m
     | Inl e \<Rightarrow>
         (case split_on (CHR ''/'') s of
            [a, b] \<Rightarrow>
              if a \<notin> set section_dirs \<or> b = [] \<or> b \<noteq> py_strip b \<or> b = ''.'' \<or> b = ''..'' \<or> 255 < length b \<or> bs \<in> set b \<or>
                list_ex py_control b
              then Inl e else Inr s
          | _ \<Rightarrow> Inl e))"

definition revision_of :: "pyval \<Rightarrow> string" where
  "revision_of v = (let s = py_strip (py_str (py_or v (PStr ''main''))) in if s = [] then ''main'' else s)"

definition bad_component :: "string \<Rightarrow> bool" where
  "bad_component c \<longleftrightarrow> c = [] \<or> c = ''.'' \<or> c = ''..'' \<or> starts_with ''.'' c \<or> ends_with ''.lock'' c"

definition validate_revision :: "pyval \<Rightarrow> string result" where
  "validate_revision v = (let s = revision_of v in
     if 200 < length s \<or> list_ex py_control s \<or> list_ex py_space s \<or>
       list_ex (\<lambda>c. c \<in> set ''~^:?*[<>|'' \<or> c = bs \<or> c = dq) s \<or> s = ''@'' \<or>
       contains ''..'' s \<or> contains ''//'' s \<or> contains (CHR ''@'' # ''{'') s \<or>
       starts_with ''/'' s \<or> ends_with ''/'' s \<or> ends_with ''.'' s \<or>
       list_ex bad_component (split_on (CHR ''/'') s)
     then Inl (ValueError ''revision must be a bounded Hugging Face revision'') else Inr s)"

definition hex_char :: "char \<Rightarrow> bool" where
  "hex_char c \<longleftrightarrow> is_digit c \<or> c \<in> set ''abcdefABCDEF''"

definition is_commit_sha :: "pyval \<Rightarrow> bool" where
  "is_commit_sha v = (case v of PStr s \<Rightarrow> length (py_strip s) = 40 \<and> list_all hex_char (py_strip s) | _ \<Rightarrow> False)"

definition cache_name :: "string \<Rightarrow> string" where
  "cache_name m = ''models--'' @ before_char (CHR ''/'') m @ ''--'' @ after_char (CHR ''/'') m"

definition validate_repo_file :: "pyval \<Rightarrow> string result" where
  "validate_repo_file v = (let s = str_or_empty v; ps = posix_parts s in
     if 1024 < length s \<or> posix_absolute s \<or> ps = [] \<or> list_ex (\<lambda>p. p = ''..'') ps \<or> bs \<in> set s
     then Inl (ValueError ''repository file must be a safe relative path'') else Inr (as_posix ps))"

section \<open>Sizes\<close>

fun nonnegative_int :: "pyval \<Rightarrow> int result" where
  "nonnegative_int v = (case py_int (py_or v (PInt 0)) of
       Inr i \<Rightarrow> Inr (max 0 i)
     | Inl OverflowError \<Rightarrow> Inl OverflowError
     | Inl e \<Rightarrow> Inr 0)"

definition optional_nonnegative :: "pyval \<Rightarrow> int option result" where
  "optional_nonnegative v = (case v of
       PNone \<Rightarrow> Inr None
     | PBool b \<Rightarrow> Inr None
     | _ \<Rightarrow> (case py_int v of
          Inr i \<Rightarrow> Inr (if 0 \<le> i then Some i else None)
        | Inl OverflowError \<Rightarrow> Inl OverflowError
        | Inl e \<Rightarrow> Inr None))"

definition disk_free_bytes :: "pyval \<Rightarrow> int option result" where
  "disk_free_bytes v = (case v of
       PDict d \<Rightarrow>
         (let f = (if dict_get d ''free'' = PNone then dict_get d ''free_bytes'' else dict_get d ''free'') in
          case py_int f of
            Inr i \<Rightarrow> Inr (if 0 \<le> i then Some i else None)
          | Inl OverflowError \<Rightarrow> Inl OverflowError
          | Inl e \<Rightarrow> Inr None)
     | _ \<Rightarrow> Inr None)"

definition staging_reserve :: int where
  "staging_reserve = 64 * 1024 * 1024 + 64 * 1024 * 4096"

definition download_reserve :: int where
  "download_reserve = 64 * 1024 * 1024"

text \<open>The byte counts below are already integers; \<open>max 0\<close> is \<open>_nonnegative_int\<close> on them.\<close>

definition download_required :: "int \<Rightarrow> int \<Rightarrow> int" where
  "download_required expected cached =
     max 0 expected + download_reserve - min (max 0 expected) (max 0 cached)"

definition transfer_required :: "int \<Rightarrow> int" where
  "transfer_required expected = max 0 expected + staging_reserve"

text \<open>\<open>_stall_window_seconds\<close>\<close>

definition stall_window :: "rat \<Rightarrow> rat \<Rightarrow> rat" where
  "stall_window timeout bps = (if 0 < bps then max timeout (2 * (64 * 1024 * 1024) / bps) else timeout)"

section \<open>Inventory entries\<close>

text \<open>One model of a node's inventory, as far as the decisions below read it.\<close>

record cached =
  c_model :: string
  c_partial :: bool
  c_has_partial :: bool
  c_transferable :: bool
  c_revisions :: "string list"
  c_refs :: "(string, string) dict"
  c_partial_refs :: "(string, string) dict"
  c_size :: int
  c_partial_size :: int
  c_transfer_size :: int
  c_partial_sizes :: "(string, int) dict"
  c_selective :: "(string, string list) dict"

definition holds_revision :: "cached option \<Rightarrow> string \<Rightarrow> string \<Rightarrow> bool" where
  "holds_revision m resolved requested = (case m of
       None \<Rightarrow> False
     | Some c \<Rightarrow>
         if resolved = [] \<or> c_partial c \<or> resolved \<notin> set (c_revisions c) then False
         else if requested = [] \<or> requested = resolved then True
         else if map_of (c_partial_refs c) requested \<noteq> None then False
         else (case map_of (c_refs c) requested of None \<Rightarrow> True | Some r \<Rightarrow> r = resolved))"

definition has_revision :: "cached \<Rightarrow> string \<Rightarrow> string \<Rightarrow> bool" where
  "has_revision c resolved requested =
     (if \<not> holds_revision (Some c) resolved requested then False
      else if requested = [] \<or> requested = resolved then True
      else map_of (c_refs c) requested = Some resolved)"

definition partial_bytes :: "cached option \<Rightarrow> string option \<Rightarrow> int" where
  "partial_bytes m rv = (case m of
       None \<Rightarrow> 0
     | Some c \<Rightarrow>
         if \<not> (c_partial c \<or> c_has_partial c) then 0
         else (case rv of
             Some r \<Rightarrow> max 0 (case map_of (c_partial_sizes c) r of None \<Rightarrow> 0 | Some n \<Rightarrow> n)
           | None \<Rightarrow> max 0 (if c_partial c then c_size c else c_partial_size c)))"

definition cached_bytes :: "cached option \<Rightarrow> int option \<Rightarrow> string option \<Rightarrow> int" where
  "cached_bytes m base rv = (case base of
       None \<Rightarrow> partial_bytes m rv
     | Some b \<Rightarrow> max 0 (max 0 (case m of None \<Rightarrow> 0 | Some c \<Rightarrow> c_size c) - max 0 b))"

definition selected_marker :: "cached option \<Rightarrow> string \<Rightarrow> string list \<Rightarrow> bool" where
  "selected_marker m rv sel = (sel \<noteq> [] \<and> (case m of
       None \<Rightarrow> False
     | Some c \<Rightarrow> (case map_of (c_selective c) rv of
          None \<Rightarrow> False | Some fs \<Rightarrow> set (filter (\<lambda>f. f \<noteq> []) fs) = set sel)))"

definition selected_bytes :: "cached option \<Rightarrow> string \<Rightarrow> string list \<Rightarrow> int" where
  "selected_bytes m rv sel = (if selected_marker m rv sel then partial_bytes m (Some rv) else 0)"

section \<open>Lemmas\<close>

lemma has_revision_holds: "has_revision c resolved requested \<Longrightarrow> holds_revision (Some c) resolved requested"
  by (simp add: has_revision_def split: if_splits)

text \<open>Enough free space for a download is enough for what is still missing, and never more than for all of it.\<close>

lemma download_required_bounds:
  "0 \<le> e \<Longrightarrow> 0 \<le> c \<Longrightarrow> e - c \<le> download_required e c \<and> download_required e c \<le> download_required e 0 \<and>
   download_reserve \<le> download_required e c"
  by (simp add: download_required_def download_reserve_def)

lemma valid_model_parts:
  assumes "validate_model_id v = Inr m"
  shows "\<exists>a b. m = a @ CHR ''/'' # b \<and> model_part a \<and> model_part b \<and> \<not> contains ''--'' a \<and> \<not> contains ''--'' b \<and>
    CHR ''/'' \<notin> set a \<and> CHR ''/'' \<notin> set b \<and> a \<notin> {''.'', ''..''} \<and> b \<notin> {''.'', ''..''}"
proof -
  let ?ps = "split_on (CHR ''/'') (text_field v)"
  have ok: "length ?ps = 2" "\<forall>p \<in> set ?ps. p \<noteq> ''.'' \<and> p \<noteq> ''..'' \<and> \<not> contains ''--'' p \<and> model_part p" "m = text_field v"
    using assms by (auto simp: validate_model_id_def Let_def list_ex_iff split: if_splits)
  obtain a b where ab: "?ps = [a, b]" using ok(1) by (auto simp: numeral_2_eq_2 length_Suc_conv)
  have "m = a @ CHR ''/'' # b" using join_split_on[of "CHR ''/''" "text_field v"] ab ok(3) by simp
  moreover have "CHR ''/'' \<notin> set a" "CHR ''/'' \<notin> set b"
    using split_on_no_sep[of _ "CHR ''/''" "text_field v"] ab by simp_all
  ultimately show ?thesis using ok(2) ab by auto
qed

text \<open>A cut at \<open>--\<close> is unambiguous, since no part contains \<open>--\<close> or starts with \<open>-\<close>.\<close>

lemma cut_unique:
  assumes "a @ ''--'' @ b = c @ ''--'' @ d" "length a < length c" "\<not> contains ''--'' c" "model_part b"
  shows False
proof -
  obtain e where e: "c = a @ e" "''--'' @ b = e @ ''--'' @ d" "e \<noteq> []"
    using assms(1,2) by (auto simp: append_eq_append_conv2)
  show False
  proof (cases "length e = 1")
    case True
    then have "e = ''-''" using e(2) by (cases e) auto
    then have "b = ''-'' @ d" using e(2) by simp
    then show False using assms(4) by (auto simp: model_part_def alnum_def ascii_letter_def is_digit_def)
  next
    case False
    then obtain u where "e = ''--'' @ u" using e(2,3) by (cases e; cases "tl e") auto
    then show False using assms(3) e(1) by (simp add: contains_iff) blast
  qed
qed

text \<open>Two valid models never share a cache directory, and the directory is a plain name.\<close>

lemma cache_name_parts:
  assumes "validate_model_id v = Inr m"
  shows "\<exists>a b. m = a @ CHR ''/'' # b \<and> cache_name m = ''models--'' @ a @ ''--'' @ b \<and> model_part b \<and> \<not> contains ''--'' a \<and>
    CHR ''/'' \<notin> set (cache_name m)"
proof -
  obtain a b where ab: "m = a @ CHR ''/'' # b" "model_part b" "\<not> contains ''--'' a" "CHR ''/'' \<notin> set a" "CHR ''/'' \<notin> set b"
    using valid_model_parts[OF assms] by blast
  have "takeWhile (\<lambda>x. x \<noteq> CHR ''/'') m = a" "dropWhile (\<lambda>x. x \<noteq> CHR ''/'') m = CHR ''/'' # b"
    using ab(1,4) by (induction a arbitrary: m) auto
  then have "cache_name m = ''models--'' @ a @ ''--'' @ b"
    by (simp add: cache_name_def before_char_def after_char_def)
  then show ?thesis using ab by auto
qed

lemma cache_name_inj:
  assumes "validate_model_id v = Inr m" "validate_model_id w = Inr n" "cache_name m = cache_name n"
  shows "m = n"
proof -
  obtain a b where m: "m = a @ CHR ''/'' # b" "cache_name m = ''models--'' @ a @ ''--'' @ b" "model_part b" "\<not> contains ''--'' a"
    using cache_name_parts[OF assms(1)] by blast
  obtain c d where n: "n = c @ CHR ''/'' # d" "cache_name n = ''models--'' @ c @ ''--'' @ d" "model_part d" "\<not> contains ''--'' c"
    using cache_name_parts[OF assms(2)] by blast
  have eq: "a @ ''--'' @ b = c @ ''--'' @ d" using assms(3) m(2) n(2) by simp
  consider "length a < length c" | "length c < length a" | "length a = length c" by linarith
  then show ?thesis
  proof cases
    case 1
    then show ?thesis using cut_unique[OF eq 1 n(4) m(3)] by blast
  next
    case 2
    then show ?thesis using cut_unique[OF eq[symmetric] 2 m(4) n(3)] by blast
  next
    case 3
    then show ?thesis using eq m(1) n(1) by simp
  qed
qed

section \<open>Path components\<close>

text \<open>A component as \<open>PurePosixPath\<close> yields it, other than \<open>..\<close>.\<close>

definition stream_name :: "string \<Rightarrow> bool" where
  "stream_name c \<longleftrightarrow> c \<noteq> [] \<and> c \<noteq> ''.'' \<and> c \<noteq> ''..'' \<and> CHR ''/'' \<notin> set c"

lemma split_on_append: "c \<notin> set w \<Longrightarrow> split_on c (w @ c # s) = w # split_on c s"
  by (induction w) auto

lemma split_on_word: "c \<notin> set w \<Longrightarrow> split_on c w = [w]"
  by (induction w) auto

lemma split_join: "ws \<noteq> [] \<Longrightarrow> \<forall>w \<in> set ws. c \<notin> set w \<Longrightarrow> split_on c (join_with [c] ws) = ws"
proof (induction ws)
  case (Cons w ws)
  then show ?case by (cases ws) (auto simp: split_on_word split_on_append)
qed simp

lemma parts_as_posix: "p \<noteq> [] \<Longrightarrow> list_all stream_name p \<Longrightarrow> posix_parts (as_posix p) = p"
proof -
  assume p: "p \<noteq> []" "list_all stream_name p"
  then have "split_on (CHR ''/'') (as_posix p) = p"
    by (simp add: as_posix_def split_join list_all_iff stream_name_def)
  moreover have "filter (\<lambda>x. x \<noteq> [] \<and> x \<noteq> ''.'') p = p"
    using p(2) by (intro filter_id_conv') (auto simp: list_all_iff stream_name_def)
  ultimately show ?thesis by (simp add: posix_parts_def)
qed

lemma posix_parts_names: "c \<in> set (posix_parts s) \<Longrightarrow> c \<noteq> ''..'' \<Longrightarrow> stream_name c"
  using split_on_no_sep by (auto simp: posix_parts_def stream_name_def)

lemma set_join: "set (join_with sep ws) \<subseteq> set sep \<union> (\<Union>w \<in> set ws. set w)"
  by (induction sep ws rule: join_with.induct) auto

lemma as_posix_plain:
  assumes "p \<noteq> []" "list_all stream_name p" "\<forall>c \<in> set p. bs \<notin> set c"
  shows "as_posix p \<noteq> []" "bs \<notin> set (as_posix p)" "\<not> posix_absolute (as_posix p)"
proof -
  obtain c cs where p: "p = c # cs" using assms(1) by (cases p) auto
  obtain d e where c: "c = d # e" "d \<noteq> CHR ''/''" using assms(2) p by (cases c) (auto simp: stream_name_def)
  have h: "\<exists>u. as_posix p = d # u" using p c by (cases cs) (auto simp: as_posix_def)
  then show "as_posix p \<noteq> []" by auto
  show "\<not> posix_absolute (as_posix p)" using h c(2) by (auto simp: posix_absolute_def)
  show "bs \<notin> set (as_posix p)" using set_join[of "''/''" p] assms(1,3) by (auto simp: as_posix_def)
qed

lemma split_on_subset: "w \<in> set (split_on c s) \<Longrightarrow> set w \<subseteq> set s"
proof (induction s arbitrary: w)
  case (Cons x s)
  then show ?case by (cases "split_on c s") (fastforce split: if_splits)+
qed simp

text \<open>Normalising a path does not make it longer.\<close>

definition joined_length :: "string list \<Rightarrow> nat" where
  "joined_length ws = sum_list (map (\<lambda>w. Suc (length w)) ws)"

lemma length_join: "length (join_with [c] ws) = joined_length ws - 1"
proof (induction ws)
  case (Cons w ws)
  then show ?case by (cases ws) (simp_all add: joined_length_def)
qed (simp add: joined_length_def)

lemma joined_filter: "joined_length (filter P ws) \<le> joined_length ws"
  by (induction ws) (auto simp: joined_length_def)

lemma joined_split: "joined_length (split_on c s) = Suc (length s)"
  by (induction s) (auto simp: joined_length_def split: list.splits)

lemma length_as_posix: "posix_parts s \<noteq> [] \<Longrightarrow> length (as_posix (posix_parts s)) \<le> length s"
  using joined_filter[of "\<lambda>p. p \<noteq> [] \<and> p \<noteq> ''.''" "split_on (CHR ''/'') s"]
  by (simp add: as_posix_def length_join posix_parts_def joined_split)

lemma validated_file_again:
  assumes "validate_repo_file v = Inr s"
  shows "validate_repo_file (PStr s) = Inr s"
proof -
  let ?ps = "posix_parts (str_or_empty v)"
  have v: "length (str_or_empty v) \<le> 1024" "?ps \<noteq> []" "''..'' \<notin> set ?ps" "bs \<notin> set (str_or_empty v)" "s = as_posix ?ps"
    using assms by (auto simp: validate_repo_file_def Let_def list_ex_iff split: if_splits)
  have names: "list_all stream_name ?ps" using posix_parts_names v(3) by (auto simp: list_all_iff)
  have "bs \<notin> set c" if "c \<in> set ?ps" for c
    using split_on_subset[of c "CHR ''/''" "str_or_empty v"] that v(4) by (auto simp: posix_parts_def)
  then have "s \<noteq> []" "bs \<notin> set s" "\<not> posix_absolute s" using as_posix_plain[OF v(2) names] v(5) by auto
  moreover have "posix_parts s = ?ps" using parts_as_posix[OF v(2) names] v(5) by simp
  moreover have "length s \<le> 1024" using length_as_posix[of "str_or_empty v"] v(1,2,5) by simp
  ultimately show ?thesis using v(2,3,5) by (auto simp: validate_repo_file_def Let_def list_ex_iff str_or_empty_def py_or_def)
qed

lemma validated_model_again: "validate_model_id v = Inr m \<Longrightarrow> validate_model_id (PStr m) = Inr m"
  by (auto simp: validate_model_id_def Let_def text_field_strip split: if_splits)

lemma validated_revision_again: "validate_revision v = Inr r \<Longrightarrow> validate_revision (PStr r) = Inr r"
proof -
  assume v: "validate_revision v = Inr r"
  then have r: "r = revision_of v" by (auto simp: validate_revision_def Let_def split: if_splits)
  have m: "py_strip ''main'' = ''main''" by (simp add: py_strip_def py_space_def)
  have "py_strip r = r" "r \<noteq> []" unfolding r revision_of_def Let_def using m by simp_all
  then have "revision_of (PStr r) = r" by (simp add: revision_of_def py_or_def)
  then show ?thesis using v r by (simp add: validate_revision_def Let_def split: if_splits)
qed

end
