(* ===== verification/File_Stream.thy ===== *)
theory File_Stream imports Nas_Ids
begin

text \<open>
  The file stream that copies a model between nodes (\<open>sparkdeck/virtual_nas.py\<close>): the frames an export writes,
  the reader over arbitrarily cut chunks, and the receiver that checks every entry and builds the staged
  repository.  A byte string is a \<open>string\<close>; \<open>dumps\<close> and \<open>decode\<close> are the JSON codec, \<open>sha\<close> the digest.  The
  staged tree is a dictionary from paths to directories and files; \<open>stop n\<close> is whether the cancel event is
  set when \<open>n\<close> bytes have been received.  Links are checked and collected; creating them is left out.
\<close>

lemmas bindE_fundef_cong [fundef_cong] = bindE_cong

section \<open>Frames\<close>

definition be32 :: "nat \<Rightarrow> string" where
  "be32 n = map char_of [n div 16777216, n div 65536, n div 256, n]"

definition unbe32 :: "string \<Rightarrow> nat" where
  "unbe32 s = foldl (\<lambda>a c. a * 256 + of_char c) 0 s"

definition stream_magic :: string where
  "stream_magic = ''SPARKDECK-FILE-STREAM/1'' @ [CHR 0x0A]"

definition header_max :: nat where "header_max = 1024 * 1024"
definition metadata_max :: nat where "metadata_max = 32 * 1024 * 1024"
definition entries_max :: nat where "entries_max = 4096"
definition stream_chunk :: nat where "stream_chunk = 4 * 1024 * 1024"
definition digest_size :: nat where "digest_size = 32"

text \<open>The entries an export collects, with the wire path as components.\<close>

datatype source =
    SDir "string list"
  | SFile "string list" nat string
  | SLink bool "string list" string

fun source_path :: "source \<Rightarrow> string list" where
  "source_path (SDir p) = p"
| "source_path (SFile p m c) = p"
| "source_path (SLink h p t) = p"

fun public_entry :: "source \<Rightarrow> (string \<times> pyval) list" where
  "public_entry (SDir p) = [(''path'', PStr (as_posix p)), (''type'', PStr ''directory'')]"
| "public_entry (SFile p m c) = [(''path'', PStr (as_posix p)), (''type'', PStr ''file''),
     (''size'', PInt (int (length c))), (''mode'', PInt (int m))]"
| "public_entry (SLink h p t) = [(''path'', PStr (as_posix p)),
     (''type'', PStr (if h then ''hardlink'' else ''symlink'')), (''target'', PStr t)]"

definition stream_header :: "(pyval \<Rightarrow> string) \<Rightarrow> (string \<times> pyval) list \<Rightarrow> string result" where
  "stream_header dumps d = (let raw = dumps (PDict d) in
     if raw = [] \<or> header_max < length raw then Inl (ValueError ''file stream metadata is too large'')
     else Inr (be32 (length raw) @ raw))"

definition entry_frame :: "(pyval \<Rightarrow> string) \<Rightarrow> (string \<Rightarrow> string) \<Rightarrow> source \<Rightarrow> string result" where
  "entry_frame dumps sha e = bindE (stream_header dumps (public_entry e)) (\<lambda>h.
     Inr (h @ (case e of SFile p m c \<Rightarrow> c @ sha c | _ \<Rightarrow> [])))"

definition export_frames :: "(pyval \<Rightarrow> string) \<Rightarrow> (string \<Rightarrow> string) \<Rightarrow> source list \<Rightarrow> string result" where
  "export_frames dumps sha es = foldE (\<lambda>out e. bindE (entry_frame dumps sha e) (\<lambda>f. Inr (out @ f))) stream_magic es"

definition export_stream :: "(pyval \<Rightarrow> string) \<Rightarrow> (string \<Rightarrow> string) \<Rightarrow> source list \<Rightarrow> string result" where
  "export_stream dumps sha es =
     (if entries_max < length es then Inl (ValueError ''model repository exceeds the direct transfer entry limit'')
      else bindE (export_frames dumps sha es) (\<lambda>out. Inr (out @ be32 0)))"

section \<open>The reader\<close>

record reader =
  rd_buf :: string
  rd_chunks :: "string list"
  rd_received :: nat

definition new_reader :: "string list \<Rightarrow> reader" where
  "new_reader cs = \<lparr>rd_buf = [], rd_chunks = cs, rd_received = 0\<rparr>"

fun fill :: "nat \<Rightarrow> string \<Rightarrow> nat \<Rightarrow> string list \<Rightarrow> reader option" where
  "fill n b got [] = (if n \<le> length b then Some \<lparr>rd_buf = b, rd_chunks = [], rd_received = got\<rparr> else None)"
| "fill n b got (c # cs) =
     (if n \<le> length b then Some \<lparr>rd_buf = b, rd_chunks = c # cs, rd_received = got\<rparr>
      else fill n (b @ c) (got + length c) cs)"

definition read_exact :: "nat \<Rightarrow> reader \<Rightarrow> (string \<times> reader) result" where
  "read_exact n r = (case fill n (rd_buf r) (rd_received r) (rd_chunks r) of
       None \<Rightarrow> Inl (ValueError ''file stream ended unexpectedly'')
     | Some r' \<Rightarrow> Inr (take n (rd_buf r'), r'\<lparr>rd_buf := drop n (rd_buf r')\<rparr>))"

definition require_eof :: "reader \<Rightarrow> unit result" where
  "require_eof r = checkE (rd_buf r = [] \<and> list_all (\<lambda>c. c = []) (rd_chunks r)) (ValueError ''file stream contains trailing data'')"

definition rd_bytes :: "reader \<Rightarrow> string" where
  "rd_bytes r = rd_buf r @ concat (rd_chunks r)"

lemma fill_bytes: "fill n b got cs = Some r \<Longrightarrow> rd_bytes r = b @ concat cs \<and> n \<le> length (rd_buf r) \<and>
    rd_received r + length (concat (rd_chunks r)) = got + length (concat cs)"
  by (induction n b got cs rule: fill.induct) (auto simp: rd_bytes_def split: if_splits)

lemma fill_None: "fill n b got cs = None \<longleftrightarrow> length (b @ concat cs) < n"
  by (induction n b got cs rule: fill.induct) (auto split: if_splits)

text \<open>Reading from chunks is reading from their concatenation.\<close>

lemma read_exact_bytes:
  "read_exact n r = Inr (s, r') \<Longrightarrow> s = take n (rd_bytes r) \<and> rd_bytes r' = drop n (rd_bytes r) \<and> n \<le> length (rd_bytes r) \<and>
   rd_received r' + length (concat (rd_chunks r')) = rd_received r + length (concat (rd_chunks r))"
proof -
  assume "read_exact n r = Inr (s, r')"
  then obtain r0 where r0: "fill n (rd_buf r) (rd_received r) (rd_chunks r) = Some r0" "s = take n (rd_buf r0)"
    "r' = r0\<lparr>rd_buf := drop n (rd_buf r0)\<rparr>"
    by (auto simp: read_exact_def split: option.splits)
  have b: "rd_bytes r = rd_bytes r0" "n \<le> length (rd_buf r0)" using fill_bytes[OF r0(1)] by (simp_all add: rd_bytes_def)
  have "s = take n (rd_bytes r)" "rd_bytes r' = drop n (rd_bytes r)" "n \<le> length (rd_bytes r)"
    using b r0(2,3) by (simp_all add: rd_bytes_def)
  then show ?thesis using fill_bytes[OF r0(1)] r0(3) by simp
qed

lemma read_exact_error: "read_exact n r = Inl e \<longleftrightarrow> length (rd_bytes r) < n \<and> e = ValueError ''file stream ended unexpectedly''"
  using fill_None[of n "rd_buf r" "rd_received r" "rd_chunks r"]
  by (auto simp: read_exact_def rd_bytes_def split: option.splits)

lemma read_exact_ok: "n \<le> length (rd_bytes r) \<Longrightarrow> \<exists>s r'. read_exact n r = Inr (s, r')"
  using read_exact_error[of n r] by (cases "read_exact n r") auto

section \<open>Safe paths and links\<close>

definition unsafe_path :: pyexc where
  "unsafe_path = ValueError ''file stream contains an unsafe path''"

definition stream_path :: "pyval \<Rightarrow> string \<Rightarrow> string list result" where
  "stream_path v repo = (case v of
       PStr s \<Rightarrow> (let ps = posix_parts s in
         if s = [] \<or> bs \<in> set s \<or> posix_absolute s \<or> ''..'' \<in> set ps \<or> ps = [] \<or> hd ps \<noteq> repo
         then Inl unsafe_path else Inr ps)
     | _ \<Rightarrow> Inl unsafe_path)"

text \<open>\<open>os.path.normpath\<close> on the components of a relative path\<close>

fun normalize :: "string list \<Rightarrow> string list \<Rightarrow> string list" where
  "normalize done [] = rev done"
| "normalize done (c # cs) =
     (if c \<noteq> ''..'' \<or> done = [] \<or> hd done = ''..'' then normalize (c # done) cs else normalize (tl done) cs)"

definition drive_letter :: "string \<Rightarrow> bool" where
  "drive_letter s \<longleftrightarrow> (case s of c # d # r \<Rightarrow> ascii_letter c \<and> d = CHR '':'' | _ \<Rightarrow> False)"

definition link_target :: "string list \<Rightarrow> string \<Rightarrow> string list" where
  "link_target p t = normalize [] (butlast p @ posix_parts t)"

definition stream_link :: "string list \<Rightarrow> pyval \<Rightarrow> string \<Rightarrow> string result" where
  "stream_link p v repo = (case v of
       PStr t \<Rightarrow>
         if t = [] \<or> bs \<in> set t \<or> drive_letter t \<or> posix_absolute t then Inl (ValueError ''file stream contains an unsafe link'')
         else (let n = link_target p t in
           if n = [] \<or> hd n \<noteq> repo \<or> ''..'' \<in> set n then Inl (ValueError ''file stream link escapes its repository'')
           else Inr t)
     | _ \<Rightarrow> Inl (ValueError ''file stream contains an unsafe link''))"

section \<open>The staged tree\<close>

datatype node = NDir | NFile nat string

type_synonym stage = "(string list, node) dict"

text \<open>Missing directories along a path; \<open>up\<close> is the part already walked.\<close>

fun ensure_dirs :: "string list \<Rightarrow> string list \<Rightarrow> stage \<Rightarrow> stage result" where
  "ensure_dirs up [] st = Inr st"
| "ensure_dirs up (c # cs) st = (case map_of st (up @ [c]) of
       None \<Rightarrow> ensure_dirs (up @ [c]) cs (st @ [(up @ [c], NDir)])
     | Some NDir \<Rightarrow> ensure_dirs (up @ [c]) cs st
     | Some (NFile m b) \<Rightarrow> Inl (OSError ''not a directory''))"

definition add_node :: "string list \<Rightarrow> node \<Rightarrow> stage \<Rightarrow> stage result" where
  "add_node p n st = bindE (ensure_dirs [] (butlast p) st) (\<lambda>st'.
     if map_of st' p \<noteq> None then Inl (FileExistsError ''file exists'') else Inr (st' @ [(p, n)]))"

section \<open>The receiver\<close>

record recv =
  rv_seen :: "string list list"
  rv_links :: "(string list \<times> string \<times> bool) list"
  rv_stage :: stage
  rv_declared :: int
  rv_metadata :: nat
  rv_count :: nat

definition recv0 :: recv where
  "recv0 = \<lparr>rv_seen = [], rv_links = [], rv_stage = [], rv_declared = 0, rv_metadata = 0, rv_count = 0\<rparr>"

definition charge_header :: "nat \<Rightarrow> recv \<Rightarrow> recv result" where
  "charge_header n st = (let m = rv_metadata st + n + 4; k = rv_count st + 1 in
     if header_max < n then Inl (ValueError ''file stream metadata is too large'')
     else if metadata_max < m \<or> entries_max < k then Inl (ValueError ''file stream contains too much metadata'')
     else Inr (st\<lparr>rv_metadata := m, rv_count := k\<rparr>))"

definition bad_metadata :: pyexc where
  "bad_metadata = ValueError ''file stream metadata is invalid''"

definition entry_keys :: "(string \<times> pyval) list \<Rightarrow> string set" where
  "entry_keys d = set (keys_of d)"

definition entry_size :: "(string \<times> pyval) list \<Rightarrow> int result" where
  "entry_size d = (case dict_get d ''size'' of
       PInt i \<Rightarrow> if 0 \<le> i then Inr i else Inl (ValueError ''file stream file size is invalid'')
     | _ \<Rightarrow> Inl (ValueError ''file stream file size is invalid''))"

definition entry_mode :: "(string \<times> pyval) list \<Rightarrow> nat result" where
  "entry_mode d = (case (if has_key d ''mode'' then dict_get d ''mode'' else PInt 384) of
       PInt i \<Rightarrow> if 0 \<le> i \<and> i \<le> 511 then Inr (nat i) else Inl (ValueError ''file stream file mode is invalid'')
     | _ \<Rightarrow> Inl (ValueError ''file stream file mode is invalid''))"

function read_payload :: "(nat \<Rightarrow> bool) \<Rightarrow> nat \<Rightarrow> string \<Rightarrow> reader \<Rightarrow> (string \<times> reader) result" where
  "read_payload stop n acc r =
     (if n = 0 then Inr (acc, r)
      else if stop (rd_received r) then Inl TransferCanceled
      else bindE (read_exact (min stream_chunk n) r) (\<lambda>x.
        read_payload stop (n - min stream_chunk n) (acc @ fst x) (snd x)))"
  by auto
termination by (relation "measure (\<lambda>(stop, n, acc, r). n)") (auto simp: stream_chunk_def)

declare read_payload.simps [simp del]

text \<open>The part for files: declared size, space limit, payload, digest.\<close>

definition receive_file ::
  "(string \<Rightarrow> string) \<Rightarrow> (nat \<Rightarrow> bool) \<Rightarrow> int option \<Rightarrow> string list \<Rightarrow> (string \<times> pyval) list \<Rightarrow> recv \<Rightarrow> reader
   \<Rightarrow> (recv \<times> reader) result" where
  "receive_file sha stop limit p d st r =
     bindE (entry_size d) (\<lambda>size. bindE (entry_mode d) (\<lambda>mode.
     let total = rv_declared st + size in
     if (case limit of None \<Rightarrow> False | Some m \<Rightarrow> m < total)
     then Inl (ValueError ''file stream exceeds the admitted transfer size'')
     else if length p = 1 then Inl (ValueError ''file stream repository root cannot be a file'')
     else bindE (add_node p (NFile mode []) (rv_stage st)) (\<lambda>stage.
       bindE (read_payload stop (nat size) [] r) (\<lambda>x.
       bindE (read_exact digest_size (snd x)) (\<lambda>y.
       if sha (fst x) \<noteq> fst y then Inl (ValueError ''model file failed transfer integrity verification'')
       else Inr (st\<lparr>rv_declared := total, rv_stage := butlast stage @ [(p, NFile mode (fst x))]\<rparr>, snd y))))))"

definition unhashable_type :: "pyval \<Rightarrow> bool" where
  "unhashable_type v = (case v of PList xs \<Rightarrow> True | PDict d \<Rightarrow> True | _ \<Rightarrow> False)"

definition receive_entry ::
  "(string \<Rightarrow> string) \<Rightarrow> (nat \<Rightarrow> bool) \<Rightarrow> int option \<Rightarrow> string \<Rightarrow> (string \<times> pyval) list \<Rightarrow> recv \<Rightarrow> reader
   \<Rightarrow> (recv \<times> reader) result" where
  "receive_entry sha stop limit repo d st r =
     bindE (stream_path (dict_get d ''path'') repo) (\<lambda>p.
     if p \<in> set (rv_seen st) then Inl (ValueError ''file stream contains a duplicate path'')
     else (let st1 = st\<lparr>rv_seen := p # rv_seen st\<rparr>; t = dict_get d ''type''; ks = entry_keys d in
       if t = PStr ''directory'' \<and> ks = {''path'', ''type''}
       then bindE (add_node p NDir (rv_stage st1)) (\<lambda>stage. Inr (st1\<lparr>rv_stage := stage\<rparr>, r))
       else if unhashable_type t then Inl (TypeError ''unhashable type'')
       else if (t = PStr ''symlink'' \<or> t = PStr ''hardlink'') \<and> ks = {''path'', ''type'', ''target''}
       then (if length p = 1 then Inl (ValueError ''file stream repository root cannot be a link'')
         else bindE (stream_link p (dict_get d ''target'') repo) (\<lambda>tg.
           Inr (st1\<lparr>rv_links := rv_links st1 @ [(p, tg, t = PStr ''hardlink'')]\<rparr>, r)))
       else if t \<noteq> PStr ''file'' \<or> ks \<notin> {{''path'', ''type'', ''size''}, {''path'', ''type'', ''size'', ''mode''}}
       then Inl bad_metadata
       else receive_file sha stop limit p d st1 r))"

section \<open>The loop over entries\<close>

lemma read_payload_bytes:
  "read_payload stop n acc r = Inr (s, r') \<Longrightarrow> s = acc @ take n (rd_bytes r) \<and> rd_bytes r' = drop n (rd_bytes r) \<and> n \<le> length (rd_bytes r)"
proof (induction stop n acc r arbitrary: s r' rule: read_payload.induct)
  case (1 stop n acc r)
  show ?case
  proof (cases "n = 0")
    case True
    then show ?thesis using "1.prems" by (simp add: read_payload.simps)
  next
    case False
    let ?k = "min stream_chunk n"
    have k: "?k \<le> n" by simp
    from False "1.prems" obtain a r1 where a: "\<not> stop (rd_received r)" "read_exact ?k r = Inr (a, r1)"
      "read_payload stop (n - ?k) (acc @ a) r1 = Inr (s, r')"
      by (subst (asm) read_payload.simps) (auto simp: except_simps split: if_splits)
    have "s = (acc @ a) @ take (n - ?k) (rd_bytes r1) \<and> rd_bytes r' = drop (n - ?k) (rd_bytes r1) \<and> n - ?k \<le> length (rd_bytes r1)"
      using "1.IH"[OF False a(1), of "(a, r1)"] a(2,3) by simp
    moreover have "a = take ?k (rd_bytes r)" "rd_bytes r1 = drop ?k (rd_bytes r)" "?k \<le> length (rd_bytes r)"
      using read_exact_bytes[OF a(2)] by auto
    moreover have "take ?k (rd_bytes r) @ take (n - ?k) (drop ?k (rd_bytes r)) = take n (rd_bytes r)"
      using k by (metis le_add_diff_inverse take_add)
    ultimately show ?thesis using k by auto
  qed
qed

lemma receive_file_bytes:
  assumes "receive_file sha stop limit p d st r = Inr (st', r')"
  shows "length (rd_bytes r') \<le> length (rd_bytes r)"
proof -
  obtain n x y where "read_payload stop n [] r = Inr x" "read_exact digest_size (snd x) = Inr y" "r' = snd y"
    using assms by (auto simp: receive_file_def Let_def except_simps split: if_splits)
  then show ?thesis
    using read_payload_bytes[of stop n "[]" r "fst x" "snd x"] read_exact_bytes[of digest_size "snd x" "fst y" "snd y"] by simp
qed

lemma receive_entry_bytes:
  assumes "receive_entry sha stop limit repo d st r = Inr (st', r')"
  shows "length (rd_bytes r') \<le> length (rd_bytes r)"
  using assms receive_file_bytes
  by (auto simp: receive_entry_def Let_def except_simps split: if_splits)

function receive_loop ::
  "(string \<Rightarrow> pyval option) \<Rightarrow> (string \<Rightarrow> string) \<Rightarrow> (nat \<Rightarrow> bool) \<Rightarrow> int option \<Rightarrow> string \<Rightarrow> recv \<Rightarrow> reader
   \<Rightarrow> (recv \<times> reader) result" where
  "receive_loop decode sha stop limit repo st r =
     (if stop (rd_received r) then Inl TransferCanceled
      else bindE (read_exact 4 r) (\<lambda>h.
        if unbe32 (fst h) = 0 then Inr (st, snd h)
        else bindE (charge_header (unbe32 (fst h)) st) (\<lambda>st1.
          bindE (read_exact (unbe32 (fst h)) (snd h)) (\<lambda>raw.
          case decode (fst raw) of
            Some (PDict d) \<Rightarrow>
              bindE (receive_entry sha stop limit repo d st1 (snd raw)) (\<lambda>x.
                receive_loop decode sha stop limit repo (fst x) (snd x))
          | _ \<Rightarrow> Inl bad_metadata))))"
  by auto
termination
proof (relation "measure (\<lambda>(decode, sha, stop, limit, repo, st, r). length (rd_bytes r))", goal_cases)
  case (2 decode sha stop limit repo st r h st1 raw v d x)
  obtain s r1 where h: "h = (s, r1)" by (cases h)
  obtain s2 r2 where raw: "raw = (s2, r2)" by (cases raw)
  obtain st2 r3 where x: "x = (st2, r3)" by (cases x)
  have "4 \<le> length (rd_bytes r)" "length (rd_bytes r1) = length (rd_bytes r) - 4"
    using read_exact_bytes[of 4 r s r1] 2 h by simp_all
  then have "length (rd_bytes r1) < length (rd_bytes r)" by linarith
  moreover have "length (rd_bytes r2) \<le> length (rd_bytes r1)"
    using read_exact_bytes[of "unbe32 s" r1 s2 r2] 2 h raw by simp
  moreover have "length (rd_bytes r3) \<le> length (rd_bytes r2)"
    using receive_entry_bytes 2 raw x by (simp add: receive_entry_bytes)
  ultimately show ?case using x by simp
qed simp

declare receive_loop.simps [simp del]

definition receive_stream ::
  "(string \<Rightarrow> pyval option) \<Rightarrow> (string \<Rightarrow> string) \<Rightarrow> (nat \<Rightarrow> bool) \<Rightarrow> int option \<Rightarrow> int option \<Rightarrow> string \<Rightarrow> string list
   \<Rightarrow> ((string list \<times> string \<times> bool) list \<times> stage \<times> nat) result" where
  "receive_stream decode sha stop expected limit repo cs =
     bindE (read_exact (length stream_magic) (new_reader cs)) (\<lambda>m.
     if fst m \<noteq> stream_magic then Inl (ValueError ''model transfer is not a SparkDeck file stream'')
     else bindE (receive_loop decode sha stop limit repo recv0 (snd m)) (\<lambda>x.
       bindE (require_eof (snd x)) (\<lambda>_.
       if expected \<noteq> None \<and> expected \<noteq> Some (int (rd_received (snd x)))
       then Inl (ValueError ''file stream byte count does not match expected size'')
       else if rv_seen (fst x) = [] then Inl (ValueError ''model file stream is empty'')
       else if stop (rd_received (snd x)) then Inl TransferCanceled
       else Inr (rv_links (fst x), rv_stage (fst x), rd_received (snd x)))))"

section \<open>Independence of the chunks\<close>

text \<open>Two readers at the same place of the same byte sequence, and two results that agree up to such readers.\<close>

definition same_place :: "reader \<Rightarrow> reader \<Rightarrow> bool" where
  "same_place r s \<longleftrightarrow> rd_bytes r = rd_bytes s \<and>
     rd_received r + length (concat (rd_chunks r)) = rd_received s + length (concat (rd_chunks s))"

definition same_result :: "('a \<times> reader) result \<Rightarrow> ('a \<times> reader) result \<Rightarrow> bool" where
  "same_result x y \<longleftrightarrow> (case x of Inl e \<Rightarrow> y = Inl e | Inr (a, r) \<Rightarrow> \<exists>s. y = Inr (a, s) \<and> same_place r s)"

named_theorems place_intros

lemma same_result_Inl [place_intros]: "same_result (Inl e) (Inl e)"
  by (simp add: same_result_def)

lemma same_result_Inr [place_intros]: "same_place r s \<Longrightarrow> same_result (Inr (a, r)) (Inr (a, s))"
  by (simp add: same_result_def)

lemma same_result_if [place_intros]:
  "(P \<Longrightarrow> same_result a b) \<Longrightarrow> (\<not> P \<Longrightarrow> same_result c d) \<Longrightarrow> same_result (if P then a else c) (if P then b else d)"
  by simp

lemma same_result_bind [place_intros]:
  assumes "same_result m m'" "\<And>a r s. m = Inr (a, r) \<Longrightarrow> same_place r s \<Longrightarrow> same_result (f (a, r)) (g (a, s))"
  shows "same_result (bindE m f) (bindE m' g)"
proof (cases m)
  case (Inl e)
  then show ?thesis using assms(1) by (simp add: same_result_def)
next
  case (Inr x)
  obtain a r where x: "x = (a, r)" by (cases x)
  then obtain s where "m' = Inr (a, s)" "same_place r s" using assms(1) Inr by (auto simp: same_result_def)
  then show ?thesis using assms(2)[of a r s] Inr x by simp
qed

lemma same_result_pure [place_intros]:
  "(\<And>a. same_result (f a) (g a)) \<Longrightarrow> same_result (bindE m f) (bindE m g)"
  by (cases m) (auto simp: same_result_def)

lemma same_result_read: "same_place r s \<Longrightarrow> same_result (read_exact n r) (read_exact n s)"
proof (cases "n \<le> length (rd_bytes r)")
  case True
  assume p: "same_place r s"
  obtain a r' where a: "read_exact n r = Inr (a, r')" using read_exact_ok[OF True] by blast
  obtain b s' where b: "read_exact n s = Inr (b, s')" using read_exact_ok[of n s] True p by (auto simp: same_place_def)
  show ?thesis using read_exact_bytes[OF a] read_exact_bytes[OF b] p a b
    by (simp add: same_result_def same_place_def)
next
  case False
  assume p: "same_place r s"
  have "read_exact n r = Inl (ValueError ''file stream ended unexpectedly'')"
    "read_exact n s = Inl (ValueError ''file stream ended unexpectedly'')"
    using False p by (simp_all add: read_exact_error same_place_def)
  then show ?thesis by (simp add: same_result_Inl)
qed

lemma same_result_payload:
  "same_place r s \<Longrightarrow> same_result (read_payload (\<lambda>_. False) n acc r) (read_payload (\<lambda>_. False) n acc s)"
proof (induction n arbitrary: acc r s rule: less_induct)
  case (less n)
  show ?case
  proof (cases "n = 0")
    case True
    then show ?thesis using less.prems by (simp add: read_payload.simps same_result_Inr)
  next
    case False
    then have "n - min stream_chunk n < n" by (simp add: stream_chunk_def)
    then have "same_result (bindE (read_exact (min stream_chunk n) r) (\<lambda>x. read_payload (\<lambda>_. False) (n - min stream_chunk n) (acc @ fst x) (snd x)))
        (bindE (read_exact (min stream_chunk n) s) (\<lambda>x. read_payload (\<lambda>_. False) (n - min stream_chunk n) (acc @ fst x) (snd x)))"
      by (intro same_result_bind same_result_read less.prems) (simp add: less.IH)
    then show ?thesis using False
      by (subst read_payload.simps[of _ n acc r], subst read_payload.simps[of _ n acc s]) simp
  qed
qed

lemma same_result_file:
  assumes "same_place r s"
  shows "same_result (receive_file sha (\<lambda>_. False) limit p d st r) (receive_file sha (\<lambda>_. False) limit p d st s)"
proof -
  let ?f = "\<lambda>size mode stage x. bindE (read_exact digest_size (snd x)) (\<lambda>y.
       if sha (fst x) \<noteq> fst y then Inl (ValueError ''model file failed transfer integrity verification'')
       else Inr (st\<lparr>rv_declared := rv_declared st + size, rv_stage := butlast stage @ [(p, NFile mode (fst x))]\<rparr>, snd y))"
  have "same_result (?f size mode stage (a, r')) (?f size mode stage (a, s'))" if "same_place r' s'" for size mode stage a r' s'
    using that by (intro same_result_bind) (simp_all add: same_result_read same_result_Inl same_result_Inr)
  then have "same_result (bindE (read_payload (\<lambda>_. False) n [] r) (?f size mode stage))
      (bindE (read_payload (\<lambda>_. False) n [] s) (?f size mode stage))" for n size mode stage
    by (intro same_result_bind[OF same_result_payload[OF assms]])
  then show ?thesis unfolding receive_file_def Let_def
    by (intro same_result_pure same_result_if same_result_Inl)
qed

lemma same_result_entry:
  assumes "same_place r s"
  shows "same_result (receive_entry sha (\<lambda>_. False) limit repo d st r) (receive_entry sha (\<lambda>_. False) limit repo d st s)"
  unfolding receive_entry_def Let_def
  by (intro same_result_pure same_result_if same_result_Inl same_result_Inr same_result_file assms)

lemma same_result_loop:
  "same_place r s \<Longrightarrow> same_result (receive_loop decode sha (\<lambda>_. False) limit repo st r) (receive_loop decode sha (\<lambda>_. False) limit repo st s)"
proof (induction "length (rd_bytes r)" arbitrary: st r s rule: less_induct)
  case less
  let ?loop = "receive_loop decode sha (\<lambda>_. False) limit repo"
  let ?entry = "\<lambda>st1 raw. case decode (fst raw) of
      Some (PDict d) \<Rightarrow> bindE (receive_entry sha (\<lambda>_. False) limit repo d st1 (snd raw)) (\<lambda>x. ?loop (fst x) (snd x))
    | _ \<Rightarrow> Inl bad_metadata"
  let ?step = "\<lambda>h. if unbe32 (fst h) = 0 then Inr (st, snd h)
      else bindE (charge_header (unbe32 (fst h)) st) (\<lambda>st1. bindE (read_exact (unbe32 (fst h)) (snd h)) (?entry st1))"
  have entry: "same_result (?entry st1 (b, r2)) (?entry st1 (b, s2))"
    if rs: "same_place r2 s2" "length (rd_bytes r2) < length (rd_bytes r)" for st1 b r2 s2
  proof -
    have "same_result (bindE (receive_entry sha (\<lambda>_. False) limit repo d st1 r2) (\<lambda>x. ?loop (fst x) (snd x)))
        (bindE (receive_entry sha (\<lambda>_. False) limit repo d st1 s2) (\<lambda>x. ?loop (fst x) (snd x)))" for d
    proof (rule same_result_bind[OF same_result_entry[OF rs(1)]])
      fix st2 r3 s3
      assume "receive_entry sha (\<lambda>_. False) limit repo d st1 r2 = Inr (st2, r3)" and p: "same_place r3 s3"
      then have "length (rd_bytes r3) < length (rd_bytes r)" using receive_entry_bytes rs(2) by fastforce
      then show "same_result (?loop (fst (st2, r3)) (snd (st2, r3))) (?loop (fst (st2, s3)) (snd (st2, s3)))"
        using less.hyps[OF _ p] by simp
    qed
    then show ?thesis by (auto simp: same_result_Inl split: option.splits pyval.splits)
  qed
  have "same_result (bindE (read_exact 4 r) ?step) (bindE (read_exact 4 s) ?step)"
  proof (rule same_result_bind[OF same_result_read[OF less.prems]])
    fix h r1 s1
    assume h: "read_exact 4 r = Inr (h, r1)" and p: "same_place r1 s1"
    have "4 \<le> length (rd_bytes r)" "length (rd_bytes r1) = length (rd_bytes r) - 4"
      using read_exact_bytes[OF h] by simp_all
    then have l1: "length (rd_bytes r1) < length (rd_bytes r)" by linarith
    have "same_result (bindE (read_exact n r1) (?entry st1)) (bindE (read_exact n s1) (?entry st1))" for n st1
    proof (rule same_result_bind[OF same_result_read[OF p]])
      fix c r2 s2
      assume c: "read_exact n r1 = Inr (c, r2)" and p2: "same_place r2 s2"
      then have "length (rd_bytes r2) < length (rd_bytes r)" using read_exact_bytes[OF c] l1 by simp
      then show "same_result (?entry st1 (c, r2)) (?entry st1 (c, s2))" by (rule entry[OF p2])
    qed
    then show "same_result (?step (h, r1)) (?step (h, s1))" using p by (auto intro!: same_result_Inr same_result_pure)
  qed
  then show ?case by (subst receive_loop.simps[of _ _ _ _ _ st r], subst receive_loop.simps[of _ _ _ _ _ st s]) simp
qed

lemma receive_stream_chunks:
  assumes "concat cs = concat cs'"
  shows "receive_stream decode sha (\<lambda>_. False) expected limit repo cs = receive_stream decode sha (\<lambda>_. False) expected limit repo cs'"
proof -
  have end_place: "rd_received r = rd_received s" if "same_place r s" "require_eof r = Inr u" "require_eof s = Inr v" for r s u v
  proof -
    have c: "concat (rd_chunks r) = []" "concat (rd_chunks s) = []"
      using that(2,3) by (auto simp: require_eof_def list_all_iff)
    show ?thesis using that(1) unfolding same_place_def c by simp
  qed
  have eof: "require_eof r = require_eof s" if "same_place r s" for r s
  proof -
    have "rd_buf r = [] \<and> list_all (\<lambda>c. c = []) (rd_chunks r) \<longleftrightarrow> rd_bytes r = []" for r
      by (auto simp: rd_bytes_def list_all_iff)
    then show ?thesis using that by (simp add: require_eof_def same_place_def)
  qed
  have p: "same_place (new_reader cs) (new_reader cs')" using assms by (simp add: same_place_def new_reader_def rd_bytes_def)
  show ?thesis
  proof (cases "read_exact (length stream_magic) (new_reader cs)")
    case (Inl e)
    then show ?thesis using same_result_read[OF p, of "length stream_magic"] by (simp add: same_result_def receive_stream_def)
  next
    case (Inr m)
    obtain b r where m: "m = (b, r)" by (cases m)
    then obtain s where s: "read_exact (length stream_magic) (new_reader cs') = Inr (b, s)" "same_place r s"
      using same_result_read[OF p, of "length stream_magic"] Inr by (auto simp: same_result_def)
    note loop = same_result_loop[OF s(2), of decode sha limit repo recv0]
    show ?thesis
    proof (cases "receive_loop decode sha (\<lambda>_. False) limit repo recv0 r")
      case (Inl e)
      then have "receive_loop decode sha (\<lambda>_. False) limit repo recv0 s = Inl e" using loop by (simp add: same_result_def)
      then show ?thesis using Inl Inr m s(1) by (simp add: receive_stream_def)
    next
      case Lr: (Inr x)
      obtain st r1 where x: "x = (st, r1)" by (cases x)
      then obtain s1 where s1: "receive_loop decode sha (\<lambda>_. False) limit repo recv0 s = Inr (st, s1)" "same_place r1 s1"
        using loop Lr by (auto simp: same_result_def)
      show ?thesis
      proof (cases "require_eof r1")
        case (Inl e)
        then show ?thesis using eof[OF s1(2)] Lr Inr m s(1) x s1(1) by (simp add: receive_stream_def)
      next
        case Er: (Inr u)
        then have "require_eof s1 = Inr u" using eof[OF s1(2)] by simp
        then show ?thesis using end_place[OF s1(2) Er] Er Lr Inr m s(1) x s1(1) by (simp add: receive_stream_def)
      qed
    qed
  qed
qed

end
