(* ===== verification/Stream_Transfer.thy ===== *)
theory Stream_Transfer imports File_Stream
begin

text \<open>
  What the file stream guarantees: a sent tree arrives entry by entry however the network cuts the stream,
  and whatever is sent, everything the receiver stages lies inside the repository and within the admitted
  size.  Lexically safe links may still leave the repository through another link; the last section shows it.
\<close>

section \<open>Names and lengths\<close>

definition safe_path :: "string \<Rightarrow> string list \<Rightarrow> bool" where
  "safe_path repo p \<longleftrightarrow> p \<noteq> [] \<and> hd p = repo \<and> list_all stream_name p"

lemma unbe32_be32: "n < 4294967296 \<Longrightarrow> unbe32 (be32 n) = n"
proof -
  assume n: "n < 4294967296"
  have "unbe32 (be32 n) = ((n div 16777216 mod 256 * 256 + n div 65536 mod 256) * 256 + n div 256 mod 256) * 256 + n mod 256"
    by (simp add: unbe32_def be32_def)
  also have "n div 16777216 mod 256 = n div 16777216" using n by (intro mod_less) (simp add: less_mult_imp_div_less)
  also have "n div 16777216 = n div 65536 div 256" by (simp add: div_mult2_eq[symmetric])
  also have "n div 65536 div 256 * 256 + n div 65536 mod 256 = n div 65536" by (rule div_mult_mod_eq)
  also have "n div 65536 = n div 256 div 256" by (simp add: div_mult2_eq[symmetric])
  also have "n div 256 div 256 * 256 + n div 256 mod 256 = n div 256" by (rule div_mult_mod_eq)
  also have "n div 256 * 256 + n mod 256 = n" by (rule div_mult_mod_eq)
  finally show ?thesis .
qed

lemma length_be32 [simp]: "length (be32 n) = 4"
  by (simp add: be32_def)

section \<open>Reading what was written\<close>

definition kept :: "reader \<Rightarrow> reader \<Rightarrow> bool" where
  "kept r r' \<longleftrightarrow> rd_received r' + length (concat (rd_chunks r')) = rd_received r + length (concat (rd_chunks r))"

lemma kept_trans: "kept a b \<Longrightarrow> kept b c \<Longrightarrow> kept a c"
  by (simp add: kept_def)

lemma read_front:
  assumes "rd_bytes r = a @ b" "length a = n"
  shows "\<exists>r'. read_exact n r = Inr (a, r') \<and> rd_bytes r' = b \<and> kept r r'"
proof -
  obtain s r' where r': "read_exact n r = Inr (s, r')" using read_exact_ok[of n r] assms by auto
  then show ?thesis using read_exact_bytes[OF r'] assms by (auto simp: kept_def)
qed

lemma payload_front:
  "rd_bytes r = a @ b \<Longrightarrow> \<exists>r'. read_payload (\<lambda>_. False) (length a) acc r = Inr (acc @ a, r') \<and> rd_bytes r' = b \<and> kept r r'"
proof (induction "length a" arbitrary: a acc r rule: less_induct)
  case less
  show ?case
  proof (cases "a = []")
    case True
    then show ?thesis using less.prems by (simp add: read_payload.simps kept_def)
  next
    case False
    let ?k = "min stream_chunk (length a)"
    have "rd_bytes r = take ?k a @ drop ?k a @ b" "length (take ?k a) = ?k" using less.prems by simp_all
    then obtain r1 where r1: "read_exact ?k r = Inr (take ?k a, r1)" "rd_bytes r1 = drop ?k a @ b" "kept r r1"
      using read_front by blast
    have "length (drop ?k a) < length a" using False by (simp add: stream_chunk_def)
    from less.hyps[OF this r1(2), of "acc @ take ?k a"] obtain r2 where
      r2: "read_payload (\<lambda>_. False) (length a - ?k) (acc @ take ?k a) r1 = Inr (acc @ a, r2)" "rd_bytes r2 = b" "kept r1 r2"
      by auto
    then show ?thesis using False r1 kept_trans by (subst read_payload.simps) auto
  qed
qed

section \<open>Arrival\<close>

text \<open>The receiver's state after an entry, and the condition under which it takes the entry.\<close>

definition json_size :: "(pyval \<Rightarrow> string) \<Rightarrow> source \<Rightarrow> nat" where
  "json_size dumps e = length (dumps (PDict (public_entry e)))"

definition place :: "(pyval \<Rightarrow> string) \<Rightarrow> source \<Rightarrow> recv \<Rightarrow> recv" where
  "place dumps e st = (let st1 = st\<lparr>rv_metadata := rv_metadata st + json_size dumps e + 4, rv_count := rv_count st + 1,
       rv_seen := source_path e # rv_seen st\<rparr> in
     case e of
       SDir p \<Rightarrow> st1\<lparr>rv_stage := rv_stage st @ [(p, NDir)]\<rparr>
     | SFile p m c \<Rightarrow> st1\<lparr>rv_stage := rv_stage st @ [(p, NFile m c)], rv_declared := rv_declared st + int (length c)\<rparr>
     | SLink h p t \<Rightarrow> st1\<lparr>rv_links := rv_links st @ [(p, t, h)]\<rparr>)"

text \<open>A new node whose directories are there.\<close>

definition placeable :: "string list \<Rightarrow> stage \<Rightarrow> bool" where
  "placeable p st \<longleftrightarrow> map_of st p = None \<and> list_all (\<lambda>k. map_of st (take k p) = Some NDir) [1 ..< length p]"

definition fits :: "(pyval \<Rightarrow> string) \<Rightarrow> string \<Rightarrow> int option \<Rightarrow> recv \<Rightarrow> source \<Rightarrow> bool" where
  "fits dumps repo limit st e \<longleftrightarrow>
     safe_path repo (source_path e) \<and> list_all (\<lambda>c. bs \<notin> set c) (source_path e) \<and> source_path e \<notin> set (rv_seen st) \<and>
     rv_metadata st + json_size dumps e + 4 \<le> metadata_max \<and> rv_count st < entries_max \<and>
     (case e of
        SDir p \<Rightarrow> placeable p (rv_stage st)
      | SFile p m c \<Rightarrow> placeable p (rv_stage st) \<and> m \<le> 511 \<and> 2 \<le> length p \<and>
          (case limit of None \<Rightarrow> True | Some b \<Rightarrow> rv_declared st + int (length c) \<le> b)
      | SLink h p t \<Rightarrow> 2 \<le> length p \<and> stream_link p (PStr t) repo = Inr t)"

fun fitting :: "(pyval \<Rightarrow> string) \<Rightarrow> string \<Rightarrow> int option \<Rightarrow> recv \<Rightarrow> source list \<Rightarrow> bool" where
  "fitting dumps repo limit st [] = True"
| "fitting dumps repo limit st (e # es) = (fits dumps repo limit st e \<and> fitting dumps repo limit (place dumps e st) es)"

lemma ensure_dirs_present:
  "(\<And>k. length up < k \<Longrightarrow> k \<le> length up + length cs \<Longrightarrow> map_of st (take k (up @ cs)) = Some NDir) \<Longrightarrow>
   ensure_dirs up cs st = Inr st"
proof (induction cs arbitrary: up)
  case (Cons c cs)
  have "map_of st (up @ [c]) = Some NDir" using Cons.prems[of "Suc (length up)"] by simp
  moreover have "ensure_dirs (up @ [c]) cs st = Inr st" using Cons.prems by (intro Cons.IH) simp
  ultimately show ?case by simp
qed simp

lemma add_node_placeable:
  assumes "placeable p st" "p \<noteq> []"
  shows "add_node p n st = Inr (st @ [(p, n)])"
proof -
  have "ensure_dirs [] (butlast p) st = Inr st"
  proof (rule ensure_dirs_present)
    fix k assume "length ([] :: string list) < k" "k \<le> length ([] :: string list) + length (butlast p)"
    then have k: "0 < k" "k < length p" using assms(2) by auto
    then have "map_of st (take k p) = Some NDir" using assms(1) by (auto simp: placeable_def list_all_iff)
    then show "map_of st (take k ([] @ butlast p)) = Some NDir" using k by (simp add: take_butlast)
  qed
  then show ?thesis using assms(1) by (simp add: add_node_def placeable_def)
qed

lemma stream_path_safe:
  assumes "safe_path repo p" "list_all (\<lambda>c. bs \<notin> set c) p"
  shows "stream_path (PStr (as_posix p)) repo = Inr p"
proof -
  have p: "p \<noteq> []" "hd p = repo" "list_all stream_name p" using assms(1) by (simp_all add: safe_path_def)
  have "''..'' \<notin> set p" using p(3) by (auto simp: list_all_iff stream_name_def)
  then show ?thesis
    using as_posix_plain[OF p(1,3)] assms(2) p parts_as_posix[OF p(1,3)] by (auto simp: stream_path_def list_all_iff)
qed

lemma receive_entry_frame:
  assumes "fits dumps repo limit st e" and sha: "\<And>x. length (sha x) = digest_size"
    and r: "rd_bytes r = (case e of SFile p m c \<Rightarrow> c @ sha c | _ \<Rightarrow> []) @ rest"
  shows "\<exists>r'. receive_entry sha (\<lambda>_. False) limit repo (public_entry e)
      (st\<lparr>rv_metadata := rv_metadata st + json_size dumps e + 4, rv_count := rv_count st + 1\<rparr>) r = Inr (place dumps e st, r') \<and>
    rd_bytes r' = rest \<and> kept r r'"
proof (cases e)
  case (SDir p)
  have p: "stream_path (PStr (as_posix p)) repo = Inr p" "p \<noteq> []" "placeable p (rv_stage st)" "p \<notin> set (rv_seen st)"
    using assms(1) SDir stream_path_safe by (auto simp: fits_def safe_path_def)
  then show ?thesis
    using SDir r add_node_placeable[OF p(3,2)]
    by (intro exI[of _ r]) (auto simp: receive_entry_def unhashable_type_def dict_get_def entry_keys_def place_def Let_def kept_def)
next
  case (SLink h p t)
  have p: "stream_path (PStr (as_posix p)) repo = Inr p" "p \<notin> set (rv_seen st)" "length p \<noteq> 1" "stream_link p (PStr t) repo = Inr t"
    using assms(1) SLink stream_path_safe by (auto simp: fits_def)
  then show ?thesis
    using SLink r
    by (intro exI[of _ r]) (auto simp: receive_entry_def unhashable_type_def dict_get_def entry_keys_def place_def Let_def kept_def)
next
  case (SFile p m c)
  have p: "stream_path (PStr (as_posix p)) repo = Inr p" "p \<noteq> []" "placeable p (rv_stage st)" "p \<notin> set (rv_seen st)"
    "m \<le> 511" "length p \<noteq> 1" "\<not> (case limit of None \<Rightarrow> False | Some b \<Rightarrow> b < rv_declared st + int (length c))"
    using assms(1) SFile stream_path_safe by (auto simp: fits_def safe_path_def split: option.splits)
  obtain r1 where r1: "read_payload (\<lambda>_. False) (length c) [] r = Inr (c, r1)" "rd_bytes r1 = sha c @ rest" "kept r r1"
    using payload_front[of r c "sha c @ rest" "[]"] r SFile by auto
  obtain r2 where r2: "read_exact digest_size r1 = Inr (sha c, r2)" "rd_bytes r2 = rest" "kept r1 r2"
    using read_front[OF r1(2) sha] by blast
  have "entry_size (public_entry e) = Inr (int (length c))" "entry_mode (public_entry e) = Inr m"
    using SFile p(5) by (simp_all add: entry_size_def entry_mode_def dict_get_def has_key_def)
  then have "receive_file sha (\<lambda>_. False) limit p (public_entry e) (st\<lparr>rv_metadata := rv_metadata st + json_size dumps e + 4,
      rv_count := rv_count st + 1, rv_seen := p # rv_seen st\<rparr>) r = Inr (place dumps e st, r2)"
    using p r1(1) r2(1) add_node_placeable[OF p(3,2), of "NFile m []"] SFile
    by (simp add: receive_file_def Let_def place_def)
  then have "receive_entry sha (\<lambda>_. False) limit repo (public_entry e)
      (st\<lparr>rv_metadata := rv_metadata st + json_size dumps e + 4, rv_count := rv_count st + 1\<rparr>) r = Inr (place dumps e st, r2)"
    using SFile p(1,4) by (simp add: receive_entry_def unhashable_type_def dict_get_def entry_keys_def Let_def)
  then show ?thesis using r2(2) kept_trans[OF r1(3) r2(3)] by blast
qed

definition node_of :: "source \<Rightarrow> (string list \<times> node) option" where
  "node_of e = (case e of SDir p \<Rightarrow> Some (p, NDir) | SFile p m c \<Rightarrow> Some (p, NFile m c) | SLink h p t \<Rightarrow> None)"

definition link_of :: "source \<Rightarrow> (string list \<times> string \<times> bool) option" where
  "link_of e = (case e of SLink h p t \<Rightarrow> Some (p, t, h) | _ \<Rightarrow> None)"

lemma place_nodes:
  "rv_stage (fold (place dumps) es st) = rv_stage st @ List.map_filter node_of es \<and>
   rv_links (fold (place dumps) es st) = rv_links st @ List.map_filter link_of es \<and>
   (es \<noteq> [] \<longrightarrow> rv_seen (fold (place dumps) es st) \<noteq> [])"
proof (induction es arbitrary: st)
  case (Cons e es)
  have "rv_seen (fold (place dumps) es st) \<noteq> []" if "rv_seen st \<noteq> []" for st
    using that Cons.IH[of st] by (cases es) auto
  then show ?case using Cons.IH[of "place dumps e st"]
    by (cases e) (auto simp: place_def node_of_def link_of_def List.map_filter_simps Let_def)
qed (simp add: List.map_filter_simps)

lemma loop_frames:
  assumes codec: "\<And>e. e \<in> set es \<Longrightarrow> decode (dumps (PDict (public_entry e))) = Some (PDict (public_entry e))"
    and sha: "\<And>x. length (sha x) = digest_size"
    and frames: "foldE (\<lambda>out e. bindE (entry_frame dumps sha e) (\<lambda>f. Inr (out @ f))) out es = Inr b"
  shows "\<exists>tail. b = out @ tail \<and> (\<forall>r rest st. fitting dumps repo limit st es \<longrightarrow> rd_bytes r = tail @ be32 0 @ rest \<longrightarrow>
    (\<exists>r'. receive_loop decode sha (\<lambda>_. False) limit repo st r = Inr (fold (place dumps) es st, r') \<and>
      rd_bytes r' = rest \<and> kept r r'))"
  using codec frames
proof (induction es arbitrary: out)
  case Nil
  have "\<exists>r'. receive_loop decode sha (\<lambda>_. False) limit repo st r = Inr (st, r') \<and> rd_bytes r' = rest \<and> kept r r'"
    if r: "rd_bytes r = be32 0 @ rest" for r rest st
  proof -
    obtain r' where "read_exact 4 r = Inr (be32 0, r')" "rd_bytes r' = rest" "kept r r'"
      using read_front[OF r length_be32] by blast
    then show ?thesis using unbe32_be32[of 0] by (subst receive_loop.simps) simp
  qed
  then show ?case using Nil by simp
next
  case (Cons e es)
  obtain f where f: "entry_frame dumps sha e = Inr f"
    "foldE (\<lambda>out e. bindE (entry_frame dumps sha e) (\<lambda>f. Inr (out @ f))) (out @ f) es = Inr b"
    using Cons.prems(2) by (auto simp: except_simps)
  obtain tail where tail: "b = (out @ f) @ tail" "\<And>r rest st. fitting dumps repo limit st es \<Longrightarrow> rd_bytes r = tail @ be32 0 @ rest \<Longrightarrow>
      \<exists>r'. receive_loop decode sha (\<lambda>_. False) limit repo st r = Inr (fold (place dumps) es st, r') \<and> rd_bytes r' = rest \<and> kept r r'"
    using Cons.IH[OF _ f(2)] Cons.prems(1) by auto
  let ?raw = "dumps (PDict (public_entry e))" and ?n = "json_size dumps e"
  let ?pay = "case e of SFile p m c \<Rightarrow> c @ sha c | _ \<Rightarrow> []"
  have fr: "f = be32 ?n @ ?raw @ ?pay" and n: "?n \<noteq> 0" "?n \<le> header_max"
    using f(1) by (auto simp: entry_frame_def stream_header_def json_size_def except_simps Let_def split: if_splits)
  have "\<exists>r'. receive_loop decode sha (\<lambda>_. False) limit repo st r = Inr (fold (place dumps) (e # es) st, r') \<and>
      rd_bytes r' = rest \<and> kept r r'"
    if fit: "fitting dumps repo limit st (e # es)" and r: "rd_bytes r = (f @ tail) @ be32 0 @ rest" for r rest st
  proof -
    obtain r1 where r1: "read_exact 4 r = Inr (be32 ?n, r1)" "rd_bytes r1 = ?raw @ ?pay @ tail @ be32 0 @ rest" "kept r r1"
      using read_front[of r "be32 ?n"] r fr by auto
    obtain r2 where r2: "read_exact ?n r1 = Inr (?raw, r2)" "rd_bytes r2 = ?pay @ tail @ be32 0 @ rest" "kept r1 r2"
      using read_front[OF r1(2)] by (auto simp: json_size_def)
    have u: "unbe32 (be32 ?n) = ?n" using n(2) by (intro unbe32_be32) (simp add: header_max_def)
    let ?st1 = "st\<lparr>rv_metadata := rv_metadata st + ?n + 4, rv_count := rv_count st + 1\<rparr>"
    have fits: "fits dumps repo limit st e" "fitting dumps repo limit (place dumps e st) es" using fit by simp_all
    then have charge: "charge_header ?n st = Inr ?st1"
      using n(2) by (simp add: charge_header_def fits_def)
    obtain r3 where r3: "receive_entry sha (\<lambda>_. False) limit repo (public_entry e) ?st1 r2 = Inr (place dumps e st, r3)"
      "rd_bytes r3 = tail @ be32 0 @ rest" "kept r2 r3"
      using receive_entry_frame[OF fits(1) sha r2(2)] by blast
    obtain r4 where r4: "receive_loop decode sha (\<lambda>_. False) limit repo (place dumps e st) r3 = Inr (fold (place dumps) es (place dumps e st), r4)"
      "rd_bytes r4 = rest" "kept r3 r4"
      using tail(2)[OF fits(2) r3(2)] by blast
    have "receive_loop decode sha (\<lambda>_. False) limit repo st r = Inr (fold (place dumps) (e # es) st, r4)"
      using r1(1) r2(1) r3(1) r4(1) u n(1) charge Cons.prems(1)[of e] by (subst receive_loop.simps) simp
    moreover have "kept r r4" using r1(3) r2(3) r3(3) r4(3) kept_trans by blast
    ultimately show ?thesis using r4(2) by blast
  qed
  then show ?case using tail(1) by (intro exI[of _ "f @ tail"]) simp
qed

lemma stream_received:
  assumes "export_stream dumps sha es = Inr out" "es \<noteq> []" "fitting dumps repo limit recv0 es"
    and codec: "\<And>e. e \<in> set es \<Longrightarrow> decode (dumps (PDict (public_entry e))) = Some (PDict (public_entry e))"
    and sha: "\<And>x. length (sha x) = digest_size"
    and "concat cs = out" "expected = None \<or> expected = Some (int (length out))"
  shows "receive_stream decode sha (\<lambda>_. False) expected limit repo cs =
    Inr (List.map_filter link_of es, List.map_filter node_of es, length out)"
proof -
  obtain b where b: "foldE (\<lambda>out e. bindE (entry_frame dumps sha e) (\<lambda>f. Inr (out @ f))) stream_magic es = Inr b"
    "out = b @ be32 0"
    using assms(1) by (auto simp: export_stream_def export_frames_def except_simps split: if_splits)
  obtain tail where tail: "b = stream_magic @ tail" "\<And>r rest st. fitting dumps repo limit st es \<Longrightarrow> rd_bytes r = tail @ be32 0 @ rest \<Longrightarrow>
      \<exists>r'. receive_loop decode sha (\<lambda>_. False) limit repo st r = Inr (fold (place dumps) es st, r') \<and> rd_bytes r' = rest \<and> kept r r'"
    using loop_frames[OF codec sha b(1), where limit = limit and repo = repo] by blast
  have r: "rd_bytes (new_reader cs) = stream_magic @ tail @ be32 0"
    using assms(6) b(2) tail(1) by (simp add: rd_bytes_def new_reader_def)
  obtain r1 where r1: "read_exact (length stream_magic) (new_reader cs) = Inr (stream_magic, r1)" "rd_bytes r1 = tail @ be32 0"
    "kept (new_reader cs) r1"
    using read_front[OF r refl] by blast
  obtain r2 where r2: "receive_loop decode sha (\<lambda>_. False) limit repo recv0 r1 = Inr (fold (place dumps) es recv0, r2)"
    "rd_bytes r2 = []" "kept r1 r2"
    using tail(2)[OF assms(3), of r1 "[]"] r1(2) by auto
  have e: "rd_buf r2 = []" "concat (rd_chunks r2) = []" using r2(2) by (simp_all add: rd_bytes_def)
  have eof: "require_eof r2 = Inr ()" using e by (auto simp: require_eof_def list_all_iff)
  have n: "rd_received r2 = length out"
    using kept_trans[OF r1(3) r2(3)] e(2) assms(6) unfolding kept_def new_reader_def by simp
  show ?thesis
    using r1(1) r2(1) eof n assms(2,7) place_nodes[of dumps es recv0] by (auto simp: receive_stream_def recv0_def)
qed

section \<open>Confinement\<close>

definition stage_bytes :: "stage \<Rightarrow> int" where
  "stage_bytes st = sum_list (map (\<lambda>(p, n). case n of NDir \<Rightarrow> 0 | NFile m c \<Rightarrow> int (length c)) st)"

definition stage_ok :: "string \<Rightarrow> stage \<Rightarrow> bool" where
  "stage_ok repo st \<longleftrightarrow> wf_dict st \<and> (\<forall>p \<in> set (keys_of st). safe_path repo p)"

definition link_ok :: "string \<Rightarrow> string list \<times> string \<times> bool \<Rightarrow> bool" where
  "link_ok repo l = (case l of (p, t, h) \<Rightarrow> safe_path repo p \<and> 2 \<le> length p \<and> \<not> posix_absolute t \<and>
     link_target p t \<noteq> [] \<and> hd (link_target p t) = repo \<and> ''..'' \<notin> set (link_target p t))"

definition recv_ok :: "string \<Rightarrow> int option \<Rightarrow> recv \<Rightarrow> bool" where
  "recv_ok repo limit st \<longleftrightarrow> stage_ok repo (rv_stage st) \<and> list_all (link_ok repo) (rv_links st) \<and>
     stage_bytes (rv_stage st) = rv_declared st \<and> (case limit of None \<Rightarrow> True | Some b \<Rightarrow> rv_declared st \<le> max 0 b)"

lemma stage_bytes_snoc [simp]:
  "stage_bytes (st @ [(p, n)]) = stage_bytes st + (case n of NDir \<Rightarrow> 0 | NFile m c \<Rightarrow> int (length c))"
  by (simp add: stage_bytes_def)

lemma stage_ok_snoc: "stage_ok repo st \<Longrightarrow> map_of st p = None \<Longrightarrow> safe_path repo p \<Longrightarrow> stage_ok repo (st @ [(p, n)])"
  by (auto simp: stage_ok_def map_of_eq_None_iff intro: wf_dict_snoc)

lemma ensure_dirs_ok:
  "ensure_dirs up cs st = Inr st' \<Longrightarrow> stage_ok repo st \<Longrightarrow> (cs = [] \<or> safe_path repo (up @ cs)) \<Longrightarrow>
   stage_ok repo st' \<and> stage_bytes st' = stage_bytes st"
proof (induction cs arbitrary: up st)
  case (Cons c cs)
  have sp: "safe_path repo (up @ [c])" using Cons.prems(3) by (cases up) (auto simp: safe_path_def)
  have "cs = [] \<or> safe_path repo ((up @ [c]) @ cs)" using Cons.prems(3) by simp
  then show ?case
    using Cons.IH[of "up @ [c]" st] Cons.IH[of "up @ [c]" "st @ [(up @ [c], NDir)]"] Cons.prems(1,2) stage_ok_snoc[OF Cons.prems(2) _ sp]
    by (auto split: option.splits node.splits)
qed simp

lemma add_node_ok:
  assumes "add_node p n st = Inr st'" "stage_ok repo st" "safe_path repo p"
  shows "stage_ok repo st' \<and> (\<exists>st0. st' = st0 @ [(p, n)] \<and> stage_bytes st0 = stage_bytes st)"
proof -
  obtain st0 where st0: "ensure_dirs [] (butlast p) st = Inr st0" "map_of st0 p = None" "st' = st0 @ [(p, n)]"
    using assms(1) by (auto simp: add_node_def except_simps split: if_splits)
  have "butlast p = [] \<or> safe_path repo (butlast p)"
    using assms(3) by (cases p) (auto simp: safe_path_def list_all_iff dest: in_set_butlastD split: if_splits)
  then have "stage_ok repo st0 \<and> stage_bytes st0 = stage_bytes st" using ensure_dirs_ok[OF st0(1) assms(2)] by simp
  then show ?thesis using st0 assms(3) stage_ok_snoc by auto
qed

lemma stream_path_ok: "stream_path v repo = Inr p \<Longrightarrow> safe_path repo p"
  using posix_parts_names
  by (auto simp: stream_path_def safe_path_def Let_def list_all_iff split: pyval.splits if_splits)

lemma receive_file_ok:
  assumes "receive_file sha stop limit p d st r = Inr (st', r')" "recv_ok repo limit st" "safe_path repo p"
  shows "recv_ok repo limit st'"
proof -
  obtain size mode stage c r1 r2 where x: "entry_size d = Inr size"
    "\<not> (case limit of None \<Rightarrow> False | Some m \<Rightarrow> m < rv_declared st + size)"
    "add_node p (NFile mode []) (rv_stage st) = Inr stage" "read_payload stop (nat size) [] r = Inr (c, r1)"
    "st' = st\<lparr>rv_declared := rv_declared st + size, rv_stage := butlast stage @ [(p, NFile mode c)]\<rparr>"
    using assms(1) by (auto simp: receive_file_def Let_def except_simps split: if_splits)
  obtain st0 where st0: "stage = st0 @ [(p, NFile mode [])]" "stage_bytes st0 = stage_bytes (rv_stage st)" "stage_ok repo stage"
    using add_node_ok[OF x(3) _ assms(3)] assms(2) by (auto simp: recv_ok_def)
  have "0 \<le> size" using x(1) by (auto simp: entry_size_def split: pyval.splits if_splits)
  moreover have "length c = nat size" using read_payload_bytes[OF x(4)] by auto
  ultimately have "stage_bytes (butlast stage @ [(p, NFile mode c)]) = rv_declared st + size"
    using st0(1,2) assms(2) by (simp add: recv_ok_def)
  moreover have "stage_ok repo (butlast stage @ [(p, NFile mode c)])"
    using st0(1,3) by (simp add: stage_ok_def wf_dict_def)
  ultimately show ?thesis using x(2,5) assms(2) by (auto simp: recv_ok_def split: option.splits)
qed

lemma receive_entry_ok:
  assumes "receive_entry sha stop limit repo d st r = Inr (st', r')" "recv_ok repo limit st"
  shows "recv_ok repo limit st'"
proof -
  obtain p where p: "stream_path (dict_get d ''path'') repo = Inr p" using assms(1) by (auto simp: receive_entry_def except_simps)
  note sp = stream_path_ok[OF p]
  let ?st1 = "st\<lparr>rv_seen := p # rv_seen st\<rparr>"
  have st1: "recv_ok repo limit ?st1" using assms(2) by (simp add: recv_ok_def cong: option.case_cong)
  consider stage where "add_node p NDir (rv_stage st) = Inr stage" "st' = ?st1\<lparr>rv_stage := stage\<rparr>"
    | tg h where "length p \<noteq> 1" "stream_link p (dict_get d ''target'') repo = Inr tg" "st' = ?st1\<lparr>rv_links := rv_links st @ [(p, tg, h)]\<rparr>"
    | "receive_file sha stop limit p d ?st1 r = Inr (st', r')"
    using assms(1) p by (auto simp: receive_entry_def Let_def except_simps split: if_splits)
  then show ?thesis
  proof cases
    case 1
    then show ?thesis using add_node_ok[OF 1(1) _ sp] assms(2) by (auto simp: recv_ok_def split: option.splits)
  next
    case 2
    have "2 \<le> length p" using 2(1) sp by (cases p; cases "tl p") (auto simp: safe_path_def)
    moreover have "\<not> posix_absolute tg \<and> link_target p tg \<noteq> [] \<and> hd (link_target p tg) = repo \<and> ''..'' \<notin> set (link_target p tg)"
      using 2(2) by (auto simp: stream_link_def Let_def split: pyval.splits if_splits)
    ultimately have "link_ok repo (p, tg, h)" using sp by (simp add: link_ok_def)
    then show ?thesis using 2(3) assms(2) by (simp add: recv_ok_def split: option.splits)
  next
    case 3
    then show ?thesis using receive_file_ok[OF 3 st1 sp] by simp
  qed
qed

lemma receive_loop_ok:
  "receive_loop decode sha stop limit repo st r = Inr (st', r') \<Longrightarrow> recv_ok repo limit st \<Longrightarrow> recv_ok repo limit st'"
proof (induction "length (rd_bytes r)" arbitrary: st r rule: less_induct)
  case less
  obtain h r1 where h: "read_exact 4 r = Inr (h, r1)"
    and rest: "(if unbe32 h = 0 then Inr (st, r1) else bindE (charge_header (unbe32 h) st) (\<lambda>st1.
          bindE (read_exact (unbe32 h) r1) (\<lambda>raw. case decode (fst raw) of
            Some (PDict d) \<Rightarrow> bindE (receive_entry sha stop limit repo d st1 (snd raw)) (\<lambda>x.
                receive_loop decode sha stop limit repo (fst x) (snd x))
          | _ \<Rightarrow> Inl bad_metadata))) = Inr (st', r')"
    using less.prems(1) by (subst (asm) receive_loop.simps) (auto simp: except_simps split: if_splits)
  show ?case
  proof (cases "unbe32 h = 0")
    case True
    then show ?thesis using rest less.prems(2) by simp
  next
    case False
    then obtain st1 raw r2 where a: "charge_header (unbe32 h) st = Inr st1" "read_exact (unbe32 h) r1 = Inr (raw, r2)"
      and b: "(case decode raw of Some (PDict d) \<Rightarrow> bindE (receive_entry sha stop limit repo d st1 r2) (\<lambda>x.
            receive_loop decode sha stop limit repo (fst x) (snd x)) | _ \<Rightarrow> Inl bad_metadata) = Inr (st', r')"
    proof (cases "charge_header (unbe32 h) st")
      case (Inr st1)
      note c = Inr
      show ?thesis
      proof (cases "read_exact (unbe32 h) r1")
        case (Inr y)
        then show ?thesis using rest False c that[of st1 "fst y" "snd y"] by simp
      qed (use rest False c in simp)
    qed (use rest False in simp)
    obtain d where d: "decode raw = Some (PDict d)"
    proof (cases "decode raw")
      case (Some v)
      then show ?thesis using b that by (cases v) simp_all
    qed (use b in simp)
    obtain st2 r3 where e: "receive_entry sha stop limit repo d st1 r2 = Inr (st2, r3)"
      "receive_loop decode sha stop limit repo st2 r3 = Inr (st', r')"
      using b d by (auto simp: bindE_Inr)
    note x = a e
    have "recv_ok repo limit st1" using x(1) less.prems(2) by (auto simp: charge_header_def recv_ok_def Let_def split: if_splits option.splits)
    then have st2: "recv_ok repo limit st2" by (rule receive_entry_ok[OF x(3)])
    have "4 \<le> length (rd_bytes r)" "length (rd_bytes r1) = length (rd_bytes r) - 4" using read_exact_bytes[OF h] by simp_all
    moreover have "length (rd_bytes r2) \<le> length (rd_bytes r1)" using read_exact_bytes[OF x(2)] by simp
    moreover have "length (rd_bytes r3) \<le> length (rd_bytes r2)" by (rule receive_entry_bytes[OF x(3)])
    ultimately have "length (rd_bytes r3) < length (rd_bytes r)" by linarith
    then show ?thesis by (rule less.hyps[OF _ x(4) st2])
  qed
qed

section \<open>Properties\<close>

text \<open>C33: a sent tree arrives: if the receiver can place every entry, then whatever chunks the stream is cut into, the
  receiver returns the links and the staged nodes of the exported entries, in order, with their contents, and
  the number of bytes sent; nothing else is staged.\<close>

theorem stream_arrives:
  assumes "export_stream dumps sha es = Inr out" "es \<noteq> []" "fitting dumps repo limit recv0 es"
    and codec: "\<And>e. e \<in> set es \<Longrightarrow> decode (dumps (PDict (public_entry e))) = Some (PDict (public_entry e))"
    and sha: "\<And>x. length (sha x) = digest_size"
    and "concat cs = out" "expected = None \<or> expected = Some (int (length out))"
  shows "receive_stream decode sha (\<lambda>_. False) expected limit repo cs =
    Inr (List.map_filter link_of es, List.map_filter node_of es, length out)"
  by (rule stream_received[OF assms])

text \<open>C34: confinement: whatever bytes arrive, if the receiver accepts the stream then no path is staged twice, every staged
  path and link lies under the repository's directory without \<open>..\<close>, every link target is relative and stays
  in the repository lexically, and the staged contents together are within the admitted size.\<close>

theorem stream_confined:
  assumes "receive_stream decode sha stop expected limit repo cs = Inr (links, tree, n)"
  shows "stage_ok repo tree \<and> list_all (link_ok repo) links \<and>
    (case limit of None \<Rightarrow> True | Some b \<Rightarrow> stage_bytes tree \<le> max 0 b)"
proof -
  obtain m st r where x: "receive_loop decode sha stop limit repo recv0 m = Inr (st, r)" "links = rv_links st" "tree = rv_stage st"
    using assms by (auto simp: receive_stream_def except_simps split: if_splits)
  have "recv_ok repo limit recv0"
    by (simp add: recv_ok_def recv0_def stage_ok_def stage_bytes_def split: option.splits)
  then have "recv_ok repo limit st" by (rule receive_loop_ok[OF x(1)])
  then show ?thesis using x(2,3) by (simp add: recv_ok_def split: option.splits)
qed

text \<open>An example tree, and a codec and a digest for it.\<close>

definition demo_tree :: "source list" where
  "demo_tree = [SDir [''r''], SDir [''r'', ''blobs''], SFile [''r'', ''blobs'', ''b''] 420 ''hi'', SLink False [''r'', ''s''] ''blobs/b'']"

definition demo_dumps :: "pyval \<Rightarrow> string" where
  "demo_dumps v = (case v of PDict d \<Rightarrow> (case dict_get d ''path'' of PStr s \<Rightarrow> s | _ \<Rightarrow> []) | _ \<Rightarrow> [])"

definition demo_decode :: "string \<Rightarrow> pyval option" where
  "demo_decode s = map_of (map (\<lambda>e. (as_posix (source_path e), PDict (public_entry e))) demo_tree) s"

definition demo_sha :: "string \<Rightarrow> string" where
  "demo_sha s = replicate digest_size (CHR ''#'')"

lemma demo_codec: "e \<in> set demo_tree \<Longrightarrow> demo_decode (demo_dumps (PDict (public_entry e))) = Some (PDict (public_entry e))"
  by (auto simp: demo_tree_def demo_decode_def demo_dumps_def dict_get_def as_posix_def)

lemma demo_fits: "fitting demo_dumps ''r'' (Some 5) recv0 demo_tree"
  by (simp add: demo_tree_def fits_def safe_path_def stream_name_def json_size_def demo_dumps_def dict_get_def as_posix_def
      metadata_max_def entries_max_def recv0_def place_def placeable_def Let_def stream_link_def link_target_def posix_parts_def
      posix_absolute_def drive_letter_def upt_rec)

lemma demo_export: "\<exists>out. export_stream demo_dumps demo_sha demo_tree = Inr out"
  by (simp add: export_stream_def export_frames_def demo_tree_def entries_max_def entry_frame_def stream_header_def demo_dumps_def
      dict_get_def as_posix_def header_max_def Let_def)

lemma stream_arrives_witness:
  "\<exists>out. export_stream demo_dumps demo_sha demo_tree = Inr out \<and>
     receive_stream demo_decode demo_sha (\<lambda>_. False) None (Some 5) ''r'' [take 9 out, [], drop 9 out] =
       Inr ([([''r'', ''s''], ''blobs/b'', False)],
            [([''r''], NDir), ([''r'', ''blobs''], NDir), ([''r'', ''blobs'', ''b''], NFile 420 ''hi'')], length out)"
proof -
  obtain out where out: "export_stream demo_dumps demo_sha demo_tree = Inr out" using demo_export by blast
  have "receive_stream demo_decode demo_sha (\<lambda>_. False) None (Some 5) ''r'' [take 9 out, [], drop 9 out] =
      Inr (List.map_filter link_of demo_tree, List.map_filter node_of demo_tree, length out)"
    by (rule stream_arrives[OF out _ demo_fits demo_codec]) (simp_all add: demo_tree_def demo_sha_def)
  then show ?thesis using out
    by (simp add: demo_tree_def List.map_filter_simps link_of_def node_of_def)
qed

lemma demo_received:
  "\<exists>cs n. receive_stream demo_decode demo_sha (\<lambda>_. False) None (Some 5) ''r'' cs = Inr ([([''r'', ''s''], ''blobs/b'', False)],
     [([''r''], NDir), ([''r'', ''blobs''], NDir), ([''r'', ''blobs'', ''b''], NFile 420 ''hi'')], n)"
proof -
  obtain out where out: "export_stream demo_dumps demo_sha demo_tree = Inr out" using demo_export by blast
  have "receive_stream demo_decode demo_sha (\<lambda>_. False) None (Some 5) ''r'' [out] =
      Inr (List.map_filter link_of demo_tree, List.map_filter node_of demo_tree, length out)"
    by (rule stream_received[OF out _ demo_fits demo_codec]) (simp_all add: demo_tree_def demo_sha_def)
  then show ?thesis by (auto simp: demo_tree_def List.map_filter_simps link_of_def node_of_def)
qed

lemma stream_confined_witness:
  "\<exists>cs links tree n. receive_stream demo_decode demo_sha (\<lambda>_. False) None (Some 5) ''r'' cs = Inr (links, tree, n) \<and>
     stage_ok ''r'' tree \<and> list_all (link_ok ''r'') links \<and> stage_bytes tree \<le> 5 \<and> links \<noteq> [] \<and> length tree = 3"
proof -
  obtain cs n where r: "receive_stream demo_decode demo_sha (\<lambda>_. False) None (Some 5) ''r'' cs = Inr ([([''r'', ''s''], ''blobs/b'', False)],
      [([''r''], NDir), ([''r'', ''blobs''], NDir), ([''r'', ''blobs'', ''b''], NFile 420 ''hi'')], n)"
    using demo_received by blast
  show ?thesis using stream_confined[OF r] by (intro exI[of _ cs] exI[of _ n] exI conjI) (rule r, simp_all)
qed

section \<open>Links through links\<close>

text \<open>
  Where a path leads once the links exist (POSIX path resolution; at most \<open>n\<close> steps).  The check of a link looks
  only at its own text: two links that both pass it lead out of the repository, and out of the staging directory.
\<close>

fun resolve :: "nat \<Rightarrow> (string list, string) dict \<Rightarrow> string list \<Rightarrow> string list \<Rightarrow> string list option" where
  "resolve n links here [] = Some here"
| "resolve 0 links here (c # cs) = None"
| "resolve (Suc n) links here (c # cs) =
     (if c = ''..'' then resolve n links (butlast here) cs
      else case map_of links (here @ [c]) of
          Some t \<Rightarrow> resolve n links here (posix_parts t @ cs)
        | None \<Rightarrow> resolve n links (here @ [c]) cs)"

lemma links_escape:
  "stream_link [''r'', ''d'', ''s''] (PStr ''..'') ''r'' = Inr ''..'' \<and>
   stream_link [''r'', ''d'', ''t''] (PStr ''s/../../x'') ''r'' = Inr ''s/../../x'' \<and>
   resolve 20 [([''stage'', ''r'', ''d'', ''s''], ''..''), ([''stage'', ''r'', ''d'', ''t''], ''s/../../x'')] [''stage''] [''r'', ''d'', ''t''] =
     Some [''x'']"
  by (simp add: stream_link_def link_target_def posix_parts_def posix_absolute_def drive_letter_def Let_def numeral_eq_Suc)

end
