(* ===== verification/Nas_Jobs.thy ===== *)
theory Nas_Jobs imports Nas_Ids
begin

text \<open>
  The durable jobs of the virtual NAS (\<open>VirtualNAS.jobs\<close> in \<open>sparkdeck/virtual_nas.py\<close>): a job as the queue holds
  it, the dictionary written to the job file, and \<open>_load_jobs\<close>, which validates every entry after a restart,
  requeues what was running and fails preparations that name a mutable revision.
\<close>

section \<open>Jobs\<close>

datatype jkind = Download | Transfer

datatype jstatus = JQueued | JRunning | JCompleted | JFailed | JCanceled

text \<open>
  Keys that a job may lack read as \<open>None\<close>; \<open>j_legacy = None\<close> is a job without the two download attempt keys.
  Fields the loader copies unchecked are Python values; the time stamp of the phase is left out.
\<close>

record job =
  j_id :: string
  j_kind :: jkind
  j_model :: string
  j_source :: string
  j_target :: string
  j_revision :: "string option"
  j_requested :: "string option"
  j_depends :: pyval
  j_workflow :: pyval
  j_workflow_nodes :: "pyval list"
  j_partial :: bool
  j_files :: "string list option"
  j_baseline :: "int option"
  j_attempted :: pyval
  j_attempt_start :: "int option"
  j_legacy :: "bool option"
  j_status :: jstatus
  j_total :: int
  j_done :: int
  j_created :: pyfloat
  j_started :: pyval
  j_completed :: pyval
  j_error :: pyval
  j_cancelable :: bool
  j_phase :: "string option"

definition active_state :: "jstatus \<Rightarrow> bool" where
  "active_state s \<longleftrightarrow> s = JQueued \<or> s = JRunning"

definition final_state :: "jstatus \<Rightarrow> bool" where
  "final_state s \<longleftrightarrow> s = JCompleted \<or> s = JFailed \<or> s = JCanceled"

fun status_text :: "jstatus \<Rightarrow> string" where
  "status_text JQueued = ''queued''"
| "status_text JRunning = ''running''"
| "status_text JCompleted = ''completed''"
| "status_text JFailed = ''failed''"
| "status_text JCanceled = ''canceled''"

definition text_status :: "string \<Rightarrow> jstatus" where
  "text_status s = (if s = ''queued'' then JQueued else if s = ''running'' then JRunning
     else if s = ''completed'' then JCompleted else if s = ''canceled'' then JCanceled else JFailed)"

section \<open>The job file\<close>

definition opt_str :: "string option \<Rightarrow> pyval" where
  "opt_str x = (case x of None \<Rightarrow> PNone | Some s \<Rightarrow> PStr s)"

definition opt_int :: "int option \<Rightarrow> pyval" where
  "opt_int x = (case x of None \<Rightarrow> PNone | Some i \<Rightarrow> PInt i)"

definition dump_job :: "(pyfloat \<Rightarrow> string) \<Rightarrow> job \<Rightarrow> pyval" where
  "dump_job fr j = PDict (
     [(''id'', PStr (j_id j)), (''kind'', PStr (if j_kind j = Download then ''download'' else ''transfer'')),
      (''model_id'', PStr (j_model j)), (''source_node_id'', PStr (j_source j)), (''target_node_id'', PStr (j_target j)),
      (''revision'', opt_str (j_revision j)), (''requested_revision'', opt_str (j_requested j)),
      (''depends_on_job_id'', j_depends j), (''workflow_id'', j_workflow j), (''workflow_node_ids'', PList (j_workflow_nodes j)),
      (''require_partial_cache'', PBool (j_partial j)),
      (''selected_files'', case j_files j of None \<Rightarrow> PNone | Some fs \<Rightarrow> PList (map PStr fs)),
      (''download_cache_baseline_bytes'', opt_int (j_baseline j)),
      (''download_attempt_start_bytes'', opt_int (j_attempt_start j)),
      (''status'', PStr (status_text (j_status j))), (''bytes_total'', PInt (j_total j)), (''bytes_transferred'', PInt (j_done j)),
      (''created_at'', PFloat (j_created j) (fr (j_created j))), (''started_at'', j_started j), (''completed_at'', j_completed j),
      (''error'', j_error j)] @
     (case j_legacy j of None \<Rightarrow> []
      | Some b \<Rightarrow> [(''legacy_download_attempt_tracking'', PBool b), (''download_attempted_at'', j_attempted j)]))"

section \<open>Loading\<close>

text \<open>\<open>list(value or [])\<close>\<close>

fun py_list :: "pyval \<Rightarrow> pyval list result" where
  "py_list (PList xs) = Inr xs"
| "py_list (PStr s) = Inr (map (\<lambda>c. PStr [c]) s)"
| "py_list (PDict d) = Inr (map (\<lambda>(k, v). PStr k) d)"
| "py_list _ = Inl (TypeError ''object is not iterable'')"

definition loaded_identity :: "(string \<times> pyval) list \<Rightarrow> (string option \<times> string option) result" where
  "loaded_identity d = bindE (validate_model_id (dict_get d ''model_id'')) (\<lambda>_.
     bindE (if py_truthy (dict_get d ''revision'') then bindE (validate_revision (dict_get d ''revision'')) (\<lambda>r. Inr (Some r))
       else Inr None) (\<lambda>rev.
     bindE (if py_truthy (dict_get d ''requested_revision'')
       then bindE (validate_revision (dict_get d ''requested_revision'')) (\<lambda>r. Inr (Some r)) else Inr rev) (\<lambda>req.
     Inr (rev, req))))"

text \<open>\<open>None\<close>: the entry is skipped.\<close>

definition loaded_files :: "(string \<times> pyval) list \<Rightarrow> string list option option" where
  "loaded_files d = (case dict_get d ''selected_files'' of
       PNone \<Rightarrow> Some None
     | PList xs \<Rightarrow> (case mapE (\<lambda>x. validate_repo_file (PStr (py_str x))) xs of
           Inl e \<Rightarrow> None
         | Inr [] \<Rightarrow> None
         | Inr fs \<Rightarrow> Some (Some (uniq fs)))
     | _ \<Rightarrow> None)"

definition mutable_workflow :: "pyval \<Rightarrow> string option \<Rightarrow> bool \<Rightarrow> bool" where
  "mutable_workflow w rv act \<longleftrightarrow> py_truthy w \<and> (case rv of None \<Rightarrow> False | Some r \<Rightarrow> \<not> is_commit_sha (PStr r)) \<and> act"

definition mutable_error :: string where
  "mutable_error = ''model preparation was created before immutable revision pinning; retry the recipe preparation''"

definition opt_count :: "pyval \<Rightarrow> int option result" where
  "opt_count v = (if v = PNone then Inr None else bindE (nonnegative_int v) (\<lambda>i. Inr (Some i)))"

text \<open>The stored status as text, and whether it is changed by loading.\<close>

definition loaded_status :: "(string \<times> pyval) list \<Rightarrow> string option \<Rightarrow> jstatus \<times> bool \<times> bool" where
  "loaded_status d rv = (let t = py_str (py_or (dict_get d ''status'') (PStr ''failed''));
       stale = mutable_workflow (dict_get d ''workflow_id'') rv (t = ''queued'' \<or> t = ''running'');
       requeued = (\<not> stale \<and> t = ''running'')
     in (if stale then JFailed else if requeued then JQueued else text_status t, stale, requeued))"

definition load_fields ::
  "(string \<Rightarrow> pyfloat option) \<Rightarrow> string \<Rightarrow> pyval \<Rightarrow> (string \<times> pyval) list \<Rightarrow> string option \<Rightarrow> string option
   \<Rightarrow> string list option \<Rightarrow> (job \<times> bool) result" where
  "load_fields fl new_id now d rv rq files = (let (st, stale, requeued) = loaded_status d rv in
     bindE (py_list (py_or (dict_get d ''workflow_node_ids'') (PList []))) (\<lambda>nodes.
     bindE (opt_count (dict_get d ''download_cache_baseline_bytes'')) (\<lambda>baseline.
     bindE (opt_count (dict_get d ''download_attempt_start_bytes'')) (\<lambda>astart.
     bindE (nonnegative_int (dict_get d ''bytes_total'')) (\<lambda>total.
     bindE (nonnegative_int (if requeued then PInt 0 else dict_get d ''bytes_transferred'')) (\<lambda>transferred.
     bindE (py_float fl (py_or (dict_get d ''created_at'') now)) (\<lambda>created.
     Inr (\<lparr>j_id = py_str (py_or (dict_get d ''id'') (PStr new_id)),
       j_kind = (if dict_get d ''kind'' = PStr ''download'' then Download else Transfer),
       j_model = py_str (dict_get d ''model_id''),
       j_source = py_str (py_or (dict_get d ''source_node_id'') (PStr ''local'')),
       j_target = py_str (py_or (dict_get d ''target_node_id'') (PStr '''')),
       j_revision = rv, j_requested = rq,
       j_depends = dict_get d ''depends_on_job_id'', j_workflow = dict_get d ''workflow_id'', j_workflow_nodes = nodes,
       j_partial = py_truthy (dict_get d ''require_partial_cache''), j_files = files, j_baseline = baseline,
       j_attempted = dict_get d ''download_attempted_at'', j_attempt_start = astart,
       j_legacy = Some (if has_key d ''legacy_download_attempt_tracking'' then py_truthy (dict_get d ''legacy_download_attempt_tracking'')
         else \<not> has_key d ''download_attempted_at''),
       j_status = st, j_total = total, j_done = transferred, j_created = created,
       j_started = dict_get d ''started_at'',
       j_completed = (if stale then now else dict_get d ''completed_at''),
       j_error = (if stale then PStr mutable_error else dict_get d ''error''),
       j_cancelable = False, j_phase = None\<rparr>, stale \<or> requeued))))))))"

definition load_job ::
  "(string \<Rightarrow> pyfloat option) \<Rightarrow> string \<Rightarrow> pyval \<Rightarrow> pyval \<Rightarrow> (job \<times> bool) option result" where
  "load_job fl new_id now v = (case v of
       PDict d \<Rightarrow> (case loaded_identity d of
           Inl e \<Rightarrow> Inr None
         | Inr (rv, rq) \<Rightarrow> (case loaded_files d of
             None \<Rightarrow> Inr None
           | Some files \<Rightarrow> bindE (load_fields fl new_id now d rv rq files) (\<lambda>x. Inr (Some x))))
     | _ \<Rightarrow> Inr None)"

text \<open>\<open>ids\<close> are the fresh identities of entries without one; \<open>None\<close> is a file that cannot be read or decoded.\<close>

fun load_entries ::
  "(string \<Rightarrow> pyfloat option) \<Rightarrow> (nat \<Rightarrow> string) \<Rightarrow> pyval \<Rightarrow> nat \<Rightarrow> pyval list \<Rightarrow> (job list \<times> bool) result" where
  "load_entries fl ids now n [] = Inr ([], False)"
| "load_entries fl ids now n (v # vs) = bindE (load_job fl (ids n) now v) (\<lambda>x.
     bindE (load_entries fl ids now (Suc n) vs) (\<lambda>(js, rec).
     Inr (case x of None \<Rightarrow> (js, rec) | Some (j, b) \<Rightarrow> (j # js, b \<or> rec))))"

definition load_jobs ::
  "(string \<Rightarrow> pyfloat option) \<Rightarrow> (nat \<Rightarrow> string) \<Rightarrow> pyval \<Rightarrow> pyval option \<Rightarrow> (job list \<times> bool) result" where
  "load_jobs fl ids now v = (case v of Some (PList vs) \<Rightarrow> load_entries fl ids now 0 vs | _ \<Rightarrow> Inr ([], False))"

section \<open>Restart\<close>

declare nonnegative_int.simps [simp del]

text \<open>What a restart makes of a job.\<close>

definition stale_job :: "job \<Rightarrow> bool" where
  "stale_job j \<longleftrightarrow> mutable_workflow (j_workflow j) (j_revision j) (active_state (j_status j))"

definition recovered :: "pyval \<Rightarrow> job \<Rightarrow> job" where
  "recovered now j = (let stale = stale_job j; requeued = (\<not> stale \<and> j_status j = JRunning) in
     j\<lparr>j_status := (if stale then JFailed else if requeued then JQueued else j_status j),
       j_done := (if requeued then 0 else j_done j),
       j_completed := (if stale then now else j_completed j),
       j_error := (if stale then PStr mutable_error else j_error j),
       j_attempted := (if j_legacy j = None then PNone else j_attempted j),
       j_legacy := Some (j_legacy j \<noteq> Some False), j_cancelable := False, j_phase := None\<rparr>)"

text \<open>The jobs the queue makes: validated identities, counts that are not negative.\<close>

definition good_revisions :: "string option \<Rightarrow> string option \<Rightarrow> bool" where
  "good_revisions rv rq \<longleftrightarrow> (case rv of None \<Rightarrow> rq = None
     | Some r \<Rightarrow> validate_revision (PStr r) = Inr r \<and> (\<exists>q. rq = Some q \<and> validate_revision (PStr q) = Inr q))"

definition good_files :: "string list option \<Rightarrow> bool" where
  "good_files fs \<longleftrightarrow> (case fs of None \<Rightarrow> True
     | Some ws \<Rightarrow> ws \<noteq> [] \<and> distinct ws \<and> (\<forall>f \<in> set ws. validate_repo_file (PStr f) = Inr f))"

definition good_count :: "int option \<Rightarrow> bool" where
  "good_count x \<longleftrightarrow> (case x of None \<Rightarrow> True | Some i \<Rightarrow> 0 \<le> i)"

definition storable :: "job \<Rightarrow> bool" where
  "storable j \<longleftrightarrow> validate_model_id (PStr (j_model j)) = Inr (j_model j) \<and> good_revisions (j_revision j) (j_requested j) \<and>
     j_id j \<noteq> [] \<and> j_source j \<noteq> [] \<and> good_files (j_files j) \<and> good_count (j_baseline j) \<and> good_count (j_attempt_start j) \<and>
     0 \<le> j_total j \<and> 0 \<le> j_done j \<and> j_created j \<noteq> Finite 0"

lemma validate_revision_truthy: "validate_revision (PStr r) = Inr r \<Longrightarrow> r \<noteq> []"
  by (auto simp: validate_revision_def revision_of_def Let_def py_or_def split: if_splits)

lemma text_status_text [simp]: "text_status (status_text s) = s"
  by (cases s) (simp_all add: text_status_def)

lemma nonnegative_PInt [simp]: "0 \<le> i \<Longrightarrow> nonnegative_int (PInt i) = Inr i"
  by (simp add: py_or_def nonnegative_int.simps)

lemma opt_count_opt_int [simp]: "good_count x \<Longrightarrow> opt_count (opt_int x) = Inr x"
  by (cases x) (simp_all add: opt_count_def opt_int_def good_count_def)

lemma dumped_get:
  assumes d: "dump_job fr j = PDict d"
  shows "dict_get d ''id'' = PStr (j_id j)" "dict_get d ''kind'' = PStr (if j_kind j = Download then ''download'' else ''transfer'')"
  "dict_get d ''model_id'' = PStr (j_model j)" "dict_get d ''source_node_id'' = PStr (j_source j)"
  "dict_get d ''target_node_id'' = PStr (j_target j)" "dict_get d ''revision'' = opt_str (j_revision j)"
  "dict_get d ''requested_revision'' = opt_str (j_requested j)" "dict_get d ''depends_on_job_id'' = j_depends j"
  "dict_get d ''workflow_id'' = j_workflow j" "dict_get d ''workflow_node_ids'' = PList (j_workflow_nodes j)"
  "dict_get d ''require_partial_cache'' = PBool (j_partial j)"
  "dict_get d ''selected_files'' = (case j_files j of None \<Rightarrow> PNone | Some fs \<Rightarrow> PList (map PStr fs))"
  "dict_get d ''download_cache_baseline_bytes'' = opt_int (j_baseline j)"
  "dict_get d ''download_attempt_start_bytes'' = opt_int (j_attempt_start j)"
  "dict_get d ''status'' = PStr (status_text (j_status j))" "dict_get d ''bytes_total'' = PInt (j_total j)"
  "dict_get d ''bytes_transferred'' = PInt (j_done j)"
  "dict_get d ''created_at'' = PFloat (j_created j) (fr (j_created j))" "dict_get d ''started_at'' = j_started j"
  "dict_get d ''completed_at'' = j_completed j" "dict_get d ''error'' = j_error j"
  using d by (auto simp: dump_job_def dict_get_def)

lemma dumped_legacy:
  assumes d: "dump_job fr j = PDict d"
  shows "has_key d ''legacy_download_attempt_tracking'' \<longleftrightarrow> j_legacy j \<noteq> None"
  "has_key d ''download_attempted_at'' \<longleftrightarrow> j_legacy j \<noteq> None"
  "dict_get d ''legacy_download_attempt_tracking'' = (case j_legacy j of None \<Rightarrow> PNone | Some b \<Rightarrow> PBool b)"
  "dict_get d ''download_attempted_at'' = (if j_legacy j = None then PNone else j_attempted j)"
  using d by (cases "j_legacy j"; auto simp: dump_job_def dict_get_def has_key_def)+

lemma loaded_identity_dump:
  assumes "storable j" "dump_job fr j = PDict d"
  shows "loaded_identity d = Inr (j_revision j, j_requested j)"
proof -
  note g = dumped_get[OF assms(2)]
  show ?thesis
  proof (cases "j_revision j")
    case None
    then show ?thesis using assms(1) by (simp add: loaded_identity_def storable_def good_revisions_def g opt_str_def)
  next
    case (Some r)
    then obtain q where q: "j_requested j = Some q" "validate_revision (PStr q) = Inr q" "validate_revision (PStr r) = Inr r"
      using assms(1) by (auto simp: storable_def good_revisions_def)
    then show ?thesis
      using assms(1) Some validate_revision_truthy by (auto simp: loaded_identity_def storable_def g opt_str_def)
  qed
qed

lemma loaded_files_dump:
  assumes "storable j" "dump_job fr j = PDict d"
  shows "loaded_files d = Some (j_files j)"
proof (cases "j_files j")
  case None
  then show ?thesis by (simp add: loaded_files_def dumped_get[OF assms(2)])
next
  case (Some fs)
  then have fs: "fs \<noteq> []" "distinct fs" "\<And>f. f \<in> set fs \<Longrightarrow> validate_repo_file (PStr f) = Inr f"
    using assms(1) by (auto simp: storable_def good_files_def)
  have "mapE (\<lambda>x. validate_repo_file (PStr (py_str x))) (map PStr fs) = mapE (\<lambda>f. validate_repo_file (PStr f)) fs"
    by (induction fs) auto
  also have "\<dots> = Inr fs" using mapE_Inr_map[of fs "\<lambda>f. validate_repo_file (PStr f)" "\<lambda>f. f"] fs(3) by simp
  finally have "mapE (\<lambda>x. validate_repo_file (PStr (py_str x))) (map PStr fs) = Inr fs" .
  then show ?thesis using Some fs(1,2) uniq_distinct[of fs]
    by (cases fs) (simp_all add: loaded_files_def dumped_get[OF assms(2)] del: uniq.simps)
qed

lemma loaded_status_dump:
  assumes "dump_job fr j = PDict d"
  shows "loaded_status d (j_revision j) = (j_status (recovered now j), stale_job j, \<not> stale_job j \<and> j_status j = JRunning)"
  by (cases "j_status j")
    (simp_all add: loaded_status_def dumped_get[OF assms] py_or_def Let_def recovered_def stale_job_def active_state_def text_status_def)

lemma load_fields_dump:
  assumes "storable j" "dump_job fr j = PDict d"
  shows "load_fields fl i now d (j_revision j) (j_requested j) (j_files j) =
    Inr (recovered now j, stale_job j \<or> j_status j = JRunning)"
proof -
  have ok: "good_count (j_baseline j)" "good_count (j_attempt_start j)"
    "0 \<le> j_total j" "0 \<le> j_done j" "j_created j \<noteq> Finite 0" "j_id j \<noteq> []" "j_source j \<noteq> []"
    using assms(1) by (auto simp: storable_def)
  have fields: "nonnegative_int (if r then PInt 0 else PInt (j_done j)) = Inr (if r then 0 else j_done j)" for r
    using ok(4) by simp
  have created: "py_float fl (py_or (PFloat (j_created j) t) now) = Inr (j_created j)" for t
    using ok(5) by (simp add: py_or_def)
  have nodes: "py_list (py_or (PList xs) (PList [])) = Inr xs" for xs by (simp add: py_or_def)
  have target: "py_str (py_or (PStr t) (PStr [])) = t" for t by (simp add: py_or_def)
  show ?thesis
    unfolding load_fields_def loaded_status_dump[OF assms(2), of now] dumped_get[OF assms(2)] dumped_legacy[OF assms(2)]
      nodes opt_count_opt_int[OF ok(1)] opt_count_opt_int[OF ok(2)] nonnegative_PInt[OF ok(3)] created fields target
    using ok(6,7)
    by (cases "j_kind j"; cases "j_legacy j") (auto simp: recovered_def Let_def py_or_def)
qed

lemma load_job_dump: "storable j \<Longrightarrow> load_job fl i now (dump_job fr j) = Inr (Some (recovered now j, stale_job j \<or> j_status j = JRunning))"
proof -
  assume ok: "storable j"
  obtain d where d: "dump_job fr j = PDict d" by (simp add: dump_job_def)
  show ?thesis
    by (simp add: d load_job_def loaded_identity_dump[OF ok d] loaded_files_dump[OF ok d] load_fields_dump[OF ok d])
qed

lemma load_entries_dump: "\<forall>j \<in> set js. storable j \<Longrightarrow> load_entries fl ids now n (map (dump_job fr) js) =
   Inr (map (recovered now) js, list_ex (\<lambda>j. stale_job j \<or> j_status j = JRunning) js)"
  by (induction js arbitrary: n) (auto simp: load_job_dump)


lemma recovered_storable: "storable j \<Longrightarrow> storable (recovered now j)"
  by (simp add: storable_def recovered_def Let_def)

definition demo_job :: job where
  "demo_job = \<lparr>j_id = ''1'', j_kind = Transfer, j_model = ''o/m'', j_source = ''local'', j_target = ''b'', j_revision = None,
     j_requested = None, j_depends = PNone, j_workflow = PNone, j_workflow_nodes = [], j_partial = False, j_files = None,
     j_baseline = None, j_attempted = PNone, j_attempt_start = None, j_legacy = None, j_status = JRunning, j_total = 9, j_done = 4,
     j_created = Finite 1, j_started = PInt 5, j_completed = PNone, j_error = PNone, j_cancelable = False, j_phase = Some ''transferring''\<rparr>"

lemma demo_storable: "storable demo_job"
  by (simp add: storable_def good_revisions_def good_files_def good_count_def demo_job_def validate_model_id_def model_part_def alnum_def ascii_letter_def is_digit_def py_strip_def
      py_space_def Let_def)


end
