(* ===== verification/Nas_Queue.thy ===== *)
theory Nas_Queue imports Nas_Jobs
begin

text \<open>
  The queue operations of the virtual NAS on its list of jobs: cancelling the queued jobs that wait for a
  download, the nodes a job occupies, and the choice of the next job (\<open>_cancel_download_dependents\<close>,
  \<open>_job_endpoints\<close>, \<open>_next_queue_job\<close> in \<open>sparkdeck/virtual_nas.py\<close>).  A job object is its index in the list.
\<close>

section \<open>Cancelling dependents\<close>

definition canceled_job :: "pyval \<Rightarrow> job \<Rightarrow> job" where
  "canceled_job now j = j\<lparr>j_status := JCanceled, j_completed := now, j_error := PNone\<rparr>"

definition waits_on :: "string \<Rightarrow> job \<Rightarrow> bool" where
  "waits_on i j \<longleftrightarrow> j_depends j = PStr i \<and> j_status j = JQueued"

definition queued_count :: "job list \<Rightarrow> nat" where
  "queued_count js = length (filter (\<lambda>j. j_status j = JQueued) js)"

lemma queued_count_cancel: "k < length js \<Longrightarrow> j_status (js ! k) = JQueued \<Longrightarrow> queued_count (js[k := canceled_job now (js ! k)]) < queued_count js"
proof -
  assume k: "k < length js" "j_status (js ! k) = JQueued"
  have e: "js = take k js @ js ! k # drop (Suc k) js" using k(1) by (rule id_take_nth_drop)
  have "js[k := canceled_job now (js ! k)] = take k js @ canceled_job now (js ! k) # drop (Suc k) js"
    using k(1) by (rule upd_conv_take_nth_drop)
  then have "queued_count (js[k := canceled_job now (js ! k)]) + 1 =
      queued_count (take k js @ js ! k # drop (Suc k) js)"
    using k(2) by (simp add: queued_count_def canceled_job_def)
  then show ?thesis using e by simp
qed

text \<open>
  The recursion of \<open>_cancel_download_dependents\<close> with its call stack written out: a frame is the identity a call
  looks for and the position of its loop over the list.
\<close>

function cancel_frames :: "pyval \<Rightarrow> (string \<times> nat) list \<Rightarrow> job list \<Rightarrow> job list" where
  "cancel_frames now [] js = js"
| "cancel_frames now ((i, k) # fs) js =
     (if length js \<le> k then cancel_frames now fs js
      else if waits_on i (js ! k)
      then cancel_frames now ((j_id (js ! k), 0) # (i, Suc k) # fs) (js[k := canceled_job now (js ! k)])
      else cancel_frames now ((i, Suc k) # fs) js)"
  by pat_completeness auto
termination
proof (relation "measures [\<lambda>(now, fs, js). queued_count js, \<lambda>(now, fs, js). sum_list (map (\<lambda>(i, k). Suc (length js - k)) fs)]", goal_cases)
  case (3 now i k fs js)
  then show ?case using queued_count_cancel[of k js now] by (simp add: waits_on_def)
qed auto

definition cancel_dependents :: "pyval \<Rightarrow> string \<Rightarrow> job list \<Rightarrow> job list" where
  "cancel_dependents now i js = cancel_frames now [(i, 0)] js"

text \<open>The queued jobs that wait for \<open>i\<close>, directly or through other queued jobs.\<close>

inductive waits_for :: "job list \<Rightarrow> string \<Rightarrow> nat \<Rightarrow> bool" for js :: "job list" and i :: string where
  direct: "k < length js \<Longrightarrow> waits_on i (js ! k) \<Longrightarrow> waits_for js i k"
| chain: "waits_for js i k \<Longrightarrow> l < length js \<Longrightarrow> waits_on (j_id (js ! k)) (js ! l) \<Longrightarrow> waits_for js i l"

lemma waits_for_queued: "waits_for js i k \<Longrightarrow> k < length js \<and> j_status (js ! k) = JQueued"
  by (induction rule: waits_for.induct) (auto simp: waits_on_def)

lemma canceled_job_simps [simp]: "j_id (canceled_job now j) = j_id j" "j_depends (canceled_job now j) = j_depends j"
  "j_status (canceled_job now j) = JCanceled" "j_target (canceled_job now j) = j_target j"
  by (simp_all add: canceled_job_def)

text \<open>
  The invariant of the recursion, over the original list \<open>js0\<close>: a job is as it was or canceled, those canceled
  waited for \<open>i\<close>, and a queued job that waits for \<open>i\<close> or for a canceled one is still ahead of some frame.
\<close>

definition cancel_inv :: "pyval \<Rightarrow> string \<Rightarrow> job list \<Rightarrow> (string \<times> nat) list \<Rightarrow> job list \<Rightarrow> bool" where
  "cancel_inv now i js0 fs js \<longleftrightarrow> length js = length js0 \<and>
     (\<forall>k < length js0. js ! k = js0 ! k \<or> js ! k = canceled_job now (js0 ! k) \<and> waits_for js0 i k) \<and>
     (\<forall>(r, m) \<in> set fs. r = i \<or> (\<exists>k. waits_for js0 i k \<and> r = j_id (js0 ! k))) \<and>
     (\<forall>k < length js0. \<forall>r. waits_on r (js ! k) \<longrightarrow>
        r = i \<or> (\<exists>l < length js0. js ! l \<noteq> js0 ! l \<and> r = j_id (js0 ! l)) \<longrightarrow> (\<exists>m \<le> k. (r, m) \<in> set fs))"

lemma cancel_invI:
  assumes "length js = length js0"
    and "\<And>k. k < length js0 \<Longrightarrow> js ! k = js0 ! k \<or> js ! k = canceled_job now (js0 ! k) \<and> waits_for js0 i k"
    and "\<And>r m. (r, m) \<in> set fs \<Longrightarrow> r = i \<or> (\<exists>k. waits_for js0 i k \<and> r = j_id (js0 ! k))"
    and "\<And>k r. k < length js0 \<Longrightarrow> waits_on r (js ! k) \<Longrightarrow>
        r = i \<or> (\<exists>l < length js0. js ! l \<noteq> js0 ! l \<and> r = j_id (js0 ! l)) \<Longrightarrow> \<exists>m \<le> k. (r, m) \<in> set fs"
  shows "cancel_inv now i js0 fs js"
  unfolding cancel_inv_def using assms by blast

lemma cancel_invD:
  assumes "cancel_inv now i js0 fs js"
  shows "length js = length js0"
    and "\<And>k. k < length js0 \<Longrightarrow> js ! k = js0 ! k \<or> js ! k = canceled_job now (js0 ! k) \<and> waits_for js0 i k"
    and "\<And>r m. (r, m) \<in> set fs \<Longrightarrow> r = i \<or> (\<exists>k. waits_for js0 i k \<and> r = j_id (js0 ! k))"
    and "\<And>k r. k < length js0 \<Longrightarrow> waits_on r (js ! k) \<Longrightarrow>
        r = i \<or> (\<exists>l < length js0. js ! l \<noteq> js0 ! l \<and> r = j_id (js0 ! l)) \<Longrightarrow> \<exists>m \<le> k. (r, m) \<in> set fs"
  using assms unfolding cancel_inv_def by blast+

lemma cancel_inv_pop:
  assumes "cancel_inv now i js0 ((r, m) # fs) js" "length js \<le> m"
  shows "cancel_inv now i js0 fs js"
proof (rule cancel_invI)
  fix k q
  assume k: "k < length js0" "waits_on q (js ! k)" "q = i \<or> (\<exists>l < length js0. js ! l \<noteq> js0 ! l \<and> q = j_id (js0 ! l))"
  then obtain n where n: "n \<le> k" "(q, n) \<in> set ((r, m) # fs)" using cancel_invD(4)[OF assms(1)] by blast
  then have "n \<noteq> m" using assms(2) cancel_invD(1)[OF assms(1)] k(1) by linarith
  then show "\<exists>m \<le> k. (q, m) \<in> set fs" using n by auto
qed (use cancel_invD[OF assms(1)] in auto)

lemma ahead_skip:
  assumes "\<exists>n \<le> k. (q, n) \<in> set ((r, m) # fs)" "\<not> (k = m \<and> q = r)"
  shows "\<exists>n \<le> k. (q, n) \<in> set ((r, Suc m) # fs)"
proof -
  obtain n where n: "n \<le> k" "(q, n) = (r, m) \<or> (q, n) \<in> set fs" using assms(1) by auto
  show ?thesis
  proof (cases "(q, n) = (r, m)")
    case True
    then have "Suc m \<le> k" using n(1) assms(2) by auto
    then show ?thesis using True by auto
  next
    case False
    then show ?thesis using n by auto
  qed
qed

lemma cancel_inv_skip:
  assumes "cancel_inv now i js0 ((r, m) # fs) js" "m < length js" "\<not> waits_on r (js ! m)"
  shows "cancel_inv now i js0 ((r, Suc m) # fs) js"
proof (rule cancel_invI)
  fix k q
  assume k: "k < length js0" "waits_on q (js ! k)" "q = i \<or> (\<exists>l < length js0. js ! l \<noteq> js0 ! l \<and> q = j_id (js0 ! l))"
  show "\<exists>n \<le> k. (q, n) \<in> set ((r, Suc m) # fs)"
    by (rule ahead_skip[OF cancel_invD(4)[OF assms(1) k]]) (use k(2) assms(3) in auto)
qed (use cancel_invD[OF assms(1)] in auto)

lemma cancel_inv_call:
  assumes inv: "cancel_inv now i js0 ((r, m) # fs) js" and m: "m < length js" "waits_on r (js ! m)"
  shows "cancel_inv now i js0 ((j_id (js ! m), 0) # (r, Suc m) # fs) (js[m := canceled_job now (js ! m)])"
proof -
  let ?js = "js[m := canceled_job now (js ! m)]" and ?fs = "(j_id (js ! m), 0) # (r, Suc m) # fs"
  have len: "length js = length js0" and each: "\<And>k. k < length js0 \<Longrightarrow> js ! k = js0 ! k \<or> js ! k = canceled_job now (js0 ! k) \<and> waits_for js0 i k"
    and fr: "\<And>q n. (q, n) \<in> set ((r, m) # fs) \<Longrightarrow> q = i \<or> (\<exists>k. waits_for js0 i k \<and> q = j_id (js0 ! k))"
    and ahead: "\<And>k q. k < length js0 \<Longrightarrow> waits_on q (js ! k) \<Longrightarrow>
        q = i \<or> (\<exists>l < length js0. js ! l \<noteq> js0 ! l \<and> q = j_id (js0 ! l)) \<Longrightarrow> \<exists>n \<le> k. (q, n) \<in> set ((r, m) # fs)"
    using cancel_invD[OF inv] by blast+
  have same: "js ! m = js0 ! m" using each[of m] m len by (auto simp: waits_on_def)
  have wm: "waits_for js0 i m"
    using fr[of r m] m len same by (auto intro: waits_for.intros)
  have each': "?js ! k = js0 ! k \<or> ?js ! k = canceled_job now (js0 ! k) \<and> waits_for js0 i k" if "k < length js0" for k
    using each[OF that] wm same m(1) len that by (cases "k = m") auto
  have fr': "q = i \<or> (\<exists>k. waits_for js0 i k \<and> q = j_id (js0 ! k))" if "(q, n) \<in> set ?fs" for q n
    using that fr wm same by auto
  have ahead': "\<exists>n \<le> k. (q, n) \<in> set ?fs"
    if k: "k < length js0" "waits_on q (?js ! k)" "q = i \<or> (\<exists>l < length js0. ?js ! l \<noteq> js0 ! l \<and> q = j_id (js0 ! l))" for k q
  proof -
    have km: "k \<noteq> m" "waits_on q (js ! k)" using k(2) m(1) by (auto simp: waits_on_def nth_list_update split: if_splits)
    show ?thesis
    proof (cases "q = j_id (js ! m)")
      case False
      have "js ! l \<noteq> js0 ! l" if "?js ! l \<noteq> js0 ! l" "q = j_id (js0 ! l)" for l
        using that False same by (cases "l = m") auto
      then have "q = i \<or> (\<exists>l < length js0. js ! l \<noteq> js0 ! l \<and> q = j_id (js0 ! l))" using k(3) by blast
      then have "\<exists>n \<le> k. (q, n) \<in> set ((r, Suc m) # fs)" using ahead_skip[OF ahead[OF k(1) km(2)]] km(1) by blast
      then show ?thesis by auto
    qed auto
  qed
  show ?thesis by (rule cancel_invI) (use len each' fr' ahead' in \<open>simp_all del: set_simps\<close>)
qed

lemma cancel_frames_inv: "cancel_inv now i js0 fs js \<Longrightarrow> cancel_inv now i js0 [] (cancel_frames now fs js)"
proof (induction now fs js rule: cancel_frames.induct)
  case (2 now r m fs js)
  consider "length js \<le> m" | "m < length js" "waits_on r (js ! m)" | "m < length js" "\<not> waits_on r (js ! m)" by linarith
  then show ?case
  proof cases
    case 1
    then show ?thesis using "2.IH"(1) cancel_inv_pop[OF "2.prems"] by simp
  next
    case 2
    then show ?thesis using "2.IH"(2) cancel_inv_call[OF "2.prems"] by simp
  next
    case 3
    then show ?thesis using "2.IH"(3) cancel_inv_skip[OF "2.prems"] by simp
  qed
qed simp

lemma cancel_dependents_result:
  "cancel_dependents now i js = map (\<lambda>k. if waits_for js i k then canceled_job now (js ! k) else js ! k) [0..<length js]"
proof -
  let ?r = "cancel_dependents now i js"
  have "cancel_inv now i js [(i, 0)] js" by (auto simp: cancel_inv_def)
  then have inv: "cancel_inv now i js [] ?r" unfolding cancel_dependents_def by (rule cancel_frames_inv)
  then have len: "length ?r = length js" and each: "\<And>k. k < length js \<Longrightarrow> ?r ! k = js ! k \<or> ?r ! k = canceled_job now (js ! k) \<and> waits_for js i k"
    and closed: "\<And>k q. k < length js \<Longrightarrow> waits_on q (?r ! k) \<Longrightarrow> \<not> (q = i \<or> (\<exists>l < length js. ?r ! l \<noteq> js ! l \<and> q = j_id (js ! l)))"
    by (auto simp: cancel_inv_def)
  have can: "?r ! k = canceled_job now (js ! k)" if "waits_for js i k" for k
    using that
  proof (induction rule: waits_for.induct)
    case (direct k)
    then show ?case using each[of k] closed[of k i] by auto
  next
    case (chain k l)
    have "k < length js" "j_status (js ! k) = JQueued" using waits_for_queued[OF chain.hyps(1)] by simp_all
    moreover then have "?r ! k \<noteq> js ! k" using chain.IH by (metis canceled_job_simps(3) jstatus.distinct(7))
    ultimately show ?case using each[of l] closed[of l "j_id (js ! k)"] chain.hyps(2,3) by auto
  qed
  have all: "?r ! k = (if waits_for js i k then canceled_job now (js ! k) else js ! k)" if "k < length js" for k
  proof (cases "waits_for js i k")
    case True
    then show ?thesis using can by simp
  next
    case False
    then show ?thesis using each[OF that] by simp
  qed
  show ?thesis by (rule nth_equalityI) (simp_all add: len all)
qed

text \<open>C38: cancelling the dependents of a job cancels exactly the queued jobs that wait for it, directly or through other
  queued jobs, whatever the order of the list, and changes nothing else.\<close>

theorem cancel_dependents_exact:
  "cancel_dependents now i js = map (\<lambda>k. if waits_for js i k then canceled_job now (js ! k) else js ! k) [0..<length js]"
  by (rule cancel_dependents_result)

section \<open>The next job\<close>

definition job_endpoints :: "job \<Rightarrow> string set" where
  "job_endpoints j = (if j_source j \<noteq> [] \<and> j_kind j \<noteq> Download then {j_target j, j_source j} else {j_target j})"

text \<open>The first job whose identity is the value.\<close>

definition dependency_at :: "job list \<Rightarrow> pyval \<Rightarrow> nat option" where
  "dependency_at js v = find (\<lambda>k. PStr (j_id (js ! k)) = v) [0..<length js]"

definition dep_dead :: "job list \<Rightarrow> job \<Rightarrow> bool" where
  "dep_dead js c \<longleftrightarrow> py_truthy (j_depends c) \<and> (case dependency_at js (j_depends c) of
       None \<Rightarrow> True | Some d \<Rightarrow> j_status (js ! d) = JFailed \<or> j_status (js ! d) = JCanceled)"

definition dep_pending :: "job list \<Rightarrow> job \<Rightarrow> bool" where
  "dep_pending js c \<longleftrightarrow> py_truthy (j_depends c) \<and> (case dependency_at js (j_depends c) of
       None \<Rightarrow> False | Some d \<Rightarrow> j_status (js ! d) \<noteq> JCompleted)"

definition failed_job :: "pyval \<Rightarrow> string \<Rightarrow> job \<Rightarrow> job" where
  "failed_job now msg j = j\<lparr>j_status := JFailed, j_completed := now, j_error := PStr msg\<rparr>"

definition dependency_error :: string where
  "dependency_error = ''required source download did not complete''"

text \<open>The loop over \<open>self.jobs\<close>, here over the positions still to visit.\<close>

fun next_job :: "pyval \<Rightarrow> string set \<Rightarrow> nat list \<Rightarrow> job list \<Rightarrow> nat option \<times> job list" where
  "next_job now busy [] js = (None, js)"
| "next_job now busy (k # ks) js = (let c = js ! k in
     if j_status c \<noteq> JQueued then next_job now busy ks js
     else if dep_dead js c then next_job now busy ks (js[k := failed_job now dependency_error c])
     else if dep_pending js c then next_job now busy ks js
     else if job_endpoints c \<inter> busy \<noteq> {} then next_job now busy ks js
     else (Some k, js))"

definition next_queue_job :: "pyval \<Rightarrow> string set \<Rightarrow> job list \<Rightarrow> nat option \<times> job list" where
  "next_queue_job now busy js = next_job now busy [0..<length js] js"

lemma failed_job_simps [simp]: "j_id (failed_job now m j) = j_id j" "j_depends (failed_job now m j) = j_depends j"
  "j_status (failed_job now m j) = JFailed" "j_target (failed_job now m j) = j_target j"
  "job_endpoints (failed_job now m j) = job_endpoints j"
  by (simp_all add: failed_job_def job_endpoints_def)

text \<open>Only identities matter to the search, and appended jobs do not change what was found.\<close>

lemma dependency_at_cong:
  assumes "length js' = length js" "\<And>k. k < length js \<Longrightarrow> j_id (js' ! k) = j_id (js ! k)"
  shows "dependency_at js' v = dependency_at js v"
  unfolding dependency_at_def assms(1) by (rule find_cong) (use assms(2) in auto)

lemma dependency_at_Some: "dependency_at js v = Some d \<Longrightarrow> d < length js \<and> PStr (j_id (js ! d)) = v"
  by (auto simp: dependency_at_def find_Some_iff)

lemma dependency_at_append: "dependency_at js v = Some d \<Longrightarrow> dependency_at (js @ ks) v = Some d"
proof -
  assume "dependency_at js v = Some d"
  then have d: "d < length js" "PStr (j_id (js ! d)) = v" "\<And>l. l < d \<Longrightarrow> PStr (j_id (js ! l)) \<noteq> v"
    by (auto simp: dependency_at_def find_Some_iff)
  then show ?thesis unfolding dependency_at_def find_Some_iff by (intro exI[of _ d]) (auto simp: nth_append)
qed

text \<open>What one search does: jobs it passes stay, or fail because their dependency is dead; the chosen job is free to run.\<close>

lemma next_job_each:
  "next_job now busy ks js = (r, js') \<Longrightarrow> \<forall>k \<in> set ks. k < length js \<Longrightarrow>
   length js' = length js \<and> (\<forall>k < length js. js' ! k = js ! k \<or>
     j_status (js ! k) = JQueued \<and> js' ! k = failed_job now dependency_error (js ! k))"
proof (induction now busy ks js rule: next_job.induct)
  case (2 now busy k ks js)
  let ?c = "js ! k" and ?js = "js[k := failed_job now dependency_error (js ! k)]"
  have k: "k < length js" using "2.prems"(2) by simp
  show ?case
  proof (cases "j_status ?c = JQueued \<and> dep_dead js ?c")
    case True
    then have "length js' = length ?js \<and> (\<forall>k < length ?js. js' ! k = ?js ! k \<or>
        j_status (?js ! k) = JQueued \<and> js' ! k = failed_job now dependency_error (?js ! k))"
      using "2.IH"(2) "2.prems" by simp
    then show ?thesis using True k by (auto simp: nth_list_update split: if_splits)
  next
    case False
    then show ?thesis using "2.IH" "2.prems" by (auto simp: Let_def split: if_splits)
  qed
qed simp

lemma next_job_Some:
  "next_job now busy ks js = (Some k, js') \<Longrightarrow> \<forall>k \<in> set ks. k < length js \<Longrightarrow>
   k \<in> set ks \<and> j_status (js' ! k) = JQueued \<and> \<not> dep_dead js' (js' ! k) \<and> \<not> dep_pending js' (js' ! k) \<and> job_endpoints (js' ! k) \<inter> busy = {}"
  by (induction now busy ks js rule: next_job.induct) (auto simp: Let_def split: if_splits)

lemma next_job_outside:
  "next_job now busy ks js = (r, js') \<Longrightarrow> l \<notin> set ks \<Longrightarrow> js' ! l = js ! l"
  by (induction now busy ks js rule: next_job.induct) (auto simp: Let_def split: if_splits)

text \<open>When nothing is chosen, every queued job that was visited is held back, as the list was at its turn.\<close>

definition held :: "string set \<Rightarrow> job list \<Rightarrow> job \<Rightarrow> bool" where
  "held busy js c \<longleftrightarrow> \<not> dep_dead js c \<and> dep_pending js c \<or> job_endpoints c \<inter> busy \<noteq> {}"

lemma next_job_None:
  "next_job now busy ks js = (None, js') \<Longrightarrow> \<forall>k \<in> set ks. k < length js \<Longrightarrow> sorted_wrt (<) ks \<Longrightarrow>
   k \<in> set ks \<Longrightarrow> j_status (js' ! k) = JQueued \<Longrightarrow>
   \<exists>js1. length js1 = length js \<and> (\<forall>l < k. js' ! l = js1 ! l) \<and> (\<forall>l < length js. j_id (js1 ! l) = j_id (js ! l)) \<and> held busy js1 (js' ! k)"
proof (induction now busy ks js rule: next_job.induct)
  case (2 now busy m ms js)
  let ?c = "js ! m" and ?js = "js[m := failed_job now dependency_error (js ! m)]"
  let ?js1 = "if j_status ?c = JQueued \<and> dep_dead js ?c then ?js else js"
  have m: "m < length js" using "2.prems"(2) by simp
  have rest: "next_job now busy ms ?js1 = (None, js')"
    using "2.prems"(1) by (auto simp: Let_def split: if_splits)
  have len: "length ?js1 = length js" by simp
  note each = next_job_each[OF rest, unfolded len]
  have later: "js' ! l = ?js1 ! l" if "l \<le> m" "l < length js" for l
  proof -
    have "l \<notin> set ms" using that(1) "2.prems"(3) by auto
    then show ?thesis using next_job_outside[OF rest] that(2) "2.prems"(2) by simp
  qed
  show ?case
  proof (cases "k = m")
    case True
    then have q: "j_status (js' ! m) = JQueued" "js' ! m = ?js1 ! m" using "2.prems"(5) later m by simp_all
    then have "\<not> (j_status ?c = JQueued \<and> dep_dead js ?c)" using m by (auto split: if_splits)
    then have e: "?js1 = js" "j_status ?c = JQueued" "\<not> dep_dead js ?c" "js' ! m = ?c" using q m by auto
    then have "held busy js ?c" using "2.prems"(1) by (auto simp: Let_def held_def split: if_splits)
    then show ?thesis using True e later m by (intro exI[of _ js]) auto
  next
    case False
    obtain js1 where j: "length js1 = length ?js1" "\<forall>l < k. js' ! l = js1 ! l" "\<forall>l < length ?js1. j_id (js1 ! l) = j_id (?js1 ! l)"
      "held busy js1 (js' ! k)"
      using "2.IH" "2.prems" False by (auto simp: Let_def split: if_splits)
    have "j_id (?js1 ! l) = j_id (js ! l)" for l using m by (cases "l = m") auto
    then show ?thesis using j len by (intro exI[of _ js1]) auto
  qed
qed simp

end
