(* ===== verification/Nas_Requests.thy ===== *)
theory Nas_Requests imports Nas_Queue "HOL-Library.Char_ord" "HOL-Library.List_Lexorder"
begin

text \<open>
  Admission to the transfer queue: \<open>_queue_transfer\<close> and \<open>_queue_download_and_transfer\<close> of
  \<open>sparkdeck/virtual_nas.py\<close>, run under the queue lock, with the checks they make before any job is added.
  The registry's answers and the inventories of the nodes are parameters; every one is read once per call.
\<close>

section \<open>Nodes\<close>

record node_view =
  nv_name :: string
  nv_enabled :: bool
  nv_online :: bool
  nv_caps :: "string list"

type_synonym node_views = "string \<Rightarrow> node_view option"

record storage_view =
  sv_models :: "cached list"
  sv_free :: pyval

type_synonym storage_views = "string \<Rightarrow> storage_view result"

definition quoted :: "string \<Rightarrow> string" where
  "quoted s = [CHR 0x27] @ s @ [CHR 0x27]"

definition validate_node :: "node_views \<Rightarrow> string \<Rightarrow> unit result" where
  "validate_node nodes i = (if i = ''local'' then Inr () else case nodes i of
       None \<Rightarrow> Inl (ValueError (''unknown node_id '' @ quoted i))
     | Some n \<Rightarrow> checkE (nv_enabled n) (ValueError (''node_id '' @ quoted i @ '' is disabled'')))"

text \<open>The capabilities of an online node; the local node is always online.\<close>

definition validate_online :: "node_views \<Rightarrow> string \<Rightarrow> string list result" where
  "validate_online nodes i = bindE (validate_node nodes i) (\<lambda>_.
     if i = ''local'' then Inr [] else case nodes i of
       None \<Rightarrow> Inl (ValueError (''unknown node_id '' @ quoted i))
     | Some n \<Rightarrow> if nv_online n then Inr (nv_caps n) else Inl (RuntimeError (''node '' @ quoted (nv_name n) @ '' is offline'')))"

definition download_capability :: string where
  "download_capability = ''virtual-nas-download-v1''"

definition validate_download :: "node_views \<Rightarrow> string \<Rightarrow> string list result" where
  "validate_download nodes i = bindE (validate_online nodes i) (\<lambda>caps.
     if i \<noteq> ''local'' \<and> download_capability \<notin> set caps
     then Inl (RuntimeError (''node '' @ quoted (case nodes i of None \<Rightarrow> i | Some n \<Rightarrow> nv_name n) @
       '' must be updated before it can download models from Hugging Face''))
     else Inr caps)"

section \<open>Transfers\<close>

definition find_model :: "cached list \<Rightarrow> string \<Rightarrow> cached option" where
  "find_model ms m = find (\<lambda>c. c_model c = m) ms"

definition find_holding :: "cached list \<Rightarrow> string \<Rightarrow> string option \<Rightarrow> string option \<Rightarrow> cached option" where
  "find_holding ms m rv rq = find (\<lambda>c. c_model c = m \<and> (case rv of None \<Rightarrow> True
     | Some r \<Rightarrow> holds_revision (Some c) r (case rq of None \<Rightarrow> [] | Some q \<Rightarrow> q))) ms"

definition copy_size :: "cached \<Rightarrow> int" where
  "copy_size c = max 0 (if c_transfer_size c \<noteq> 0 then c_transfer_size c else c_size c)"

definition no_source :: pyexc where
  "no_source = LookupError ''cached source model revision not found''"

definition no_size :: pyexc where
  "no_size = RuntimeError ''source node did not report a usable cached model size''"

definition untransferable :: pyexc where
  "untransferable = RuntimeError ''model weights cannot be transferred from their current storage location''"

text \<open>The size of a source model that can be copied.\<close>

definition source_size :: "cached option \<Rightarrow> int result" where
  "source_size src = (case src of
       None \<Rightarrow> Inl no_source
     | Some c \<Rightarrow>
         if c_partial c then Inl (RuntimeError ''partial cached models cannot be transferred'')
         else if \<not> c_transferable c then Inl untransferable
         else if copy_size c \<le> 0 then Inl no_size
         else Inr (copy_size c))"

definition active_copy :: "job list \<Rightarrow> string \<Rightarrow> string \<Rightarrow> bool" where
  "active_copy js m t \<longleftrightarrow> list_ex (\<lambda>j. j_model j = m \<and> j_target j = t \<and> active_state (j_status j)) js"

definition already_active :: "string \<Rightarrow> string \<Rightarrow> pyexc" where
  "already_active m t = ValueError (''an active model preparation for '' @ quoted m @ '' to node '' @ quoted t @ '' already exists'')"

definition already_cached :: "string list \<Rightarrow> pyexc" where
  "already_cached ts = FileExistsError (''cached model already exists on target node(s): '' @ join_with '', '' ts)"

definition space_for_copy :: "int \<Rightarrow> string \<times> storage_view \<Rightarrow> unit result" where
  "space_for_copy required x = (case sv_free (snd x) of
       PNone \<Rightarrow> Inl (RuntimeError (''target node '' @ quoted (fst x) @ '' did not report free disk capacity''))
     | v \<Rightarrow> bindE (nonnegative_int v) (\<lambda>free. checkE (required \<le> free)
         (RuntimeError (''target node '' @ quoted (fst x) @ '' has insufficient free disk space ('' @ dec_int free @
           '' bytes available; '' @ dec_int required @ '' bytes required for direct file staging)''))))"

definition blank_job :: "string \<Rightarrow> jkind \<Rightarrow> string \<Rightarrow> string \<Rightarrow> string \<Rightarrow> string option \<Rightarrow> string option \<Rightarrow> pyval \<Rightarrow> pyval list \<Rightarrow> int \<Rightarrow> pyfloat \<Rightarrow> job" where
  "blank_job i k m s t rv rq w wn bytes now = \<lparr>j_id = i, j_kind = k, j_model = m, j_source = s, j_target = t, j_revision = rv,
     j_requested = rq, j_depends = PNone, j_workflow = w, j_workflow_nodes = wn, j_partial = False, j_files = None,
     j_baseline = None, j_attempted = PNone, j_attempt_start = None, j_legacy = None, j_status = JQueued, j_total = bytes,
     j_done = 0, j_created = now, j_started = PNone, j_completed = PNone, j_error = PNone, j_cancelable = False, j_phase = None\<rparr>"

text \<open>A request, with the values as the caller passes them.\<close>

record copy_request =
  q_model :: pyval
  q_source :: pyval
  q_targets :: "pyval list"
  q_revision :: pyval
  q_requested :: pyval
  q_workflow :: pyval
  q_workflow_nodes :: "pyval list"

definition request_revisions :: "pyval \<Rightarrow> pyval \<Rightarrow> (string option \<times> string option) result" where
  "request_revisions rv rq = (if py_truthy rv
     then bindE (validate_revision rv) (\<lambda>r. bindE (validate_revision (py_or rq (PStr r))) (\<lambda>q. Inr (Some r, Some q)))
     else Inr (None, None))"

definition named_nodes :: "pyval list \<Rightarrow> string list" where
  "named_nodes vs = uniq (map py_str (filter py_truthy vs))"

definition check_targets :: "node_views \<Rightarrow> string \<Rightarrow> string list \<Rightarrow> unit result" where
  "check_targets nodes src ts = foldE (\<lambda>_ t. bindE (validate_online nodes t) (\<lambda>_.
     checkE (t \<noteq> src) (ValueError ''source and target nodes must be different''))) () ts"

text \<open>Storage of every target, unless one already receives the model.\<close>

definition target_storage :: "storage_views \<Rightarrow> job list \<Rightarrow> string \<Rightarrow> string list \<Rightarrow> (string \<times> storage_view) list result" where
  "target_storage storage js m ts = mapE (\<lambda>t.
     if active_copy js m t then Inl (already_active m t) else bindE (storage t) (\<lambda>s. Inr (t, s))) ts"

definition queue_transfer ::
  "bool \<Rightarrow> node_views \<Rightarrow> storage_views \<Rightarrow> (nat \<Rightarrow> string) \<Rightarrow> pyfloat \<Rightarrow> copy_request \<Rightarrow> job list \<Rightarrow> job list result" where
  "queue_transfer enabled nodes storage ids now q js =
     (if \<not> enabled then Inl (RuntimeError ''virtual NAS is disabled'')
      else bindE (validate_model_id (q_model q)) (\<lambda>m.
      bindE (request_revisions (q_revision q) (q_requested q)) (\<lambda>(rv, rq).
      let src = py_str (py_or (q_source q) (PStr ''local'')); ts = named_nodes (q_targets q) in
      if ts = [] then Inl (ValueError ''target_node_ids must contain at least one node'')
      else bindE (validate_online nodes src) (\<lambda>_.
      bindE (check_targets nodes src ts) (\<lambda>_.
      bindE (storage src) (\<lambda>sv.
      bindE (source_size (find_holding (sv_models sv) m rv rq)) (\<lambda>size.
      bindE (target_storage storage js m ts) (\<lambda>tvs.
      let present = map fst (filter (\<lambda>(t, v). find_model (sv_models v) m \<noteq> None) tvs) in
      if present \<noteq> [] then Inl (already_cached present)
      else bindE (foldE (\<lambda>_ x. space_for_copy (transfer_required size) x) () tvs) (\<lambda>_.
      Inr (map (\<lambda>(n, t). blank_job (ids n) Transfer m src t rv rq (q_workflow q) (q_workflow_nodes q) size now)
        (enumerate 0 ts)))))))))))"

section \<open>Downloads with their fan-out\<close>

record download_request =
  d_model :: pyval
  d_revision :: pyval
  d_node :: pyval
  d_targets :: "pyval list"
  d_expected :: pyval
  d_workflow :: pyval
  d_workflow_nodes :: "pyval list"
  d_more_nodes :: "pyval list"
  d_source :: pyval
  d_requested :: pyval
  d_partial :: bool
  d_baseline :: pyval
  d_files :: "pyval list option"

definition selected_files :: "pyval list option \<Rightarrow> string list option result" where
  "selected_files fs = (case fs of None \<Rightarrow> Inr None
     | Some vs \<Rightarrow> bindE (mapE validate_repo_file vs) (\<lambda>ws.
         if ws = [] then Inl (ValueError ''at least one repository file must be selected'') else Inr (Some (uniq ws))))"

definition expected_size :: "pyval \<Rightarrow> int result" where
  "expected_size v = bindE (nonnegative_int v) (\<lambda>n.
     if n \<le> 0 then Inl (ValueError ''expected_bytes must be positive'') else Inr n)"

text \<open>The immutable revision, the requested one, the size, the files and the baseline of a request.\<close>

definition download_inputs ::
  "download_request \<Rightarrow> (string \<times> string \<times> string \<times> int \<times> string list option \<times> int option) result" where
  "download_inputs q = bindE (validate_model_id (d_model q)) (\<lambda>m.
     bindE (validate_revision (d_revision q)) (\<lambda>rv.
     if \<not> is_commit_sha (PStr rv) then Inl (ValueError ''download revision must be an immutable Hugging Face commit SHA'')
     else bindE (validate_revision (py_or (d_requested q) (PStr rv))) (\<lambda>rq.
     bindE (expected_size (d_expected q)) (\<lambda>bytes.
     bindE (selected_files (d_files q)) (\<lambda>files.
     bindE (opt_count (d_baseline q)) (\<lambda>base.
     Inr (m, rv, rq, bytes, files, base)))))))"

definition separate_nodes :: "string list \<Rightarrow> string list \<Rightarrow> string \<Rightarrow> unit result" where
  "separate_nodes dns ts src = (let overlap = sort (filter (\<lambda>d. d \<in> set ts) dns) in
     if overlap \<noteq> [] then Inl (ValueError (''download nodes cannot also be transfer targets: '' @ join_with '', '' overlap))
     else if src \<in> set ts then Inl (ValueError ''source node cannot also be a transfer target'') else Inr ())"

definition check_nodes :: "node_views \<Rightarrow> string list \<Rightarrow> string list \<Rightarrow> string \<Rightarrow> unit result" where
  "check_nodes nodes dns ts src =
     bindE (foldE (\<lambda>_ d. bindE (validate_download nodes d) (\<lambda>_. Inr ())) () dns) (\<lambda>_.
     bindE (if ts \<noteq> [] \<and> src \<notin> set dns then bindE (validate_online nodes src) (\<lambda>_. Inr ()) else Inr ()) (\<lambda>_.
     foldE (\<lambda>_ t. bindE (validate_online nodes t) (\<lambda>_. Inr ())) () ts))"

definition active_targets :: "job list \<Rightarrow> string \<Rightarrow> string list" where
  "active_targets js m = map j_target (filter (\<lambda>j. j_model j = m \<and> active_state (j_status j)) js)"

definition no_duplicates :: "job list \<Rightarrow> string \<Rightarrow> string list \<Rightarrow> unit result" where
  "no_duplicates js m ns = (let dup = sort (filter (\<lambda>n. n \<in> set (active_targets js m)) (uniq ns)) in
     checkE (dup = []) (ValueError (''an active model preparation already exists for node(s): '' @ join_with '', '' dup)))"

text \<open>What the cache of a download node already holds: its baseline and the bytes credited to the job.\<close>

definition node_credit :: "cached option \<Rightarrow> string \<Rightarrow> int \<Rightarrow> bool \<Rightarrow> string list option \<Rightarrow> int option \<Rightarrow> int \<times> int" where
  "node_credit cm rv bytes primary files base = (let size = max 0 (case cm of None \<Rightarrow> 0 | Some c \<Rightarrow> c_size c) in
     case files of
       Some fs \<Rightarrow> if primary then (size, min bytes (selected_bytes cm rv fs))
         else (let b = max 0 (size - partial_bytes cm (Some rv)) in (b, min bytes (cached_bytes cm (Some b) (Some rv))))
     | None \<Rightarrow>
         (let b = (case base of Some b \<Rightarrow> if primary then b else max 0 (size - partial_bytes cm (Some rv))
             | None \<Rightarrow> max 0 (size - partial_bytes cm (Some rv)))
          in (b, min bytes (cached_bytes cm (Some b) (Some rv)))))"

definition holds_partial :: "cached option \<Rightarrow> bool" where
  "holds_partial cm \<longleftrightarrow> (case cm of None \<Rightarrow> False | Some c \<Rightarrow> c_partial c \<or> c_has_partial c)"

definition enough_cache :: "string \<Rightarrow> string \<Rightarrow> pyval \<Rightarrow> int \<Rightarrow> unit result" where
  "enough_cache role n v required = bindE (optional_nonnegative v) (\<lambda>free. case free of
       None \<Rightarrow> Inl (RuntimeError (role @ '' node '' @ quoted n @ '' did not report free cache capacity''))
     | Some f \<Rightarrow> checkE (required \<le> f) (RuntimeError (role @ '' node '' @ quoted n @ '' has insufficient free cache space ('' @
         dec_int f @ '' bytes available; '' @ dec_int required @ '' bytes required)'')))"

definition download_node_plan ::
  "storage_views \<Rightarrow> string \<Rightarrow> string \<Rightarrow> int \<Rightarrow> string list option \<Rightarrow> int option \<Rightarrow> bool \<Rightarrow> string \<Rightarrow> string
   \<Rightarrow> (string \<times> int \<times> int) result" where
  "download_node_plan storage m rv bytes files base partial main_node n = bindE (storage n) (\<lambda>sv.
     let cm = find_model (sv_models sv) m in
     if partial \<and> \<not> holds_partial cm
     then Inl (LookupError (''partial model cache no longer exists on node '' @ quoted n))
     else (let (b, held_bytes) = node_credit cm rv bytes (n = main_node) files base in
       bindE (enough_cache ''download'' n (sv_free sv) (download_required bytes held_bytes)) (\<lambda>_.
       Inr (n, b, held_bytes))))"

definition fanout_size ::
  "storage_views \<Rightarrow> string \<Rightarrow> string \<Rightarrow> string \<Rightarrow> int \<Rightarrow> string list \<Rightarrow> string list \<Rightarrow> string \<Rightarrow> int result" where
  "fanout_size storage m rv rq bytes dns ts src =
     (if ts \<noteq> [] \<and> src \<notin> set dns
      then bindE (storage src) (\<lambda>sv. case find_holding (sv_models sv) m (Some rv) (Some rq) of
          None \<Rightarrow> Inl no_source
        | Some c \<Rightarrow> if max 0 (c_size c) \<le> 0 then Inl no_size else Inr (max 0 (c_size c)))
      else Inr bytes)"

definition check_fanout :: "storage_views \<Rightarrow> string \<Rightarrow> int \<Rightarrow> string list \<Rightarrow> unit result" where
  "check_fanout storage m required ts = foldE (\<lambda>_ t. bindE (storage t) (\<lambda>sv.
     if find_model (sv_models sv) m \<noteq> None then Inl (FileExistsError (''cached model already exists on target node '' @ quoted t))
     else enough_cache ''target'' t (sv_free sv) required)) () ts"

definition download_job ::
  "string \<Rightarrow> download_request \<Rightarrow> string \<Rightarrow> string \<Rightarrow> string \<Rightarrow> int \<Rightarrow> string list option \<Rightarrow> pyfloat \<Rightarrow> string \<Rightarrow> string \<times> int \<times> int \<Rightarrow> job" where
  "download_job i q m rv rq bytes files now main_node x = (case x of (n, b, held_bytes) \<Rightarrow>
     (blank_job i Download m ''huggingface'' n (Some rv) (Some rq) (d_workflow q) (d_workflow_nodes q) bytes now)
       \<lparr>j_partial := d_partial q, j_files := (if n = main_node then files else None), j_baseline := Some b,
        j_legacy := Some False, j_done := held_bytes\<rparr>)"

definition fanout_job ::
  "string \<Rightarrow> download_request \<Rightarrow> string \<Rightarrow> string \<Rightarrow> string \<Rightarrow> int \<Rightarrow> string \<Rightarrow> string \<Rightarrow> pyfloat \<Rightarrow> string \<Rightarrow> job" where
  "fanout_job i q m rv rq bytes src first_id now t =
     (blank_job i Transfer m src t (Some rv) (Some rq) (d_workflow q) (d_workflow_nodes q) bytes now)
       \<lparr>j_depends := (if py_truthy (d_source q) then PNone else PStr first_id)\<rparr>"

definition queue_download ::
  "bool \<Rightarrow> node_views \<Rightarrow> storage_views \<Rightarrow> (nat \<Rightarrow> string) \<Rightarrow> pyfloat \<Rightarrow> download_request \<Rightarrow> job list \<Rightarrow> job list result" where
  "queue_download enabled nodes storage ids now q js =
     (if \<not> enabled then Inl (RuntimeError ''virtual NAS is disabled'')
      else bindE (download_inputs q) (\<lambda>(m, rv, rq, bytes, files, base).
      let main_node = py_str (py_or (d_node q) (PStr ''local''));
          dns = uniq (main_node # map py_str (filter py_truthy (d_more_nodes q)));
          ts = named_nodes (d_targets q);
          src = (if py_truthy (d_source q) then py_str (d_source q) else main_node)
      in bindE (separate_nodes dns ts src) (\<lambda>_.
      bindE (check_nodes nodes dns ts src) (\<lambda>_.
      bindE (no_duplicates js m (dns @ ts)) (\<lambda>_.
      bindE (mapE (download_node_plan storage m rv bytes files base (d_partial q) main_node) dns) (\<lambda>plans.
      bindE (fanout_size storage m rv rq bytes dns ts src) (\<lambda>copy.
      bindE (check_fanout storage m (transfer_required copy) ts) (\<lambda>_.
      Inr (map (\<lambda>(k, x). download_job (ids k) q m rv rq bytes files now main_node x) (enumerate 0 plans) @
           map (\<lambda>(k, t). fanout_job (ids k) q m rv rq copy src (ids 0) now t) (enumerate (length plans) ts))))))))))"

section \<open>The jobs of an admitted request\<close>

text \<open>Jobs with consecutive identities, queued, that depend on nothing or on the first of them.\<close>

definition batch :: "(nat \<Rightarrow> string) \<Rightarrow> job list \<Rightarrow> bool" where
  "batch ids new \<longleftrightarrow> (\<forall>k < length new. j_id (new ! k) = ids k \<and> j_status (new ! k) = JQueued \<and>
     (j_depends (new ! k) = PNone \<or> 0 < k \<and> j_depends (new ! k) = PStr (ids 0)))"

text \<open>The requests that callers make name their nodes by strings.\<close>

definition name_or_none :: "pyval \<Rightarrow> bool" where
  "name_or_none v \<longleftrightarrow> v = PNone \<or> (\<exists>s. v = PStr s)"

lemma name_or_local: "name_or_none v \<Longrightarrow> py_str (py_or v (PStr ''local'')) \<noteq> []"
  by (auto simp: name_or_none_def py_or_def)

lemma foldE_unit_all:
  "foldE (\<lambda>_ x. f x) () xs = Inr () \<longleftrightarrow> (\<forall>x \<in> set xs. f x = Inr ())"
  by (induction xs) (auto simp: bindE_Inr)

lemma mapE_each: "mapE f xs = Inr ys \<Longrightarrow> x \<in> set xs \<Longrightarrow> \<exists>y \<in> set ys. f x = Inr y"
  by (induction xs arbitrary: ys) (auto simp: bindE_Inr)

lemma request_revisions_storable:
  assumes "request_revisions v w = Inr (rv, rq)"
  shows "good_revisions rv rq"
  using assms validated_revision_again by (auto simp: good_revisions_def request_revisions_def bindE_Inr split: if_splits)

lemma blank_job_storable:
  assumes "validate_model_id v = Inr m" "i \<noteq> []" "s \<noteq> []" "0 \<le> bytes" "now \<noteq> Finite 0"
    and "good_revisions rv rq"
  shows "storable (blank_job i k m s t rv rq w wn bytes now)"
  using assms validated_model_again[OF assms(1)] by (simp add: storable_def blank_job_def good_files_def good_count_def)

lemma storable_download:
  assumes "storable j" "0 \<le> b" "0 \<le> c" "good_files fs"
  shows "storable (j\<lparr>j_partial := p, j_files := fs, j_baseline := Some b, j_legacy := l, j_done := c\<rparr>)"
  using assms by (simp add: storable_def good_count_def)

lemma storable_depends: "storable j \<Longrightarrow> storable (j\<lparr>j_depends := v\<rparr>)"
  by (simp add: storable_def)

text \<open>What an admitted transfer has passed.\<close>

lemma queue_transfer_parts:
  assumes "queue_transfer enabled nodes storage ids now q js = Inr new"
  obtains m rv rq src ts sv size tvs where "enabled" "validate_model_id (q_model q) = Inr m"
    "request_revisions (q_revision q) (q_requested q) = Inr (rv, rq)" "src = py_str (py_or (q_source q) (PStr ''local''))"
    "ts = named_nodes (q_targets q)" "ts \<noteq> []" "is_ok (validate_online nodes src)" "check_targets nodes src ts = Inr ()"
    "storage src = Inr sv" "source_size (find_holding (sv_models sv) m rv rq) = Inr size"
    "target_storage storage js m ts = Inr tvs" "\<forall>(t, v) \<in> set tvs. find_model (sv_models v) m = None"
    "\<forall>x \<in> set tvs. space_for_copy (transfer_required size) x = Inr ()"
    "new = map (\<lambda>(n, t). blank_job (ids n) Transfer m src t rv rq (q_workflow q) (q_workflow_nodes q) size now) (enumerate 0 ts)"
proof -
  obtain m where m: "enabled" "validate_model_id (q_model q) = Inr m"
    using assms by (auto simp: queue_transfer_def bindE_Inr split: if_splits)
  obtain rv rq where r: "request_revisions (q_revision q) (q_requested q) = Inr (rv, rq)"
    using assms m by (auto simp: queue_transfer_def bindE_Inr)
  let ?src = "py_str (py_or (q_source q) (PStr ''local''))" and ?ts = "named_nodes (q_targets q)"
  obtain sv size tvs where x: "?ts \<noteq> []" "is_ok (validate_online nodes ?src)" "check_targets nodes ?src ?ts = Inr ()"
    "storage ?src = Inr sv" "source_size (find_holding (sv_models sv) m rv rq) = Inr size"
    "target_storage storage js m ?ts = Inr tvs" "map fst (filter (\<lambda>(t, v). find_model (sv_models v) m \<noteq> None) tvs) = []"
    "foldE (\<lambda>_ x. space_for_copy (transfer_required size) x) () tvs = Inr ()"
    "new = map (\<lambda>(n, t). blank_job (ids n) Transfer m ?src t rv rq (q_workflow q) (q_workflow_nodes q) size now) (enumerate 0 ?ts)"
    using assms m r unfolding queue_transfer_def by (auto simp: bindE_Inr Let_def is_ok_iff split: if_splits)
  have "\<forall>(t, v) \<in> set tvs. find_model (sv_models v) m = None" using x(7) by (auto simp: filter_empty_conv)
  then show ?thesis using that[OF m r refl refl x(1-6) _ _ x(9)] x(8) by (simp add: foldE_unit_all)
qed


definition sample_request :: copy_request where
  "sample_request = \<lparr>q_model = PStr ''o/m'', q_source = PNone, q_targets = [PStr ''a'', PStr ''b'', PStr ''a''], q_revision = PNone,
     q_requested = PNone, q_workflow = PNone, q_workflow_nodes = []\<rparr>"

definition sample_nodes :: node_views where
  "sample_nodes n = Some \<lparr>nv_name = n, nv_enabled = True, nv_online = True, nv_caps = []\<rparr>"

definition sample_cached :: cached where
  "sample_cached = \<lparr>c_model = ''o/m'', c_partial = False, c_has_partial = False, c_transferable = True, c_revisions = [],
     c_refs = [], c_partial_refs = [], c_size = 10, c_partial_size = 0, c_transfer_size = 0, c_partial_sizes = [], c_selective = []\<rparr>"

definition sample_storage :: storage_views where
  "sample_storage n = Inr \<lparr>sv_models = (if n = ''local'' then [sample_cached] else []), sv_free = PInt (10 ^ 12)\<rparr>"

definition sample_id :: "nat \<Rightarrow> string" where
  "sample_id n = replicate (Suc n) (CHR ''j'')"


lemma queue_transfer_batch: "queue_transfer enabled nodes storage ids now q js = Inr new \<Longrightarrow> batch ids new"
  by (erule queue_transfer_parts) (auto simp: batch_def blank_job_def nth_enumerate_eq)

lemma queue_transfer_storable:
  assumes "queue_transfer enabled nodes storage ids now q js = Inr new" "\<And>k. ids k \<noteq> []" "now \<noteq> Finite 0" "name_or_none (q_source q)"
  shows "\<forall>j \<in> set new. storable j"
proof -
  obtain m rv rq src ts sv size tvs where p: "enabled" "validate_model_id (q_model q) = Inr m"
    "request_revisions (q_revision q) (q_requested q) = Inr (rv, rq)" "src = py_str (py_or (q_source q) (PStr ''local''))"
    "ts = named_nodes (q_targets q)" "ts \<noteq> []" "is_ok (validate_online nodes src)" "check_targets nodes src ts = Inr ()"
    "storage src = Inr sv" "source_size (find_holding (sv_models sv) m rv rq) = Inr size"
    "target_storage storage js m ts = Inr tvs" "\<forall>(t, v) \<in> set tvs. find_model (sv_models v) m = None"
    "\<forall>x \<in> set tvs. space_for_copy (transfer_required size) x = Inr ()"
    "new = map (\<lambda>(n, t). blank_job (ids n) Transfer m src t rv rq (q_workflow q) (q_workflow_nodes q) size now) (enumerate 0 ts)"
    using assms(1) by (rule queue_transfer_parts)
  have "0 \<le> size" using p(10) by (auto simp: source_size_def split: option.splits if_splits)
  then have "storable (blank_job (ids n) Transfer m src t rv rq (q_workflow q) (q_workflow_nodes q) size now)" for n t
    using blank_job_storable[OF p(2) assms(2) _ _ assms(3) request_revisions_storable[OF p(3)]] name_or_local[OF assms(4)] p(4) by simp
  then show ?thesis unfolding p(14) by auto
qed

lemma queue_download_parts:
  assumes "queue_download enabled nodes storage ids now q js = Inr new"
  obtains m rv rq bytes files base main_node dns ts src plans copy where "enabled"
    "download_inputs q = Inr (m, rv, rq, bytes, files, base)" "main_node = py_str (py_or (d_node q) (PStr ''local''))"
    "dns = uniq (main_node # map py_str (filter py_truthy (d_more_nodes q)))" "ts = named_nodes (d_targets q)"
    "src = (if py_truthy (d_source q) then py_str (d_source q) else main_node)"
    "separate_nodes dns ts src = Inr ()" "check_nodes nodes dns ts src = Inr ()" "no_duplicates js m (dns @ ts) = Inr ()"
    "mapE (download_node_plan storage m rv bytes files base (d_partial q) main_node) dns = Inr plans"
    "fanout_size storage m rv rq bytes dns ts src = Inr copy" "check_fanout storage m (transfer_required copy) ts = Inr ()"
    "new = map (\<lambda>(k, x). download_job (ids k) q m rv rq bytes files now main_node x) (enumerate 0 plans) @
       map (\<lambda>(k, t). fanout_job (ids k) q m rv rq copy src (ids 0) now t) (enumerate (length plans) ts)"
proof -
  obtain m rv rq bytes files base where i: "enabled" "download_inputs q = Inr (m, rv, rq, bytes, files, base)"
    using assms by (auto simp: queue_download_def bindE_Inr split: if_splits)
  show ?thesis
    using assms that[OF i refl refl refl refl] i unfolding queue_download_def by (auto simp: bindE_Inr Let_def)
qed

lemma plan_nodes: "mapE (download_node_plan storage m rv bytes files base partial main_node) dns = Inr plans \<Longrightarrow> map fst plans = dns"
  by (induction dns arbitrary: plans) (auto simp: download_node_plan_def bindE_Inr Let_def split: if_splits prod.splits)

lemma plan_parts:
  assumes "mapE (download_node_plan storage m rv bytes files base partial main_node) dns = Inr plans" "(n, b, c) \<in> set plans"
  obtains sv where "storage n = Inr sv"
    "node_credit (find_model (sv_models sv) m) rv bytes (n = main_node) files base = (b, c)"
    "enough_cache ''download'' n (sv_free sv) (download_required bytes c) = Inr ()"
proof -
  obtain d where d: "download_node_plan storage m rv bytes files base partial main_node d = Inr (n, b, c)"
    using mapE_set[OF assms] by blast
  then obtain sv where sv: "storage d = Inr sv" by (auto simp: download_node_plan_def bindE_Inr)
  obtain b' c' where bc: "node_credit (find_model (sv_models sv) m) rv bytes (d = main_node) files base = (b', c')"
    by (cases "node_credit (find_model (sv_models sv) m) rv bytes (d = main_node) files base")
  show ?thesis using d sv bc that[of sv] by (auto simp: download_node_plan_def bindE_Inr Let_def split: if_splits)
qed

lemma partial_bytes_nonneg: "0 \<le> partial_bytes cm rv"
  by (auto simp: partial_bytes_def split: option.splits)

lemma cached_bytes_nonneg: "0 \<le> cached_bytes cm b rv"
  by (auto simp: cached_bytes_def partial_bytes_nonneg split: option.splits)

lemma node_credit_bounds:
  assumes "node_credit cm rv bytes primary files base = (b, c)" "0 \<le> bytes" "good_count base"
  shows "0 \<le> b \<and> 0 \<le> c \<and> c \<le> bytes"
  using assms cached_bytes_nonneg partial_bytes_nonneg
  by (auto simp: good_count_def node_credit_def selected_bytes_def Let_def split: option.splits if_splits)

lemma download_inputs_ok:
  assumes "download_inputs q = Inr (m, rv, rq, bytes, files, base)"
  shows "validate_model_id (d_model q) = Inr m \<and> validate_revision (PStr rv) = Inr rv \<and> validate_revision (PStr rq) = Inr rq \<and>
    is_commit_sha (PStr rv) \<and> 0 < bytes \<and> good_count base \<and> good_files files"
proof -
  have x: "validate_model_id (d_model q) = Inr m" "validate_revision (d_revision q) = Inr rv" "is_commit_sha (PStr rv)"
    "validate_revision (py_or (d_requested q) (PStr rv)) = Inr rq" "expected_size (d_expected q) = Inr bytes"
    "selected_files (d_files q) = Inr files" "opt_count (d_baseline q) = Inr base"
    using assms by (auto simp: download_inputs_def bindE_Inr split: if_splits)
  have "0 < bytes" using x(5) by (auto simp: expected_size_def bindE_Inr split: if_splits)
  moreover have "good_count base"
    using x(7) by (auto simp: good_count_def opt_count_def bindE_Inr nonnegative_int.simps split: if_splits sum.splits pyexc.splits)
  moreover have "good_files files"
    using x(6) mapE_set validated_file_again by (fastforce simp: good_files_def selected_files_def bindE_Inr split: option.splits if_splits)
  ultimately show ?thesis using x validated_revision_again by blast
qed

lemma queue_download_batch:
  assumes "queue_download enabled nodes storage ids now q js = Inr new"
  shows "batch ids new"
proof -
  obtain m rv rq bytes files base main_node dns ts src plans copy where p: "enabled"
    "download_inputs q = Inr (m, rv, rq, bytes, files, base)" "main_node = py_str (py_or (d_node q) (PStr ''local''))"
    "dns = uniq (main_node # map py_str (filter py_truthy (d_more_nodes q)))" "ts = named_nodes (d_targets q)"
    "src = (if py_truthy (d_source q) then py_str (d_source q) else main_node)"
    "separate_nodes dns ts src = Inr ()" "check_nodes nodes dns ts src = Inr ()" "no_duplicates js m (dns @ ts) = Inr ()"
    "mapE (download_node_plan storage m rv bytes files base (d_partial q) main_node) dns = Inr plans"
    "fanout_size storage m rv rq bytes dns ts src = Inr copy" "check_fanout storage m (transfer_required copy) ts = Inr ()"
    "new = map (\<lambda>(k, x). download_job (ids k) q m rv rq bytes files now main_node x) (enumerate 0 plans) @
       map (\<lambda>(k, t). fanout_job (ids k) q m rv rq copy src (ids 0) now t) (enumerate (length plans) ts)"
    using assms by (rule queue_download_parts)
  have "0 < length plans" using plan_nodes[OF p(10)] p(4) by (metis length_greater_0_conv length_map uniq_Nil_iff list.distinct(1))
  then show ?thesis unfolding p(13) batch_def
    by (auto simp: nth_append nth_enumerate_eq download_job_def fanout_job_def blank_job_def simp del: length_greater_0_conv split: prod.splits)
qed

lemma queue_download_storable:
  assumes "queue_download enabled nodes storage ids now q js = Inr new" "\<And>k. ids k \<noteq> []" "now \<noteq> Finite 0"
    "name_or_none (d_node q)" "name_or_none (d_source q)"
  shows "\<forall>j \<in> set new. storable j"
proof -
  obtain m rv rq bytes files base main_node dns ts src plans copy where p: "enabled"
    "download_inputs q = Inr (m, rv, rq, bytes, files, base)" "main_node = py_str (py_or (d_node q) (PStr ''local''))"
    "dns = uniq (main_node # map py_str (filter py_truthy (d_more_nodes q)))" "ts = named_nodes (d_targets q)"
    "src = (if py_truthy (d_source q) then py_str (d_source q) else main_node)"
    "separate_nodes dns ts src = Inr ()" "check_nodes nodes dns ts src = Inr ()" "no_duplicates js m (dns @ ts) = Inr ()"
    "mapE (download_node_plan storage m rv bytes files base (d_partial q) main_node) dns = Inr plans"
    "fanout_size storage m rv rq bytes dns ts src = Inr copy" "check_fanout storage m (transfer_required copy) ts = Inr ()"
    "new = map (\<lambda>(k, x). download_job (ids k) q m rv rq bytes files now main_node x) (enumerate 0 plans) @
       map (\<lambda>(k, t). fanout_job (ids k) q m rv rq copy src (ids 0) now t) (enumerate (length plans) ts)"
    using assms(1) by (rule queue_download_parts)
  note i = download_inputs_ok[OF p(2)]
  have copy: "0 \<le> copy" using p(11) i by (auto simp: fanout_size_def bindE_Inr split: if_splits option.splits)
  have src: "src \<noteq> []" using p(3,6) name_or_local[OF assms(4)] assms(5) by (auto simp: name_or_none_def split: if_splits)
  have base: "storable (blank_job k kd m s t (Some rv) (Some rq) w wn b now)" if "k \<noteq> []" "s \<noteq> []" "0 \<le> b" for k kd s t w wn b
    using blank_job_storable[where v = "d_model q" and m = m and rv = "Some rv" and rq = "Some rq"] that i assms(3) by (simp add: good_revisions_def)
  have "storable (download_job (ids k) q m rv rq bytes files now main_node x)" if x: "x \<in> set plans" for k x
  proof -
    obtain n b c where nbc: "x = (n, b, c)" by (cases x)
    obtain sv where "storage n = Inr sv"
      and cr: "node_credit (find_model (sv_models sv) m) rv bytes (n = main_node) files base = (b, c)"
      and "enough_cache ''download'' n (sv_free sv) (download_required bytes c) = Inr ()"
      by (rule plan_parts[OF p(10) x[unfolded nbc]]) (rule that)
    have "0 \<le> b \<and> 0 \<le> c" using node_credit_bounds[OF cr] i by simp
    then have bc: "0 \<le> b" "0 \<le> c" by simp_all
    have "storable (blank_job (ids k) Download m ''huggingface'' n (Some rv) (Some rq) (d_workflow q) (d_workflow_nodes q) bytes now)"
      by (rule base) (use assms(2) i in simp_all)
    then show ?thesis unfolding nbc download_job_def prod.case
      by (rule storable_download[OF _ bc]) (use i in \<open>simp add: good_files_def\<close>)
  qed
  moreover have "storable (fanout_job (ids k) q m rv rq copy src (ids 0) now t)" for k t
    unfolding fanout_job_def by (rule storable_depends, rule base) (use assms(2) src copy in simp_all)
  ultimately show ?thesis unfolding p(13) by (auto simp: enumerate_eq_zip dest!: set_zip_rightD)
qed

lemma download_job_targets:
  "map j_target (map (\<lambda>(k, x). download_job (ids k) q m rv rq bytes files now main_node x) (enumerate n ps)) = map fst ps"
  by (induction ps arbitrary: n) (auto simp: download_job_def blank_job_def)

lemma fanout_job_targets:
  "map j_target (map (\<lambda>(k, t). fanout_job (ids k) q m rv rq copy src i now t) (enumerate n ts)) = ts"
  by (induction ts arbitrary: n) (auto simp: fanout_job_def blank_job_def)

text \<open>
  What an admitted download has passed: the nodes that download and the targets of the fan-out are disjoint and
  have no active job for the model, every download node reports room for what is still missing, and a fan-out
  copy waits for the first download unless another source was named.
\<close>

lemma download_admitted:
  assumes "queue_download enabled nodes storage ids now q js = Inr new"
  shows "\<exists>m rv bytes dls fan. new = dls @ fan \<and> dls \<noteq> [] \<and> is_commit_sha (PStr rv) \<and> 0 < bytes \<and>
    distinct (map j_target dls) \<and> distinct (map j_target fan) \<and> set (map j_target dls) \<inter> set (map j_target fan) = {} \<and>
    (\<forall>j \<in> set new. j_model j = m \<and> j_revision j = Some rv \<and> j_status j = JQueued \<and> j_target j \<notin> set (active_targets js m)) \<and>
    (\<forall>j \<in> set dls. j_kind j = Download \<and> j_depends j = PNone \<and> j_total j = bytes \<and> 0 \<le> j_done j \<and> j_done j \<le> bytes \<and>
       (\<exists>sv f. storage (j_target j) = Inr sv \<and> optional_nonnegative (sv_free sv) = Inr (Some f) \<and>
          download_required bytes (j_done j) \<le> f)) \<and>
    (\<forall>j \<in> set fan. j_kind j = Transfer \<and> j_source j \<noteq> j_target j \<and>
       j_depends j = (if py_truthy (d_source q) then PNone else PStr (j_id (hd dls))))"
proof -
  obtain m rv rq bytes files base main_node dns ts src plans copy where p: "enabled"
    "download_inputs q = Inr (m, rv, rq, bytes, files, base)" "main_node = py_str (py_or (d_node q) (PStr ''local''))"
    "dns = uniq (main_node # map py_str (filter py_truthy (d_more_nodes q)))" "ts = named_nodes (d_targets q)"
    "src = (if py_truthy (d_source q) then py_str (d_source q) else main_node)"
    "separate_nodes dns ts src = Inr ()" "check_nodes nodes dns ts src = Inr ()" "no_duplicates js m (dns @ ts) = Inr ()"
    "mapE (download_node_plan storage m rv bytes files base (d_partial q) main_node) dns = Inr plans"
    "fanout_size storage m rv rq bytes dns ts src = Inr copy" "check_fanout storage m (transfer_required copy) ts = Inr ()"
    "new = map (\<lambda>(k, x). download_job (ids k) q m rv rq bytes files now main_node x) (enumerate 0 plans) @
       map (\<lambda>(k, t). fanout_job (ids k) q m rv rq copy src (ids 0) now t) (enumerate (length plans) ts)"
    using assms by (rule queue_download_parts)
  note i = download_inputs_ok[OF p(2)]
  let ?dls = "map (\<lambda>(k, x). download_job (ids k) q m rv rq bytes files now main_node x) (enumerate 0 plans)"
  let ?fan = "map (\<lambda>(k, t). fanout_job (ids k) q m rv rq copy src (ids 0) now t) (enumerate (length plans) ts)"
  have t1: "map j_target ?dls = dns" using download_job_targets plan_nodes[OF p(10)] by simp
  have t2: "map j_target ?fan = ts" by (rule fanout_job_targets)
  have d: "distinct dns" "dns \<noteq> []" "distinct ts" using p(4,5) by (simp_all add: named_nodes_def del: uniq.simps)
  have sep: "set dns \<inter> set ts = {}" "src \<notin> set ts"
    using p(7) by (auto simp: separate_nodes_def Let_def filter_empty_conv split: if_splits dest: arg_cong[where f = set])
  have dup: "n \<notin> set (active_targets js m)" if "n \<in> set dns \<union> set ts" for n
  proof -
    have "sort (filter (\<lambda>n. n \<in> set (active_targets js m)) (uniq (dns @ ts))) = []" using p(9) by (simp add: no_duplicates_def Let_def)
    then have "filter (\<lambda>n. n \<in> set (active_targets js m)) (uniq (dns @ ts)) = []" by (metis set_sort set_empty)
    then show ?thesis using that by (auto simp: filter_empty_conv)
  qed
  have dls: "j_kind j = Download \<and> j_depends j = PNone \<and> j_total j = bytes \<and> 0 \<le> j_done j \<and> j_done j \<le> bytes \<and>
      j_model j = m \<and> j_revision j = Some rv \<and> j_status j = JQueued \<and>
      (\<exists>sv f. storage (j_target j) = Inr sv \<and> optional_nonnegative (sv_free sv) = Inr (Some f) \<and> download_required bytes (j_done j) \<le> f)"
    if j: "j \<in> set ?dls" for j
  proof -
    obtain k x where x: "x \<in> set plans" "j = download_job (ids k) q m rv rq bytes files now main_node x"
    proof -
      obtain y where "y \<in> set (enumerate 0 plans)" "j = (\<lambda>(k, x). download_job (ids k) q m rv rq bytes files now main_node x) y"
        using j by (auto simp del: in_set_enumerate_eq)
      then show thesis using that[of "snd y" "fst y"] nth_mem[of "fst y" plans] by (auto simp: in_set_enumerate_eq case_prod_unfold)
    qed
    obtain n b c where nbc: "x = (n, b, c)" by (cases x)
    obtain sv where sv: "storage n = Inr sv"
      "node_credit (find_model (sv_models sv) m) rv bytes (n = main_node) files base = (b, c)"
      "enough_cache ''download'' n (sv_free sv) (download_required bytes c) = Inr ()"
      by (rule plan_parts[OF p(10) x(1)[unfolded nbc]]) (rule that)
    have "0 \<le> c \<and> c \<le> bytes" using node_credit_bounds[OF sv(2)] i by simp
    moreover have "\<exists>f. optional_nonnegative (sv_free sv) = Inr (Some f) \<and> download_required bytes c \<le> f"
      using sv(3) by (auto simp: enough_cache_def bindE_Inr split: option.splits)
    ultimately show ?thesis using x(2) nbc sv(1) by (auto simp: download_job_def blank_job_def)
  qed
  have fan: "j_kind j = Transfer \<and> j_source j = src \<and> j_model j = m \<and> j_revision j = Some rv \<and> j_status j = JQueued \<and>
      j_depends j = (if py_truthy (d_source q) then PNone else PStr (ids 0))" if j: "j \<in> set ?fan" for j
    using j by (auto simp: fanout_job_def blank_job_def)
  have pl: "plans \<noteq> []" using plan_nodes[OF p(10)] d(2) by (metis list.map_disc_iff)
  have ne: "?dls \<noteq> []" using pl by (cases plans) simp_all
  have hd: "j_id (hd ?dls) = ids 0" using pl by (cases plans) (auto simp: download_job_def blank_job_def)
  have tgt: "j_target j \<in> set dns" if "j \<in> set ?dls" for j
    using imageI[OF that, of j_target] by (simp only: set_map[symmetric] t1)
  have tgf: "j_target j \<in> set ts" if "j \<in> set ?fan" for j
    using imageI[OF that, of j_target] by (simp only: set_map[symmetric] t2)
  show ?thesis
  proof (intro exI conjI)
    show "new = ?dls @ ?fan" by (rule p(13))
    show "?dls \<noteq> []" by (rule ne)
    show "is_commit_sha (PStr rv)" "0 < bytes" using i by simp_all
    show "distinct (map j_target ?dls)" "distinct (map j_target ?fan)" unfolding t1 t2 by (rule d)+
    show "set (map j_target ?dls) \<inter> set (map j_target ?fan) = {}" unfolding t1 t2 by (rule sep)
    show "\<forall>j \<in> set new. j_model j = m \<and> j_revision j = Some rv \<and> j_status j = JQueued \<and> j_target j \<notin> set (active_targets js m)"
      unfolding p(13) set_append using dls fan dup tgt tgf by blast
    show "\<forall>j \<in> set ?dls. j_kind j = Download \<and> j_depends j = PNone \<and> j_total j = bytes \<and> 0 \<le> j_done j \<and> j_done j \<le> bytes \<and>
       (\<exists>sv f. storage (j_target j) = Inr sv \<and> optional_nonnegative (sv_free sv) = Inr (Some f) \<and> download_required bytes (j_done j) \<le> f)"
      using dls by blast
    show "\<forall>j \<in> set ?fan. j_kind j = Transfer \<and> j_source j \<noteq> j_target j \<and>
       j_depends j = (if py_truthy (d_source q) then PNone else PStr (j_id (hd ?dls)))"
    proof
      fix j assume j: "j \<in> set ?fan"
      show "j_kind j = Transfer \<and> j_source j \<noteq> j_target j \<and>
         j_depends j = (if py_truthy (d_source q) then PNone else PStr (j_id (hd ?dls)))"
        unfolding hd using fan[OF j] tgf[OF j] sep(2) by metis
    qed
  qed
qed

end
