(* ===== verification/Nas_System.thy ===== *)
theory Nas_System imports Nas_Requests
begin

text \<open>
  The virtual NAS as a running system (\<open>VirtualNAS\<close> in \<open>sparkdeck/virtual_nas.py\<close>): its jobs, the tasks that
  run them, the dispatcher, cancellation, the update reservation and restarts, as a step relation whose steps
  are the stretches between two awaits.  A task is created by the dispatcher, starts later, and ends with one of
  the outcomes of \<open>_run_download\<close> and \<open>_run_transfer\<close>.
\<close>

section \<open>State\<close>

datatype phase = Created | Started | Finished

record nas =
  n_jobs :: "job list"
  n_active :: "(string, nat \<times> phase) dict"
  n_endpoints :: "(string, string set) dict"
  n_events :: "(string, bool) dict"
  n_update :: bool
  n_generation :: nat
  n_streams :: "(string, int) dict"

definition new_nas :: "job list \<Rightarrow> nas" where
  "new_nas js = \<lparr>n_jobs = js, n_active = [], n_endpoints = [], n_events = [], n_update = False, n_generation = 0, n_streams = []\<rparr>"

definition busy_nodes :: "nas \<Rightarrow> string set" where
  "busy_nodes s = \<Union> (set (map snd (n_endpoints s)))"

section \<open>The dispatcher\<close>

text \<open>The tasks that are done leave both tables.\<close>

definition done_targets :: "nas \<Rightarrow> string list" where
  "done_targets s = map fst (filter (\<lambda>(t, k, p). p = Finished) (n_active s))"

definition reap :: "nas \<Rightarrow> nas" where
  "reap s = s\<lparr>n_active := filter (\<lambda>(t, x). t \<notin> set (done_targets s)) (n_active s),
     n_endpoints := filter (\<lambda>(t, x). t \<notin> set (done_targets s)) (n_endpoints s)\<rparr>"

definition launch :: "nat \<Rightarrow> nas \<Rightarrow> nas" where
  "launch k s = (let j = n_jobs s ! k in
     s\<lparr>n_active := AList.update (j_target j) (k, Created) (n_active s),
       n_endpoints := AList.update (j_target j) (job_endpoints j) (n_endpoints s)\<rparr>)"

text \<open>
  The inner loop ends: a job is chosen only if its target is free, and from then on its target's entry contains
  the target, so that no job with that target is chosen again.
\<close>

definition open_targets :: "nas \<Rightarrow> nat" where
  "open_targets s = card {k. k < length (n_jobs s) \<and> (case map_of (n_endpoints s) (j_target (n_jobs s ! k)) of
     None \<Rightarrow> True | Some e \<Rightarrow> j_target (n_jobs s ! k) \<notin> e)}"

lemma target_in_endpoints [simp]: "j_target j \<in> job_endpoints j"
  by (simp add: job_endpoints_def)

lemma busy_entry: "map_of (n_endpoints s) t = Some e \<Longrightarrow> e \<subseteq> busy_nodes s"
  by (auto simp: busy_nodes_def dest!: map_of_SomeD)

lemma next_queue_job_each:
  assumes "next_queue_job now busy js = (r, js')"
  shows "length js' = length js" "\<And>k. k < length js \<Longrightarrow> js' ! k = js ! k \<or>
     j_status (js ! k) = JQueued \<and> js' ! k = failed_job now dependency_error (js ! k)"
  using next_job_each[OF assms[unfolded next_queue_job_def]] by auto

lemma next_queue_job_Some:
  assumes "next_queue_job now busy js = (Some k, js')"
  shows "k < length js \<and> j_status (js' ! k) = JQueued \<and> \<not> dep_dead js' (js' ! k) \<and> \<not> dep_pending js' (js' ! k) \<and> job_endpoints (js' ! k) \<inter> busy = {}"
  using next_job_Some[OF assms[unfolded next_queue_job_def]] by auto

lemma launch_measure:
  assumes "next_queue_job now (busy_nodes s) (n_jobs s) = (Some k, js)"
  shows "open_targets (launch k (s\<lparr>n_jobs := js\<rparr>)) < open_targets s"
proof -
  let ?s = "launch k (s\<lparr>n_jobs := js\<rparr>)"
  let ?open = "\<lambda>s. {k. k < length (n_jobs s) \<and> (case map_of (n_endpoints s) (j_target (n_jobs s ! k)) of
     None \<Rightarrow> True | Some e \<Rightarrow> j_target (n_jobs s ! k) \<notin> e)}"
  note each = next_queue_job_each[OF assms] and chosen = next_queue_job_Some[OF assms]
  have tg: "j_target (js ! l) = j_target (n_jobs s ! l)" if "l < length (n_jobs s)" for l using each(2)[OF that] by auto
  have "j_target (js ! k) \<notin> busy_nodes s" using chosen target_in_endpoints[of "js ! k"] by (auto simp: disjoint_iff)
  then have k: "k < length (n_jobs s)" "j_target (js ! k) \<notin> busy_nodes s" using chosen by simp_all
  have ep: "map_of (n_endpoints ?s) = (map_of (n_endpoints s))(j_target (js ! k) \<mapsto> job_endpoints (js ! k))" "n_jobs ?s = js"
    by (simp_all add: launch_def Let_def update_conv')
  have "?open ?s \<subseteq> ?open s"
  proof
    fix l
    assume l: "l \<in> ?open ?s"
    have ll: "l < length (n_jobs s)" using l each(1) unfolding ep(2) by simp
    have "j_target (js ! l) \<noteq> j_target (js ! k)"
    proof
      assume "j_target (js ! l) = j_target (js ! k)"
      then show False using l unfolding ep by (simp add: target_in_endpoints[of "js ! k"])
    qed
    then show "l \<in> ?open s" using l ll unfolding ep by (simp add: tg[OF ll] split: option.splits)
  qed
  moreover have "k \<in> ?open s"
    using k tg[OF k(1)] busy_entry by (auto split: option.splits)
  moreover have "k \<notin> ?open ?s"
    unfolding ep by simp
  ultimately have "?open ?s \<subset> ?open s" by blast
  then show ?thesis unfolding open_targets_def by (intro psubset_card_mono) simp_all
qed

function dispatch :: "pyval \<Rightarrow> nas \<Rightarrow> nas" where
  "dispatch now s = (if n_update s then s
     else case next_queue_job now (busy_nodes s) (n_jobs s) of
       (None, js) \<Rightarrow> s\<lparr>n_jobs := js\<rparr>
     | (Some k, js) \<Rightarrow> dispatch now (launch k (s\<lparr>n_jobs := js\<rparr>)))"
  by pat_completeness auto
termination by (relation "measure (\<lambda>(now, s). open_targets s)") (simp_all add: launch_measure)

declare dispatch.simps [simp del]

definition dispatch_pass :: "pyval \<Rightarrow> nas \<Rightarrow> nas" where
  "dispatch_pass now s = dispatch now (reap s)"

section \<open>The runs\<close>

definition set_task :: "string \<Rightarrow> nat \<Rightarrow> phase \<Rightarrow> nas \<Rightarrow> nas" where
  "set_task t k p s = s\<lparr>n_active := map (\<lambda>(u, x). (u, if u = t then (k, p) else x)) (n_active s)\<rparr>"

text \<open>The first statements of a run.\<close>

definition begin_job :: "pyval \<Rightarrow> job \<Rightarrow> job" where
  "begin_job now j = (case j_kind j of
       Download \<Rightarrow> j\<lparr>j_status := JRunning, j_started := now, j_cancelable := (case j_files j of None \<Rightarrow> True | Some fs \<Rightarrow> fs = []),
         j_phase := Some ''preparing'', j_completed := PNone, j_error := PNone\<rparr>
     | Transfer \<Rightarrow> j\<lparr>j_status := JRunning, j_started := now, j_done := 0, j_completed := PNone, j_error := PNone\<rparr>)"

definition start_task :: "pyval \<Rightarrow> string \<Rightarrow> nat \<Rightarrow> nas \<Rightarrow> nas" where
  "start_task now t k s = (let j = n_jobs s ! k in
     set_task t k Started (s\<lparr>n_events := AList.update (j_id j) False (n_events s), n_jobs := (n_jobs s)[k := begin_job now j]\<rparr>))"

text \<open>How a run ends; a completed download may tell its size to the jobs that wait for it.\<close>

datatype outcome =
    OCompleted int int bool
  | OCanceled
  | OFailed string
  | ORequeued

definition end_job :: "pyval \<Rightarrow> outcome \<Rightarrow> job \<Rightarrow> job" where
  "end_job now out j = (case out of
       OCompleted d b p \<Rightarrow> j\<lparr>j_status := JCompleted, j_done := d, j_total := b, j_completed := now,
         j_phase := (if j_kind j = Transfer then Some ''completed'' else j_phase j)\<rparr>
     | OCanceled \<Rightarrow> j\<lparr>j_status := JCanceled, j_completed := now, j_error := PNone\<rparr>
     | OFailed m \<Rightarrow> j\<lparr>j_status := JFailed, j_completed := now, j_error := PStr (take 500 m)\<rparr>
     | ORequeued \<Rightarrow> if j_status j = JCanceled then j
         else j\<lparr>j_status := JQueued, j_started := PNone, j_error := PNone,
           j_phase := (if j_kind j = Transfer then None else j_phase j)\<rparr>)"

definition after_end :: "pyval \<Rightarrow> outcome \<Rightarrow> job \<Rightarrow> job list \<Rightarrow> job list" where
  "after_end now out j js = (case out of
       OCompleted d b p \<Rightarrow> if p then map (\<lambda>i. if j_depends i = PStr (j_id j) then i\<lparr>j_total := b\<rparr> else i) js else js
     | OCanceled \<Rightarrow> if j_kind j = Download then cancel_dependents now (j_id j) js else js
     | _ \<Rightarrow> js)"

definition finish_task :: "pyval \<Rightarrow> outcome \<Rightarrow> string \<Rightarrow> nat \<Rightarrow> nas \<Rightarrow> nas" where
  "finish_task now out t k s = (let j = n_jobs s ! k in
     set_task t k Finished (s\<lparr>n_events := AList.delete (j_id j) (n_events s),
       n_jobs := after_end now out j ((n_jobs s)[k := end_job now out j])\<rparr>))"

text \<open>The progress fields a run writes.\<close>

definition progress_job :: "int \<Rightarrow> int \<Rightarrow> string option \<Rightarrow> pyval \<Rightarrow> bool \<Rightarrow> pyval \<Rightarrow> int option \<Rightarrow> job \<Rightarrow> job" where
  "progress_job d b ph e c a st j = j\<lparr>j_done := d, j_total := b, j_phase := ph, j_error := e, j_cancelable := c,
     j_attempted := a, j_attempt_start := st\<rparr>"

section \<open>Cancellation\<close>

definition set_event :: "string \<Rightarrow> (string, bool) dict \<Rightarrow> (string, bool) dict" where
  "set_event i d = (if map_of d i = None then d else AList.update i True d)"

definition cancel_transfer :: "pyval \<Rightarrow> string \<Rightarrow> nas \<Rightarrow> (nas \<times> job) result" where
  "cancel_transfer now i s = (case dependency_at (n_jobs s) (PStr i) of
       None \<Rightarrow> Inl (LookupError ''transfer not found'')
     | Some k \<Rightarrow> (let j = n_jobs s ! k in
         if final_state (j_status j) then Inr (s, j)
         else if j_kind j = Download \<and> j_status j = JRunning \<and> \<not> j_cancelable j
         then Inl (RuntimeError ''a running Hugging Face download cannot be canceled safely; it is resumable and will finish or fail'')
         else if j_status j = JRunning
         then (let j' = j\<lparr>j_phase := Some ''canceling'', j_error := PNone\<rparr> in
           Inr (s\<lparr>n_jobs := (n_jobs s)[k := j'], n_events := set_event i (n_events s)\<rparr>, j'))
         else (let j' = canceled_job now j in
           Inr (s\<lparr>n_jobs := cancel_dependents now i ((n_jobs s)[k := j']), n_events := set_event i (n_events s)\<rparr>, j'))))"

section \<open>Updates and streams\<close>

text \<open>\<open>admitted\<close> is whether the current task already belongs to a transfer.\<close>

definition reserve_stream :: "string \<Rightarrow> bool \<Rightarrow> nas \<Rightarrow> nas result" where
  "reserve_stream m admitted s =
     (if n_update s \<and> \<not> admitted then Inl (RuntimeError ''node update is pending; retry the transfer after the update'')
      else Inr (s\<lparr>n_streams := AList.update m ((case map_of (n_streams s) m of None \<Rightarrow> 0 | Some c \<Rightarrow> c) + 1) (n_streams s)\<rparr>))"

definition release_stream :: "string \<Rightarrow> nas \<Rightarrow> nas" where
  "release_stream m s = (let c = (case map_of (n_streams s) m of None \<Rightarrow> 0 | Some c \<Rightarrow> c) - 1 in
     s\<lparr>n_streams := (if 0 < c then AList.update m c (n_streams s) else AList.delete m (n_streams s))\<rparr>)"

definition reserve_update :: "nas \<Rightarrow> nas" where
  "reserve_update s = s\<lparr>n_generation := n_generation s + 1, n_update := True\<rparr>"

definition end_update :: "nat \<Rightarrow> nas \<Rightarrow> nas" where
  "end_update g s = (if g \<noteq> n_generation s then s else s\<lparr>n_update := False\<rparr>)"

text \<open>The condition \<open>wait_for_transfers\<close> polls for.\<close>

definition transfers_over :: "nas \<Rightarrow> bool" where
  "transfers_over s \<longleftrightarrow> n_streams s = [] \<and> list_all (\<lambda>(t, k, p). p = Finished) (n_active s)"

definition model_in_transfer :: "pyval \<Rightarrow> string option \<Rightarrow> nas \<Rightarrow> bool result" where
  "model_in_transfer v node s = bindE (validate_storage_model_id v) (\<lambda>m. Inr (
     (node = None \<or> node = Some ''local'') \<and> (case map_of (n_streams s) m of None \<Rightarrow> False | Some c \<Rightarrow> c \<noteq> 0) \<or>
     list_ex (\<lambda>j. j_model j = m \<and> active_state (j_status j) \<and>
       (case node of None \<Rightarrow> True | Some n \<Rightarrow> n = j_source j \<or> n = j_target j)) (n_jobs s)))"

end
