(* ===== verification/Nas_Safety.thy ===== *)
theory Nas_Safety imports Nas_System
begin

text \<open>
  The steps of the virtual NAS and what holds in every state they reach: a node takes part in at most one
  unfinished copy, a job runs only after the download it needs, and the queue never stalls.
\<close>

section \<open>Steps\<close>

definition fresh_ids :: "(nat \<Rightarrow> string) \<Rightarrow> nas \<Rightarrow> bool" where
  "fresh_ids ids s \<longleftrightarrow> inj ids \<and> (\<forall>k. ids k \<noteq> [] \<and> ids k \<notin> j_id ` set (n_jobs s))"

text \<open>
  Admission takes several awaits under the queue lock, so its duplicate checks saw the jobs at an earlier
  moment: \<open>seen\<close> is arbitrary.
\<close>

inductive nas_step :: "nas \<Rightarrow> nas \<Rightarrow> bool" where
  copy: "queue_transfer en nodes storage ids now q seen = Inr new \<Longrightarrow> fresh_ids ids s \<Longrightarrow> now \<noteq> Finite 0 \<Longrightarrow>
    name_or_none (q_source q) \<Longrightarrow> nas_step s (s\<lparr>n_jobs := n_jobs s @ new\<rparr>)"
| download: "queue_download en nodes storage ids now d seen = Inr new \<Longrightarrow> fresh_ids ids s \<Longrightarrow> now \<noteq> Finite 0 \<Longrightarrow>
    name_or_none (d_node d) \<Longrightarrow> name_or_none (d_source d) \<Longrightarrow> nas_step s (s\<lparr>n_jobs := n_jobs s @ new\<rparr>)"
| pass: "nas_step s (dispatch_pass t s)"
| start: "map_of (n_active s) u = Some (k, Created) \<Longrightarrow> nas_step s (start_task t u k s)"
| drop: "map_of (n_active s) u = Some (k, Created) \<Longrightarrow> nas_step s (set_task u k Finished s)"
| progress: "map_of (n_active s) u = Some (k, Started) \<Longrightarrow> 0 \<le> b \<Longrightarrow> 0 \<le> c \<Longrightarrow> good_count st \<Longrightarrow>
    nas_step s (s\<lparr>n_jobs := (n_jobs s)[k := progress_job b c ph e cb a st (n_jobs s ! k)]\<rparr>)"
| finish: "map_of (n_active s) u = Some (k, Started) \<Longrightarrow> (case out of OCompleted b c p \<Rightarrow> 0 \<le> b \<and> 0 \<le> c | _ \<Rightarrow> True) \<Longrightarrow>
    nas_step s (finish_task t out u k s)"
| cancel: "cancel_transfer t i s = Inr (s', j) \<Longrightarrow> nas_step s s'"
| admit: "reserve_stream m adm s = Inr s' \<Longrightarrow> nas_step s s'"
| release: "nas_step s (release_stream m s)"
| reserve: "nas_step s (reserve_update s)"
| unreserve: "nas_step s (end_update g s)"
| restart: "load_jobs fl ids t (Some (PList (map (dump_job fr) (n_jobs s)))) = Inr (js, b) \<Longrightarrow> nas_step s (new_nas js)"

definition nas_reachable :: "nas \<Rightarrow> bool" where
  "nas_reachable s \<longleftrightarrow> nas_step\<^sup>*\<^sup>* (new_nas []) s"

section \<open>The invariant\<close>

definition phase_ok :: "phase \<Rightarrow> jstatus \<Rightarrow> bool" where
  "phase_ok p st \<longleftrightarrow> (case p of Created \<Rightarrow> st = JQueued \<or> st = JCanceled | Started \<Rightarrow> st = JRunning | Finished \<Rightarrow> True)"

definition dep_done :: "job list \<Rightarrow> job \<Rightarrow> bool" where
  "dep_done js j \<longleftrightarrow> py_truthy (j_depends j) \<longrightarrow>
     (\<exists>d. dependency_at js (j_depends j) = Some d \<and> j_status (js ! d) = JCompleted)"

lemma dep_done_iff: "dep_done js j \<longleftrightarrow> \<not> dep_dead js j \<and> \<not> dep_pending js j"
  by (auto simp: dep_done_def dep_dead_def dep_pending_def split: option.splits)

text \<open>The part of a job that never changes.\<close>

definition core :: "job \<Rightarrow> string \<times> jkind \<times> string \<times> string \<times> pyval" where
  "core j = (j_id j, j_kind j, j_source j, j_target j, j_depends j)"

definition deps_back :: "job list \<Rightarrow> bool" where
  "deps_back js \<longleftrightarrow> (\<forall>k < length js. py_truthy (j_depends (js ! k)) \<longrightarrow> (\<exists>d < k. dependency_at js (j_depends (js ! k)) = Some d))"

definition tasks_ok :: "nas \<Rightarrow> bool" where
  "tasks_ok s \<longleftrightarrow> wf_dict (n_active s) \<and> map fst (n_endpoints s) = map fst (n_active s) \<and>
     (\<forall>(t, k, p) \<in> set (n_active s). k < length (n_jobs s) \<and> j_target (n_jobs s ! k) = t \<and>
        map_of (n_endpoints s) t = Some (job_endpoints (n_jobs s ! k)) \<and> phase_ok p (j_status (n_jobs s ! k)) \<and>
        (p \<noteq> Finished \<longrightarrow> dep_done (n_jobs s) (n_jobs s ! k)))"

definition apart :: "nas \<Rightarrow> bool" where
  "apart s \<longleftrightarrow> (\<forall>t u e f. map_of (n_endpoints s) t = Some e \<longrightarrow> map_of (n_endpoints s) u = Some f \<longrightarrow> t \<noteq> u \<longrightarrow> e \<inter> f = {})"

definition running_owned :: "nas \<Rightarrow> bool" where
  "running_owned s \<longleftrightarrow> (\<forall>k < length (n_jobs s). j_status (n_jobs s ! k) = JRunning \<longrightarrow>
     (j_target (n_jobs s ! k), k, Started) \<in> set (n_active s))"

definition nas_ok :: "nas \<Rightarrow> bool" where
  "nas_ok s \<longleftrightarrow> tasks_ok s \<and> apart s \<and> running_owned s \<and> deps_back (n_jobs s) \<and> (\<forall>j \<in> set (n_jobs s). storable j)"

lemma core_simps [simp]: "core (canceled_job t j) = core j" "core (failed_job t m j) = core j" "core (begin_job t j) = core j"
  "core (end_job t out j) = core j" "core (progress_job b c ph e cb a st j) = core j" "core (j\<lparr>j_total := c\<rparr>) = core j"
  "core (j\<lparr>j_phase := x, j_error := y\<rparr>) = core j"
  by (simp_all add: core_def canceled_job_def failed_job_def begin_job_def end_job_def progress_job_def split: jkind.splits outcome.splits)

lemma core_eqD: "core i = core j \<Longrightarrow> j_id i = j_id j \<and> j_target i = j_target j \<and> j_depends i = j_depends j \<and> job_endpoints i = job_endpoints j"
  by (simp add: core_def job_endpoints_def)

lemma dependency_at_core:
  assumes "length js' = length js" "\<And>k. k < length js \<Longrightarrow> core (js' ! k) = core (js ! k)"
  shows "dependency_at js' v = dependency_at js v"
  by (rule dependency_at_cong[OF assms(1)]) (use assms(2) core_eqD in blast)

lemma deps_back_core:
  assumes "length js' = length js" "\<And>k. k < length js \<Longrightarrow> core (js' ! k) = core (js ! k)" "deps_back js"
  shows "deps_back js'"
proof -
  have dep: "dependency_at js' v = dependency_at js v" for v
    by (rule dependency_at_core[OF assms(1)]) (rule assms(2))
  have d: "j_depends (js' ! k) = j_depends (js ! k)" if "k < length js" for k
    using core_eqD[OF assms(2)[OF that]] by simp
  show ?thesis using assms(3) d unfolding deps_back_def assms(1) dep by simp
qed

lemma dep_done_core:
  assumes "length js' = length js" "\<And>k. k < length js \<Longrightarrow> core (js' ! k) = core (js ! k)"
    and "\<And>k. k < length js \<Longrightarrow> j_status (js ! k) = JCompleted \<Longrightarrow> j_status (js' ! k) = JCompleted"
    and "dep_done js j" "j_depends j' = j_depends j"
  shows "dep_done js' j'"
proof -
  have dep: "dependency_at js' v = dependency_at js v" for v
    by (rule dependency_at_core[OF assms(1)]) (rule assms(2))
  show ?thesis
    unfolding dep_done_def dep assms(5)
  proof
    assume "py_truthy (j_depends j)"
    then obtain d where d: "dependency_at js (j_depends j) = Some d" "j_status (js ! d) = JCompleted"
      using assms(4) by (auto simp: dep_done_def)
    then show "\<exists>d. dependency_at js (j_depends j) = Some d \<and> j_status (js' ! d) = JCompleted"
      using assms(3) dependency_at_Some by blast
  qed
qed

text \<open>A change of jobs and task phases that keeps the identities, the ready dependencies and the owners of running jobs.\<close>

lemma nas_ok_change:
  assumes ok: "nas_ok s"
    and act: "map (\<lambda>(t, k, p). (t, k)) (n_active s') = map (\<lambda>(t, k, p). (t, k)) (n_active s)" "n_endpoints s' = n_endpoints s"
    and core: "length (n_jobs s') = length (n_jobs s)" "\<And>k. k < length (n_jobs s) \<Longrightarrow> core (n_jobs s' ! k) = core (n_jobs s ! k)"
    and store: "\<And>k. k < length (n_jobs s) \<Longrightarrow> storable (n_jobs s' ! k)"
    and phases: "\<And>t k p. (t, k, p) \<in> set (n_active s') \<Longrightarrow> k < length (n_jobs s) \<Longrightarrow> phase_ok p (j_status (n_jobs s' ! k))"
    and unfinished: "\<And>t k p. (t, k, p) \<in> set (n_active s') \<Longrightarrow> p \<noteq> Finished \<Longrightarrow> \<exists>p'. (t, k, p') \<in> set (n_active s) \<and> p' \<noteq> Finished"
    and running: "\<And>k. k < length (n_jobs s) \<Longrightarrow> j_status (n_jobs s' ! k) = JRunning \<Longrightarrow>
        (j_target (n_jobs s ! k), k, Started) \<in> set (n_active s')"
    and completed: "\<And>k. k < length (n_jobs s) \<Longrightarrow> j_status (n_jobs s ! k) = JCompleted \<Longrightarrow> j_status (n_jobs s' ! k) = JCompleted"
  shows "nas_ok s'"
proof -
  have t: "wf_dict (n_active s)" "map fst (n_endpoints s) = map fst (n_active s)"
    and task: "\<And>t k p. (t, k, p) \<in> set (n_active s) \<Longrightarrow> k < length (n_jobs s) \<and> j_target (n_jobs s ! k) = t \<and>
        map_of (n_endpoints s) t = Some (job_endpoints (n_jobs s ! k)) \<and> (p \<noteq> Finished \<longrightarrow> dep_done (n_jobs s) (n_jobs s ! k))"
    using ok by (auto simp: nas_ok_def tasks_ok_def)
  have keys: "map fst (n_active s') = map fst (n_active s)"
    using arg_cong[OF act(1), of "map fst"] by (simp add: comp_def case_prod_unfold)
  have same: "\<exists>p'. (t, k, p') \<in> set (n_active s)" if "(t, k, p) \<in> set (n_active s')" for t k p
  proof -
    have "(t, k) \<in> set (map (\<lambda>(t, k, p). (t, k)) (n_active s'))" using that by force
    then show ?thesis unfolding act(1) by auto
  qed
  have "tasks_ok s'"
    unfolding tasks_ok_def
  proof (intro conjI ballI)
    show "wf_dict (n_active s')" "map fst (n_endpoints s') = map fst (n_active s')"
      using t keys act(2) by (simp_all add: wf_dict_def)
    fix x
    assume x: "x \<in> set (n_active s')"
    obtain u k p where u: "x = (u, k, p)" by (cases x)
    note xin = x[unfolded u]
    obtain p' where p': "(u, k, p') \<in> set (n_active s)" using same[OF xin] by blast
    note old = task[OF p']
    have c: "core (n_jobs s' ! k) = core (n_jobs s ! k)" using core(2) old by simp
    have d: "dep_done (n_jobs s') (n_jobs s' ! k)" if np: "p \<noteq> Finished"
    proof -
      obtain q where "(u, k, q) \<in> set (n_active s)" "q \<noteq> Finished" using unfinished[OF xin np] by blast
      then have d: "dep_done (n_jobs s) (n_jobs s ! k)" using task by blast
      have e: "j_depends (n_jobs s' ! k) = j_depends (n_jobs s ! k)" using core_eqD[OF c] by simp
      show ?thesis by (rule dep_done_core[OF core completed d e])
    qed
    show "case x of (t, k, p) \<Rightarrow> k < length (n_jobs s') \<and> j_target (n_jobs s' ! k) = t \<and>
        map_of (n_endpoints s') t = Some (job_endpoints (n_jobs s' ! k)) \<and> phase_ok p (j_status (n_jobs s' ! k)) \<and>
        (p \<noteq> Finished \<longrightarrow> dep_done (n_jobs s') (n_jobs s' ! k))"
      using old core_eqD[OF c] core(1) act(2) phases[OF xin] d u by simp
  qed
  moreover have "apart s'" using ok act(2) by (simp add: nas_ok_def apart_def)
  moreover have "running_owned s'"
    unfolding running_owned_def core(1)
  proof (intro allI impI)
    fix k
    assume k: "k < length (n_jobs s)" "j_status (n_jobs s' ! k) = JRunning"
    show "(j_target (n_jobs s' ! k), k, Started) \<in> set (n_active s')"
      using running[OF k] core_eqD[OF core(2)[OF k(1)]] by simp
  qed
  moreover have "deps_back (n_jobs s')"
  proof (rule deps_back_core[OF core])
    show "deps_back (n_jobs s)" using ok by (simp add: nas_ok_def)
  qed
  moreover have "\<forall>j \<in> set (n_jobs s'). storable j" using store core(1) by (auto simp: in_set_conv_nth)
  ultimately show ?thesis by (simp add: nas_ok_def)
qed

section \<open>Preservation\<close>

text \<open>A job keeps its status, or a queued one is canceled, or fails because its dependency is not completed.\<close>

definition quiet :: "job list \<Rightarrow> job \<Rightarrow> job \<Rightarrow> bool" where
  "quiet js i j \<longleftrightarrow> core j = core i \<and> storable j \<and> (j_status j = j_status i \<or>
     j_status i = JQueued \<and> (j_status j = JCanceled \<or> j_status j = JFailed \<and> \<not> dep_done js i))"

lemma nas_okD:
  assumes "nas_ok s"
  shows "wf_dict (n_active s)" "map fst (n_endpoints s) = map fst (n_active s)"
    "\<And>t k p. (t, k, p) \<in> set (n_active s) \<Longrightarrow> k < length (n_jobs s) \<and> j_target (n_jobs s ! k) = t \<and>
        map_of (n_endpoints s) t = Some (job_endpoints (n_jobs s ! k)) \<and> phase_ok p (j_status (n_jobs s ! k)) \<and>
        (p \<noteq> Finished \<longrightarrow> dep_done (n_jobs s) (n_jobs s ! k))"
    "apart s" "\<And>k. k < length (n_jobs s) \<Longrightarrow> j_status (n_jobs s ! k) = JRunning \<Longrightarrow> (j_target (n_jobs s ! k), k, Started) \<in> set (n_active s)"
    "deps_back (n_jobs s)" "\<And>k. k < length (n_jobs s) \<Longrightarrow> storable (n_jobs s ! k)"
  using assms by (auto simp: nas_ok_def tasks_ok_def running_owned_def)

lemma task_unique: "nas_ok s \<Longrightarrow> (t, x) \<in> set (n_active s) \<Longrightarrow> (t, y) \<in> set (n_active s) \<Longrightarrow> x = y"
  using nas_okD(1) by (metis eq_key_imp_eq_value wf_dict_def)

lemma quiet_phase:
  assumes "nas_ok s" "(t, k, p) \<in> set (n_active s)" "quiet (n_jobs s) (n_jobs s ! k) j"
  shows "phase_ok p (j_status j)"
  using nas_okD(3)[OF assms(1,2)] assms(3) by (cases p) (auto simp: phase_ok_def quiet_def)

lemma nas_ok_quiet:
  assumes ok: "nas_ok s" and len: "length js = length (n_jobs s)"
    and q: "\<And>k. k < length (n_jobs s) \<Longrightarrow> quiet (n_jobs s) (n_jobs s ! k) (js ! k)"
  shows "nas_ok (s\<lparr>n_jobs := js\<rparr>)"
proof (rule nas_ok_change[OF ok])
  fix t k p assume "(t, k, p) \<in> set (n_active (s\<lparr>n_jobs := js\<rparr>))" "k < length (n_jobs s)"
  then show "phase_ok p (j_status (n_jobs (s\<lparr>n_jobs := js\<rparr>) ! k))" using quiet_phase[OF ok] q by simp
next
  fix k assume "k < length (n_jobs s)" "j_status (n_jobs (s\<lparr>n_jobs := js\<rparr>) ! k) = JRunning"
  then show "(j_target (n_jobs s ! k), k, Started) \<in> set (n_active (s\<lparr>n_jobs := js\<rparr>))"
    using nas_okD(5)[OF ok] q[of k] by (auto simp: quiet_def)
next
  fix k assume "k < length (n_jobs s)" "j_status (n_jobs s ! k) = JCompleted"
  then show "j_status (n_jobs (s\<lparr>n_jobs := js\<rparr>) ! k) = JCompleted" using q[of k] by (auto simp: quiet_def)
qed (use len q in \<open>auto simp: quiet_def\<close>)

lemma set_task_active: "n_active (set_task t k p s) = map (\<lambda>(u, x). (u, if u = t then (k, p) else x)) (n_active s)"
  by (simp add: set_task_def)

lemma in_map_entry: "(t, y) \<in> set (map (\<lambda>(v, x). (v, if v = u then w else x)) xs) \<longleftrightarrow>
    (t, y) \<in> set xs \<and> t \<noteq> u \<or> t = u \<and> y = w \<and> (\<exists>x. (u, x) \<in> set xs)"
  by (induction xs) auto

lemma nas_ok_task:
  assumes ok: "nas_ok s" and t: "(u, k, p) \<in> set (n_active s)" "p \<noteq> Finished"
    and len: "length js = length (n_jobs s)"
    and q: "\<And>l. l < length (n_jobs s) \<Longrightarrow> l \<noteq> k \<Longrightarrow> quiet (n_jobs s) (n_jobs s ! l) (js ! l)"
    and k: "core (js ! k) = core (n_jobs s ! k)" "storable (js ! k)" "phase_ok r (j_status (js ! k))" "j_status (js ! k) = JRunning \<Longrightarrow> r = Started"
  shows "nas_ok (set_task u k r (s\<lparr>n_events := ev, n_jobs := js\<rparr>))"
proof -
  let ?s = "set_task u k r (s\<lparr>n_events := ev, n_jobs := js\<rparr>)"
  have js: "n_jobs ?s = js" and ep: "n_endpoints ?s = n_endpoints s" by (simp_all add: set_task_def)
  have act: "n_active ?s = map (\<lambda>(v, x). (v, if v = u then (k, r) else x)) (n_active s)" by (simp add: set_task_def)
  note old = nas_okD(3)[OF ok]
  have in_act: "(t, l, x) \<in> set (n_active ?s) \<longleftrightarrow> (t, l, x) \<in> set (n_active s) \<and> t \<noteq> u \<or> t = u \<and> l = k \<and> x = r" for t l x
    unfolding act in_map_entry using t(1) by auto
  have other: "l \<noteq> k" if "(t, l, x) \<in> set (n_active s)" "t \<noteq> u" for t l x
    using old[OF that(1)] old[OF t(1)] that(2) by auto
  show ?thesis
  proof (rule nas_ok_change[OF ok])
    have "(\<lambda>(t, k, p). (t, k)) (v, if v = u then (k, r) else x) = (\<lambda>(t, k, p). (t, k)) (v, x)" if "(v, x) \<in> set (n_active s)" for v x
      using that task_unique[OF ok t(1)] by (cases x) auto
    then show "map (\<lambda>(t, k, p). (t, k)) (n_active ?s) = map (\<lambda>(t, k, p). (t, k)) (n_active s)"
      unfolding act list.map_comp by (intro map_cong) auto
    show "n_endpoints ?s = n_endpoints s" by (rule ep)
    show "length (n_jobs ?s) = length (n_jobs s)" using js len by simp
  next
    fix l assume l: "l < length (n_jobs s)"
    show "core (n_jobs ?s ! l) = core (n_jobs s ! l)" "storable (n_jobs ?s ! l)"
      unfolding js using q[OF l] k(1,2) by (cases "l = k"; auto simp: quiet_def)+
  next
    fix t l x assume x: "(t, l, x) \<in> set (n_active ?s)" "l < length (n_jobs s)"
    then show "phase_ok x (j_status (n_jobs ?s ! l))"
      unfolding js in_act using quiet_phase[OF ok] q[OF x(2)] other k(3) by auto
  next
    fix t l x assume "(t, l, x) \<in> set (n_active ?s)" "x \<noteq> Finished"
    then show "\<exists>p'. (t, l, p') \<in> set (n_active s) \<and> p' \<noteq> Finished" unfolding in_act using t by auto
  next
    fix l assume l: "l < length (n_jobs s)" "j_status (n_jobs ?s ! l) = JRunning"
    show "(j_target (n_jobs s ! l), l, Started) \<in> set (n_active ?s)"
    proof (cases "l = k")
      case True
      then show ?thesis using l(2) k(4) old[OF t(1)] unfolding js in_act by simp
    next
      case False
      then have "j_status (n_jobs s ! l) = JRunning" using q[OF l(1)] l(2) unfolding js by (auto simp: quiet_def)
      then have "(j_target (n_jobs s ! l), l, Started) \<in> set (n_active s)" by (rule nas_okD(5)[OF ok l(1)])
      then show ?thesis unfolding in_act using task_unique[OF ok t(1)] False by blast
    qed
  next
    fix l assume l: "l < length (n_jobs s)" "j_status (n_jobs s ! l) = JCompleted"
    then have "l \<noteq> k" using old[OF t(1)] t(2) by (cases p) (auto simp: phase_ok_def)
    then show "j_status (n_jobs ?s ! l) = JCompleted" unfolding js using q[OF l(1)] l(2) by (auto simp: quiet_def)
  qed
qed

section \<open>The dispatcher keeps the invariant\<close>

lemma map_of_filter_key: "P t \<Longrightarrow> map_of (filter (\<lambda>(u, x). P u) xs) t = map_of xs t"
  by (induction xs) auto

lemma map_of_filter_keyD: "map_of (filter (\<lambda>(u, x). P u) xs) t = Some y \<Longrightarrow> map_of xs t = Some y \<and> P t"
  by (induction xs) (auto split: if_splits)

lemma map_fst_filter: "map fst (filter (\<lambda>(u, x). P u) xs) = filter P (map fst xs)"
  by (induction xs) auto

lemma done_targets_iff: "nas_ok s \<Longrightarrow> (t, k, p) \<in> set (n_active s) \<Longrightarrow> t \<in> set (done_targets s) \<longleftrightarrow> p = Finished"
  using task_unique by (force simp: done_targets_def)

lemma nas_ok_reap:
  assumes ok: "nas_ok s"
  shows "nas_ok (reap s)"
proof -
  note o = nas_okD[OF ok]
  let ?P = "\<lambda>t. t \<notin> set (done_targets s)"
  have r: "n_active (reap s) = filter (\<lambda>(t, x). ?P t) (n_active s)" "n_endpoints (reap s) = filter (\<lambda>(t, x). ?P t) (n_endpoints s)"
    "n_jobs (reap s) = n_jobs s"
    by (simp_all add: reap_def)
  have "tasks_ok (reap s)"
    unfolding tasks_ok_def r
  proof (intro conjI ballI)
    show "wf_dict (filter (\<lambda>(t, x). ?P t) (n_active s))" using o(1) by (rule wf_dict_filter)
    show "map fst (filter (\<lambda>(t, x). ?P t) (n_endpoints s)) = map fst (filter (\<lambda>(t, x). ?P t) (n_active s))"
      unfolding map_fst_filter o(2) by (rule refl)
    fix x
    assume x: "x \<in> set (filter (\<lambda>(t, x). ?P t) (n_active s))"
    obtain t k p where t: "x = (t, k, p)" by (cases x)
    have tin: "(t, k, p) \<in> set (n_active s)" "?P t" using x t by auto
    show "case x of (t, k, p) \<Rightarrow> k < length (n_jobs s) \<and> j_target (n_jobs s ! k) = t \<and>
        map_of (filter (\<lambda>(t, x). ?P t) (n_endpoints s)) t = Some (job_endpoints (n_jobs s ! k)) \<and>
        phase_ok p (j_status (n_jobs s ! k)) \<and> (p \<noteq> Finished \<longrightarrow> dep_done (n_jobs s) (n_jobs s ! k))"
      using o(3)[OF tin(1)] map_of_filter_key[of ?P t "n_endpoints s", OF tin(2)] t by simp
  qed
  moreover have "apart (reap s)"
    unfolding apart_def r
  proof (intro allI impI)
    fix t u e f
    assume a: "map_of (filter (\<lambda>(t, x). ?P t) (n_endpoints s)) t = Some e" "map_of (filter (\<lambda>(t, x). ?P t) (n_endpoints s)) u = Some f" "t \<noteq> u"
    have "map_of (n_endpoints s) t = Some e" "map_of (n_endpoints s) u = Some f"
      using map_of_filter_keyD[OF a(1)] map_of_filter_keyD[OF a(2)] by blast+
    then show "e \<inter> f = {}" using o(4) a(3) unfolding apart_def by blast
  qed
  moreover have "running_owned (reap s)"
    unfolding running_owned_def r using o(5) done_targets_iff[OF ok] by auto
  ultimately show ?thesis using o(6,7) by (simp add: nas_ok_def r all_set_conv_all_nth)
qed

lemma reaped_unfinished: "nas_ok s \<Longrightarrow> (t, k, p) \<in> set (n_active (reap s)) \<Longrightarrow> p \<noteq> Finished"
  using done_targets_iff by (auto simp: reap_def)

lemma nas_ok_launch:
  assumes ok: "nas_ok s" and k: "k < length (n_jobs s)" "j_status (n_jobs s ! k) = JQueued" "dep_done (n_jobs s) (n_jobs s ! k)"
    "job_endpoints (n_jobs s ! k) \<inter> busy_nodes s = {}"
  shows "nas_ok (launch k s)"
proof -
  note o = nas_okD[OF ok]
  let ?j = "n_jobs s ! k" and ?t = "j_target (n_jobs s ! k)"
  have free: "map_of (n_endpoints s) ?t = None"
  proof (rule ccontr)
    assume "map_of (n_endpoints s) ?t \<noteq> None"
    then obtain e where e: "map_of (n_endpoints s) ?t = Some e" by auto
    then have "?t \<in> fst ` set (n_active s)" using o(2) by (metis domI dom_map_of_conv_image_fst list.set_map)
    then obtain l p where "(?t, l, p) \<in> set (n_active s)" by auto
    then have "?t \<in> e" using o(3)[of "?t" l p] e target_in_endpoints[of "n_jobs s ! l"] by simp
    then show False using busy_entry[OF e] k(4) target_in_endpoints[of ?j] by blast
  qed
  then have nk: "?t \<notin> fst ` set (n_endpoints s)" "?t \<notin> fst ` set (n_active s)"
    using o(2) by (auto simp: map_of_eq_None_iff) (metis image_eqI list.set_map fst_conv)
  have ls: "n_active (launch k s) = n_active s @ [(?t, k, Created)]" "n_endpoints (launch k s) = n_endpoints s @ [(?t, job_endpoints ?j)]"
    "n_jobs (launch k s) = n_jobs s"
    using nk by (simp_all add: launch_def Let_def update_fresh)
  have ep: "map_of (n_endpoints s @ [(?t, job_endpoints ?j)]) u = (if u = ?t then Some (job_endpoints ?j) else map_of (n_endpoints s) u)" for u
    using free by (auto simp: map_add_def split: option.splits)
  have "wf_dict (n_active (launch k s))" unfolding ls using o(1) nk by (auto simp: wf_dict_def)
  moreover have "u \<noteq> ?t" if "(u, x) \<in> set (n_active s)" for u x using that nk(2) by force
  ultimately have "tasks_ok (launch k s)"
    unfolding tasks_ok_def ls(3) using o(2,3) k by (auto simp: ls ep phase_ok_def simp del: map_of_append)
  moreover have "apart (launch k s)"
  proof -
    have "e \<inter> job_endpoints ?j = {}" if "map_of (n_endpoints s) u = Some e" for u e using busy_entry[OF that] k(4) by blast
    then show ?thesis using o(4) unfolding apart_def ls ep by (auto split: if_splits simp del: map_of_append)
  qed
  moreover have "running_owned (launch k s)" using o(5) unfolding running_owned_def ls by auto
  ultimately show ?thesis using o(6,7) by (simp add: nas_ok_def ls all_set_conv_all_nth)
qed

lemma failed_storable: "storable j \<Longrightarrow> storable (failed_job t m j)"
  by (simp add: storable_def failed_job_def)

lemma canceled_storable: "storable j \<Longrightarrow> storable (canceled_job t j)"
  by (simp add: storable_def canceled_job_def)

lemma dep_done_fail:
  assumes "m < length js" "j_status (js ! m) = JQueued" "dep_done js j"
  shows "dep_done (js[m := failed_job t e (js ! m)]) j"
proof (rule dep_done_core[OF _ _ _ assms(3) refl])
  fix k assume "k < length js"
  then show "core (js[m := failed_job t e (js ! m)] ! k) = core (js ! k)" by (cases "k = m") simp_all
next
  fix k assume "k < length js" "j_status (js ! k) = JCompleted"
  then show "j_status (js[m := failed_job t e (js ! m)] ! k) = JCompleted" using assms(2) by (cases "k = m") simp_all
qed simp

text \<open>The search fails only jobs whose dependency was not completed.\<close>

lemma next_job_failed:
  "next_job now busy ks js = (r, js') \<Longrightarrow> \<forall>k \<in> set ks. k < length js \<Longrightarrow> k < length js \<Longrightarrow> js' ! k \<noteq> js ! k \<Longrightarrow> \<not> dep_done js (js ! k)"
proof (induction now busy ks js rule: next_job.induct)
  case (2 now busy m ms js)
  let ?c = "js ! m" and ?js = "js[m := failed_job now dependency_error (js ! m)]"
  have m: "m < length js" using "2.prems"(2) by simp
  show ?case
  proof (cases "j_status ?c = JQueued \<and> dep_dead js ?c")
    case True
    show ?thesis
    proof (cases "k = m")
      case True
      then show ?thesis using \<open>j_status ?c = JQueued \<and> dep_dead js ?c\<close> by (simp add: dep_done_iff)
    next
      case False
      have "next_job now busy ms ?js = (r, js')" using "2.prems"(1) True by simp
      then have "\<not> dep_done ?js (?js ! k)" using "2.IH"(2) True "2.prems"(2-4) False by simp
      then show ?thesis using dep_done_fail[OF m] True False by auto
    qed
  next
    case False
    then show ?thesis using "2.IH" "2.prems" by (auto simp: Let_def split: if_splits)
  qed
qed simp

lemma nas_ok_search:
  assumes ok: "nas_ok s" and n: "next_queue_job now busy (n_jobs s) = (r, js)"
  shows "nas_ok (s\<lparr>n_jobs := js\<rparr>)"
proof (rule nas_ok_quiet[OF ok next_queue_job_each(1)[OF n]])
  fix k assume k: "k < length (n_jobs s)"
  have "js ! k = n_jobs s ! k \<or> \<not> dep_done (n_jobs s) (n_jobs s ! k)"
    using next_job_failed[OF n[unfolded next_queue_job_def] _ k] by auto
  then show "quiet (n_jobs s) (n_jobs s ! k) (js ! k)"
    using next_queue_job_each(2)[OF n k] nas_okD(7)[OF ok k] failed_storable by (auto simp: quiet_def)
qed

lemma nas_ok_dispatch: "nas_ok s \<Longrightarrow> nas_ok (dispatch now s)"
proof (induction now s rule: dispatch.induct)
  case (1 now s)
  show ?case
  proof (cases "n_update s")
    case True
    then show ?thesis using "1.prems" by (simp add: dispatch.simps)
  next
    case False
    obtain r js where n: "next_queue_job now (busy_nodes s) (n_jobs s) = (r, js)" by (cases "next_queue_job now (busy_nodes s) (n_jobs s)")
    have ok: "nas_ok (s\<lparr>n_jobs := js\<rparr>)" by (rule nas_ok_search[OF "1.prems" n])
    show ?thesis
    proof (cases r)
      case None
      then show ?thesis using ok False n by (simp add: dispatch.simps)
    next
      case (Some k)
      have c: "k < length js" "j_status (js ! k) = JQueued" "dep_done js (js ! k)" "job_endpoints (js ! k) \<inter> busy_nodes s = {}"
        using next_queue_job_Some[OF n[unfolded Some]] next_queue_job_each(1)[OF n] by (simp_all add: dep_done_iff)
      have "nas_ok (launch k (s\<lparr>n_jobs := js\<rparr>))"
        by (rule nas_ok_launch[OF ok]) (use c in \<open>simp_all add: busy_nodes_def\<close>)
      then have "nas_ok (dispatch now (launch k (s\<lparr>n_jobs := js\<rparr>)))" using "1.IH"[OF False n[symmetric, unfolded Some]] by simp
      then show ?thesis using False n Some by (subst dispatch.simps) simp
    qed
  qed
qed

lemma nas_ok_pass: "nas_ok s \<Longrightarrow> nas_ok (dispatch_pass now s)"
  by (simp add: dispatch_pass_def nas_ok_dispatch nas_ok_reap)

section \<open>Every step keeps the invariant\<close>

lemma nas_ok_frame: "nas_ok s \<Longrightarrow> n_jobs s' = n_jobs s \<Longrightarrow> n_active s' = n_active s \<Longrightarrow> n_endpoints s' = n_endpoints s \<Longrightarrow> nas_ok s'"
  by (simp add: nas_ok_def tasks_ok_def apart_def running_owned_def)

lemma nas_ok_append:
  assumes ok: "nas_ok s" and new: "batch ids new" "fresh_ids ids s" "\<forall>j \<in> set new. storable j"
  shows "nas_ok (s\<lparr>n_jobs := n_jobs s @ new\<rparr>)"
proof -
  note o = nas_okD[OF ok]
  let ?js = "n_jobs s @ new"
  have b: "j_id (new ! k) = ids k" "j_status (new ! k) = JQueued"
    "j_depends (new ! k) = PNone \<or> 0 < k \<and> j_depends (new ! k) = PStr (ids 0)" if "k < length new" for k
    using new(1) that by (auto simp: batch_def)
  have dd: "dep_done ?js j" if "dep_done (n_jobs s) j" for j
    using that dependency_at_append dependency_at_Some unfolding dep_done_def by (metis nth_append)
  have first: "dependency_at ?js (PStr (ids 0)) = Some (length (n_jobs s))" if "new \<noteq> []"
  proof -
    have "j_id (n_jobs s ! l) \<noteq> ids 0" if "l < length (n_jobs s)" for l
      using new(2) nth_mem[OF that] unfolding fresh_ids_def by (metis image_eqI)
    then show ?thesis
      using b(1)[of 0] that unfolding dependency_at_def find_Some_iff
      by (intro exI[of _ "length (n_jobs s)"]) (auto simp: nth_append)
  qed
  have "deps_back ?js"
    unfolding deps_back_def
  proof (intro allI impI)
    fix k
    assume k: "k < length ?js" "py_truthy (j_depends (?js ! k))"
    show "\<exists>d < k. dependency_at ?js (j_depends (?js ! k)) = Some d"
    proof (cases "k < length (n_jobs s)")
      case True
      then obtain d where "d < k" "dependency_at (n_jobs s) (j_depends (n_jobs s ! k)) = Some d"
        using o(6) k(2) by (auto simp: deps_back_def nth_append)
      then show ?thesis using dependency_at_append True by (auto simp: nth_append)
    next
      case False
      then have i: "k - length (n_jobs s) < length new" "?js ! k = new ! (k - length (n_jobs s))" using k(1) by (auto simp: nth_append)
      then have "0 < k - length (n_jobs s) \<and> j_depends (?js ! k) = PStr (ids 0)" using b(3)[OF i(1)] k(2) by auto
      moreover have "new \<noteq> []" using i(1) by auto
      ultimately show ?thesis using first by auto
    qed
  qed
  moreover have "tasks_ok (s\<lparr>n_jobs := ?js\<rparr>)"
    using o(1,2,3) dd by (fastforce simp: tasks_ok_def nth_append)
  moreover have "running_owned (s\<lparr>n_jobs := ?js\<rparr>)"
    using o(5) b(2) unfolding running_owned_def by (auto simp: nth_append)
  ultimately show ?thesis using o(4,7) new(3) by (auto simp: nas_ok_def apart_def in_set_conv_nth)
qed

lemma nas_ok_new:
  assumes "\<forall>j \<in> set js. storable j \<and> j_status j \<noteq> JRunning" "deps_back js"
  shows "nas_ok (new_nas js)"
  using assms by (auto simp: nas_ok_def new_nas_def tasks_ok_def apart_def running_owned_def)

lemma cancel_dependents_nth:
  assumes "k < length js"
  shows "cancel_dependents now i js ! k = js ! k \<or> j_status (js ! k) = JQueued \<and> cancel_dependents now i js ! k = canceled_job now (js ! k)"
  using waits_for_queued[of js i k] assms by (simp add: cancel_dependents_result)

lemma length_cancel_dependents [simp]: "length (cancel_dependents now i js) = length js"
  by (simp add: cancel_dependents_result)

lemma quiet_refl: "storable i \<Longrightarrow> quiet js i i"
  by (simp add: quiet_def)

lemma quiet_total: "storable i \<Longrightarrow> 0 \<le> b \<Longrightarrow> quiet js i (i\<lparr>j_total := b\<rparr>)"
  by (simp add: quiet_def storable_def)

lemma quiet_cancel: "storable i \<Longrightarrow> j_status i = JQueued \<Longrightarrow> quiet js i (canceled_job now i)"
  by (simp add: quiet_def canceled_storable)

lemma begin_storable: "storable j \<Longrightarrow> storable (begin_job now j)"
  by (simp add: storable_def begin_job_def split: jkind.splits)

lemma end_storable: "storable j \<Longrightarrow> (case out of OCompleted b c p \<Rightarrow> 0 \<le> b \<and> 0 \<le> c | _ \<Rightarrow> True) \<Longrightarrow> storable (end_job now out j)"
  by (cases out) (simp_all add: storable_def end_job_def)

lemma end_not_running: "j_status j = JRunning \<Longrightarrow> j_status (end_job now out j) \<noteq> JRunning \<and> (out = OCanceled \<longrightarrow> j_status (end_job now out j) = JCanceled)"
  by (cases out) (simp_all add: end_job_def)

lemma task_in: "map_of (n_active s) u = Some (k, p) \<Longrightarrow> (u, k, p) \<in> set (n_active s)"
  by (rule map_of_SomeD)

lemma nas_ok_start:
  assumes ok: "nas_ok s" and u: "map_of (n_active s) u = Some (k, Created)"
  shows "nas_ok (start_task now u k s)"
proof -
  note t = task_in[OF u]
  have k: "k < length (n_jobs s)" using nas_okD(3)[OF ok t] by simp
  have st: "j_status (begin_job now (n_jobs s ! k)) = JRunning" by (simp add: begin_job_def split: jkind.splits)
  show ?thesis
    unfolding start_task_def Let_def
  proof (rule nas_ok_task[OF ok t])
    fix l assume "l < length (n_jobs s)" "l \<noteq> k"
    then show "quiet (n_jobs s) (n_jobs s ! l) ((n_jobs s)[k := begin_job now (n_jobs s ! k)] ! l)"
      using nas_okD(7)[OF ok] quiet_refl by simp
  qed (use k st begin_storable nas_okD(7)[OF ok k] in \<open>simp_all add: phase_ok_def\<close>)
qed

lemma nas_ok_drop:
  assumes ok: "nas_ok s" and u: "map_of (n_active s) u = Some (k, Created)"
  shows "nas_ok (set_task u k Finished s)"
proof -
  note t = task_in[OF u]
  note old = nas_okD(3)[OF ok t]
  have "nas_ok (set_task u k Finished (s\<lparr>n_events := n_events s, n_jobs := n_jobs s\<rparr>))"
  proof (rule nas_ok_task[OF ok t])
    fix l assume "l < length (n_jobs s)" "l \<noteq> k"
    then show "quiet (n_jobs s) (n_jobs s ! l) (n_jobs s ! l)" using nas_okD(7)[OF ok] quiet_refl by simp
  qed (use old nas_okD(7)[OF ok] in \<open>auto simp: phase_ok_def\<close>)
  then show ?thesis by simp
qed

lemma nas_ok_finish:
  assumes ok: "nas_ok s" and u: "map_of (n_active s) u = Some (k, Started)"
    and out: "case out of OCompleted b c p \<Rightarrow> 0 \<le> b \<and> 0 \<le> c | _ \<Rightarrow> True"
  shows "nas_ok (finish_task now out u k s)"
proof -
  note t = task_in[OF u]
  have k: "k < length (n_jobs s)" "j_status (n_jobs s ! k) = JRunning" using nas_okD(3)[OF ok t] by (simp_all add: phase_ok_def)
  let ?j = "n_jobs s ! k" and ?e = "end_job now out (n_jobs s ! k)"
  let ?js = "after_end now out ?j ((n_jobs s)[k := ?e])"
  have e: "storable ?e" "j_status ?e \<noteq> JRunning" "out = OCanceled \<Longrightarrow> j_status ?e = JCanceled"
    using end_storable[OF nas_okD(7)[OF ok k(1)] out] end_not_running[OF k(2)] by simp_all
  have each: "l \<noteq> k \<Longrightarrow> quiet (n_jobs s) (n_jobs s ! l) (?js ! l)" "l = k \<Longrightarrow> core (?js ! l) = core ?j \<and> storable (?js ! l) \<and> j_status (?js ! l) = j_status ?e"
    if l: "l < length (n_jobs s)" for l
  proof -
    note st = nas_okD(7)[OF ok l]
    show "quiet (n_jobs s) (n_jobs s ! l) (?js ! l)" if "l \<noteq> k"
    proof (cases out)
      case (OCompleted b c p)
      then show ?thesis using that l st out quiet_refl quiet_total by (auto simp: after_end_def)
    next
      case OCanceled
      then show ?thesis
        using that l st quiet_refl quiet_cancel cancel_dependents_nth[of l "(n_jobs s)[k := ?e]" now "j_id ?j"] by (auto simp: after_end_def)
    qed (use that l st quiet_refl in \<open>auto simp: after_end_def\<close>)
    show "core (?js ! l) = core ?j \<and> storable (?js ! l) \<and> j_status (?js ! l) = j_status ?e" if "l = k"
    proof (cases out)
      case (OCompleted b c p)
      then have "storable (?e\<lparr>j_total := c\<rparr>)" using e(1) out by (simp add: storable_def)
      then show ?thesis using that l e(1) OCompleted by (auto simp: after_end_def)
    next
      case OCanceled
      then show ?thesis
        using that l e cancel_dependents_nth[of l "(n_jobs s)[k := ?e]" now "j_id ?j"] by (auto simp: after_end_def)
    qed (use that l e in \<open>auto simp: after_end_def\<close>)
  qed
  have len: "length ?js = length (n_jobs s)" by (simp add: after_end_def split: outcome.splits)
  show ?thesis
    unfolding finish_task_def Let_def
    by (rule nas_ok_task[OF ok t _ len]) (use each k(1) e(2) in \<open>auto simp: phase_ok_def\<close>)
qed

lemma nas_ok_cancel:
  assumes ok: "nas_ok s" and c: "cancel_transfer now i s = Inr (s', j)"
  shows "nas_ok s'"
proof -
  obtain k where d: "dependency_at (n_jobs s) (PStr i) = Some k" using c by (auto simp: cancel_transfer_def split: option.splits)
  have k: "k < length (n_jobs s)" using dependency_at_Some[OF d] by simp
  note st = nas_okD(7)[OF ok]
  let ?j = "n_jobs s ! k"
  have q: "nas_ok (s\<lparr>n_jobs := js\<rparr>) \<Longrightarrow> nas_ok (s\<lparr>n_jobs := js, n_events := ev\<rparr>)" for js ev
    by (rule nas_ok_frame[of "s\<lparr>n_jobs := js\<rparr>"]) simp_all
  consider "s' = s" | "j_status ?j = JRunning" "s' = s\<lparr>n_jobs := (n_jobs s)[k := ?j\<lparr>j_phase := Some ''canceling'', j_error := PNone\<rparr>], n_events := set_event i (n_events s)\<rparr>"
    | "j_status ?j = JQueued" "s' = s\<lparr>n_jobs := cancel_dependents now i ((n_jobs s)[k := canceled_job now ?j]), n_events := set_event i (n_events s)\<rparr>"
    using c d by (cases "j_status ?j") (auto simp: cancel_transfer_def Let_def final_state_def split: if_splits)
  then show ?thesis
  proof cases
    case 1
    then show ?thesis using ok by simp
  next
    case 2
    have "nas_ok (s\<lparr>n_jobs := (n_jobs s)[k := ?j\<lparr>j_phase := Some ''canceling'', j_error := PNone\<rparr>]\<rparr>)"
    proof (rule nas_ok_quiet[OF ok])
      fix l assume l: "l < length (n_jobs s)"
      then show "quiet (n_jobs s) (n_jobs s ! l) ((n_jobs s)[k := ?j\<lparr>j_phase := Some ''canceling'', j_error := PNone\<rparr>] ! l)"
        using st[OF l] by (cases "l = k") (simp_all add: quiet_def storable_def)
    qed simp
    then show ?thesis unfolding 2(2) by (rule q)
  next
    case 3
    let ?js = "(n_jobs s)[k := canceled_job now ?j]"
    have "nas_ok (s\<lparr>n_jobs := cancel_dependents now i ?js\<rparr>)"
    proof (rule nas_ok_quiet[OF ok])
      fix l assume l: "l < length (n_jobs s)"
      show "quiet (n_jobs s) (n_jobs s ! l) (cancel_dependents now i ?js ! l)"
        using cancel_dependents_nth[of l ?js now i] l k st[OF l] 3(1) quiet_refl quiet_cancel by (cases "l = k") auto
    qed simp
    then show ?thesis unfolding 3(2) by (rule q)
  qed
qed

lemma nas_ok_restart:
  assumes ok: "nas_ok s" and l: "load_jobs fl ids now (Some (PList (map (dump_job fr) (n_jobs s)))) = Inr (js, b)"
  shows "nas_ok (new_nas js)"
proof -
  have st: "\<forall>j \<in> set (n_jobs s). storable j" using ok by (simp add: nas_ok_def)
  have js: "js = map (recovered now) (n_jobs s)" using l by (simp add: load_jobs_def load_entries_dump[OF st])
  have c: "core (recovered now j) = core j" "j_status (recovered now j) \<noteq> JRunning" for j
    by (auto simp: core_def recovered_def Let_def)
  have "deps_back js"
    by (rule deps_back_core[OF _ _ nas_okD(6)[OF ok]]) (simp_all add: js c)
  then show ?thesis using st c(2) recovered_storable by (intro nas_ok_new) (auto simp: js)
qed

lemma nas_ok_step: "nas_step s s' \<Longrightarrow> nas_ok s \<Longrightarrow> nas_ok s'"
proof (induction rule: nas_step.induct)
  case (copy en nodes storage ids now q seen new s)
  then show ?case using queue_transfer_batch queue_transfer_storable nas_ok_append by (metis fresh_ids_def)
next
  case (download en nodes storage ids now d seen new s)
  then show ?case using queue_download_batch queue_download_storable nas_ok_append by (metis fresh_ids_def)
next
  case (progress s u k b c st ph e cb a)
  show ?case
  proof (rule nas_ok_quiet[OF progress.prems])
    fix l assume l: "l < length (n_jobs s)"
    then show "quiet (n_jobs s) (n_jobs s ! l) ((n_jobs s)[k := progress_job b c ph e cb a st (n_jobs s ! k)] ! l)"
      using nas_okD(7)[OF progress.prems l] progress.hyps by (cases "l = k") (simp_all add: quiet_def storable_def progress_job_def core_def)
  qed simp
next
  case (admit m adm s s')
  then show ?case by (auto simp: reserve_stream_def split: if_splits intro: nas_ok_frame)
qed (auto simp: release_stream_def reserve_update_def end_update_def Let_def intro: nas_ok_pass nas_ok_start nas_ok_drop nas_ok_finish nas_ok_cancel
  nas_ok_restart nas_ok_frame)

lemma nas_ok_reachable: "nas_reachable s \<Longrightarrow> nas_ok s"
  unfolding nas_reachable_def
proof (induction rule: rtranclp_induct)
  case base
  show ?case by (rule nas_ok_new) (simp_all add: deps_back_def)
qed (rule nas_ok_step)

end
