(* ===== verification/Nas_Properties.thy ===== *)
theory Nas_Properties imports Nas_Safety
begin

text \<open>
  What the invariant of the virtual NAS gives: exclusive nodes, dependencies before dependents, and a
  dispatcher that leaves nothing waiting without a reason.
\<close>

section \<open>The end of a dispatcher pass\<close>

text \<open>The last search of a pass found nothing, on the nodes that are busy afterwards.\<close>

lemma dispatch_last:
  "\<not> n_update s \<Longrightarrow> \<exists>js. next_queue_job now (busy_nodes (dispatch now s)) js = (None, n_jobs (dispatch now s))"
proof (induction now s rule: dispatch.induct)
  case (1 now s)
  obtain r js where n: "next_queue_job now (busy_nodes s) (n_jobs s) = (r, js)" by (cases "next_queue_job now (busy_nodes s) (n_jobs s)")
  show ?case
  proof (cases r)
    case None
    then have "dispatch now s = s\<lparr>n_jobs := js\<rparr>" using n "1.prems" by (simp add: dispatch.simps)
    then show ?thesis using n None by (intro exI[of _ "n_jobs s"]) (simp add: busy_nodes_def)
  next
    case (Some k)
    have "dispatch now s = dispatch now (launch k (s\<lparr>n_jobs := js\<rparr>))" using n Some "1.prems" by (subst dispatch.simps) simp
    moreover have "\<not> n_update (launch k (s\<lparr>n_jobs := js\<rparr>))" using "1.prems" by (simp add: launch_def Let_def)
    ultimately show ?thesis using "1.IH"[OF "1.prems" n[symmetric] Some] by simp
  qed
qed

lemma in_updateD: "x \<in> set (AList.update k v d) \<Longrightarrow> x = (k, v) \<or> x \<in> set d"
  by (induction d) (auto split: if_splits)

lemma dispatch_unfinished:
  "\<forall>(t, k, p) \<in> set (n_active s). p \<noteq> Finished \<Longrightarrow> \<forall>(t, k, p) \<in> set (n_active (dispatch now s)). p \<noteq> Finished"
proof (induction now s rule: dispatch.induct)
  case (1 now s)
  obtain r js where n: "next_queue_job now (busy_nodes s) (n_jobs s) = (r, js)" by (cases "next_queue_job now (busy_nodes s) (n_jobs s)")
  have launched: "\<forall>(t, k, p) \<in> set (n_active (launch k (s\<lparr>n_jobs := js\<rparr>))). p \<noteq> Finished" for k
    using "1.prems" by (auto simp: launch_def Let_def dest!: in_updateD)
  show ?case
  proof (cases "n_update s")
    case True
    then show ?thesis using "1.prems" by (simp add: dispatch.simps)
  next
    case False
    then show ?thesis
      using n "1.prems" "1.IH"[OF False n[symmetric] _ launched] by (subst dispatch.simps) (auto split: option.splits)
  qed
qed

lemma pass_unfinished: "nas_ok s \<Longrightarrow> (t, k, p) \<in> set (n_active (dispatch_pass now s)) \<Longrightarrow> p \<noteq> Finished"
  using dispatch_unfinished[of "reap s" now] reaped_unfinished unfolding dispatch_pass_def by blast

text \<open>A job left queued needs an occupied node, or a job before it that is queued or running.\<close>

definition waits_with_reason :: "nas \<Rightarrow> nat \<Rightarrow> bool" where
  "waits_with_reason s k \<longleftrightarrow> job_endpoints (n_jobs s ! k) \<inter> busy_nodes s \<noteq> {} \<or>
     (\<exists>d < k. PStr (j_id (n_jobs s ! d)) = j_depends (n_jobs s ! k) \<and> active_state (j_status (n_jobs s ! d)))"

lemma pass_reason:
  assumes ok: "nas_ok s" and up: "\<not> n_update s" and k: "k < length (n_jobs (dispatch_pass now s))"
    "j_status (n_jobs (dispatch_pass now s) ! k) = JQueued"
  shows "waits_with_reason (dispatch_pass now s) k"
proof -
  let ?s = "dispatch_pass now s"
  obtain js where n: "next_queue_job now (busy_nodes ?s) js = (None, n_jobs ?s)"
    using dispatch_last[of "reap s" now] up by (auto simp: dispatch_pass_def reap_def)
  note each = next_queue_job_each[OF n]
  have kl: "k < length js" using k(1) each(1) by simp
  obtain js1 where j: "length js1 = length js" "\<forall>l < k. n_jobs ?s ! l = js1 ! l" "\<forall>l < length js. j_id (js1 ! l) = j_id (js ! l)"
    "held (busy_nodes ?s) js1 (n_jobs ?s ! k)"
    using next_job_None[OF n[unfolded next_queue_job_def], of k] kl k(2) by (simp, blast)
  show ?thesis
  proof (cases "job_endpoints (n_jobs ?s ! k) \<inter> busy_nodes ?s = {}")
    case True
    then have p: "\<not> dep_dead js1 (n_jobs ?s ! k)" "dep_pending js1 (n_jobs ?s ! k)" using j(4) by (auto simp: held_def)
    then obtain d where d: "py_truthy (j_depends (n_jobs ?s ! k))" "dependency_at js1 (j_depends (n_jobs ?s ! k)) = Some d"
      "j_status (js1 ! d) \<noteq> JCompleted" "j_status (js1 ! d) \<noteq> JFailed" "j_status (js1 ! d) \<noteq> JCanceled"
      by (auto simp: dep_dead_def dep_pending_def split: option.splits)
    have "j_id (n_jobs ?s ! l) = j_id (js1 ! l)" if "l < length js1" for l
      using each(2)[of l] j(1,3) that by (metis failed_job_simps(1))
    then have "dependency_at (n_jobs ?s) (j_depends (n_jobs ?s ! k)) = Some d"
      using dependency_at_cong[of "n_jobs ?s" js1] each(1) j(1) d(2) by simp
    then have "d < k" using nas_okD(6)[OF nas_ok_pass[OF ok]] k(1) d(1) by (fastforce simp: deps_back_def)
    moreover then have "active_state (j_status (n_jobs ?s ! d))" using d(3-5) j(2) by (cases "j_status (js1 ! d)") (auto simp: active_state_def)
    moreover have "PStr (j_id (n_jobs ?s ! d)) = j_depends (n_jobs ?s ! k)"
      using \<open>dependency_at (n_jobs ?s) (j_depends (n_jobs ?s ! k)) = Some d\<close> dependency_at_Some by blast
    ultimately show ?thesis by (auto simp: waits_with_reason_def)
  qed (simp add: waits_with_reason_def)
qed

lemma pass_serves:
  assumes ok: "nas_ok s" and up: "\<not> n_update s"
  shows "k < length (n_jobs (dispatch_pass now s)) \<Longrightarrow> j_status (n_jobs (dispatch_pass now s) ! k) = JQueued \<Longrightarrow>
    n_active (dispatch_pass now s) \<noteq> []"
proof (induction k rule: less_induct)
  case (less k)
  let ?s = "dispatch_pass now s"
  note o = nas_okD[OF nas_ok_pass[OF ok, of now]]
  from pass_reason[OF ok up less.prems] show ?case
    unfolding waits_with_reason_def
  proof
    assume "job_endpoints (n_jobs ?s ! k) \<inter> busy_nodes ?s \<noteq> {}"
    then have "n_endpoints ?s \<noteq> []" by (auto simp: busy_nodes_def)
    then show ?thesis using o(2) by auto
  next
    assume "\<exists>d < k. PStr (j_id (n_jobs ?s ! d)) = j_depends (n_jobs ?s ! k) \<and> active_state (j_status (n_jobs ?s ! d))"
    then obtain d where d: "d < k" "j_status (n_jobs ?s ! d) = JQueued \<or> j_status (n_jobs ?s ! d) = JRunning" by (auto simp: active_state_def)
    have dl: "d < length (n_jobs ?s)" using d(1) less.prems(1) by simp
    show ?thesis
    proof (cases "j_status (n_jobs ?s ! d) = JQueued")
      case True
      then show ?thesis using less.IH d(1) dl by blast
    next
      case False
      then show ?thesis using d(2) o(5)[OF dl] by force
    qed
  qed
qed

section \<open>Properties\<close>

text \<open>C35: a node takes part in at most one running copy or download: in every reachable state of the virtual NAS, two jobs that
  run have no node in common.\<close>

theorem nas_nodes_exclusive:
  assumes "nas_reachable s" "k < length (n_jobs s)" "l < length (n_jobs s)" "k \<noteq> l"
    "j_status (n_jobs s ! k) = JRunning" "j_status (n_jobs s ! l) = JRunning"
  shows "job_endpoints (n_jobs s ! k) \<inter> job_endpoints (n_jobs s ! l) = {}"
proof -
  note ok = nas_ok_reachable[OF assms(1)]
  note o = nas_okD[OF ok]
  let ?t = "\<lambda>k. j_target (n_jobs s ! k)"
  have a: "(?t k, k, Started) \<in> set (n_active s)" "(?t l, l, Started) \<in> set (n_active s)" using o(5) assms by simp_all
  have "?t k \<noteq> ?t l"
  proof
    assume "?t k = ?t l"
    then have "(k, Started) = (l, Started)" using task_unique[OF ok a(1), of "(l, Started)"] a(2) by simp
    then show False using assms(4) by simp
  qed
  then show ?thesis using o(4) o(3)[OF a(1)] o(3)[OF a(2)] unfolding apart_def by blast
qed

text \<open>C36: nothing runs before what it needs: in every reachable state, a running job that depends on another one comes after it
  in the queue, and that job is completed.\<close>

theorem nas_dependency_first:
  assumes "nas_reachable s" "k < length (n_jobs s)" "j_status (n_jobs s ! k) = JRunning" "py_truthy (j_depends (n_jobs s ! k))"
  shows "\<exists>d < k. PStr (j_id (n_jobs s ! d)) = j_depends (n_jobs s ! k) \<and> j_status (n_jobs s ! d) = JCompleted"
proof -
  note o = nas_okD[OF nas_ok_reachable[OF assms(1)]]
  have "(j_target (n_jobs s ! k), k, Started) \<in> set (n_active s)" by (rule o(5)[OF assms(2,3)])
  then have "dep_done (n_jobs s) (n_jobs s ! k)" using o(3) by blast
  then obtain d where d: "dependency_at (n_jobs s) (j_depends (n_jobs s ! k)) = Some d" "j_status (n_jobs s ! d) = JCompleted"
    using assms(4) by (auto simp: dep_done_def)
  then have "d < k" using o(6) assms(2,4) by (fastforce simp: deps_back_def)
  then show ?thesis using d dependency_at_Some by blast
qed

text \<open>C37: the queue never stalls: after a dispatcher pass with no update reserved, a job that is still queued needs a node in use
  or a job before it that is queued or running, and at least one task is unfinished, so that the queue will be visited again.\<close>

theorem nas_queue_moves:
  assumes "nas_reachable s" "\<not> n_update s" "k < length (n_jobs (dispatch_pass now s))"
    "j_status (n_jobs (dispatch_pass now s) ! k) = JQueued"
  shows "waits_with_reason (dispatch_pass now s) k \<and> (\<exists>(t, l, p) \<in> set (n_active (dispatch_pass now s)). p \<noteq> Finished)"
proof -
  note ok = nas_ok_reachable[OF assms(1)]
  have "n_active (dispatch_pass now s) \<noteq> []" by (rule pass_serves[OF ok assms(2-4)])
  then obtain t l p where "(t, l, p) \<in> set (n_active (dispatch_pass now s))" by (metis last_in_set prod_cases3)
  then show ?thesis using pass_reason[OF ok assms(2-4)] pass_unfinished[OF ok] by blast
qed

section \<open>An example run\<close>

text \<open>A model is downloaded on the nodes \<open>a\<close> and \<open>b\<close> and copied from \<open>a\<close> to \<open>c\<close>.\<close>

definition nas_demo_sha40 :: string where
  "nas_demo_sha40 = replicate 40 (CHR ''a'')"

definition nas_demo_download :: download_request where
  "nas_demo_download = \<lparr>d_model = PStr ''o/m'', d_revision = PStr nas_demo_sha40, d_node = PStr ''a'', d_targets = [PStr ''c''],
     d_expected = PInt 10, d_workflow = PNone, d_workflow_nodes = [], d_more_nodes = [PStr ''b''], d_source = PNone,
     d_requested = PNone, d_partial = False, d_baseline = PNone, d_files = None\<rparr>"

definition nas_demo_nodes :: node_views where
  "nas_demo_nodes n = Some \<lparr>nv_name = n, nv_enabled = True, nv_online = True, nv_caps = [download_capability]\<rparr>"

definition nas_demo_storage :: storage_views where
  "nas_demo_storage n = Inr \<lparr>sv_models = [], sv_free = PInt (10 ^ 12)\<rparr>"

definition nas_demo_ids :: "nat \<Rightarrow> string" where
  "nas_demo_ids n = replicate (Suc n) (CHR ''j'')"

lemma nas_demo_queued: "queue_download True nas_demo_nodes nas_demo_storage nas_demo_ids (Finite 1) nas_demo_download [] = Inr
   [download_job ''j'' nas_demo_download ''o/m'' nas_demo_sha40 nas_demo_sha40 10 None (Finite 1) ''a'' (''a'', 0, 0),
    download_job ''jj'' nas_demo_download ''o/m'' nas_demo_sha40 nas_demo_sha40 10 None (Finite 1) ''a'' (''b'', 0, 0),
    fanout_job ''jjj'' nas_demo_download ''o/m'' nas_demo_sha40 nas_demo_sha40 10 ''a'' ''j'' (Finite 1) ''c'']"
  by code_simp

definition nas_demo_start :: nas where
  "nas_demo_start = (new_nas [])\<lparr>n_jobs :=
     [download_job ''j'' nas_demo_download ''o/m'' nas_demo_sha40 nas_demo_sha40 10 None (Finite 1) ''a'' (''a'', 0, 0),
      download_job ''jj'' nas_demo_download ''o/m'' nas_demo_sha40 nas_demo_sha40 10 None (Finite 1) ''a'' (''b'', 0, 0),
      fanout_job ''jjj'' nas_demo_download ''o/m'' nas_demo_sha40 nas_demo_sha40 10 ''a'' ''j'' (Finite 1) ''c'']\<rparr>"

text \<open>Both downloads run; then the first one is done and the copy runs beside the second.\<close>

definition nas_demo_two :: nas where
  "nas_demo_two = start_task (PInt 2) ''b'' 1 (start_task (PInt 2) ''a'' 0 (dispatch_pass (PInt 2) nas_demo_start))"

definition nas_demo_three :: nas where
  "nas_demo_three = start_task (PInt 3) ''c'' 2 (dispatch_pass (PInt 3) (finish_task (PInt 3) (OCompleted 10 10 True) ''a'' 0 nas_demo_two))"

lemma nas_demo_start_reachable: "nas_reachable nas_demo_start"
proof -
  have "inj nas_demo_ids" by (rule inj_onI) (auto simp: nas_demo_ids_def dest: arg_cong[where f = length])
  then have "fresh_ids nas_demo_ids (new_nas [])" by (simp add: fresh_ids_def new_nas_def nas_demo_ids_def)
  moreover have "name_or_none (d_node nas_demo_download)" "name_or_none (d_source nas_demo_download)"
    by (simp_all add: nas_demo_download_def name_or_none_def)
  ultimately have "nas_step (new_nas []) ((new_nas [])\<lparr>n_jobs := n_jobs (new_nas []) @
      [download_job ''j'' nas_demo_download ''o/m'' nas_demo_sha40 nas_demo_sha40 10 None (Finite 1) ''a'' (''a'', 0, 0),
       download_job ''jj'' nas_demo_download ''o/m'' nas_demo_sha40 nas_demo_sha40 10 None (Finite 1) ''a'' (''b'', 0, 0),
       fanout_job ''jjj'' nas_demo_download ''o/m'' nas_demo_sha40 nas_demo_sha40 10 ''a'' ''j'' (Finite 1) ''c'']\<rparr>)"
    by (intro nas_step.download[OF nas_demo_queued]) simp_all
  then have "nas_step (new_nas []) nas_demo_start" by (simp add: nas_demo_start_def new_nas_def)
  then show ?thesis unfolding nas_reachable_def by (rule r_into_rtranclp)
qed

lemma reachable_step: "nas_reachable s \<Longrightarrow> nas_step s s' \<Longrightarrow> nas_reachable s'"
  unfolding nas_reachable_def by (rule rtranclp.rtrancl_into_rtrancl)

lemma nas_demo_two_reachable: "nas_reachable nas_demo_two"
proof -
  let ?p = "dispatch_pass (PInt 2) nas_demo_start"
  have "nas_reachable ?p" by (rule reachable_step[OF nas_demo_start_reachable nas_step.pass])
  moreover have "map_of (n_active ?p) ''a'' = Some (0, Created)" by code_simp
  ultimately have "nas_reachable (start_task (PInt 2) ''a'' 0 ?p)" by (rule reachable_step[OF _ nas_step.start])
  moreover have "map_of (n_active (start_task (PInt 2) ''a'' 0 ?p)) ''b'' = Some (1, Created)" by code_simp
  ultimately show ?thesis unfolding nas_demo_two_def by (rule reachable_step[OF _ nas_step.start])
qed

lemma nas_demo_three_reachable: "nas_reachable nas_demo_three"
proof -
  let ?f = "finish_task (PInt 3) (OCompleted 10 10 True) ''a'' 0 nas_demo_two"
  have "map_of (n_active nas_demo_two) ''a'' = Some (0, Started)" by code_simp
  then have "nas_reachable ?f" by (intro reachable_step[OF nas_demo_two_reachable nas_step.finish]) simp_all
  then have "nas_reachable (dispatch_pass (PInt 3) ?f)" by (rule reachable_step[OF _ nas_step.pass])
  moreover have "map_of (n_active (dispatch_pass (PInt 3) ?f)) ''c'' = Some (2, Created)" by code_simp
  ultimately show ?thesis unfolding nas_demo_three_def by (rule reachable_step[OF _ nas_step.start])
qed

lemma nas_nodes_exclusive_witness:
  "length (n_jobs nas_demo_two) = 3 \<and> j_status (n_jobs nas_demo_two ! 0) = JRunning \<and> j_status (n_jobs nas_demo_two ! 1) = JRunning \<and>
   job_endpoints (n_jobs nas_demo_two ! 0) \<inter> job_endpoints (n_jobs nas_demo_two ! 1) = {}"
proof -
  have a: "length (n_jobs nas_demo_two) = 3" "j_status (n_jobs nas_demo_two ! 0) = JRunning" "j_status (n_jobs nas_demo_two ! 1) = JRunning" by code_simp+
  then show ?thesis using nas_nodes_exclusive[OF nas_demo_two_reachable, of 0 1] by simp
qed

lemma nas_dependency_first_witness:
  "j_status (n_jobs nas_demo_three ! 2) = JRunning \<and> (\<exists>d < 2. PStr (j_id (n_jobs nas_demo_three ! d)) = PStr ''j'' \<and> j_status (n_jobs nas_demo_three ! d) = JCompleted)"
proof -
  have a: "length (n_jobs nas_demo_three) = 3" "j_status (n_jobs nas_demo_three ! 2) = JRunning" "j_depends (n_jobs nas_demo_three ! 2) = PStr ''j''" by code_simp+
  then show ?thesis using nas_dependency_first[OF nas_demo_three_reachable, of 2] by simp
qed

lemma nas_queue_moves_witness:
  "j_status (n_jobs (dispatch_pass (PInt 2) nas_demo_start) ! 2) = JQueued \<and> waits_with_reason (dispatch_pass (PInt 2) nas_demo_start) 2 \<and>
   (\<exists>(t, l, p) \<in> set (n_active (dispatch_pass (PInt 2) nas_demo_start)). p \<noteq> Finished)"
proof -
  have a: "length (n_jobs (dispatch_pass (PInt 2) nas_demo_start)) = 3" "j_status (n_jobs (dispatch_pass (PInt 2) nas_demo_start) ! 2) = JQueued"
    "\<not> n_update nas_demo_start" by code_simp+
  then show ?thesis using nas_queue_moves[OF nas_demo_start_reachable, of 2 "PInt 2"] by simp
qed

section \<open>A canceled job that runs\<close>

text \<open>
  A job canceled between its dispatch and the start of its task is running afterwards: the runs set the status
  without looking at it.
\<close>

lemma canceled_job_runs:
  "\<exists>s s'. nas_reachable s \<and> j_status (n_jobs s ! 0) = JCanceled \<and> nas_step s s' \<and> j_status (n_jobs s' ! 0) = JRunning"
proof -
  let ?p = "dispatch_pass (PInt 2) nas_demo_start"
  obtain s j where c: "cancel_transfer (PInt 2) ''j'' ?p = Inr (s, j)" "j_status (n_jobs s ! 0) = JCanceled"
    "map_of (n_active s) ''a'' = Some (0, Created)" "n_jobs s \<noteq> []"
  proof -
    have "case cancel_transfer (PInt 2) ''j'' ?p of Inl e \<Rightarrow> False
      | Inr (s, j) \<Rightarrow> j_status (n_jobs s ! 0) = JCanceled \<and> map_of (n_active s) ''a'' = Some (0, Created) \<and> n_jobs s \<noteq> []" by code_simp
    then show thesis using that by (auto split: sum.splits)
  qed
  have "nas_reachable s" by (rule reachable_step[OF reachable_step[OF nas_demo_start_reachable nas_step.pass] nas_step.cancel[OF c(1)]])
  moreover have "nas_step s (start_task (PInt 2) ''a'' 0 s)" by (rule nas_step.start[OF c(3)])
  moreover have "j_status (n_jobs (start_task (PInt 2) ''a'' 0 s) ! 0) = JRunning"
    using c(4) by (simp add: start_task_def Let_def set_task_def begin_job_def split: jkind.splits)
  ultimately show ?thesis using c(2) by blast
qed

end
