(* ===== verification/Responses_Request.thy ===== *)
theory Responses_Request imports Py_Values
begin

text \<open>
  The Responses protocol adapter (\<open>sparkdeck/responses.py\<close>), first half: values of JSON accessed as the
  code accesses them, the tools of a request with their namespaces, and the translation of a stateless
  Responses request into a chat request.  \<open>dumps\<close> stands for \<open>json.dumps\<close>.
\<close>

section \<open>Access to values\<close>

type_synonym obj = "(string \<times> pyval) list"

text \<open>\<open>value.get(key, default)\<close>, \<open>value[key]\<close> and the values a \<open>for\<close> loop visits\<close>

fun getE :: "pyval \<Rightarrow> string \<Rightarrow> pyval \<Rightarrow> pyval result" where
  "getE (PDict m) k d = Inr (case map_of m k of None \<Rightarrow> d | Some x \<Rightarrow> x)"
| "getE v k d = Inl (AttributeError ''get'')"

fun itemE :: "pyval \<Rightarrow> string \<Rightarrow> pyval result" where
  "itemE (PDict m) k = (case map_of m k of None \<Rightarrow> Inl (KeyError k) | Some x \<Rightarrow> Inr x)"
| "itemE v k = Inl (TypeError ''subscript'')"

fun iterE :: "pyval \<Rightarrow> pyval list result" where
  "iterE (PList xs) = Inr xs"
| "iterE (PDict m) = Inr (map (PStr \<circ> fst) m)"
| "iterE (PStr s) = Inr (map (\<lambda>c. PStr [c]) s)"
| "iterE v = Inl (TypeError ''not iterable'')"

text \<open>\<open>{**value}\<close>, and \<open>a + b\<close> where both must be texts\<close>

fun objE :: "pyval \<Rightarrow> obj result" where
  "objE (PDict m) = Inr m"
| "objE v = Inl (TypeError ''not a mapping'')"

fun textE :: "pyval \<Rightarrow> string result" where
  "textE (PStr s) = Inr s"
| "textE v = Inl (TypeError ''not a text'')"

text \<open>\<open>value += text\<close>: a list is extended by the characters of the text.\<close>

fun extended :: "pyval \<Rightarrow> string \<Rightarrow> pyval result" where
  "extended (PStr s) t = Inr (PStr (s @ t))"
| "extended (PList xs) t = Inr (PList (xs @ map (\<lambda>c. PStr [c]) t))"
| "extended v t = Inl (TypeError ''unsupported operand'')"

text \<open>Equality of hashable values: numbers compare by value.  Lists and dictionaries are not hashable.\<close>

fun number_value :: "pyval \<Rightarrow> pyfloat option" where
  "number_value (PBool b) = Some (Finite (if b then 1 else 0))"
| "number_value (PInt i) = Some (Finite (of_int i))"
| "number_value (PFloat f t) = Some f"
| "number_value v = None"

definition same_key :: "pyval \<Rightarrow> pyval \<Rightarrow> bool" where
  "same_key a b = (case number_value a of Some x \<Rightarrow> number_value b = Some x | None \<Rightarrow> a = b)"

fun hashE :: "pyval \<Rightarrow> unit result" where
  "hashE (PList xs) = Inl (TypeError ''unhashable type'')"
| "hashE (PDict m) = Inl (TypeError ''unhashable type'')"
| "hashE v = Inr ()"

section \<open>Tools\<close>

record flat_tool =
  ft_tool :: obj
  ft_space :: pyval
  ft_name :: pyval

text \<open>The qualified name of a tool or of a call: \<open>namespace__name\<close>.\<close>

definition qual_name :: "pyval \<Rightarrow> pyval \<Rightarrow> string" where
  "qual_name ns n = py_str ns @ ''__'' @ py_str n"

definition tool_children :: "pyval \<Rightarrow> (pyval \<times> pyval list) result" where
  "tool_children tool = bindE (getE tool ''type'' PNone) (\<lambda>kind.
     bindE (if kind = PStr ''namespace'' then getE tool ''name'' PNone else Inr PNone) (\<lambda>ns.
     bindE (if py_truthy ns then bindE (getE tool ''tools'' (PList [])) iterE else Inr [tool]) (\<lambda>cs.
     Inr (ns, cs))))"

definition tool_names_message :: string where
  "tool_names_message = ''Tool names must be present and unique after namespace expansion''"

definition add_child :: "pyval \<Rightarrow> flat_tool list \<Rightarrow> pyval \<Rightarrow> flat_tool list result" where
  "add_child ns acc child =
     bindE (if py_truthy ns then bindE (itemE child ''name'') (\<lambda>n. Inr (PStr (qual_name ns n)))
            else getE child ''name'' PNone) (\<lambda>name.
     bindE (if py_truthy name then hashE name else Inl (ValueError tool_names_message)) (\<lambda>_.
     if \<exists>t \<in> set acc. same_key (dict_get (ft_tool t) ''name'') name then Inl (ValueError tool_names_message)
     else bindE (objE child) (\<lambda>m. bindE (itemE child ''name'') (\<lambda>n.
       Inr (acc @ [\<lparr>ft_tool = AList.update ''name'' name m, ft_space = ns, ft_name = n\<rparr>])))))"

definition add_tool :: "flat_tool list \<Rightarrow> pyval \<Rightarrow> flat_tool list result" where
  "add_tool acc tool = bindE (tool_children tool) (\<lambda>(ns, cs). foldE (add_child ns) acc cs)"

definition flat_tools :: "obj \<Rightarrow> flat_tool list result" where
  "flat_tools request = bindE (getE (PDict request) ''tools'' (PList [])) (\<lambda>v. bindE (iterE v) (foldE add_tool []))"

definition custom_names :: "obj \<Rightarrow> pyval list result" where
  "custom_names request = bindE (flat_tools request) (\<lambda>ts.
     Inr (map (\<lambda>t. dict_get (ft_tool t) ''name'') (filter (\<lambda>t. dict_get (ft_tool t) ''type'' = PStr ''custom'') ts)))"

definition restore_one :: "obj \<Rightarrow> flat_tool \<Rightarrow> obj" where
  "restore_one item t =
     (if same_key (dict_get (ft_tool t) ''name'') (dict_get item ''name'') \<and> py_truthy (ft_space t)
      then AList.update ''namespace'' (ft_space t) (AList.update ''name'' (ft_name t) item) else item)"

definition restore_namespace :: "obj \<Rightarrow> obj \<Rightarrow> obj result" where
  "restore_namespace item request = bindE (flat_tools request) (\<lambda>ts. Inr (foldl restore_one item ts))"

section \<open>Content\<close>

definition content_part :: "bool \<Rightarrow> pyval \<Rightarrow> obj result" where
  "content_part tool_output part = bindE (getE part ''type'' PNone) (\<lambda>kind.
     if kind \<in> {PStr ''input_text'', PStr ''output_text'', PStr ''text''} then
       bindE (itemE part ''text'') (\<lambda>t. Inr [(''type'', PStr ''text''), (''text'', t)])
     else if kind = PStr ''input_image'' \<and> \<not> tool_output then
       bindE (getE part ''image_url'' PNone) (\<lambda>u.
       if \<not> py_truthy u then Inl (ValueError ''input_image requires image_url; uploaded files are not supported'')
       else bindE (getE part ''detail'' (PStr ''auto'')) (\<lambda>d.
         Inr [(''type'', PStr ''image_url''), (''image_url'', PDict [(''url'', u), (''detail'', d)])]))
     else if kind = PStr ''refusal'' then
       bindE (itemE part ''refusal'') (\<lambda>t. Inr [(''type'', PStr ''text''), (''text'', t)])
     else Inl (ValueError (''Unsupported Responses content type: '' @ py_str kind)))"

fun content :: "bool \<Rightarrow> pyval \<Rightarrow> pyval result" where
  "content tool_output (PStr s) = Inr (PStr s)"
| "content tool_output (PList ps) = bindE (mapE (content_part tool_output) ps) (\<lambda>qs.
     if tool_output then bindE (mapE (\<lambda>q. textE (dict_get q ''text'')) qs) (\<lambda>ts. Inr (PStr (join_with [CHR 0x0A] ts)))
     else Inr (PList (map PDict qs)))"
| "content tool_output v = Inl (ValueError ''Message content must be text or a list of content parts'')"

section \<open>Messages\<close>

definition chat_call :: "(pyval \<Rightarrow> string) \<Rightarrow> pyval \<Rightarrow> pyval \<Rightarrow> obj result" where
  "chat_call dumps kind item =
     bindE (if kind = PStr ''function_call'' then getE item ''arguments'' (PStr [])
            else bindE (getE item ''input'' (PStr [])) (\<lambda>x. Inr (PStr (dumps (PDict [(''input'', x)]))))) (\<lambda>args.
     bindE (itemE item ''call_id'') (\<lambda>cid.
     bindE (getE item ''namespace'' PNone) (\<lambda>ns.
     bindE (itemE item ''name'') (\<lambda>n.
     Inr [(''id'', cid), (''type'', PStr ''function''),
          (''function'', PDict [(''name'', if py_truthy ns then PStr (qual_name ns n) else n),
                               (''arguments'', args)])]))))"

text \<open>\<open>messages[-1].setdefault("tool_calls", []).append(call)\<close>\<close>

fun append_call :: "obj \<Rightarrow> obj \<Rightarrow> obj" where
  "append_call call m = (case map_of m ''tool_calls'' of
     Some (PList cs) \<Rightarrow> AList.update ''tool_calls'' (PList (cs @ [PDict call])) m
   | _ \<Rightarrow> AList.update ''tool_calls'' (PList [PDict call]) m)"

definition add_call :: "obj \<Rightarrow> obj list \<Rightarrow> obj list" where
  "add_call call ms =
     (if ms \<noteq> [] \<and> dict_get (last ms) ''role'' = PStr ''assistant'' then butlast ms @ [append_call call (last ms)]
      else ms @ [[(''role'', PStr ''assistant''), (''content'', PNone), (''tool_calls'', PList [PDict call])]])"

definition chat_message :: "pyval \<Rightarrow> obj result" where
  "chat_message item = bindE (getE item ''role'' (PStr ''user'')) (\<lambda>role.
     if role \<notin> {PStr ''user'', PStr ''assistant'', PStr ''system'', PStr ''developer''}
     then Inl (ValueError (''Unsupported message role: '' @ py_str role))
     else bindE (getE item ''content'' (PStr [])) (\<lambda>c. bindE (content False c) (\<lambda>c'.
       Inr [(''role'', if role = PStr ''developer'' then PStr ''system'' else role), (''content'', c')])))"

definition add_input :: "(pyval \<Rightarrow> string) \<Rightarrow> obj list \<Rightarrow> pyval \<Rightarrow> obj list result" where
  "add_input dumps ms item = bindE (getE item ''type'' (PStr ''message'')) (\<lambda>kind.
     if kind = PStr ''message'' then bindE (chat_message item) (\<lambda>m. Inr (ms @ [m]))
     else if kind \<in> {PStr ''function_call'', PStr ''custom_tool_call''} then
       bindE (chat_call dumps kind item) (\<lambda>call. Inr (add_call call ms))
     else if kind \<in> {PStr ''function_call_output'', PStr ''custom_tool_call_output''} then
       bindE (itemE item ''call_id'') (\<lambda>cid. bindE (getE item ''output'' (PStr [])) (\<lambda>x. bindE (content True x) (\<lambda>c.
         Inr (ms @ [[(''role'', PStr ''tool''), (''tool_call_id'', cid), (''content'', c)]]))))
     else Inl (ValueError (''Unsupported Responses input item: '' @ py_str kind)))"

definition request_inputs :: "obj \<Rightarrow> pyval list result" where
  "request_inputs body = bindE (getE (PDict body) ''input'' (PList [])) (\<lambda>v. case v of
     PStr s \<Rightarrow> Inr [PDict [(''role'', PStr ''user''), (''content'', PStr s)]]
   | PList xs \<Rightarrow> Inr xs
   | _ \<Rightarrow> Inl (ValueError ''input must be a string or an array''))"

definition chat_messages :: "(pyval \<Rightarrow> string) \<Rightarrow> obj \<Rightarrow> obj list result" where
  "chat_messages dumps body = bindE (request_inputs body) (\<lambda>xs.
     let instr = dict_get body ''instructions''
     in foldE (add_input dumps) (if py_truthy instr then [[(''role'', PStr ''system''), (''content'', instr)]] else []) xs)"

section \<open>The chat request\<close>

definition pick_keys :: "string list \<Rightarrow> obj \<Rightarrow> obj" where
  "pick_keys ks m = concat (map (\<lambda>k. case map_of m k of None \<Rightarrow> [] | Some v \<Rightarrow> [(k, v)]) ks)"

definition custom_parameters :: pyval where
  "custom_parameters = PDict [(''type'', PStr ''object''),
     (''properties'', PDict [(''input'', PDict [(''type'', PStr ''string'')])]),
     (''required'', PList [PStr ''input'']), (''additionalProperties'', PBool False)]"

definition chat_tool :: "obj \<Rightarrow> pyval result" where
  "chat_tool t = (let kind = dict_get t ''type'' in
     bindE (if kind = PStr ''function'' then Inr (pick_keys [''name'', ''description'', ''parameters'', ''strict''] t)
       else if kind = PStr ''custom'' then
         bindE (getE (PDict t) ''description'' (PStr [])) (\<lambda>desc.
         bindE (getE (PDict t) ''format'' (PDict [])) (\<lambda>fmt.
         bindE (getE fmt ''type'' PNone) (\<lambda>fkind.
         bindE (if fkind = PStr ''grammar'' then bindE (getE fmt ''definition'' (PStr [])) (\<lambda>d. bindE (textE d) (\<lambda>g.
                  extended desc ([CHR 0x0A] @ ''The input must follow this grammar:'' @ [CHR 0x0A] @ g)))
                else Inr desc) (\<lambda>desc'.
         Inr [(''name'', dict_get t ''name''), (''description'', desc'), (''parameters'', custom_parameters)]))))
       else Inl (ValueError (''Unsupported hosted tool type: '' @ py_str kind))) (\<lambda>f.
     Inr (PDict [(''type'', PStr ''function''), (''function'', PDict f)])))"

fun tool_choice :: "pyval \<Rightarrow> pyval result" where
  "tool_choice (PDict c) = (if dict_get c ''type'' \<notin> {PStr ''function'', PStr ''custom''} then Inl (ValueError ''Unsupported tool_choice'')
     else bindE (itemE (PDict c) ''name'') (\<lambda>n.
       Inr (PDict [(''type'', PStr ''function''), (''function'', PDict [(''name'',
         if py_truthy (dict_get c ''namespace'') then PStr (qual_name (dict_get c ''namespace'') n) else n)])])))"
| "tool_choice v = Inr v"

definition response_format :: "pyval \<Rightarrow> pyval result" where
  "response_format fmt = bindE (getE fmt ''type'' PNone) (\<lambda>kind. bindE (objE fmt) (\<lambda>m.
     if kind = PStr ''json_schema'' then Inr (PDict [(''type'', PStr ''json_schema''),
       (''json_schema'', PDict (pick_keys [''name'', ''schema'', ''strict'', ''description''] m))])
     else if kind \<in> {PStr ''text'', PStr ''json_object''} then Inr fmt
     else Inl (ValueError ''Unsupported text.format'')))"

definition put :: "string \<Rightarrow> pyval \<Rightarrow> obj \<Rightarrow> obj" where
  "put k v m = AList.update k v m"

definition stateless :: "obj \<Rightarrow> unit result" where
  "stateless body =
     bindE (foldE (\<lambda>_ k. checkE (\<not> py_truthy (dict_get body k))
              (ValueError (k @ '' is not supported; send the full input history''))) ()
            [''previous_response_id'', ''conversation'', ''background'']) (\<lambda>_.
     bindE (checkE (\<not> py_truthy (dict_get body ''store''))
              (ValueError ''Stored responses are not supported; use store: false'')) (\<lambda>_.
     bindE (getE (PDict body) ''include'' (PList [])) (\<lambda>inc. bindE (iterE inc) (\<lambda>xs.
     checkE (list_all (\<lambda>x. x = PStr ''reasoning.encrypted_content'') xs)
              (ValueError ''Responses include expansions are not supported'')))))"

definition to_chat_body :: "(pyval \<Rightarrow> string) \<Rightarrow> obj \<Rightarrow> obj result" where
  "to_chat_body dumps body =
     bindE (stateless body) (\<lambda>_.
     bindE (chat_messages dumps body) (\<lambda>ms.
     let stream = py_truthy (dict_get body ''stream'');
         r0 = [(''model'', dict_get body ''model''), (''messages'', PList (map PDict ms)), (''stream'', PBool stream)];
         r1 = r0 @ pick_keys [''temperature'', ''top_p'', ''parallel_tool_calls'', ''user'', ''seed''] body;
         r2 = (case map_of body ''max_output_tokens'' of None \<Rightarrow> r1 | Some v \<Rightarrow> put ''max_tokens'' v r1) in
     bindE (getE (PDict body) ''reasoning'' (PDict [])) (\<lambda>rea. bindE (getE rea ''effort'' PNone) (\<lambda>eff.
     let r3 = (if py_truthy eff then put ''reasoning_effort'' eff r2 else r2) in
     bindE (flat_tools body) (\<lambda>ts. bindE (mapE (\<lambda>t. chat_tool (ft_tool t)) ts) (\<lambda>tools.
     let r4 = (if tools \<noteq> [] then put ''tools'' (PList tools) r3 else r3) in
     bindE (case map_of body ''tool_choice'' of None \<Rightarrow> Inr r4
            | Some c \<Rightarrow> bindE (tool_choice c) (\<lambda>c'. Inr (put ''tool_choice'' c' r4))) (\<lambda>r5.
     bindE (getE (PDict body) ''text'' (PDict [])) (\<lambda>txt. bindE (getE txt ''format'' PNone) (\<lambda>fmt.
     bindE (if py_truthy fmt then bindE (response_format fmt) (\<lambda>f. Inr (put ''response_format'' f r5)) else Inr r5) (\<lambda>r6.
     Inr (if stream then put ''stream_options'' (PDict [(''include_usage'', PBool True)]) r6 else r6)))))))))))"

text \<open>The wrapper turns the errors of a malformed structure into \<open>ValueError\<close>.\<close>

fun structure_error :: "pyexc \<Rightarrow> bool" where
  "structure_error (TypeError s) = True"
| "structure_error (KeyError s) = True"
| "structure_error (AttributeError s) = True"
| "structure_error e = False"

definition relabel :: "(pyexc \<Rightarrow> bool) \<Rightarrow> string \<Rightarrow> 'a result \<Rightarrow> 'a result" where
  "relabel p msg r = (case r of Inl e \<Rightarrow> Inl (if p e then ValueError msg else e) | Inr x \<Rightarrow> Inr x)"

definition to_chat_request :: "(pyval \<Rightarrow> string) \<Rightarrow> pyval \<Rightarrow> obj result" where
  "to_chat_request dumps body = (case body of
     PDict m \<Rightarrow>
       bindE (checkE (case dict_get m ''model'' of PStr s \<Rightarrow> py_strip s \<noteq> [] | _ \<Rightarrow> False)
                (ValueError ''model must be a nonempty string'')) (\<lambda>_.
       bindE (checkE (case map_of m ''stream'' of None \<Rightarrow> True | Some (PBool b) \<Rightarrow> True | _ \<Rightarrow> False)
                (ValueError ''stream must be a boolean'')) (\<lambda>_.
       relabel structure_error ''Invalid Responses request structure'' (to_chat_body dumps m)))
   | _ \<Rightarrow> Inl (ValueError ''Request body must be an object''))"

end
