(* ===== verification/Responses_Items.thy ===== *)
theory Responses_Items imports Responses_Request
begin

text \<open>
  The Responses protocol adapter (\<open>sparkdeck/responses.py\<close>), second half: the output items of a response,
  the conversion of a complete chat response, and what a client gets back when it sends the items of a
  response as the input of its next request.
  Parameters: \<open>loads\<close> for \<open>json.loads\<close>, \<open>hex\<close> for the successive \<open>uuid4().hex\<close>, \<open>fadd\<close> for \<open>a + b\<close> with a float.
  The number \<open>n\<close> counts the identifiers drawn so far; \<open>now\<close> is the time.
\<close>

section \<open>Usage\<close>

fun whole :: "pyval \<Rightarrow> int option" where
  "whole (PBool b) = Some (if b then 1 else 0)"
| "whole (PInt i) = Some i"
| "whole v = None"

definition py_add :: "(pyval \<Rightarrow> pyval \<Rightarrow> pyval) \<Rightarrow> pyval \<Rightarrow> pyval \<Rightarrow> pyval result" where
  "py_add fadd a b = (case (whole a, whole b) of
     (Some i, Some j) \<Rightarrow> Inr (PInt (i + j))
   | _ \<Rightarrow> if number_value a \<noteq> None \<and> number_value b \<noteq> None then Inr (fadd a b)
          else (case (a, b) of
              (PStr s, PStr t) \<Rightarrow> Inr (PStr (s @ t))
            | (PList xs, PList ys) \<Rightarrow> Inr (PList (xs @ ys))
            | _ \<Rightarrow> Inl (TypeError ''unsupported operand'')))"

definition detail :: "pyval \<Rightarrow> string \<Rightarrow> string \<Rightarrow> pyval result" where
  "detail usage field k = bindE (getE usage field PNone) (\<lambda>d. getE (py_or d (PDict [])) k (PInt 0))"

definition usage_obj :: "(pyval \<Rightarrow> pyval \<Rightarrow> pyval) \<Rightarrow> pyval \<Rightarrow> pyval result" where
  "usage_obj fadd usage = (if usage = PNone then Inr PNone else
     bindE (getE usage ''prompt_tokens'' (PInt 0)) (\<lambda>p.
     bindE (detail usage ''prompt_tokens_details'' ''cached_tokens'') (\<lambda>c.
     bindE (getE usage ''completion_tokens'' (PInt 0)) (\<lambda>q.
     bindE (detail usage ''completion_tokens_details'' ''reasoning_tokens'') (\<lambda>r.
     bindE (py_add fadd p q) (\<lambda>sm.
     bindE (getE usage ''total_tokens'' sm) (\<lambda>t.
     Inr (PDict [(''input_tokens'', p), (''input_tokens_details'', PDict [(''cached_tokens'', c)]),
       (''output_tokens'', q), (''output_tokens_details'', PDict [(''reasoning_tokens'', r)]), (''total_tokens'', t)]))))))))"

section \<open>Output items\<close>

datatype part = TextPart pyval | RefusalPart pyval

fun part_obj :: "part \<Rightarrow> obj" where
  "part_obj (TextPart t) = [(''type'', PStr ''output_text''), (''text'', t), (''annotations'', PList [])]"
| "part_obj (RefusalPart t) = [(''type'', PStr ''refusal''), (''refusal'', t)]"

record out_message =
  om_id :: string
  om_status :: string
  om_parts :: "part list"

text \<open>A tool call is kept as the dictionary the code changes; the keys of a message never change.\<close>

datatype out_item = Msg out_message | Call obj

fun item_obj :: "out_item \<Rightarrow> obj" where
  "item_obj (Msg m) = [(''id'', PStr (om_id m)), (''type'', PStr ''message''), (''role'', PStr ''assistant''),
     (''status'', PStr (om_status m)), (''content'', PList (map (PDict \<circ> part_obj) (om_parts m)))]"
| "item_obj (Call d) = d"

definition new_response :: "(nat \<Rightarrow> string) \<Rightarrow> int \<Rightarrow> obj \<Rightarrow> obj" where
  "new_response hex now request = [(''id'', PStr (''resp_'' @ hex 0)), (''object'', PStr ''response''),
     (''created_at'', PInt now), (''status'', PStr ''in_progress''), (''error'', PNone),
     (''incomplete_details'', PNone), (''model'', dict_get request ''model''), (''output'', PList []),
     (''usage'', PNone),
     (''parallel_tool_calls'', case map_of request ''parallel_tool_calls'' of None \<Rightarrow> PBool True | Some v \<Rightarrow> v),
     (''store'', PBool False)]"

text \<open>\<open>_call_item\<close>; the input of a custom tool is a field of the JSON its arguments hold.\<close>

definition custom_input :: "(string \<Rightarrow> pyval result) \<Rightarrow> pyval \<Rightarrow> string result" where
  "custom_input loads args = bindE (textE args) (\<lambda>a. bindE (loads a) (\<lambda>v. bindE (itemE v ''input'') (\<lambda>x.
     case x of PStr s \<Rightarrow> Inr s | _ \<Rightarrow> Inl (ValueError ''Custom tool input must be a string''))))"

fun argument_error :: "pyexc \<Rightarrow> bool" where
  "argument_error (ValueError s) = True"
| "argument_error (KeyError s) = True"
| "argument_error (TypeError s) = True"
| "argument_error e = False"

definition custom_item :: "obj \<Rightarrow> pyval \<Rightarrow> obj" where
  "custom_item item x =
     AList.delete ''arguments'' (AList.update ''input'' x (AList.update ''type'' (PStr ''custom_tool_call'') item))"

definition call_item :: "(string \<Rightarrow> pyval result) \<Rightarrow> (nat \<Rightarrow> string) \<Rightarrow> pyval list \<Rightarrow> string \<Rightarrow> bool
    \<Rightarrow> pyval \<Rightarrow> nat \<Rightarrow> (obj \<times> nat) result" where
  "call_item loads hex custom status truncated call n =
     bindE (getE call ''function'' (PDict [])) (\<lambda>f.
     bindE (getE f ''name'' (PStr [])) (\<lambda>name.
     bindE (getE f ''arguments'' (PStr [])) (\<lambda>args.
     bindE (getE call ''id'' PNone) (\<lambda>cid.
     let item = [(''id'', PStr (''fc_'' @ hex n)), (''type'', PStr ''function_call''), (''status'', PStr status),
           (''call_id'', if py_truthy cid then cid else PStr (''call_'' @ hex (n + 1))), (''name'', name), (''arguments'', args)];
         n' = (if py_truthy cid then n + 1 else n + 2) in
     bindE (hashE name) (\<lambda>_.
     if \<exists>c \<in> set custom. same_key c name then
       (case custom_input loads args of
          Inr v \<Rightarrow> Inr (custom_item item (PStr v), n')
        | Inl e \<Rightarrow> if \<not> argument_error e then Inl e
                   else if \<not> truncated then Inl (ValueError (''Invalid arguments from custom tool '' @ py_str name))
                   else Inr (custom_item (AList.update ''status'' (PStr ''incomplete'') item) args, n'))
     else Inr (item, n'))))))"

definition published_call :: "(string \<Rightarrow> pyval result) \<Rightarrow> (nat \<Rightarrow> string) \<Rightarrow> obj \<Rightarrow> string \<Rightarrow> bool
    \<Rightarrow> pyval \<Rightarrow> nat \<Rightarrow> (obj \<times> nat) result" where
  "published_call loads hex request status truncated call n =
     bindE (custom_names request) (\<lambda>custom.
     bindE (call_item loads hex custom status truncated call n) (\<lambda>(item, n').
     bindE (restore_namespace item request) (\<lambda>item'. Inr (item', n'))))"

section \<open>A complete response\<close>

fun firstE :: "pyval \<Rightarrow> pyval result" where
  "firstE (PList (x # xs)) = Inr x"
| "firstE (PList []) = Inl IndexError"
| "firstE (PStr (c # cs)) = Inr (PStr [c])"
| "firstE (PStr []) = Inl IndexError"
| "firstE (PDict m) = Inl (KeyError ''0'')"
| "firstE v = Inl (TypeError ''subscript'')"

definition cut_short :: "pyval \<Rightarrow> bool" where
  "cut_short finish \<longleftrightarrow> finish \<in> {PStr ''length'', PStr ''content_filter''}"

definition final_status :: "pyval \<Rightarrow> string" where
  "final_status finish = (if cut_short finish then ''incomplete'' else ''completed'')"

definition incomplete_reason :: "pyval \<Rightarrow> pyval" where
  "incomplete_reason finish =
     PDict [(''reason'', PStr (if finish = PStr ''length'' then ''max_output_tokens'' else ''content_filter''))]"

definition with_reason :: "pyval \<Rightarrow> obj \<Rightarrow> obj" where
  "with_reason finish resp = (if cut_short finish
     then AList.update ''incomplete_details'' (incomplete_reason finish) resp else resp)"

definition new_message :: "(nat \<Rightarrow> string) \<Rightarrow> nat \<Rightarrow> string \<Rightarrow> part \<Rightarrow> out_item" where
  "new_message hex n status p = Msg \<lparr>om_id = ''msg_'' @ hex n, om_status = status, om_parts = [p]\<rparr>"

definition from_chat_body :: "(string \<Rightarrow> pyval result) \<Rightarrow> (nat \<Rightarrow> string) \<Rightarrow> (pyval \<Rightarrow> pyval \<Rightarrow> pyval) \<Rightarrow> int
    \<Rightarrow> pyval \<Rightarrow> obj \<Rightarrow> obj result" where
  "from_chat_body loads hex fadd now answer request =
     (let resp = new_response hex now request in
     bindE (getE answer ''error'' PNone) (\<lambda>err.
     if py_truthy err then Inr (AList.update ''error'' err (AList.update ''status'' (PStr ''failed'') resp)) else
     bindE (getE answer ''choices'' (PList [])) (\<lambda>choices.
     bindE (if py_truthy choices then firstE choices else Inl (ValueError ''Upstream chat response has no choices'')) (\<lambda>choice.
     bindE (getE choice ''finish_reason'' PNone) (\<lambda>finish.
     bindE (checkE (py_truthy finish) (ValueError ''Upstream chat response has no finish reason'')) (\<lambda>_.
     bindE (getE choice ''message'' (PDict [])) (\<lambda>message.
     let status = final_status finish in
     bindE (getE message ''content'' PNone) (\<lambda>txt.
     let (out1, n1) = (if txt \<noteq> PNone then ([new_message hex 1 status (TextPart txt)], 2) else ([], 1)) in
     bindE (getE message ''refusal'' PNone) (\<lambda>ref.
     let (out2, n2) = (if py_truthy ref then (out1 @ [new_message hex n1 status (RefusalPart ref)], n1 + 1) else (out1, n1)) in
     bindE (getE message ''tool_calls'' (PList [])) (\<lambda>v. bindE (iterE v) (\<lambda>calls.
     bindE (foldE (\<lambda>(out, n) call. bindE (published_call loads hex request status (finish = PStr ''length'') call n)
              (\<lambda>(item, n'). Inr (out @ [Call item], n'))) (out2, n2) calls) (\<lambda>(out, n).
     bindE (getE answer ''usage'' PNone) (\<lambda>u. bindE (usage_obj fadd u) (\<lambda>usage.
     Inr (with_reason finish (AList.update ''usage'' usage (AList.update ''status'' (PStr status)
            (AList.update ''output'' (PList (map (PDict \<circ> item_obj) out)) resp))))))))))))))))))"

fun malformed :: "pyexc \<Rightarrow> bool" where
  "malformed IndexError = True"
| "malformed e = structure_error e"

definition from_chat_response :: "(string \<Rightarrow> pyval result) \<Rightarrow> (nat \<Rightarrow> string) \<Rightarrow> (pyval \<Rightarrow> pyval \<Rightarrow> pyval) \<Rightarrow> int
    \<Rightarrow> pyval \<Rightarrow> obj \<Rightarrow> obj result" where
  "from_chat_response loads hex fadd now answer request = (case answer of
     PDict m \<Rightarrow> relabel malformed ''Malformed upstream chat response'' (from_chat_body loads hex fadd now answer request)
   | _ \<Rightarrow> Inl (ValueError ''Upstream chat response must be an object''))"

end
