(* ===== verification/Sse_Reader.thy ===== *)
theory Sse_Reader imports Env_File
begin

text \<open>
  The reader of server-sent events in \<open>sparkdeck/responses.py\<close> (\<open>_sse_payloads\<close>): frames are separated by an
  empty line, and the data lines of a frame are joined.  The input is the sequence of texts the
  incremental decoder returns, cut anywhere.
\<close>

section \<open>Reading\<close>

text \<open>\<open>buffer.replace("\r\n", "\n")\<close>\<close>

fun crlf :: "string \<Rightarrow> string" where
  "crlf (a # b # s) = (if a = cr \<and> b = lf then lf # crlf s else a # crlf (b # s))"
| "crlf s = s"

text \<open>\<open>buffer.split("\n\n", 1)\<close>\<close>

fun split_frame :: "string \<Rightarrow> (string \<times> string) option" where
  "split_frame (a # b # s) = (if a = lf \<and> b = lf then Some ([], s)
     else map_option (\<lambda>(x, y). (a # x, y)) (split_frame (b # s)))"
| "split_frame s = None"

lemma split_frame_Some: "split_frame s = Some (x, y) \<Longrightarrow> s = x @ [lf, lf] @ y"
  by (induction s arbitrary: x rule: split_frame.induct) (auto split: if_splits)

definition data_of :: "string list \<Rightarrow> string" where
  "data_of ls = join_with [lf] (map (\<lambda>l. py_lstrip (drop 5 l)) (filter (starts_with ''data:'') ls))"

definition frame_data :: "string \<Rightarrow> string list" where
  "frame_data f = (let d = data_of (split_on lf f) in if d \<noteq> [] then [d] else [])"

text \<open>The complete frames of a buffer and the text behind them.\<close>

function frames :: "string \<Rightarrow> string list \<times> string" where
  "frames buf = (case split_frame buf of
     None \<Rightarrow> ([], buf)
   | Some (f, rest) \<Rightarrow> (case frames rest of (ds, r) \<Rightarrow> (frame_data f @ ds, r)))"
  by auto
termination by (relation "measure length") (auto dest: split_frame_Some)

declare frames.simps [simp del]

text \<open>What is left when the stream ends.\<close>

definition tail_data :: "string \<Rightarrow> string list" where
  "tail_data buf = (if py_strip buf \<noteq> [] then (let d = data_of (splitlines buf) in if d \<noteq> [] then [d] else []) else [])"

text \<open>The payloads after reading the chunks, and the text kept in the buffer.\<close>

fun sse_read :: "string \<Rightarrow> string list \<Rightarrow> string list \<times> string" where
  "sse_read buf [] = ([], buf)"
| "sse_read buf (c # cs) = (case frames (crlf (buf @ c)) of (ds, r) \<Rightarrow>
     (case sse_read r cs of (es, r') \<Rightarrow> (ds @ es, r')))"

definition sse_payloads :: "string list \<Rightarrow> string \<Rightarrow> string list" where
  "sse_payloads chunks final = (case sse_read [] chunks of (ds, r) \<Rightarrow> ds @ tail_data (r @ final))"

section \<open>The cuts do not matter\<close>

fun no_double_cr :: "string \<Rightarrow> bool" where
  "no_double_cr (a # b # s) = (\<not> (a = cr \<and> b = cr) \<and> no_double_cr (b # s))"
| "no_double_cr s = True"

fun no_crlf :: "string \<Rightarrow> bool" where
  "no_crlf (a # b # s) = (\<not> (a = cr \<and> b = lf) \<and> no_crlf (b # s))"
| "no_crlf s = True"

lemma crlf_id: "no_crlf s \<Longrightarrow> crlf s = s"
  by (induction s rule: crlf.induct) auto

lemma no_double_cr_tl: "no_double_cr (a # s) \<Longrightarrow> no_double_cr s"
  by (cases s) auto

lemma no_double_cr_append: "no_double_cr (s @ t) \<Longrightarrow> no_double_cr s \<and> no_double_cr t"
  by (induction s rule: no_double_cr.induct) (auto dest: no_double_cr_tl)

lemma no_crlf_tl: "no_crlf (a # s) \<Longrightarrow> no_crlf s"
  by (cases s) auto

lemma no_crlf_append: "no_crlf (s @ t) \<Longrightarrow> no_crlf s \<and> no_crlf t"
  by (induction s rule: no_crlf.induct) (auto dest: no_crlf_tl)

lemma no_crlf_Cons: "no_crlf s \<Longrightarrow> a \<noteq> cr \<Longrightarrow> no_crlf (a # s)"
  by (cases s) auto

lemma crlf_append: "no_crlf s \<Longrightarrow> s = [] \<or> last s \<noteq> cr \<Longrightarrow> crlf (s @ t) = s @ crlf t"
proof (induction s)
  case (Cons a s)
  show ?case
  proof (cases s)
    case Nil
    then show ?thesis using Cons.prems by (cases t) auto
  next
    case (Cons b s')
    then show ?thesis using Cons.IH Cons.prems no_crlf_tl[OF Cons.prems(1)] by auto
  qed
qed simp

text \<open>A carriage return may stay at the end of the buffer; it is resolved with the next chunk.\<close>

lemma crlf_hd: "crlf (b # s) = x # y \<Longrightarrow> x = lf \<longrightarrow> b = lf \<or> b = cr"
  by (cases s) (auto split: if_splits)

lemma crlf_Cons: "a \<noteq> cr \<Longrightarrow> crlf (a # s) = a # crlf s"
  by (cases s) auto

lemma crlf_cr: "b \<noteq> lf \<Longrightarrow> crlf (cr # b # s) = cr # crlf (b # s)"
  by simp

lemma crlf_nonempty: "crlf (b # s) \<noteq> []"
  by (cases s) auto

lemma no_double_cr_no_crlf: "no_double_cr s \<Longrightarrow> no_crlf (crlf s)"
proof (induction s rule: crlf.induct)
  case (1 a b s)
  show ?case
  proof (cases "a = cr \<and> b = lf")
    case True
    then show ?thesis using 1 no_crlf_Cons by (auto dest: no_double_cr_tl)
  next
    case False
    then have ih: "no_crlf (crlf (b # s))" using 1 by auto
    show ?thesis
    proof (cases "a = cr")
      case True
      then have "b \<noteq> lf" "b \<noteq> cr" using False "1.prems" by auto
      then have "crlf (b # s) = b # crlf s" by (simp add: crlf_Cons)
      then show ?thesis using True False ih \<open>b \<noteq> lf\<close> by auto
    next
      case a: False
      then show ?thesis using ih False by (simp add: no_crlf_Cons)
    qed
  qed
qed auto

lemma crlf_resume: "no_double_cr (s @ t) \<Longrightarrow> crlf (crlf s @ t) = crlf (s @ t)"
proof (induction s rule: crlf.induct)
  case (1 a b s)
  show ?case
  proof (cases "a = cr \<and> b = lf")
    case True
    then have "no_double_cr (s @ t)" using "1.prems" by (auto dest: no_double_cr_tl)
    then show ?thesis using "1.IH"(1) True by (simp add: crlf_Cons)
  next
    case False
    then have ih: "crlf (crlf (b # s) @ t) = crlf ((b # s) @ t)" using 1 by auto
    show ?thesis
    proof (cases "a = cr")
      case True
      then have b: "b \<noteq> lf" "b \<noteq> cr" using False "1.prems" by auto
      then have "crlf (b # s) = b # crlf s" by (simp add: crlf_Cons)
      then show ?thesis using True False ih b by simp
    next
      case a: False
      then show ?thesis using ih by (simp add: crlf_Cons)
    qed
  qed
qed auto

lemma split_frame_append: "split_frame s = Some (f, r) \<Longrightarrow> split_frame (s @ t) = Some (f, r @ t)"
  by (induction s arbitrary: f rule: split_frame.induct) (auto split: if_splits)

text \<open>What was read stays read: the buffer splits into consumed frames and the rest.\<close>

lemma frames_split:
  "frames s = (ds, r) \<Longrightarrow> \<exists>pre. s = pre @ r \<and> (pre = [] \<or> last pre = lf)
     \<and> (\<forall>t. frames (pre @ t) = (ds @ fst (frames t), snd (frames t)))"
proof (induction s arbitrary: ds r rule: frames.induct)
  case (1 s)
  show ?case
  proof (cases "split_frame s")
    case None
    then have "ds = []" "r = s" using "1.prems" by (auto simp: frames.simps[of s])
    then show ?thesis by (intro exI[of _ "[]"]) simp
  next
    case (Some fr)
    obtain f r0 where fr: "fr = (f, r0)" by (cases fr)
    obtain ds0 r1 where fs: "frames r0 = (ds0, r1)" by (cases "frames r0")
    have eq: "ds = frame_data f @ ds0" "r = r1" using "1.prems" Some fr fs by (simp_all add: frames.simps[of s])
    from "1.IH"[OF Some fr[symmetric] fs] obtain pre where pre: "r0 = pre @ r1" "pre = [] \<or> last pre = lf"
      "\<forall>t. frames (pre @ t) = (ds0 @ fst (frames t), snd (frames t))" by blast
    have s: "s = f @ [lf, lf] @ r0" using Some fr split_frame_Some by simp
    have "split_frame (f @ [lf, lf]) = Some (f, [])"
    proof -
      have "split_frame (f @ [lf, lf] @ r0) = Some (f, r0)" using Some fr s by simp
      then show ?thesis
        by (induction f rule: split_frame.induct) (auto split: if_splits)
    qed
    then have sf: "split_frame (f @ [lf, lf] @ x) = Some (f, x)" for x using split_frame_append by fastforce
    have "frames ((f @ [lf, lf] @ pre) @ t) = (ds @ fst (frames t), snd (frames t))" for t
      using sf[of "pre @ t"] pre(3) eq by (simp add: frames.simps[of "f @ lf # lf # pre @ t"])
    moreover have "s = (f @ [lf, lf] @ pre) @ r" using s pre(1) eq by simp
    moreover have "last (f @ [lf, lf] @ pre) = lf" using pre(2) by auto
    ultimately show ?thesis by blast
  qed
qed

lemma frames_resume:
  assumes "no_double_cr (p @ c)" "frames (crlf p) = (ds, r)" "frames (crlf (r @ c)) = (ds', r')"
  shows "frames (crlf (p @ c)) = (ds @ ds', r')"
proof -
  obtain pre where pre: "crlf p = pre @ r" "pre = [] \<or> last pre = lf"
    "\<forall>t. frames (pre @ t) = (ds @ fst (frames t), snd (frames t))"
    using frames_split[OF assms(2)] by blast
  have "no_crlf (crlf p)" using assms(1) no_double_cr_append no_double_cr_no_crlf by blast
  then have "no_crlf pre" using pre(1) no_crlf_append by metis
  have "crlf (p @ c) = crlf (pre @ r @ c)" using crlf_resume[OF assms(1)] pre(1) by simp
  also have "\<dots> = pre @ crlf (r @ c)" using crlf_append[OF \<open>no_crlf pre\<close>] pre(2) by auto
  finally show ?thesis using pre(3) assms(3) by simp
qed

lemma sse_read_whole:
  "no_double_cr (p @ concat cs) \<Longrightarrow> frames (crlf p) = (ds, r) \<Longrightarrow> sse_read r cs = (es, r')
   \<Longrightarrow> frames (crlf (p @ concat cs)) = (ds @ es, r')"
proof (induction cs arbitrary: p ds r es r')
  case (Cons c cs)
  obtain d1 r1 where d1: "frames (crlf (r @ c)) = (d1, r1)" by (cases "frames (crlf (r @ c))")
  obtain e1 r2 where e1: "sse_read r1 cs = (e1, r2)" by (cases "sse_read r1 cs")
  have all: "no_double_cr ((p @ c) @ concat cs)" using Cons.prems(1) by simp
  then have "no_double_cr (p @ c)" using no_double_cr_append[of "p @ c" "concat cs"] by blast
  then have "frames (crlf (p @ c)) = (ds @ d1, r1)" using frames_resume[OF _ Cons.prems(2) d1] by blast
  from Cons.IH[OF all this e1] Cons.prems show ?case using d1 e1 by simp
qed simp

lemma frames_Nil [simp]: "frames [] = ([], [])"
  by (simp add: frames.simps)

text \<open>However the text is cut, the reader returns what it returns for the whole text.\<close>

lemma cuts_do_not_matter:
  assumes "no_double_cr (concat cs)"
  shows "sse_read [] cs = frames (crlf (concat cs))"
  using sse_read_whole[of "[]" cs "[]" "[]"] assms by (cases "sse_read [] cs") simp

section \<open>Written events\<close>

text \<open>A payload of one line as a server writes it, with either line terminator.\<close>

definition sse_event :: "string \<Rightarrow> string \<Rightarrow> string" where
  "sse_event nl d = ''data: '' @ d @ nl @ nl"

definition one_line :: "string \<Rightarrow> bool" where
  "one_line d \<longleftrightarrow> d \<noteq> [] \<and> \<not> py_space (hd d) \<and> cr \<notin> set d \<and> lf \<notin> set d"

lemma crlf_line: "cr \<notin> set d \<Longrightarrow> crlf (d @ t) = d @ crlf t"
proof (induction d)
  case (Cons a d)
  then have "a \<noteq> cr" by auto
  then show ?case using Cons by (simp add: crlf_Cons)
qed simp

lemma crlf_event:
  assumes "one_line d" "nl \<in> {[lf], [cr, lf]}"
  shows "crlf (sse_event nl d @ t) = ''data: '' @ d @ [lf, lf] @ crlf t"
proof -
  have a: "cr \<notin> set (''data: '' @ d)" using assms by (auto simp: one_line_def)
  have "crlf (nl @ nl @ t) = [lf, lf] @ crlf t" using assms(2) by (auto simp: crlf_Cons)
  then show ?thesis using crlf_line[OF a, of "nl @ nl @ t"] by (simp add: sse_event_def)
qed

lemma split_frame_line: "lf \<notin> set d \<Longrightarrow> split_frame (d @ [lf, lf] @ t) = Some (d, t)"
proof (induction d)
  case (Cons a d)
  then show ?case by (cases d) auto
qed simp

lemma split_on_line: "c \<notin> set d \<Longrightarrow> split_on c d = [d]"
  by (induction d) auto

lemma frame_data_line: "one_line d \<Longrightarrow> frame_data (''data: '' @ d) = [d]"
proof -
  assume d: "one_line d"
  then have "split_on lf (''data: '' @ d) = [''data: '' @ d]" by (intro split_on_line) (auto simp: one_line_def)
  moreover have "py_lstrip (CHR '' '' # d) = d"
  proof -
    have "dropWhile py_space d = d" using d by (cases d) (auto simp: one_line_def)
    moreover have "py_space (CHR '' '')" by code_simp
    ultimately show ?thesis by (simp add: py_lstrip_def)
  qed
  ultimately show ?thesis using d by (simp add: frame_data_def data_of_def one_line_def)
qed

lemma frames_events:
  assumes "list_all one_line ds" "nl \<in> {[lf], [cr, lf]}"
  shows "frames (crlf (concat (map (sse_event nl) ds))) = (ds, [])"
  using assms(1)
proof (induction ds)
  case (Cons d ds)
  let ?r = "crlf (concat (map (sse_event nl) ds))"
  have d: "one_line d" using Cons.prems by simp
  have "split_frame ((''data: '' @ d) @ [lf, lf] @ ?r) = Some (''data: '' @ d, ?r)"
    using d by (intro split_frame_line) (auto simp: one_line_def)
  then show ?case using crlf_event[OF d assms(2), of "concat (map (sse_event nl) ds)"] Cons frame_data_line[OF d]
    by (simp add: frames.simps[of "CHR ''d'' # CHR ''a'' # CHR ''t'' # CHR ''a'' # CHR '':'' # CHR '' '' # d @ lf # lf # ?r"])
qed simp

lemma no_double_cr_line: "cr \<notin> set d \<Longrightarrow> no_double_cr (d @ t) = no_double_cr t"
proof (induction d)
  case (Cons a d)
  then show ?case by (cases "d @ t") auto
qed simp

lemma no_double_cr_lf: "no_double_cr (lf # t) = no_double_cr t"
  by (cases t) simp_all

lemma no_double_cr_events:
  assumes "list_all one_line ds" "nl \<in> {[lf], [cr, lf]}"
  shows "no_double_cr (concat (map (sse_event nl) ds))"
  using assms(1)
proof (induction ds)
  case (Cons d ds)
  have "cr \<notin> set (''data: '' @ d)" using Cons.prems by (auto simp: one_line_def)
  moreover have "no_double_cr (nl @ nl @ t) = no_double_cr t" for t using assms(2) by (elim insertE emptyE) (simp_all add: no_double_cr_lf)
  ultimately have "no_double_cr (sse_event nl d @ t) = no_double_cr t" for t
    using no_double_cr_line[of "''data: '' @ d" "nl @ nl @ t"] by (simp add: sse_event_def)
  then show ?case using Cons by simp
qed simp

lemma tail_data_Nil [simp]: "tail_data [] = []"
  by (simp add: tail_data_def)

text \<open>The reader returns exactly the written payloads, however the text was cut.\<close>

lemma events_read:
  assumes "list_all one_line ds" "nl \<in> {[lf], [cr, lf]}" "concat cs = concat (map (sse_event nl) ds)"
  shows "sse_read [] cs = (ds, [])"
  using cuts_do_not_matter[of cs] no_double_cr_events[OF assms(1,2)] frames_events[OF assms(1,2)] assms(3) by simp

end
