(* ===== verification/Responses_Stream.thy ===== *)
theory Responses_Stream imports Responses_Items Sse_Reader
begin

text \<open>
  The streamed conversion of \<open>sparkdeck/responses.py\<close> (\<open>stream_chat_response\<close>): chat chunks become events
  that build up the same response.  A step returns the state it leaves and the exception it raised, because
  events already sent stay sent.  An event is its kind and the fields of its payload at that moment.
  The upstream is the list of its texts and how it ends; the client reads to the end.
\<close>

section \<open>State\<close>

record tool_call =
  tc_id :: string
  tc_name :: string
  tc_args :: string

record sstate =
  ss_resp :: obj
  ss_out :: "out_item list"
  ss_seq :: nat
  ss_msg :: "nat option"
  ss_calls :: "(pyval \<times> tool_call) list"
  ss_finish :: pyval
  ss_next :: nat
  ss_events :: "(string \<times> obj) list"

type_synonym run = "sstate \<times> pyexc option"

fun thenS :: "run \<Rightarrow> (sstate \<Rightarrow> run) \<Rightarrow> run" where
  "thenS (s, None) f = f s"
| "thenS (s, Some e) f = (s, Some e)"

fun tryS :: "sstate \<Rightarrow> 'a result \<Rightarrow> ('a \<Rightarrow> run) \<Rightarrow> run" where
  "tryS s (Inl e) f = (s, Some e)"
| "tryS s (Inr x) f = f x"

fun forS :: "(sstate \<Rightarrow> 'a \<Rightarrow> run) \<Rightarrow> sstate \<Rightarrow> 'a list \<Rightarrow> run" where
  "forS f s [] = (s, None)"
| "forS f s (x # xs) = thenS (f s x) (\<lambda>s'. forS f s' xs)"

definition send_event :: "string \<Rightarrow> obj \<Rightarrow> sstate \<Rightarrow> sstate" where
  "send_event kind fs s = s\<lparr>ss_seq := ss_seq s + 1,
     ss_events := ss_events s @ [(kind, [(''type'', PStr kind), (''sequence_number'', PInt (int (ss_seq s)))] @ fs)]\<rparr>"

text \<open>The text of an event as the client receives it\<close>

definition event_text :: "(pyval \<Rightarrow> string) \<Rightarrow> string \<times> obj \<Rightarrow> string" where
  "event_text dumps e = ''event: '' @ fst e @ [lf] @ ''data: '' @ dumps (PDict (snd e)) @ [lf, lf]"

definition shown :: "sstate \<Rightarrow> obj" where
  "shown s = AList.update ''output'' (PList (map (PDict \<circ> item_obj) (ss_out s))) (ss_resp s)"

definition index_field :: "nat \<Rightarrow> string \<times> pyval" where
  "index_field i = (''output_index'', PInt (int i))"

section \<open>Chunks\<close>

fun is_refusal :: "part \<Rightarrow> bool" where
  "is_refusal (TextPart t) = False"
| "is_refusal (RefusalPart t) = True"

fun part_value :: "part \<Rightarrow> pyval" where
  "part_value (TextPart t) = t"
| "part_value (RefusalPart t) = t"

fun set_part :: "part \<Rightarrow> pyval \<Rightarrow> part" where
  "set_part (TextPart _) t = TextPart t"
| "set_part (RefusalPart _) t = RefusalPart t"

fun item_part :: "out_item \<Rightarrow> part option" where
  "item_part (Msg m) = (case om_parts m of [] \<Rightarrow> None | p # ps \<Rightarrow> Some p)"
| "item_part (Call d) = None"

fun set_parts :: "part list \<Rightarrow> out_item \<Rightarrow> out_item" where
  "set_parts ps (Msg m) = Msg (m\<lparr>om_parts := ps\<rparr>)"
| "set_parts ps (Call d) = Call d"

definition item_id :: "out_item \<Rightarrow> pyval" where
  "item_id x = dict_get (item_obj x) ''id''"

text \<open>The message is opened by its first text or refusal.\<close>

definition open_message :: "(nat \<Rightarrow> string) \<Rightarrow> bool \<Rightarrow> sstate \<Rightarrow> sstate" where
  "open_message hex refusal s = (case ss_msg s of Some i \<Rightarrow> s | None \<Rightarrow>
     (let i = length (ss_out s); m = Msg \<lparr>om_id = ''msg_'' @ hex (ss_next s), om_status = ''in_progress'', om_parts = []\<rparr>;
          p = (if refusal then RefusalPart (PStr []) else TextPart (PStr []));
          s1 = send_event ''response.output_item.added'' [index_field i, (''item'', PDict (item_obj m))]
                 (s\<lparr>ss_out := ss_out s @ [m], ss_msg := Some i, ss_next := ss_next s + 1\<rparr>)
      in send_event ''response.content_part.added'' [(''item_id'', item_id m), index_field i, (''content_index'', PInt 0),
             (''part'', PDict (part_obj p))]
           (s1\<lparr>ss_out := (ss_out s1)[i := set_parts [p] m]\<rparr>)))"

definition add_text :: "bool \<Rightarrow> pyval \<Rightarrow> sstate \<Rightarrow> run" where
  "add_text refusal t s = (case ss_msg s of None \<Rightarrow> (s, None) | Some i \<Rightarrow>
     (case item_part (ss_out s ! i) of None \<Rightarrow> (s, Some IndexError) | Some p \<Rightarrow>
        if refusal \<noteq> is_refusal p then (s, Some (ValueError ''Upstream mixed text and refusal in the same message''))
        else tryS s (bindE (textE (part_value p)) (\<lambda>a. bindE (textE t) (\<lambda>b. Inr (a @ b)))) (\<lambda>v.
          (send_event (if refusal then ''response.refusal.delta'' else ''response.output_text.delta'')
             [(''item_id'', item_id (ss_out s ! i)), index_field i, (''content_index'', PInt 0), (''delta'', t)]
             (s\<lparr>ss_out := (ss_out s)[i := set_parts [set_part p (PStr v)] (ss_out s ! i)]\<rparr>), None))))"

text \<open>\<open>calls.setdefault(index, ...)\<close> and the additions to its texts\<close>

fun call_state :: "pyval \<Rightarrow> (pyval \<times> tool_call) list \<Rightarrow> tool_call" where
  "call_state k [] = \<lparr>tc_id = [], tc_name = [], tc_args = []\<rparr>"
| "call_state k ((k', c) # cs) = (if same_key k' k then c else call_state k cs)"

fun put_call :: "pyval \<Rightarrow> tool_call \<Rightarrow> (pyval \<times> tool_call) list \<Rightarrow> (pyval \<times> tool_call) list" where
  "put_call k c [] = [(k, c)]"
| "put_call k c ((k', c') # cs) = (if same_key k' k then (k', c) # cs else (k', c') # put_call k c cs)"

definition optional_text :: "pyval \<Rightarrow> string result" where
  "optional_text v = textE (py_or v (PStr []))"

definition grow_call :: "pyval \<Rightarrow> tool_call \<Rightarrow> tool_call result" where
  "grow_call d c = bindE (getE d ''id'' PNone) (\<lambda>i. bindE (optional_text i) (\<lambda>i'.
     bindE (getE d ''function'' PNone) (\<lambda>f0. let f = py_or f0 (PDict []) in
     bindE (getE f ''name'' PNone) (\<lambda>n. bindE (optional_text n) (\<lambda>n'.
     bindE (getE f ''arguments'' PNone) (\<lambda>a. bindE (optional_text a) (\<lambda>a'.
     Inr \<lparr>tc_id = tc_id c @ i', tc_name = tc_name c @ n', tc_args = tc_args c @ a'\<rparr>)))))))"

definition add_call_delta :: "sstate \<Rightarrow> pyval \<Rightarrow> run" where
  "add_call_delta s d = tryS s (getE d ''index'' (PInt 0)) (\<lambda>k. tryS s (hashE k) (\<lambda>_.
     tryS s (grow_call d (call_state k (ss_calls s))) (\<lambda>c. (s\<lparr>ss_calls := put_call k c (ss_calls s)\<rparr>, None))))"

definition add_choice :: "(nat \<Rightarrow> string) \<Rightarrow> sstate \<Rightarrow> pyval \<Rightarrow> run" where
  "add_choice hex s choice = tryS s (getE choice ''index'' (PInt 0)) (\<lambda>k. if \<not> py_eq_int k 0 then (s, None) else
     tryS s (getE choice ''delta'' (PDict [])) (\<lambda>delta.
     tryS s (getE choice ''finish_reason'' PNone) (\<lambda>fin.
     let s1 = (if py_truthy fin then s\<lparr>ss_finish := fin\<rparr> else s) in
     tryS s1 (getE delta ''content'' PNone) (\<lambda>c. tryS s1 (getE delta ''refusal'' PNone) (\<lambda>r.
     let txt = py_or c r; refusal = py_truthy r in
     thenS (if py_truthy txt then add_text refusal txt (open_message hex refusal s1) else (s1, None)) (\<lambda>s2.
     tryS s2 (bindE (getE delta ''tool_calls'' (PList [])) iterE) (\<lambda>ds. forS add_call_delta s2 ds)))))))"

definition add_chunk :: "(nat \<Rightarrow> string) \<Rightarrow> (pyval \<Rightarrow> pyval \<Rightarrow> pyval) \<Rightarrow> sstate \<Rightarrow> pyval \<Rightarrow> run" where
  "add_chunk hex fadd s chunk = tryS s (getE chunk ''error'' PNone) (\<lambda>err.
     if py_truthy err then (s, Some (ValueError (py_str err))) else
     tryS s (getE chunk ''usage'' PNone) (\<lambda>u.
     tryS s (if py_truthy u then bindE (usage_obj fadd u) (\<lambda>x. Inr (AList.update ''usage'' x (ss_resp s))) else Inr (ss_resp s)) (\<lambda>resp.
     let s1 = s\<lparr>ss_resp := resp\<rparr> in
     tryS s1 (bindE (getE chunk ''choices'' (PList [])) iterE) (\<lambda>cs. forS (add_choice hex) s1 cs))))"

definition add_payload :: "(string \<Rightarrow> pyval result) \<Rightarrow> (nat \<Rightarrow> string) \<Rightarrow> (pyval \<Rightarrow> pyval \<Rightarrow> pyval) \<Rightarrow> sstate \<Rightarrow> string \<Rightarrow> run" where
  "add_payload loads hex fadd s d = tryS s (loads d) (add_chunk hex fadd s)"

section \<open>Reading the upstream\<close>

abbreviation done_mark :: string where "done_mark \<equiv> ''[DONE]''"

text \<open>The payloads in front of the end mark are consumed; behind it nothing is read any more.\<close>

fun read_upstream :: "(sstate \<Rightarrow> string \<Rightarrow> run) \<Rightarrow> pyexc option \<Rightarrow> string \<Rightarrow> string list \<Rightarrow> string \<Rightarrow> sstate \<Rightarrow> run" where
  "read_upstream step ending final [] buf s = (case ending of Some e \<Rightarrow> (s, Some e) | None \<Rightarrow>
     forS step s (takeWhile (\<lambda>d. d \<noteq> done_mark) (tail_data (buf @ final))))"
| "read_upstream step ending final (c # cs) buf s = (case frames (crlf (buf @ c)) of (ds, r) \<Rightarrow>
     thenS (forS step s (takeWhile (\<lambda>d. d \<noteq> done_mark) ds)) (\<lambda>s'.
       if done_mark \<in> set ds then (s', None) else read_upstream step ending final cs r s'))"

section \<open>The end of the stream\<close>

definition call_value :: "tool_call \<Rightarrow> pyval" where
  "call_value c = PDict [(''id'', PStr (tc_id c)),
     (''function'', PDict [(''name'', PStr (tc_name c)), (''arguments'', PStr (tc_args c))]), (''item'', PNone)]"

definition call_field :: "obj \<Rightarrow> string" where
  "call_field item = (if dict_get item ''type'' = PStr ''custom_tool_call'' then ''input'' else ''arguments'')"

definition publish_call :: "(string \<Rightarrow> pyval result) \<Rightarrow> (nat \<Rightarrow> string) \<Rightarrow> obj \<Rightarrow> bool \<Rightarrow> sstate \<Rightarrow> tool_call \<Rightarrow> run" where
  "publish_call loads hex request truncated s c =
     tryS s (published_call loads hex request ''in_progress'' truncated (call_value c) (ss_next s)) (\<lambda>(item, n).
     let field = call_field item; v = dict_get item field; i = length (ss_out s);
         kind = (if field = ''input'' then ''custom_tool_call_input'' else ''function_call_arguments'');
         blank = AList.update field (PStr []) item;
         s1 = send_event ''response.output_item.added'' [index_field i, (''item'', PDict blank)]
                (s\<lparr>ss_out := ss_out s @ [Call item], ss_next := n\<rparr>);
         s2 = send_event (''response.'' @ kind @ ''.delta'') [(''item_id'', dict_get item ''id''), index_field i, (''delta'', v)] s1
     in (send_event (''response.'' @ kind @ ''.done'') [(''item_id'', dict_get item ''id''), index_field i, (field, v)] s2, None))"

fun set_status :: "string \<Rightarrow> out_item \<Rightarrow> out_item" where
  "set_status st (Msg m) = Msg (m\<lparr>om_status := st\<rparr>)"
| "set_status st (Call d) = Call (AList.update ''status'' (PStr st) d)"

definition part_done :: "out_item \<Rightarrow> nat \<Rightarrow> part \<Rightarrow> sstate \<Rightarrow> sstate" where
  "part_done x i p s = send_event ''response.content_part.done''
     [(''item_id'', item_id x), index_field i, (''content_index'', PInt 0), (''part'', PDict (part_obj p))]
     (case p of
        RefusalPart t \<Rightarrow> send_event ''response.refusal.done''
          [(''item_id'', item_id x), index_field i, (''content_index'', PInt 0), (''refusal'', t)] s
      | TextPart t \<Rightarrow> send_event ''response.output_text.done''
          [(''item_id'', item_id x), index_field i, (''content_index'', PInt 0), (''text'', t), (''logprobs'', PList [])] s)"

definition close_item :: "string \<Rightarrow> sstate \<Rightarrow> nat \<Rightarrow> sstate" where
  "close_item st s i = (let x = set_status st (ss_out s ! i); s1 = s\<lparr>ss_out := (ss_out s)[i := x]\<rparr>;
       s2 = (case item_part x of Some p \<Rightarrow> part_done x i p s1 | None \<Rightarrow> s1)
     in send_event ''response.output_item.done'' [index_field i, (''item'', PDict (item_obj x))] s2)"

definition finish_stream :: "(string \<Rightarrow> pyval result) \<Rightarrow> (nat \<Rightarrow> string) \<Rightarrow> obj \<Rightarrow> sstate \<Rightarrow> run" where
  "finish_stream loads hex request s = (if ss_finish s = PNone
     then (s, Some (ValueError ''Upstream stream ended before a finish reason''))
     else (let fin = ss_finish s; st = final_status fin in
       thenS (forS (publish_call loads hex request (fin = PStr ''length'')) s (map snd (ss_calls s))) (\<lambda>s1.
       let s2 = foldl (close_item st) s1 [0..<length (ss_out s1)];
           s3 = s2\<lparr>ss_resp := with_reason fin (AList.update ''status'' (PStr st) (ss_resp s2))\<rparr>
       in (send_event (''response.'' @ st) [(''response'', PDict (shown s3))] s3, None))))"

section \<open>The whole conversion\<close>

definition start_stream :: "(nat \<Rightarrow> string) \<Rightarrow> int \<Rightarrow> obj \<Rightarrow> sstate" where
  "start_stream hex now request =
     (let s = \<lparr>ss_resp = new_response hex now request, ss_out = [], ss_seq = 0, ss_msg = None, ss_calls = [],
          ss_finish = PNone, ss_next = 1, ss_events = []\<rparr>;
          s1 = send_event ''response.created'' [(''response'', PDict (shown s))] s
      in send_event ''response.in_progress'' [(''response'', PDict (shown s1))] s1)"

text \<open>\<open>str_exc\<close> is the text of an exception.  A cancellation is no \<open>Exception\<close> and passes through.\<close>

definition fail_stream :: "(pyexc \<Rightarrow> string) \<Rightarrow> pyexc \<Rightarrow> sstate \<Rightarrow> sstate" where
  "fail_stream str_exc e s = (let s1 = s\<lparr>ss_resp := AList.update ''error''
         (PDict [(''code'', PStr ''upstream_error''), (''message'', PStr (str_exc e))])
         (AList.update ''status'' (PStr ''failed'') (ss_resp s))\<rparr>
     in send_event ''response.failed'' [(''response'', PDict (shown s1))] s1)"

fun settle_stream :: "(pyexc \<Rightarrow> string) \<Rightarrow> run \<Rightarrow> run" where
  "settle_stream str_exc (s, None) = (s, None)"
| "settle_stream str_exc (s, Some e) = (if e = TaskCancelled then (s, Some e) else (fail_stream str_exc e s, None))"

text \<open>The events sent and the exception that passed through\<close>

definition stream_chat_response :: "(string \<Rightarrow> pyval result) \<Rightarrow> (nat \<Rightarrow> string) \<Rightarrow> (pyval \<Rightarrow> pyval \<Rightarrow> pyval)
    \<Rightarrow> (pyexc \<Rightarrow> string) \<Rightarrow> int \<Rightarrow> string list \<Rightarrow> string \<Rightarrow> pyexc option \<Rightarrow> obj
    \<Rightarrow> ((string \<times> obj) list \<times> pyexc option) result" where
  "stream_chat_response loads hex fadd str_exc now chunks final ending request =
     bindE (custom_names request) (\<lambda>_. Inr (map_prod ss_events id (settle_stream str_exc
       (thenS (read_upstream (add_payload loads hex fadd) ending final chunks [] (start_stream hex now request))
              (finish_stream loads hex request)))))"

end
