(* ===== verification/Responses_Protocol.thy ===== *)
theory Responses_Protocol imports Responses_Stream
begin

text \<open>
  The protocol a client of the streamed Responses conversion relies on: numbered events, one terminal event
  at the end, every output item opened and closed in order, and texts that are the sum of their deltas.
\<close>

section \<open>What a client reads\<close>

definition terminal_kind :: "string \<Rightarrow> bool" where
  "terminal_kind k \<longleftrightarrow> k \<in> {''response.completed'', ''response.incomplete'', ''response.failed''}"

definition event_ok :: "nat \<Rightarrow> string \<times> obj \<Rightarrow> bool" where
  "event_ok i e \<longleftrightarrow> dict_get (snd e) ''type'' = PStr (fst e) \<and> dict_get (snd e) ''sequence_number'' = PInt (int i)"

definition numbered :: "(string \<times> obj) list \<Rightarrow> bool" where
  "numbered es \<longleftrightarrow> (\<forall>i < length es. event_ok i (es ! i))"

definition indices :: "string \<Rightarrow> (string \<times> obj) list \<Rightarrow> pyval list" where
  "indices k es = map (\<lambda>e. dict_get (snd e) ''output_index'') (filter (\<lambda>e. fst e = k) es)"

definition text_delta :: "string \<times> obj \<Rightarrow> string" where
  "text_delta e = (if fst e \<in> {''response.output_text.delta'', ''response.refusal.delta''}
     then case dict_get (snd e) ''delta'' of PStr t \<Rightarrow> t | _ \<Rightarrow> [] else [])"

definition deltas :: "(string \<times> obj) list \<Rightarrow> string" where
  "deltas es = concat (map text_delta es)"

fun part_text :: "pyval \<Rightarrow> string" where
  "part_text (PDict p) = (case dict_get p (if dict_get p ''type'' = PStr ''refusal'' then ''refusal'' else ''text'') of
     PStr t \<Rightarrow> t | _ \<Rightarrow> [])"
| "part_text v = []"

fun item_text :: "pyval \<Rightarrow> string" where
  "item_text (PDict d) = (if dict_get d ''type'' = PStr ''message''
     then case dict_get d ''content'' of PList ps \<Rightarrow> concat (map part_text ps) | _ \<Rightarrow> [] else [])"
| "item_text v = []"

fun response_text :: "pyval \<Rightarrow> string" where
  "response_text (PDict r) = (case dict_get r ''output'' of PList xs \<Rightarrow> concat (map item_text xs) | _ \<Rightarrow> [])"
| "response_text v = []"

section \<open>The invariant\<close>

definition places :: "nat \<Rightarrow> pyval list" where
  "places n = map (\<lambda>i. PInt (int i)) [0..<n]"

lemma places_simps [simp]: "places 0 = []" "places (Suc n) = places n @ [PInt (int n)]"
  by (simp_all add: places_def)

text \<open>The item at the place of the message is a message of one part, the others are calls.\<close>

definition calls_only :: "out_item list \<Rightarrow> bool" where
  "calls_only xs \<longleftrightarrow> list_all (\<lambda>x. case x of Msg m \<Rightarrow> False | Call d \<Rightarrow> dict_get d ''type'' \<noteq> PStr ''message'') xs"

definition message_of :: "out_item \<Rightarrow> string \<Rightarrow> bool" where
  "message_of x t \<longleftrightarrow> (\<exists>m p. x = Msg m \<and> om_parts m = [p] \<and> part_value p = PStr t)"

fun output_at :: "nat option \<Rightarrow> out_item list \<Rightarrow> string \<Rightarrow> bool" where
  "output_at None out t = (calls_only out \<and> t = [])"
| "output_at (Some i) (x # xs) t = (i = 0 \<and> calls_only xs \<and> message_of x t)"
| "output_at (Some i) [] t = False"

definition opened :: "(string \<times> obj) list \<Rightarrow> bool" where
  "opened es \<longleftrightarrow> map fst (take 2 es) = [''response.created'', ''response.in_progress'']"

definition sent_ok :: "(string \<times> obj) list \<Rightarrow> nat \<Rightarrow> nat \<Rightarrow> bool" where
  "sent_ok es nr n \<longleftrightarrow> nr = length es \<and> numbered es \<and> opened es \<and> list_all (\<lambda>e. \<not> terminal_kind (fst e)) es \<and>
     indices ''response.output_item.added'' es = places n"

definition stream_ok :: "sstate \<Rightarrow> bool" where
  "stream_ok s \<longleftrightarrow> sent_ok (ss_events s) (ss_seq s) (length (ss_out s)) \<and>
     output_at (ss_msg s) (ss_out s) (deltas (ss_events s)) \<and>
     indices ''response.output_item.done'' (ss_events s) = []"

text \<open>While the upstream is read there are no calls yet.\<close>

definition reading_ok :: "sstate \<Rightarrow> bool" where
  "reading_ok s \<longleftrightarrow> stream_ok s \<and> (ss_msg s = None \<longrightarrow> ss_out s = [])"

definition event_of :: "string \<Rightarrow> obj \<Rightarrow> nat \<Rightarrow> string \<times> obj" where
  "event_of k fs n = (k, [(''type'', PStr k), (''sequence_number'', PInt (int n))] @ fs)"

lemma event_of_simps [simp]:
  "fst (event_of k fs n) = k" "event_ok n (event_of k fs n)"
  "x \<noteq> ''type'' \<Longrightarrow> x \<noteq> ''sequence_number'' \<Longrightarrow> dict_get (snd (event_of k fs n)) x = dict_get fs x"
  by (simp_all add: event_of_def event_ok_def dict_get_def)

lemma send_simps [simp]:
  "ss_out (send_event k fs s) = ss_out s" "ss_msg (send_event k fs s) = ss_msg s" "ss_resp (send_event k fs s) = ss_resp s"
  "ss_calls (send_event k fs s) = ss_calls s" "ss_finish (send_event k fs s) = ss_finish s" "ss_next (send_event k fs s) = ss_next s"
  "ss_seq (send_event k fs s) = Suc (ss_seq s)" "ss_events (send_event k fs s) = ss_events s @ [event_of k fs (ss_seq s)]"
  by (simp_all add: send_event_def event_of_def)

lemma indices_simps [simp]:
  "indices k [] = []" "indices k (e # es) = (if fst e = k then [dict_get (snd e) ''output_index''] else []) @ indices k es"
  "indices k (es @ fs) = indices k es @ indices k fs"
  by (simp_all add: indices_def)

lemma deltas_simps [simp]: "deltas [] = []" "deltas (e # es) = text_delta e @ deltas es" "deltas (es @ fs) = deltas es @ deltas fs"
  by (simp_all add: deltas_def)

lemma text_delta_event: "text_delta (event_of k fs n) =
    (if k \<in> {''response.output_text.delta'', ''response.refusal.delta''} then case dict_get fs ''delta'' of PStr t \<Rightarrow> t | _ \<Rightarrow> [] else [])"
  by (simp add: text_delta_def)

lemma numbered_snoc: "numbered (es @ [e]) \<longleftrightarrow> numbered es \<and> event_ok (length es) e"
  by (auto simp: numbered_def nth_append less_Suc_eq)

lemma opened_snoc: "opened es \<Longrightarrow> opened (es @ [e])"
proof -
  assume o: "opened es"
  then have "length (take 2 es) = 2" unfolding opened_def by (metis length_map length_Cons list.size(3) numeral_2_eq_2)
  then show ?thesis using o by (simp add: opened_def)
qed

lemma index_field_get [simp]: "dict_get (index_field n # fs) ''output_index'' = PInt (int n)"
  by (simp add: index_field_def dict_get_def)

text \<open>Steps compose.\<close>

lemma thenS_ok: "P (fst r) \<Longrightarrow> (\<And>s. P s \<Longrightarrow> r = (s, None) \<Longrightarrow> P (fst (f s))) \<Longrightarrow> P (fst (thenS r f))"
  by (cases "(r, f)" rule: thenS.cases) auto

lemma tryS_ok: "P s \<Longrightarrow> (\<And>x. r = Inr x \<Longrightarrow> P (fst (f x))) \<Longrightarrow> P (fst (tryS s r f))"
  by (cases r) auto

lemma forS_ok:
  assumes "P s" "\<And>s x. P s \<Longrightarrow> x \<in> set xs \<Longrightarrow> P (fst (f s x))"
  shows "P (fst (forS f s xs))"
  using assms
proof (induction xs arbitrary: s)
  case (Cons x xs)
  have "P (fst (thenS (f s x) (\<lambda>s'. forS f s' xs)))"
  proof (rule thenS_ok[of P])
    show "P (fst (f s x))" using Cons.prems by simp
    show "P (fst (forS f s' xs))" if "P s'" for s' using Cons.IH[OF that] Cons.prems(2) by simp
  qed
  then show ?case by simp
qed simp

section \<open>Reading keeps the invariant\<close>

lemma reading_unchanged:
  "reading_ok s \<Longrightarrow> reading_ok (s\<lparr>ss_calls := c\<rparr>)" "reading_ok s \<Longrightarrow> reading_ok (s\<lparr>ss_finish := f\<rparr>)"
  "reading_ok s \<Longrightarrow> reading_ok (s\<lparr>ss_resp := r\<rparr>)"
  by (simp_all add: reading_ok_def stream_ok_def)

text \<open>Events other than the opening and closing of items and the ends leave the invariant alone.\<close>

definition inner_kind :: "string \<Rightarrow> bool" where
  "inner_kind k \<longleftrightarrow> \<not> terminal_kind k \<and> k \<noteq> ''response.output_item.added'' \<and> k \<noteq> ''response.output_item.done''"

lemma sent_inner:
  "sent_ok es nr n \<Longrightarrow> inner_kind k \<Longrightarrow> sent_ok (es @ [event_of k fs nr]) (Suc nr) n"
  by (simp add: sent_ok_def inner_kind_def numbered_snoc opened_snoc)

lemma sent_added:
  "sent_ok es nr n \<Longrightarrow> sent_ok (es @ [event_of ''response.output_item.added'' (index_field n # fs) nr]) (Suc nr) (Suc n)"
  by (simp add: sent_ok_def numbered_snoc terminal_kind_def opened_snoc)

lemma open_message_ok:
  assumes "reading_ok s"
  shows "reading_ok (open_message hex refusal s)"
proof (cases "ss_msg s")
  case None
  have s: "ss_out s = []" "sent_ok (ss_events s) (ss_seq s) 0" "deltas (ss_events s) = []"
    "indices ''response.output_item.done'' (ss_events s) = []"
    using assms None by (auto simp: reading_ok_def stream_ok_def)
  have "sent_ok ((ss_events s @ [event_of ''response.output_item.added'' (index_field 0 # fs) (ss_seq s)])
      @ [event_of ''response.content_part.added'' gs (Suc (ss_seq s))]) (Suc (Suc (ss_seq s))) (Suc 0)" for fs gs
    using sent_inner[OF sent_added[OF s(2)]] by (simp add: inner_kind_def terminal_kind_def)
  then show ?thesis using None s
    by (simp add: open_message_def Let_def reading_ok_def stream_ok_def calls_only_def message_of_def text_delta_event)
next
  case (Some i)
  then show ?thesis using assms by (simp add: open_message_def)
qed

lemma open_message_msg: "ss_msg (open_message hex refusal s) \<noteq> None"
  by (simp add: open_message_def Let_def split: option.splits)

lemma part_value_set [simp]: "part_value (set_part p v) = v"
  by (cases p) simp_all

lemma add_text_ok:
  assumes "reading_ok s"
  shows "reading_ok (fst (add_text refusal t s))"
proof (cases "ss_msg s")
  case (Some i)
  obtain m p xs where s: "i = 0" "ss_out s = Msg m # xs" "calls_only xs" "om_parts m = [p]"
    "part_value p = PStr (deltas (ss_events s))"
    using assms Some by (cases "ss_out s") (auto simp: reading_ok_def stream_ok_def message_of_def)
  show ?thesis
  proof (cases "refusal = is_refusal p \<and> (\<exists>b. t = PStr b)")
    case True
    then obtain b where b: "t = PStr b" "refusal = is_refusal p" by blast
    have "sent_ok (ss_events s) (ss_seq s) (length (ss_out s))" using assms by (simp add: reading_ok_def stream_ok_def)
    then have "sent_ok (ss_events s @ [event_of (if refusal then ''response.refusal.delta'' else ''response.output_text.delta'') fs
        (ss_seq s)]) (Suc (ss_seq s)) (length (ss_out s))" for fs
      by (rule sent_inner) (simp add: inner_kind_def terminal_kind_def)
    then show ?thesis using assms Some s b
      by (simp add: add_text_def reading_ok_def stream_ok_def message_of_def text_delta_event dict_get_def index_field_def)
  next
    case False
    have "bindE (textE (part_value p)) (\<lambda>a. bindE (textE t) (\<lambda>b. Inr (a @ b))) = textE t" if "\<forall>b. t \<noteq> PStr b"
      using that s(5) by (cases t) auto
    moreover have "\<exists>e. textE t = Inl e" if "\<forall>b. t \<noteq> PStr b" using that by (cases t) auto
    ultimately show ?thesis using assms Some s False by (auto simp: add_text_def)
  qed
qed (use assms in \<open>simp add: add_text_def\<close>)

lemmas then_reading = thenS_ok[of reading_ok]
lemmas try_reading = tryS_ok[of reading_ok]
lemmas for_reading = forS_ok[of reading_ok]

lemma add_call_delta_ok: "reading_ok s \<Longrightarrow> reading_ok (fst (add_call_delta s d))"
  unfolding add_call_delta_def by (intro try_reading) (simp_all add: reading_unchanged)

lemma add_delta_ok:
  assumes "reading_ok s"
  shows "reading_ok (fst (thenS (if py_truthy t then add_text refusal t (open_message hex refusal s) else (s, None)) (\<lambda>s2.
      tryS s2 r (\<lambda>ds. forS add_call_delta s2 ds))))"
proof (rule then_reading)
  show "reading_ok (fst (if py_truthy t then add_text refusal t (open_message hex refusal s) else (s, None)))"
    using assms by (simp add: add_text_ok open_message_ok)
next
  show "reading_ok (fst (tryS s2 r (\<lambda>ds. forS add_call_delta s2 ds)))" if "reading_ok s2" for s2
    using that by (intro try_reading for_reading add_call_delta_ok)
qed

lemma add_choice_ok:
  assumes "reading_ok s"
  shows "reading_ok (fst (add_choice hex s choice))"
proof -
  have s1: "reading_ok (if b then s\<lparr>ss_finish := f\<rparr> else s)" for b f using assms by (simp add: reading_unchanged)
  show ?thesis unfolding add_choice_def Let_def
    by (rule try_reading, rule assms) (simp add: assms try_reading s1 add_delta_ok)
qed

lemma add_payload_ok:
  assumes "reading_ok s"
  shows "reading_ok (fst (add_payload loads hex fadd s d))"
proof -
  have "reading_ok (fst (forS (add_choice hex) (s\<lparr>ss_resp := resp\<rparr>) cs))" for resp cs
    by (rule for_reading) (simp_all add: assms reading_unchanged add_choice_ok)
  then show ?thesis unfolding add_payload_def add_chunk_def Let_def
    by (simp add: assms try_reading reading_unchanged)
qed

lemma read_upstream_ok:
  "reading_ok s \<Longrightarrow> reading_ok (fst (read_upstream (add_payload loads hex fadd) ending final cs buf s))"
proof (induction cs arbitrary: buf s)
  case Nil
  then show ?case by (simp add: for_reading add_payload_ok split: option.split)
next
  case (Cons c cs)
  obtain ds r where f: "frames (crlf (buf @ c)) = (ds, r)" by (cases "frames (crlf (buf @ c))")
  have "reading_ok (fst (forS (add_payload loads hex fadd) s (takeWhile (\<lambda>d. d \<noteq> done_mark) ds)))"
    by (rule for_reading) (simp_all add: Cons.prems add_payload_ok)
  then show ?case unfolding read_upstream.simps f prod.case by (rule then_reading) (simp add: Cons.IH)
qed

lemma start_stream_ok: "reading_ok (start_stream hex now request)"
  by (simp add: start_stream_def Let_def reading_ok_def stream_ok_def sent_ok_def calls_only_def terminal_kind_def
      numbered_snoc numbered_def text_delta_event less_Suc_eq nth_Cons' opened_def)

section \<open>The end of the stream\<close>

lemma dict_get_update [simp]: "dict_get (AList.update k v d) k' = (if k = k' then v else dict_get d k')"
  by (simp add: dict_get_def update_conv')

lemma dict_get_delete: "k \<noteq> k' \<Longrightarrow> dict_get (AList.delete k d) k' = dict_get d k'"
  by (simp add: dict_get_def delete_conv')

lemma custom_item_type [simp]: "dict_get (custom_item item x) ''type'' = PStr ''custom_tool_call''"
  by (simp add: custom_item_def dict_get_delete)

lemma call_item_type:
  "call_item loads hex custom st tr call n = Inr (d, n') \<Longrightarrow>
   dict_get d ''type'' \<in> {PStr ''function_call'', PStr ''custom_tool_call''}"
  by (auto simp: call_item_def Let_def except_simps split: if_splits sum.splits) (auto simp: dict_get_def)

lemma restore_type: "dict_get (foldl restore_one item ts) ''type'' = dict_get item ''type''"
  by (induction ts arbitrary: item) (simp_all add: restore_one_def)

lemma published_type:
  "published_call loads hex request st tr call n = Inr (d, n') \<Longrightarrow> dict_get d ''type'' \<noteq> PStr ''message''"
  by (auto simp: published_call_def restore_namespace_def except_simps restore_type dest!: call_item_type)

lemma calls_only_snoc: "calls_only (xs @ [Call d]) \<longleftrightarrow> calls_only xs \<and> dict_get d ''type'' \<noteq> PStr ''message''"
  by (simp add: calls_only_def)

lemma output_at_call:
  "output_at m out t \<Longrightarrow> dict_get d ''type'' \<noteq> PStr ''message'' \<Longrightarrow> output_at m (out @ [Call d]) t"
  by (cases "(m, out, t)" rule: output_at.cases) (auto simp: calls_only_snoc)

lemma publish_call_ok:
  assumes "stream_ok s"
  shows "stream_ok (fst (publish_call loads hex request tr s c))"
proof (cases "published_call loads hex request ''in_progress'' tr (call_value c) (ss_next s)")
  case (Inl e)
  then show ?thesis using assms by (simp add: publish_call_def)
next
  case (Inr r)
  obtain d n where r: "r = (d, n)" by (cases r)
  let ?kind = "if call_field d = ''input'' then ''custom_tool_call_input'' else ''function_call_arguments''"
  have kinds: "inner_kind (''response.'' @ ?kind @ ''.delta'')" "inner_kind (''response.'' @ ?kind @ ''.done'')"
    "''response.'' @ ?kind @ ''.delta'' \<notin> {''response.output_text.delta'', ''response.refusal.delta''}"
    "''response.'' @ ?kind @ ''.done'' \<notin> {''response.output_text.delta'', ''response.refusal.delta''}"
    by (simp_all add: inner_kind_def terminal_kind_def)
  have s: "sent_ok (ss_events s) (ss_seq s) (length (ss_out s))" "output_at (ss_msg s) (ss_out s) (deltas (ss_events s))"
    "indices ''response.output_item.done'' (ss_events s) = []" using assms by (simp_all add: stream_ok_def)
  have out: "output_at (ss_msg s) (ss_out s @ [Call d]) (deltas (ss_events s))"
    using output_at_call[OF s(2)] published_type Inr r by blast
  have sent: "sent_ok (((ss_events s @ [event_of ''response.output_item.added'' (index_field (length (ss_out s)) # fs) (ss_seq s)])
      @ [event_of (''response.'' @ ?kind @ ''.delta'') gs (Suc (ss_seq s))])
      @ [event_of (''response.'' @ ?kind @ ''.done'') hs (Suc (Suc (ss_seq s)))]) (Suc (Suc (Suc (ss_seq s)))) (Suc (length (ss_out s)))"
    for fs gs hs
    by (intro sent_inner sent_added s(1) kinds)
  have deltas: "text_delta (event_of (''response.'' @ ?kind @ ''.delta'') gs m) = []"
    "text_delta (event_of (''response.'' @ ?kind @ ''.done'') gs m) = []"
    "text_delta (event_of ''response.output_item.added'' gs m) = []" for gs m
    using kinds by (simp_all add: text_delta_event)
  show ?thesis unfolding stream_ok_def publish_call_def Inr r Let_def tryS.simps prod.case fst_conv
    using sent out s(3) deltas kinds by (simp add: inner_kind_def)
qed

definition closing_ok :: "nat \<Rightarrow> sstate \<Rightarrow> bool" where
  "closing_ok n s \<longleftrightarrow> sent_ok (ss_events s) (ss_seq s) (length (ss_out s)) \<and>
     output_at (ss_msg s) (ss_out s) (deltas (ss_events s)) \<and>
     indices ''response.output_item.done'' (ss_events s) = places n"

lemma output_at_status:
  assumes "output_at m out t" "i < length out"
  shows "output_at m (out[i := set_status st (out ! i)]) t"
proof -
  have call: "calls_only (xs[j := set_status st (xs ! j)])" if "calls_only xs" "j < length xs" for xs j
    using that by (cases "xs ! j") (auto simp: calls_only_def list_all_length nth_list_update split: out_item.splits)
  show ?thesis
  proof (cases m)
    case None
    then show ?thesis using assms call by simp
  next
    case (Some k)
    then obtain x xs where x: "out = x # xs" "k = 0" "calls_only xs" "message_of x t"
      using assms(1) by (cases out) auto
    then show ?thesis using Some call[of xs "i - 1"] assms(2)
      by (cases i) (auto simp: message_of_def)
  qed
qed

lemma sent_item_done: "sent_ok es nr n \<Longrightarrow> sent_ok (es @ [event_of ''response.output_item.done'' fs nr]) (Suc nr) n"
  by (simp add: sent_ok_def numbered_snoc terminal_kind_def opened_snoc)

lemma close_item_ok:
  assumes "closing_ok i s" "i < length (ss_out s)"
  shows "closing_ok (Suc i) (close_item st s i)" "length (ss_out (close_item st s i)) = length (ss_out s)"
proof -
  let ?x = "set_status st (ss_out s ! i)"
  let ?s1 = "s\<lparr>ss_out := (ss_out s)[i := ?x]\<rparr>"
  define s2 where "s2 = (case item_part ?x of Some p \<Rightarrow> part_done ?x i p ?s1 | None \<Rightarrow> ?s1)"
  have one: "closing_ok i ?s1" using assms output_at_status by (simp add: closing_ok_def)
  have inner: "closing_ok i (send_event k fs t)" if "closing_ok i t" "inner_kind k"
      "k \<notin> {''response.output_text.delta'', ''response.refusal.delta''}" for k fs t
    using that sent_inner by (simp add: closing_ok_def text_delta_event inner_kind_def)
  have part: "closing_ok i (part_done ?x i p ?s1)" "ss_out (part_done ?x i p ?s1) = ss_out ?s1" for p
    using one unfolding part_done_def
    by (auto intro!: inner split: part.split simp: inner_kind_def terminal_kind_def)
  have two: "closing_ok i s2" "ss_out s2 = ss_out ?s1" unfolding s2_def using one part by (simp_all split: option.split)
  have eq: "close_item st s i = send_event ''response.output_item.done'' [index_field i, (''item'', PDict (item_obj ?x))] s2"
    by (simp add: close_item_def Let_def s2_def)
  show "closing_ok (Suc i) (close_item st s i)" unfolding eq closing_ok_def send_simps
    using two sent_item_done by (simp add: closing_ok_def text_delta_event)
  show "length (ss_out (close_item st s i)) = length (ss_out s)" using two(2) by (simp add: eq)
qed

lemma close_items_ok:
  assumes "stream_ok s" "n \<le> length (ss_out s)"
  shows "closing_ok n (foldl (close_item st) s [0..<n]) \<and> length (ss_out (foldl (close_item st) s [0..<n])) = length (ss_out s)"
  using assms(2)
proof (induction n)
  case 0
  then show ?case using assms(1) by (simp add: stream_ok_def closing_ok_def)
next
  case (Suc n)
  then show ?case using close_item_ok[of n "foldl (close_item st) s [0..<n]" st] by simp
qed

lemma item_text_message: "message_of x t \<Longrightarrow> item_text (PDict (item_obj x)) = t"
proof -
  assume "message_of x t"
  then obtain m p where "x = Msg m" "om_parts m = [p]" "part_value p = PStr t" by (auto simp: message_of_def)
  then show ?thesis by (cases p) (simp_all add: dict_get_def)
qed

lemma item_texts_calls: "calls_only xs \<Longrightarrow> concat (map (\<lambda>x. item_text (PDict (item_obj x))) xs) = []"
proof (induction xs)
  case (Cons x xs)
  then show ?case by (cases x) (simp_all add: calls_only_def)
qed simp

lemma shown_text:
  assumes "output_at m (ss_out s) t"
  shows "response_text (PDict (shown s)) = t"
proof -
  have "response_text (PDict (shown s)) = concat (map (\<lambda>x. item_text (PDict (item_obj x))) (ss_out s))"
    by (simp add: shown_def comp_def del: item_text.simps)
  also have "\<dots> = t"
  proof (cases m)
    case None
    then have c: "calls_only (ss_out s)" "t = []" using assms by simp_all
    show ?thesis unfolding item_texts_calls[OF c(1)] c(2) by (rule refl)
  next
    case (Some i)
    then obtain x xs where x: "ss_out s = x # xs" "calls_only xs" "message_of x t"
      using assms by (cases "ss_out s") auto
    show ?thesis unfolding x(1) list.map concat.simps item_text_message[OF x(3)] item_texts_calls[OF x(2)] by simp
  qed
  finally show ?thesis .
qed

text \<open>What the events of a stream promise, with the terminal one last\<close>

definition protocol_ok :: "(string \<times> obj) list \<Rightarrow> bool" where
  "protocol_ok es \<longleftrightarrow> numbered es \<and> opened es \<and> terminal_kind (fst (last es)) \<and>
     list_all (\<lambda>e. \<not> terminal_kind (fst e)) (butlast es) \<and>
     (\<exists>n. indices ''response.output_item.added'' es = places n \<and>
        (fst (last es) \<noteq> ''response.failed'' \<longrightarrow> indices ''response.output_item.done'' es = places n)) \<and>
     response_text (dict_get (snd (last es)) ''response'') = deltas es"

lemma terminal_event:
  assumes "sent_ok (ss_events s) (ss_seq s) n" "output_at m (ss_out s) (deltas (ss_events s))" "terminal_kind k"
    "k \<noteq> ''response.failed'' \<longrightarrow> indices ''response.output_item.done'' (ss_events s) = places n"
  shows "protocol_ok (ss_events (send_event k [(''response'', PDict (shown (s\<lparr>ss_resp := r\<rparr>)))] s))"
proof -
  let ?e = "event_of k [(''response'', PDict (shown (s\<lparr>ss_resp := r\<rparr>)))] (ss_seq s)"
  have k: "k \<noteq> ''response.output_item.added''" "k \<noteq> ''response.output_item.done''"
    "k \<notin> {''response.output_text.delta'', ''response.refusal.delta''}"
    using assms(3) by (auto simp: terminal_kind_def)
  have tx: "response_text (dict_get (snd ?e) ''response'') = deltas (ss_events s @ [?e])"
    using shown_text[of m "s\<lparr>ss_resp := r\<rparr>"] assms(2) k(3)
    by (simp add: text_delta_event dict_get_def[of "[_]"] del: response_text.simps)
  have num: "numbered (ss_events s @ [?e])" "opened (ss_events s @ [?e])" "list_all (\<lambda>e. \<not> terminal_kind (fst e)) (ss_events s)"
    "indices ''response.output_item.added'' (ss_events s) = places n"
    using assms(1) by (simp_all add: sent_ok_def numbered_snoc opened_snoc)
  have "\<exists>n. indices ''response.output_item.added'' (ss_events s @ [?e]) = places n \<and>
      (k \<noteq> ''response.failed'' \<longrightarrow> indices ''response.output_item.done'' (ss_events s @ [?e]) = places n)"
    using num(4) assms(4) k by (intro exI[of _ n]) simp
  then show ?thesis unfolding protocol_ok_def send_simps using num assms(3) tx
    by (simp del: response_text.simps indices_simps)
qed

lemma finish_stream_ok:
  assumes "reading_ok s" "finish_stream loads hex request s = (s', None)"
  shows "protocol_ok (ss_events s')"
proof -
  let ?fin = "ss_finish s"
  let ?run = "forS (publish_call loads hex request (?fin = PStr ''length'')) s (map snd (ss_calls s))"
  have fin: "?fin \<noteq> PNone" using assms(2) by (auto simp: finish_stream_def)
  obtain s1 e where run: "?run = (s1, e)" by (cases ?run)
  have "stream_ok (fst ?run)" using assms(1) by (intro forS_ok[of stream_ok] publish_call_ok) (simp_all add: reading_ok_def)
  then have s1: "stream_ok s1" using run by simp
  have e: "e = None" using assms(2) fin run by (cases e) (simp_all add: finish_stream_def)
  define s2 where "s2 = foldl (close_item (final_status ?fin)) s1 [0..<length (ss_out s1)]"
  have s2: "closing_ok (length (ss_out s1)) s2" "length (ss_out s2) = length (ss_out s1)"
    using close_items_ok[OF s1 order_refl, of "final_status ?fin"] by (simp_all add: s2_def)
  obtain r where s': "s' = send_event (''response.'' @ final_status ?fin) [(''response'', PDict (shown (s2\<lparr>ss_resp := r\<rparr>)))] (s2\<lparr>ss_resp := r\<rparr>)"
    using assms(2) fin run e by (auto simp: finish_stream_def Let_def s2_def)
  have "terminal_kind (''response.'' @ final_status ?fin)" "''response.'' @ final_status ?fin \<noteq> ''response.failed''"
    by (simp_all add: terminal_kind_def final_status_def)
  then have "protocol_ok (ss_events (send_event (''response.'' @ final_status ?fin) [(''response'', PDict (shown ((s2\<lparr>ss_resp := r\<rparr>)\<lparr>ss_resp := r\<rparr>)))]
      (s2\<lparr>ss_resp := r\<rparr>)))"
    using s2 by (intro terminal_event[where n = "length (ss_out s1)" and m = "ss_msg s2"]) (simp_all add: closing_ok_def)
  then show ?thesis by (simp add: s')
qed

lemma finish_stream_open:
  assumes "reading_ok s" "finish_stream loads hex request s = (s', Some e)"
  shows "stream_ok s'"
proof (cases "ss_finish s = PNone")
  case True
  then show ?thesis using assms by (simp add: finish_stream_def reading_ok_def)
next
  case False
  let ?run = "forS (publish_call loads hex request (ss_finish s = PStr ''length'')) s (map snd (ss_calls s))"
  obtain s1 e1 where run: "?run = (s1, e1)" by (cases ?run)
  have "stream_ok (fst ?run)" using assms(1) by (intro forS_ok[of stream_ok] publish_call_ok) (simp_all add: reading_ok_def)
  moreover have "s' = s1" using assms(2) False run by (cases e1) (simp_all add: finish_stream_def Let_def)
  ultimately show ?thesis using run by simp
qed

lemma fail_stream_ok:
  assumes "stream_ok s"
  shows "protocol_ok (ss_events (fail_stream str_exc e s))"
proof -
  obtain r where r: "fail_stream str_exc e s = send_event ''response.failed'' [(''response'', PDict (shown (s\<lparr>ss_resp := r\<rparr>)))] (s\<lparr>ss_resp := r\<rparr>)"
    by (simp add: fail_stream_def Let_def)
  have "protocol_ok (ss_events (send_event ''response.failed'' [(''response'', PDict (shown ((s\<lparr>ss_resp := r\<rparr>)\<lparr>ss_resp := r\<rparr>)))]
      (s\<lparr>ss_resp := r\<rparr>)))"
    using assms by (intro terminal_event[where n = "length (ss_out s)" and m = "ss_msg s"]) (simp_all add: stream_ok_def terminal_kind_def)
  then show ?thesis by (simp add: r)
qed

lemma stream_protocol:
  assumes "stream_chat_response loads hex fadd str_exc now chunks final ending request = Inr (es, None)"
  shows "protocol_ok es"
proof -
  let ?read = "read_upstream (add_payload loads hex fadd) ending final chunks [] (start_stream hex now request)"
  obtain s e where read: "?read = (s, e)" by (cases ?read)
  have s: "reading_ok s" using read_upstream_ok[OF start_stream_ok, of loads hex fadd ending final chunks "[]" hex now request] read
    by simp
  obtain s' e' where run: "thenS ?read (finish_stream loads hex request) = (s', e')"
    by (cases "thenS ?read (finish_stream loads hex request)")
  have es: "map_prod ss_events id (settle_stream str_exc (s', e')) = (es, None)"
    using assms run by (auto simp: stream_chat_response_def except_simps)
  show ?thesis
  proof (cases e')
    case None
    then have "finish_stream loads hex request s = (s', None)" using run read by (cases e) simp_all
    then have "protocol_ok (ss_events s')" by (rule finish_stream_ok[OF s])
    then show ?thesis using es None by simp
  next
    case (Some x)
    have "stream_ok s'"
    proof (cases e)
      case None
      then show ?thesis using finish_stream_open[OF s] run read Some by simp
    next
      case (Some y)
      then show ?thesis using s run read by (simp add: reading_ok_def)
    qed
    then show ?thesis using fail_stream_ok es Some by (auto split: if_splits)
  qed
qed

end
