(* ===== verification/Responses_Equivalence.thy ===== *)
theory Responses_Equivalence imports Responses_Protocol
begin

text \<open>
  The streamed and the complete conversion of \<open>sparkdeck/responses.py\<close> agree: the terminal event of a stream
  carries the response that the complete conversion makes of the assembled answer, with the same
  identifiers, however the network cuts the stream; and where the complete conversion refuses the answer,
  the stream fails.
\<close>

section \<open>A streamed answer\<close>

text \<open>What one chunk of a chat stream adds: text, a refusal, part of the tool call with a number, the
  finish reason, or the usage.\<close>

datatype piece =
    TextPiece string
  | RefusalPiece string
  | CallPiece int string string string
  | FinishPiece string
  | UsagePiece pyval

definition choice_chunk :: "obj \<Rightarrow> obj \<Rightarrow> pyval" where
  "choice_chunk delta rest = PDict [(''choices'', PList [PDict ([(''index'', PInt 0), (''delta'', PDict delta)] @ rest)])]"

fun piece_chunk :: "piece \<Rightarrow> pyval" where
  "piece_chunk (TextPiece t) = choice_chunk [(''content'', PStr t)] []"
| "piece_chunk (RefusalPiece t) = choice_chunk [(''refusal'', PStr t)] []"
| "piece_chunk (CallPiece k i n a) = choice_chunk [(''tool_calls'', PList [PDict [(''index'', PInt k), (''id'', PStr i),
     (''function'', PDict [(''name'', PStr n), (''arguments'', PStr a)])]])] []"
| "piece_chunk (FinishPiece f) = choice_chunk [] [(''finish_reason'', PStr f)]"
| "piece_chunk (UsagePiece u) = PDict [(''choices'', PList []), (''usage'', u)]"

section \<open>The assembled answer\<close>

definition all_text :: "piece list \<Rightarrow> string" where
  "all_text ps = concat (map (\<lambda>p. case p of TextPiece t \<Rightarrow> t | _ \<Rightarrow> []) ps)"

definition all_refusal :: "piece list \<Rightarrow> string" where
  "all_refusal ps = concat (map (\<lambda>p. case p of RefusalPiece t \<Rightarrow> t | _ \<Rightarrow> []) ps)"

definition call_numbers :: "piece list \<Rightarrow> int list" where
  "call_numbers ps = uniq (concat (map (\<lambda>p. case p of CallPiece k i n a \<Rightarrow> [k] | _ \<Rightarrow> []) ps))"

definition gathered :: "(string \<Rightarrow> string \<Rightarrow> string \<Rightarrow> string) \<Rightarrow> piece list \<Rightarrow> int \<Rightarrow> string" where
  "gathered g ps k = concat (map (\<lambda>p. case p of CallPiece k' i n a \<Rightarrow> if k' = k then g i n a else [] | _ \<Rightarrow> []) ps)"

definition gathered_call :: "piece list \<Rightarrow> int \<Rightarrow> tool_call" where
  "gathered_call ps k = \<lparr>tc_id = gathered (\<lambda>i n a. i) ps k, tc_name = gathered (\<lambda>i n a. n) ps k, tc_args = gathered (\<lambda>i n a. a) ps k\<rparr>"

definition last_finish :: "piece list \<Rightarrow> string" where
  "last_finish ps = (let fs = filter (\<lambda>f. f \<noteq> []) (concat (map (\<lambda>p. case p of FinishPiece f \<Rightarrow> [f] | _ \<Rightarrow> []) ps))
     in if fs = [] then [] else last fs)"

definition last_usage :: "piece list \<Rightarrow> pyval" where
  "last_usage ps = (let us = filter py_truthy (concat (map (\<lambda>p. case p of UsagePiece u \<Rightarrow> [u] | _ \<Rightarrow> []) ps))
     in if us = [] then PNone else last us)"

definition assembled_call :: "tool_call \<Rightarrow> pyval" where
  "assembled_call c = PDict [(''id'', PStr (tc_id c)), (''type'', PStr ''function''),
     (''function'', PDict [(''name'', PStr (tc_name c)), (''arguments'', PStr (tc_args c))])]"

definition none_or_text :: "string \<Rightarrow> pyval" where
  "none_or_text t = (if t = [] then PNone else PStr t)"

definition assembled :: "piece list \<Rightarrow> pyval" where
  "assembled ps = PDict [(''choices'', PList [PDict [(''index'', PInt 0),
     (''message'', PDict [(''role'', PStr ''assistant''), (''content'', none_or_text (all_text ps)),
        (''refusal'', none_or_text (all_refusal ps)),
        (''tool_calls'', PList (map (\<lambda>k. assembled_call (gathered_call ps k)) (call_numbers ps)))]),
     (''finish_reason'', PStr (last_finish ps))]]), (''usage'', last_usage ps)]"

section \<open>Reading the pieces\<close>

lemma thenS_assoc: "thenS (thenS r f) g = thenS r (\<lambda>s. thenS (f s) g)"
  by (cases "(r, f)" rule: thenS.cases) simp_all

lemma forS_append: "forS f s (xs @ ys) = thenS (forS f s xs) (\<lambda>s'. forS f s' ys)"
  by (induction xs arbitrary: s) (simp_all add: thenS_assoc)

lemma forS_map: "forS f s (map g xs) = forS (\<lambda>s x. f s (g x)) s xs"
  by (induction xs arbitrary: s) simp_all

lemma uniq_snoc: "uniq (xs @ [x]) = (if x \<in> set xs then uniq xs else uniq xs @ [x])"
  by (induction xs) auto

lemma same_key_int [simp]: "same_key (PInt a) (PInt b) = (a = b)"
  by (auto simp: same_key_def)

lemma call_state_map: "call_state (PInt k) (map (\<lambda>k. (PInt k, g k)) ks) =
    (if k \<in> set ks then g k else \<lparr>tc_id = [], tc_name = [], tc_args = []\<rparr>)"
  by (induction ks) auto

lemma put_call_map: "distinct ks \<Longrightarrow> put_call (PInt k) c (map (\<lambda>k. (PInt k, g k)) ks) =
    map (\<lambda>j. (PInt j, if j = k then c else g j)) (if k \<in> set ks then ks else ks @ [k])"
  by (induction ks) auto

lemma gathered_snoc: "gathered g (ps @ [p]) k =
    gathered g ps k @ (case p of CallPiece k' i n a \<Rightarrow> if k' = k then g i n a else [] | _ \<Rightarrow> [])"
  by (simp add: gathered_def)

lemma gathered_new: "k \<notin> set (call_numbers ps) \<Longrightarrow> gathered g ps k = []"
  by (induction ps) (auto simp: gathered_def call_numbers_def split: piece.splits)

lemma call_numbers_snoc: "call_numbers (ps @ [p]) = (case p of
    CallPiece k i n a \<Rightarrow> if k \<in> set (call_numbers ps) then call_numbers ps else call_numbers ps @ [k] | _ \<Rightarrow> call_numbers ps)"
  by (cases p) (auto simp: call_numbers_def uniq_snoc)

definition numbered_calls :: "piece list \<Rightarrow> (pyval \<times> tool_call) list" where
  "numbered_calls ps = map (\<lambda>k. (PInt k, gathered_call ps k)) (call_numbers ps)"

lemma numbered_calls_other: "(\<forall>k i n a. p \<noteq> CallPiece k i n a) \<Longrightarrow> numbered_calls (ps @ [p]) = numbered_calls ps"
  by (cases p) (auto simp: numbered_calls_def gathered_call_def gathered_snoc call_numbers_snoc)

lemma numbered_calls_snoc:
  "put_call (PInt k) (let c = call_state (PInt k) (numbered_calls ps) in
       \<lparr>tc_id = tc_id c @ i, tc_name = tc_name c @ n, tc_args = tc_args c @ a\<rparr>) (numbered_calls ps)
   = numbered_calls (ps @ [CallPiece k i n a])"
proof -
  have d: "distinct (call_numbers ps)" by (simp add: call_numbers_def distinct_uniq)
  have g: "gathered_call (ps @ [CallPiece k i n a]) j = (if j = k then
      \<lparr>tc_id = tc_id (gathered_call ps k) @ i, tc_name = tc_name (gathered_call ps k) @ n, tc_args = tc_args (gathered_call ps k) @ a\<rparr>
      else gathered_call ps j)" for j
    by (auto simp: gathered_call_def gathered_snoc)
  have new: "k \<notin> set (call_numbers ps) \<Longrightarrow> gathered_call ps k = \<lparr>tc_id = [], tc_name = [], tc_args = []\<rparr>"
    by (simp add: gathered_call_def gathered_new)
  show ?thesis unfolding numbered_calls_def call_state_map put_call_map[OF d] call_numbers_snoc g
    using new by (auto simp: Let_def)
qed

text \<open>A state that holds a message with the text, or none yet\<close>

definition text_part :: "bool \<Rightarrow> string \<Rightarrow> part" where
  "text_part refusal t = (if refusal then RefusalPart (PStr t) else TextPart (PStr t))"

lemma text_part_simps [simp]: "is_refusal (text_part r t) = r" "part_value (text_part r t) = PStr t"
  "set_part (text_part r t) (PStr u) = text_part r u"
  by (simp_all add: text_part_def)

definition text_state :: "(nat \<Rightarrow> string) \<Rightarrow> bool \<Rightarrow> string \<Rightarrow> sstate \<Rightarrow> bool" where
  "text_state hex r t s \<longleftrightarrow> (if t = [] then ss_out s = [] \<and> ss_msg s = None \<and> ss_next s = 1
     else ss_msg s = Some 0 \<and> ss_next s = 2 \<and> ss_out s = [new_message hex 1 ''in_progress'' (text_part r t)])"

definition read_pieces :: "(nat \<Rightarrow> string) \<Rightarrow> (pyval \<Rightarrow> pyval \<Rightarrow> pyval) \<Rightarrow> int \<Rightarrow> obj \<Rightarrow> piece list \<Rightarrow> sstate \<Rightarrow> bool" where
  "read_pieces hex fadd now request ps s \<longleftrightarrow>
     (\<exists>u. usage_obj fadd (last_usage ps) = Inr u \<and> ss_resp s = AList.update ''usage'' u (new_response hex now request)) \<and>
     ss_calls s = numbered_calls ps \<and> ss_finish s = none_or_text (last_finish ps) \<and>
     (if all_refusal ps = [] then text_state hex False (all_text ps) s
      else all_text ps = [] \<and> text_state hex True (all_refusal ps) s)"

lemma last_finish_snoc: "last_finish (ps @ [p]) = (case p of FinishPiece f \<Rightarrow> if f = [] then last_finish ps else f | _ \<Rightarrow> last_finish ps)"
  by (cases p) (auto simp: last_finish_def Let_def)

lemma last_usage_snoc: "last_usage (ps @ [p]) = (case p of UsagePiece u \<Rightarrow> if py_truthy u then u else last_usage ps | _ \<Rightarrow> last_usage ps)"
  by (cases p) (auto simp: last_usage_def Let_def)

lemma all_text_snoc: "all_text (ps @ [p]) = all_text ps @ (case p of TextPiece t \<Rightarrow> t | _ \<Rightarrow> [])"
  by (simp add: all_text_def)

lemma all_refusal_snoc: "all_refusal (ps @ [p]) = all_refusal ps @ (case p of RefusalPiece t \<Rightarrow> t | _ \<Rightarrow> [])"
  by (simp add: all_refusal_def)

lemmas snoc_simps = last_finish_snoc last_usage_snoc all_text_snoc all_refusal_snoc

lemma update_twice: "AList.update k v (AList.update k w d) = AList.update k v d"
  by (induction d) auto

lemma read_start: "read_pieces hex fadd now request [] (start_stream hex now request)"
  by (simp add: read_pieces_def start_stream_def Let_def last_usage_def usage_obj_def numbered_calls_def call_numbers_def
      last_finish_def none_or_text_def all_text_def all_refusal_def new_response_def text_state_def)

text \<open>What one piece does to the state\<close>

lemma add_chunk_choice:
  "add_chunk hex fadd s (choice_chunk delta rest) =
     add_choice hex s (PDict ([(''index'', PInt 0), (''delta'', PDict delta)] @ rest))"
  by (simp add: add_chunk_def choice_chunk_def dict_get_def) (cases "add_choice hex s
       (PDict ((''index'', PInt 0) # (''delta'', PDict delta) # rest))"; case_tac b; simp)

lemma add_usage_piece:
  "is_ok (usage_obj fadd u) \<Longrightarrow> add_chunk hex fadd s (piece_chunk (UsagePiece u)) =
     (if py_truthy u then (case usage_obj fadd u of Inr x \<Rightarrow> s\<lparr>ss_resp := AList.update ''usage'' x (ss_resp s)\<rparr> | Inl e \<Rightarrow> s) else s, None)"
  by (cases "usage_obj fadd u") (auto simp: add_chunk_def Let_def)

lemma add_finish_piece:
  "add_chunk hex fadd s (piece_chunk (FinishPiece f)) = (if f = [] then s else s\<lparr>ss_finish := PStr f\<rparr>, None)"
  by (simp add: add_chunk_choice add_choice_def Let_def py_or_def)

lemma add_call_piece:
  "add_chunk hex fadd s (piece_chunk (CallPiece k i n a)) =
     (s\<lparr>ss_calls := put_call (PInt k) (let c = call_state (PInt k) (ss_calls s) in
       \<lparr>tc_id = tc_id c @ i, tc_name = tc_name c @ n, tc_args = tc_args c @ a\<rparr>) (ss_calls s)\<rparr>, None)"
  by (simp add: add_chunk_choice add_choice_def Let_def py_or_def add_call_delta_def grow_call_def optional_text_def)

lemma add_text_piece:
  "add_chunk hex fadd s (piece_chunk (TextPiece t)) =
     (if t = [] then (s, None) else add_text False (PStr t) (open_message hex False s))"
  by (cases "add_text False (PStr t) (open_message hex False s)"; case_tac b)
     (simp_all add: add_chunk_choice add_choice_def Let_def py_or_def)

lemma add_refusal_piece:
  "add_chunk hex fadd s (piece_chunk (RefusalPiece t)) =
     (if t = [] then (s, None) else add_text True (PStr t) (open_message hex True s))"
  by (cases "add_text True (PStr t) (open_message hex True s)"; case_tac b)
     (simp_all add: add_chunk_choice add_choice_def Let_def py_or_def)

text \<open>A text piece on a state that holds a message of its kind, or none\<close>

lemma open_fresh:
  assumes "ss_out s = []" "ss_msg s = None" "ss_next s = 1"
  shows "ss_msg (open_message hex r s) = Some 0" "ss_next (open_message hex r s) = 2"
    "ss_out (open_message hex r s) = [new_message hex 1 ''in_progress'' (text_part r [])]"
    "ss_resp (open_message hex r s) = ss_resp s" "ss_calls (open_message hex r s) = ss_calls s"
    "ss_finish (open_message hex r s) = ss_finish s"
  using assms by (simp_all add: open_message_def Let_def new_message_def text_part_def)

lemma add_text_part:
  assumes "ss_msg s = Some 0" "ss_next s = 2" "ss_out s = [new_message hex 1 ''in_progress'' (text_part r t)]"
  shows "snd (add_text r (PStr u) s) = None" "ss_msg (fst (add_text r (PStr u) s)) = Some 0"
    "ss_next (fst (add_text r (PStr u) s)) = 2"
    "ss_out (fst (add_text r (PStr u) s)) = [new_message hex 1 ''in_progress'' (text_part r (t @ u))]"
    "ss_resp (fst (add_text r (PStr u) s)) = ss_resp s" "ss_calls (fst (add_text r (PStr u) s)) = ss_calls s"
    "ss_finish (fst (add_text r (PStr u) s)) = ss_finish s"
  using assms by (simp_all add: add_text_def new_message_def)

lemma add_text_state:
  assumes "text_state hex r t s" "u \<noteq> []"
  obtains s' where "add_text r (PStr u) (open_message hex r s) = (s', None)" "text_state hex r (t @ u) s'"
    "ss_resp s' = ss_resp s" "ss_calls s' = ss_calls s" "ss_finish s' = ss_finish s"
proof -
  let ?o = "open_message hex r s"
  have o: "ss_msg ?o = Some 0" "ss_next ?o = 2" "ss_out ?o = [new_message hex 1 ''in_progress'' (text_part r t)]"
    "ss_resp ?o = ss_resp s" "ss_calls ?o = ss_calls s" "ss_finish ?o = ss_finish s"
  proof -
    consider "t = []" "ss_out s = []" "ss_msg s = None" "ss_next s = 1"
      | "ss_msg s = Some 0" "ss_next s = 2" "ss_out s = [new_message hex 1 ''in_progress'' (text_part r t)]"
      using assms(1) by (cases "t = []") (simp_all add: text_state_def)
    then have "ss_msg ?o = Some 0 \<and> ss_next ?o = 2 \<and> ss_out ?o = [new_message hex 1 ''in_progress'' (text_part r t)] \<and>
      ss_resp ?o = ss_resp s \<and> ss_calls ?o = ss_calls s \<and> ss_finish ?o = ss_finish s"
      by cases (simp_all add: open_fresh, simp add: open_message_def)
    then show "ss_msg ?o = Some 0" "ss_next ?o = 2" "ss_out ?o = [new_message hex 1 ''in_progress'' (text_part r t)]"
      "ss_resp ?o = ss_resp s" "ss_calls ?o = ss_calls s" "ss_finish ?o = ss_finish s" by blast+
  qed
  note a = add_text_part[OF o(1-3), of u]
  have "text_state hex r (t @ u) (fst (add_text r (PStr u) ?o))" using a assms(2) by (simp add: text_state_def)
  moreover have "add_text r (PStr u) ?o = (fst (add_text r (PStr u) ?o), None)" using a(1) by (simp add: prod_eq_iff)
  ultimately show ?thesis using that a(5-7) o(4-6) by presburger
qed

definition one_kind :: "piece list \<Rightarrow> bool" where
  "one_kind ps \<longleftrightarrow> all_text ps = [] \<or> all_refusal ps = []"

lemma text_state_Nil: "text_state hex r [] s = text_state hex r' [] s"
  by (simp add: text_state_def)

lemma read_pieces_text:
  "read_pieces hex fadd now request ps s \<Longrightarrow> all_refusal ps = [] \<Longrightarrow> text_state hex False (all_text ps) s"
  "read_pieces hex fadd now request ps s \<Longrightarrow> all_text ps = [] \<Longrightarrow> text_state hex True (all_refusal ps) s"
  using text_state_Nil[of hex True s False] by (auto simp: read_pieces_def split: if_splits)

lemma read_pieces_intro:
  assumes "usage_obj fadd (last_usage ps) = Inr u" "ss_resp s = AList.update ''usage'' u (new_response hex now request)"
    "ss_calls s = numbered_calls ps" "ss_finish s = none_or_text (last_finish ps)"
    "if all_refusal ps = [] then text_state hex False (all_text ps) s else all_text ps = [] \<and> text_state hex True (all_refusal ps) s"
  shows "read_pieces hex fadd now request ps s"
  using assms by (simp add: read_pieces_def)

definition usages_ok :: "(pyval \<Rightarrow> pyval \<Rightarrow> pyval) \<Rightarrow> piece list \<Rightarrow> bool" where
  "usages_ok fadd ps \<longleftrightarrow> list_all (\<lambda>p. case p of UsagePiece u \<Rightarrow> is_ok (usage_obj fadd u) | _ \<Rightarrow> True) ps"

lemma read_piece:
  assumes "read_pieces hex fadd now request ps s" "one_kind (ps @ [p])" "usages_ok fadd (ps @ [p])"
  obtains s' where "add_chunk hex fadd s (piece_chunk p) = (s', None)" "read_pieces hex fadd now request (ps @ [p]) s'"
proof -
  have kind: "one_kind ps" using assms(2) by (auto simp: one_kind_def snoc_simps)
  obtain u where u: "usage_obj fadd (last_usage ps) = Inr u" "ss_resp s = AList.update ''usage'' u (new_response hex now request)"
    using assms(1) by (auto simp: read_pieces_def)
  have cf: "ss_calls s = numbered_calls ps" "ss_finish s = none_or_text (last_finish ps)"
    using assms(1) by (simp_all add: read_pieces_def)
  have tx: "if all_refusal ps = [] then text_state hex False (all_text ps) s else all_text ps = [] \<and> text_state hex True (all_refusal ps) s"
    using read_pieces_text[OF assms(1)] kind by (auto simp: one_kind_def)
  have keep: "text_state hex r t s' = text_state hex r t s" if "ss_out s' = ss_out s" "ss_msg s' = ss_msg s" "ss_next s' = ss_next s" for r t s'
    using that by (simp add: text_state_def)
  show ?thesis
  proof (cases p)
    case (TextPiece t)
    show ?thesis
    proof (cases "t = []")
      case True
      have "read_pieces hex fadd now request (ps @ [p]) s"
        using u cf tx TextPiece True by (intro read_pieces_intro[of _ _ u]) (simp_all add: snoc_simps numbered_calls_other)
      moreover have "add_chunk hex fadd s (piece_chunk p) = (s, None)" unfolding TextPiece add_text_piece using True by simp
      ultimately show ?thesis using that by blast
    next
      case False
      then have "all_refusal ps = []" using assms(2) TextPiece by (simp add: one_kind_def snoc_simps)
      then have "text_state hex False (all_text ps) s" using tx by simp
      then obtain s' where s': "add_text False (PStr t) (open_message hex False s) = (s', None)" "text_state hex False (all_text ps @ t) s'"
        "ss_resp s' = ss_resp s" "ss_calls s' = ss_calls s" "ss_finish s' = ss_finish s" using False by (rule add_text_state)
      have "read_pieces hex fadd now request (ps @ [p]) s'"
        using u cf s' TextPiece \<open>all_refusal ps = []\<close>
        by (intro read_pieces_intro[of _ _ u]) (simp_all add: snoc_simps numbered_calls_other)
      moreover have "add_chunk hex fadd s (piece_chunk p) = (s', None)"
        unfolding TextPiece add_text_piece using False s'(1) by simp
      ultimately show ?thesis using that by blast
    qed
  next
    case (RefusalPiece t)
    show ?thesis
    proof (cases "t = []")
      case True
      have "read_pieces hex fadd now request (ps @ [p]) s"
        using u cf tx RefusalPiece True by (intro read_pieces_intro[of _ _ u]) (simp_all add: snoc_simps numbered_calls_other)
      moreover have "add_chunk hex fadd s (piece_chunk p) = (s, None)" unfolding RefusalPiece add_refusal_piece using True by simp
      ultimately show ?thesis using that by blast
    next
      case False
      then have n: "all_text ps = []" using assms(2) RefusalPiece by (simp add: one_kind_def snoc_simps)
      then have "text_state hex True (all_refusal ps) s" using read_pieces_text(2)[OF assms(1)] by simp
      then obtain s' where s': "add_text True (PStr t) (open_message hex True s) = (s', None)" "text_state hex True (all_refusal ps @ t) s'"
        "ss_resp s' = ss_resp s" "ss_calls s' = ss_calls s" "ss_finish s' = ss_finish s" using False by (rule add_text_state)
      have "read_pieces hex fadd now request (ps @ [p]) s'"
        using u cf s' RefusalPiece n False
        by (intro read_pieces_intro[of _ _ u]) (simp_all add: snoc_simps numbered_calls_other)
      moreover have "add_chunk hex fadd s (piece_chunk p) = (s', None)"
        unfolding RefusalPiece add_refusal_piece using False s'(1) by simp
      ultimately show ?thesis using that by blast
    qed
  next
    case (CallPiece k i n a)
    let ?s' = "s\<lparr>ss_calls := numbered_calls (ps @ [p])\<rparr>"
    have "read_pieces hex fadd now request (ps @ [p]) ?s'"
      using u cf tx CallPiece keep[of ?s'] by (intro read_pieces_intro[of _ _ u]) (simp_all add: snoc_simps)
    moreover have "add_chunk hex fadd s (piece_chunk p) = (?s', None)"
      unfolding CallPiece add_call_piece cf(1) numbered_calls_snoc by (rule refl)
    ultimately show ?thesis using that by blast
  next
    case (FinishPiece f)
    let ?s' = "if f = [] then s else s\<lparr>ss_finish := PStr f\<rparr>"
    have "read_pieces hex fadd now request (ps @ [p]) ?s'"
      using u cf tx FinishPiece keep[of ?s']
      by (intro read_pieces_intro[of _ _ u]) (simp_all add: snoc_simps numbered_calls_other none_or_text_def)
    moreover have "add_chunk hex fadd s (piece_chunk p) = (?s', None)" unfolding FinishPiece by (rule add_finish_piece)
    ultimately show ?thesis using that by blast
  next
    case (UsagePiece v)
    obtain x where x: "usage_obj fadd v = Inr x" using assms(3) UsagePiece by (auto simp: usages_ok_def is_ok_iff)
    let ?s' = "if py_truthy v then s\<lparr>ss_resp := AList.update ''usage'' x (ss_resp s)\<rparr> else s"
    have "read_pieces hex fadd now request (ps @ [p]) ?s'"
      using u cf tx UsagePiece x keep[of ?s']
      by (intro read_pieces_intro[of _ _ "if py_truthy v then x else u"]) (simp_all add: snoc_simps numbered_calls_other update_twice)
    moreover have "add_chunk hex fadd s (piece_chunk p) = (?s', None)"
      unfolding UsagePiece using add_usage_piece[of fadd v hex s] x by simp
    ultimately show ?thesis using that by blast
  qed
qed

lemma read_all_pieces:
  assumes "one_kind ps" "usages_ok fadd ps"
  obtains s where "forS (add_chunk hex fadd) (start_stream hex now request) (map piece_chunk ps) = (s, None)"
    "read_pieces hex fadd now request ps s"
  using assms
proof (induction ps arbitrary: thesis rule: rev_induct)
  case Nil
  then show ?case using read_start by simp
next
  case (snoc p ps)
  have ok: "one_kind ps" "usages_ok fadd ps" using snoc.prems(2,3) by (auto simp: one_kind_def snoc_simps usages_ok_def)
  obtain s where s: "forS (add_chunk hex fadd) (start_stream hex now request) (map piece_chunk ps) = (s, None)"
    "read_pieces hex fadd now request ps s" using snoc.IH ok by blast
  obtain s' where s': "add_chunk hex fadd s (piece_chunk p) = (s', None)" "read_pieces hex fadd now request (ps @ [p]) s'"
    using read_piece[OF s(2) snoc.prems(2,3)] by blast
  show ?case by (rule snoc.prems(1)[OF _ s'(2)]) (simp add: forS_append s(1) s'(1))
qed

end
