(* ===== verification/Responses_Properties.thy ===== *)
theory Responses_Properties imports Responses_Equivalence
begin

text \<open>
  The properties of the Responses adapter: the protocol of its events, the agreement of the streamed and
  the complete conversion, and the replay of a response as the input of the next request.
\<close>

section \<open>Statuses\<close>

fun with_status :: "string \<Rightarrow> (obj \<times> nat) result \<Rightarrow> (obj \<times> nat) result" where
  "with_status st (Inl e) = Inl e"
| "with_status st (Inr (d, n)) = Inr (AList.update ''status'' (PStr st) d, n)"

lemma update_commute: "map_of d k \<noteq> None \<Longrightarrow> k \<noteq> k' \<Longrightarrow>
    AList.update k' v' (AList.update k v d) = AList.update k v (AList.update k' v' d)"
  by (induction d) auto

lemma map_of_put: "map_of (AList.update k v d) k' = (if k = k' then Some v else map_of d k')"
  by (simp add: update_conv')

lemma restore_status:
  "map_of d ''status'' \<noteq> None \<Longrightarrow> foldl restore_one (AList.update ''status'' v d) ts = AList.update ''status'' v (foldl restore_one d ts)"
proof (induction ts arbitrary: d)
  case (Cons t ts)
  have "restore_one (AList.update ''status'' v d) t = AList.update ''status'' v (restore_one d t)"
  proof -
    have "AList.update ''name'' x (AList.update ''status'' v d) = AList.update ''status'' v (AList.update ''name'' x d)" for x
      using update_commute[OF Cons.prems, of "''name''" x v] by simp
    moreover have "AList.update ''namespace'' y (AList.update ''status'' v (AList.update ''name'' x d)) =
        AList.update ''status'' v (AList.update ''namespace'' y (AList.update ''name'' x d))" for x y
      using update_commute[of "AList.update ''name'' x d" "''status''" "''namespace''" y v] Cons.prems by (simp add: map_of_put)
    ultimately show ?thesis by (simp add: restore_one_def)
  qed
  moreover have "map_of (restore_one d t) ''status'' \<noteq> None" using Cons.prems by (simp add: restore_one_def map_of_put)
  ultimately show ?case using Cons.IH by simp
qed simp

lemma call_item_agree:
  assumes "tr \<longrightarrow> st = ''incomplete''"
  shows "call_item loads hex custom st tr (assembled_call c) n =
    with_status st (call_item loads hex custom ''in_progress'' tr (call_value c) n)"
proof -
  show ?thesis
    using assms by (cases "custom_input loads (PStr (tc_args c))")
      (auto simp: call_item_def assembled_call_def call_value_def Let_def custom_item_def)
qed

lemma call_item_status:
  "call_item loads hex custom st tr call n = Inr (d, n') \<Longrightarrow> map_of d ''status'' \<noteq> None"
  by (auto simp: call_item_def Let_def except_simps custom_item_def split: if_splits sum.splits)

lemma published_agree:
  assumes "tr \<longrightarrow> st = ''incomplete''"
  shows "published_call loads hex request st tr (assembled_call c) n =
    with_status st (published_call loads hex request ''in_progress'' tr (call_value c) n)"
proof (cases "flat_tools request")
  case (Inl e)
  then show ?thesis by (simp add: published_call_def custom_names_def)
next
  case (Inr ts)
  then obtain cn where cn: "custom_names request = Inr cn" by (simp add: custom_names_def)
  show ?thesis
  proof (cases "call_item loads hex cn ''in_progress'' tr (call_value c) n")
    case (Inl e)
    then show ?thesis by (simp add: published_call_def cn call_item_agree[OF assms])
  next
    case r: (Inr r)
    obtain d n' where "r = (d, n')" by (cases r)
    then show ?thesis using r call_item_status[of loads hex cn "''in_progress''" tr "call_value c" n d n'] Inr
      by (simp add: published_call_def cn call_item_agree[OF assms] restore_namespace_def restore_status)
  qed
qed

section \<open>The calls at the end of a stream\<close>

definition complete_calls :: "(string \<Rightarrow> pyval result) \<Rightarrow> (nat \<Rightarrow> string) \<Rightarrow> obj \<Rightarrow> string \<Rightarrow> bool
    \<Rightarrow> out_item list \<times> nat \<Rightarrow> pyval list \<Rightarrow> (out_item list \<times> nat) result" where
  "complete_calls loads hex request st tr = foldE (\<lambda>(out, n) call.
     bindE (published_call loads hex request st tr call n) (\<lambda>(item, n'). Inr (out @ [Call item], n')))"

lemma publish_call_step:
  "publish_call loads hex request tr s c = (case published_call loads hex request ''in_progress'' tr (call_value c) (ss_next s) of
     Inl e \<Rightarrow> (s, Some e)
   | Inr (d, n) \<Rightarrow> (fst (publish_call loads hex request tr s c), None))"
  "published_call loads hex request ''in_progress'' tr (call_value c) (ss_next s) = Inr (d, n) \<Longrightarrow>
     ss_out (fst (publish_call loads hex request tr s c)) = ss_out s @ [Call d] \<and>
     ss_next (fst (publish_call loads hex request tr s c)) = n \<and>
     ss_resp (fst (publish_call loads hex request tr s c)) = ss_resp s"
  by (simp_all add: publish_call_def Let_def split: sum.split prod.split)

lemma calls_agree:
  assumes "tr \<longrightarrow> st = ''incomplete''"
  shows "complete_calls loads hex request st tr (map (set_status st) (ss_out s), ss_next s) (map assembled_call cs) =
    (case forS (publish_call loads hex request tr) s cs of
       (s', None) \<Rightarrow> Inr (map (set_status st) (ss_out s'), ss_next s') | (s', Some e) \<Rightarrow> Inl e)
    \<and> ss_resp (fst (forS (publish_call loads hex request tr) s cs)) = ss_resp s"
proof (induction cs arbitrary: s)
  case Nil
  then show ?case by (simp add: complete_calls_def)
next
  case (Cons c cs)
  show ?case
  proof (cases "published_call loads hex request ''in_progress'' tr (call_value c) (ss_next s)")
    case (Inl e)
    then show ?thesis using publish_call_step(1)[of loads hex request tr s c]
      by (simp add: complete_calls_def published_agree[OF assms])
  next
    case (Inr r)
    obtain d n where r: "r = (d, n)" by (cases r)
    define s1 where "s1 = fst (publish_call loads hex request tr s c)"
    have step: "publish_call loads hex request tr s c = (s1, None)"
      using publish_call_step(1)[of loads hex request tr s c] Inr r by (simp add: s1_def)
    have s1: "ss_out s1 = ss_out s @ [Call d]" "ss_next s1 = n" "ss_resp s1 = ss_resp s"
      using publish_call_step(2)[OF Inr[unfolded r]] by (simp_all add: s1_def)
    show ?thesis using Cons.IH[of s1] s1 Inr r step
      by (simp add: complete_calls_def published_agree[OF assms])
  qed
qed

lemma close_item_out:
  "ss_out (close_item st s i) = (ss_out s)[i := set_status st (ss_out s ! i)]" "ss_resp (close_item st s i) = ss_resp s"
  by (auto simp: close_item_def Let_def part_done_def split: option.split part.split)

lemma close_items_out:
  "n \<le> length (ss_out s) \<Longrightarrow>
   ss_out (foldl (close_item st) s [0..<n]) = map (set_status st) (take n (ss_out s)) @ drop n (ss_out s) \<and>
   ss_resp (foldl (close_item st) s [0..<n]) = ss_resp s"
proof (induction n)
  case (Suc n)
  then have "drop n (ss_out s) = ss_out s ! n # drop (Suc n) (ss_out s)" by (simp add: Cons_nth_drop_Suc)
  then show ?case using Suc by (simp add: close_item_out take_Suc_conv_app_nth nth_append list_update_append)
qed simp

section \<open>No cancellation is made up\<close>

lemma no_cancel:
  "itemE v k \<noteq> Inl TaskCancelled"
  "(case v of PStr s \<Rightarrow> Inr s | _ \<Rightarrow> Inl (ValueError m)) \<noteq> Inl TaskCancelled"
  by (cases v; simp split: option.split)+

lemma published_cancel:
  assumes "custom_names request = Inr cn" "published_call loads hex request st tr (call_value c) n = Inl TaskCancelled"
  shows "\<exists>d. loads d = Inl TaskCancelled"
proof -
  obtain ts where ts: "flat_tools request = Inr ts" using assms(1) by (auto simp: custom_names_def except_simps)
  then have "call_item loads hex cn st tr (call_value c) n = Inl TaskCancelled"
    using assms by (auto simp: published_call_def except_simps restore_namespace_def split: prod.splits)
  then have "custom_input loads (PStr (tc_args c)) = Inl TaskCancelled"
    by (auto simp: call_item_def call_value_def Let_def split: if_splits sum.splits)
  then show ?thesis
    using no_cancel by (simp add: custom_input_def except_simps) blast
qed

lemma publish_cancel:
  assumes "custom_names request = Inr cn" "\<forall>d. loads d \<noteq> Inl TaskCancelled"
  shows "snd (forS (publish_call loads hex request tr) s cs) \<noteq> Some TaskCancelled"
proof (induction cs arbitrary: s)
  case (Cons c cs)
  show ?case
  proof (cases "published_call loads hex request ''in_progress'' tr (call_value c) (ss_next s)")
    case (Inl e)
    then have "e \<noteq> TaskCancelled" using published_cancel[OF assms(1)] assms(2) by blast
    then show ?thesis using Inl by (simp add: publish_call_def)
  next
    case (Inr r)
    then have "publish_call loads hex request tr s c = (fst (publish_call loads hex request tr s c), None)"
      using publish_call_step(1)[of loads hex request tr s c] by (cases r) simp
    then show ?thesis using Cons.IH by (metis forS.simps(2) thenS.simps(1))
  qed
qed simp

section \<open>Agreement\<close>

lemma read_upstream_done:
  "sse_read buf cs = (ds, r) \<Longrightarrow> done_mark \<in> set ds \<Longrightarrow>
   read_upstream step ending final cs buf s = forS step s (takeWhile (\<lambda>d. d \<noteq> done_mark) ds)"
proof (induction cs arbitrary: buf ds s)
  case (Cons c cs)
  obtain d1 r1 where d1: "frames (crlf (buf @ c)) = (d1, r1)" by (cases "frames (crlf (buf @ c))")
  obtain es r2 where es: "sse_read r1 cs = (es, r2)" by (cases "sse_read r1 cs")
  have ds: "ds = d1 @ es" "r = r2" using Cons.prems(1) d1 es by simp_all
  show ?case
  proof (cases "done_mark \<in> set d1")
    case True
    have "thenS q (\<lambda>s'. (s', None)) = q" for q by (cases "(q, \<lambda>s'::sstate. (s', None :: pyexc option))" rule: thenS.cases) simp_all
    then show ?thesis using d1 ds True by (simp add: takeWhile_append1)
  next
    case False
    then have t1: "takeWhile (\<lambda>d. d \<noteq> done_mark) d1 = d1" by (auto simp: takeWhile_eq_all_conv)
    have t2: "takeWhile (\<lambda>d. d \<noteq> done_mark) ds = d1 @ takeWhile (\<lambda>d. d \<noteq> done_mark) es"
      unfolding ds(1) using False by (intro takeWhile_append2) auto
    have ih: "read_upstream step ending final cs r1 s' = forS step s' (takeWhile (\<lambda>d. d \<noteq> done_mark) es)" for s'
      using Cons.IH[of r1 es] es ds Cons.prems(2) False by auto
    show ?thesis unfolding t2 forS_append read_upstream.simps d1 prod.case t1 using ih False by simp
  qed
qed simp

lemma set_status_new [simp]: "set_status st (new_message hex n st' p) = new_message hex n st p"
  by (simp add: new_message_def)

lemma from_chat_assembled:
  assumes "read_pieces hex fadd now request ps s" "one_kind ps" "last_finish ps \<noteq> []"
    and st: "st = final_status (PStr (last_finish ps))"
  shows "from_chat_body loads hex fadd now (assembled ps) request =
    bindE (complete_calls loads hex request st (last_finish ps = ''length'') (map (set_status st) (ss_out s), ss_next s)
             (map assembled_call (map snd (ss_calls s)))) (\<lambda>(out, n).
    bindE (usage_obj fadd (last_usage ps)) (\<lambda>u.
    Inr (with_reason (PStr (last_finish ps)) (AList.update ''usage'' u (AList.update ''status'' (PStr st)
      (AList.update ''output'' (PList (map (PDict \<circ> item_obj) out)) (new_response hex now request)))))))"
proof -
  have calls: "map (\<lambda>k. assembled_call (gathered_call ps k)) (call_numbers ps) = map assembled_call (map snd (ss_calls s))"
    using assms(1) by (simp add: read_pieces_def numbered_calls_def)
  have tx: "text_state hex False (all_text ps) s" if "all_refusal ps = []" using assms(1) that by (simp add: read_pieces_text)
  have rf: "text_state hex True (all_refusal ps) s \<and> all_text ps = []" if "all_refusal ps \<noteq> []"
    using assms(1) that by (simp add: read_pieces_def)
  consider (none) "all_text ps = []" "all_refusal ps = []" "ss_out s = []" "ss_next s = 1"
    | (spoken) "all_text ps \<noteq> []" "all_refusal ps = []" "ss_out s = [new_message hex 1 ''in_progress'' (TextPart (PStr (all_text ps)))]" "ss_next s = 2"
    | (refused) "all_text ps = []" "all_refusal ps \<noteq> []" "ss_out s = [new_message hex 1 ''in_progress'' (RefusalPart (PStr (all_refusal ps)))]" "ss_next s = 2"
    using tx rf by (cases "all_refusal ps = []"; cases "all_text ps = []") (auto simp: text_state_def text_part_def)
  then show ?thesis
  proof cases
    case none
    then show ?thesis using assms(3)
      by (simp add: from_chat_body_def assembled_def Let_def none_or_text_def calls complete_calls_def st comp_def checkE_def numeral_2_eq_2)
  next
    case spoken
    then show ?thesis using assms(3)
      by (simp add: from_chat_body_def assembled_def Let_def none_or_text_def calls complete_calls_def st comp_def checkE_def numeral_2_eq_2)
  next
    case refused
    then show ?thesis using assms(3)
      by (simp add: from_chat_body_def assembled_def Let_def none_or_text_def calls complete_calls_def st comp_def checkE_def numeral_2_eq_2)
  qed
qed

lemma response_fields:
  "AList.update ''output'' o' (with_reason f (AList.update ''status'' st (AList.update ''usage'' u (new_response hex now request)))) =
   with_reason f (AList.update ''usage'' u (AList.update ''status'' st (AList.update ''output'' o' (new_response hex now request))))"
  by (simp add: with_reason_def new_response_def)

lemma from_chat_unfinished: "last_finish ps = [] \<Longrightarrow> \<exists>e. from_chat_body loads hex fadd now (assembled ps) request = Inl e"
  by (simp add: from_chat_body_def assembled_def checkE_def)

lemma relabel_cases: "relabel p m r = Inr x \<longleftrightarrow> r = Inr x" "(\<exists>e. relabel p m r = Inl e) \<longleftrightarrow> (\<exists>e. r = Inl e)"
  by (auto simp: relabel_def split: sum.splits)

lemma dict_get_single [simp]: "dict_get [(k, v)] k = v"
  by (simp add: dict_get_def)

text \<open>The end of a stream that was read completely\<close>

lemma finish_agrees:
  assumes read: "read_pieces hex fadd now request ps s" and kind: "one_kind ps"
    and cn: "custom_names request = Inr cn" and loads: "\<forall>d. loads d \<noteq> Inl TaskCancelled"
    and run: "settle_stream str_exc (finish_stream loads hex request s) = (s', e)"
  shows "e = None \<and> (case from_chat_body loads hex fadd now (assembled ps) request of
     Inr resp \<Rightarrow> fst (last (ss_events s')) = ''response.'' @ final_status (PStr (last_finish ps)) \<and>
       dict_get (snd (last (ss_events s'))) ''response'' = PDict resp
   | Inl x \<Rightarrow> fst (last (ss_events s')) = ''response.failed'')"
proof (cases "last_finish ps = []")
  case True
  then have "finish_stream loads hex request s = (s, Some (ValueError ''Upstream stream ended before a finish reason''))"
    using read by (simp add: finish_stream_def read_pieces_def none_or_text_def)
  moreover obtain x where "from_chat_body loads hex fadd now (assembled ps) request = Inl x"
    using from_chat_unfinished[OF True] by blast
  ultimately show ?thesis using run by (auto simp: fail_stream_def Let_def)
next
  case False
  let ?f = "PStr (last_finish ps)" and ?tr = "last_finish ps = ''length''"
  let ?st = "final_status ?f"
  have fin: "ss_finish s = ?f" using read False by (simp add: read_pieces_def none_or_text_def)
  obtain u where u: "usage_obj fadd (last_usage ps) = Inr u" "ss_resp s = AList.update ''usage'' u (new_response hex now request)"
    using read by (auto simp: read_pieces_def)
  have tr: "?tr \<longrightarrow> ?st = ''incomplete''" by (simp add: final_status_def cut_short_def)
  let ?run = "forS (publish_call loads hex request ?tr) s (map snd (ss_calls s))"
  note calls = calls_agree[OF tr, of loads hex request s "map snd (ss_calls s)"]
  note complete = from_chat_assembled[OF read kind False refl, of loads]
  obtain s1 e1 where run1: "?run = (s1, e1)" by (cases ?run)
  show ?thesis
  proof (cases e1)
    case (Some x)
    have "x \<noteq> TaskCancelled" using publish_cancel[OF cn loads, of hex ?tr s "map snd (ss_calls s)"] run1 Some by auto
    moreover have "finish_stream loads hex request s = (s1, Some x)" using fin run1 Some by (simp add: finish_stream_def)
    moreover have "from_chat_body loads hex fadd now (assembled ps) request = Inl x"
      using complete calls run1 Some by simp
    ultimately show ?thesis using run by (auto simp: fail_stream_def Let_def)
  next
    case None
    define s2 where "s2 = foldl (close_item ?st) s1 [0..<length (ss_out s1)]"
    have s2: "ss_out s2 = map (set_status ?st) (ss_out s1)" "ss_resp s2 = ss_resp s1"
      using close_items_out[OF order_refl, of ?st s1] by (simp_all add: s2_def)
    have resp: "ss_resp s1 = AList.update ''usage'' u (new_response hex now request)" using calls run1 u by simp
    let ?s3 = "s2\<lparr>ss_resp := with_reason ?f (AList.update ''status'' (PStr ?st) (ss_resp s2))\<rparr>"
    have "finish_stream loads hex request s = (send_event (''response.'' @ ?st) [(''response'', PDict (shown ?s3))] ?s3, None)"
      using fin run1 None by (simp add: finish_stream_def Let_def s2_def)
    moreover have "from_chat_body loads hex fadd now (assembled ps) request = Inr (shown ?s3)"
      unfolding complete shown_def using calls run1 None u s2 resp by (simp add: response_fields)
    ultimately show ?thesis using run by auto
  qed
qed

text \<open>What the theorem needs of \<open>json\<close>: a dumped chunk is one line of text that loads back.\<close>

definition json_line :: "(pyval \<Rightarrow> string) \<Rightarrow> (string \<Rightarrow> pyval result) \<Rightarrow> pyval \<Rightarrow> bool" where
  "json_line dumps loads v \<longleftrightarrow> loads (dumps v) = Inr v \<and> one_line (dumps v) \<and> dumps v \<noteq> done_mark"

definition chat_stream :: "(pyval \<Rightarrow> string) \<Rightarrow> string \<Rightarrow> piece list \<Rightarrow> string" where
  "chat_stream dumps nl ps = concat (map (sse_event nl) (map (\<lambda>p. dumps (piece_chunk p)) ps @ [done_mark]))"

lemma read_chat_stream:
  assumes "concat chunks = chat_stream dumps nl ps" "nl \<in> {[lf], [cr, lf]}"
    "list_all (\<lambda>p. json_line dumps loads (piece_chunk p)) ps"
  shows "read_upstream (add_payload loads hex fadd) ending final chunks [] s = forS (add_chunk hex fadd) s (map piece_chunk ps)"
proof -
  let ?ds = "map (\<lambda>p. dumps (piece_chunk p)) ps"
  have lines: "list_all one_line (?ds @ [done_mark])" using assms(3)
    by (auto simp: list_all_iff json_line_def) (simp add: one_line_def; code_simp)
  have "sse_read [] chunks = (?ds @ [done_mark], [])" using events_read[OF lines assms(2)] assms(1) by (simp add: chat_stream_def)
  moreover have "takeWhile (\<lambda>d. d \<noteq> done_mark) (?ds @ [done_mark]) = ?ds"
  proof -
    have "takeWhile (\<lambda>d. d \<noteq> done_mark) (?ds @ [done_mark]) = ?ds @ takeWhile (\<lambda>d. d \<noteq> done_mark) [done_mark]"
      using assms(3) by (intro takeWhile_append2) (auto simp: list_all_iff json_line_def)
    then show ?thesis by simp
  qed
  ultimately have "read_upstream (add_payload loads hex fadd) ending final chunks [] s = forS (add_payload loads hex fadd) s ?ds"
    using read_upstream_done by fastforce
  also have "\<dots> = forS (add_chunk hex fadd) s (map piece_chunk ps)"
    using assms(3) by (induction ps arbitrary: s) (auto simp: add_payload_def json_line_def intro!: arg_cong2[where f = thenS])
  finally show ?thesis .
qed

lemma stream_agrees:
  assumes "concat chunks = chat_stream dumps nl ps" "nl \<in> {[lf], [cr, lf]}"
    "list_all (\<lambda>p. json_line dumps loads (piece_chunk p)) ps"
    "usages_ok fadd ps" "one_kind ps" "custom_names request = Inr cn" "\<forall>d. loads d \<noteq> Inl TaskCancelled"
  shows "\<exists>es. stream_chat_response loads hex fadd str_exc now chunks final ending request = Inr (es, None) \<and>
    (case from_chat_response loads hex fadd now (assembled ps) request of
       Inr resp \<Rightarrow> fst (last es) = ''response.'' @ final_status (PStr (last_finish ps)) \<and>
         dict_get (snd (last es)) ''response'' = PDict resp
     | Inl x \<Rightarrow> fst (last es) = ''response.failed'')"
proof -
  obtain s where s: "forS (add_chunk hex fadd) (start_stream hex now request) (map piece_chunk ps) = (s, None)"
    "read_pieces hex fadd now request ps s" using read_all_pieces[OF assms(5,4)] by blast
  obtain s' e where run: "settle_stream str_exc (finish_stream loads hex request s) = (s', e)"
    by (cases "settle_stream str_exc (finish_stream loads hex request s)")
  note fin = finish_agrees[OF s(2) assms(5,6,7) run]
  have "stream_chat_response loads hex fadd str_exc now chunks final ending request = Inr (ss_events s', None)"
    using fin run s(1) assms(6) read_chat_stream[OF assms(1-3)] by (simp add: stream_chat_response_def)
  moreover have "from_chat_response loads hex fadd now (assembled ps) request =
      relabel malformed ''Malformed upstream chat response'' (from_chat_body loads hex fadd now (assembled ps) request)"
    by (simp add: from_chat_response_def assembled_def)
  ultimately show ?thesis using fin
    by (cases "from_chat_body loads hex fadd now (assembled ps) request") (simp_all add: relabel_def)
qed

end
