(* ===== verification/Responses_Replay.thy ===== *)
theory Responses_Replay imports Responses_Properties
begin

text \<open>
  A client without server-side state sends the output items of a response back as the input of its next
  request (\<open>sparkdeck/responses.py\<close>): the messages made of them are the assistant's turn again, with the
  tool names, identifiers and arguments the engine produced.  This needs names that the expansion of
  namespaces keeps apart; the last section shows what happens when they are not.
\<close>

section \<open>Namespaces\<close>

definition flat_ok :: "flat_tool \<Rightarrow> bool" where
  "flat_ok t \<longleftrightarrow> (py_truthy (ft_space t) \<longrightarrow>
     dict_get (ft_tool t) ''name'' = PStr (qual_name (ft_space t) (ft_name t)))"

lemma add_child_ok: "add_child ns acc child = Inr acc' \<Longrightarrow> list_all flat_ok acc \<Longrightarrow> list_all flat_ok acc'"
  by (auto simp: add_child_def except_simps flat_ok_def split: if_splits)

lemma add_tool_ok: "add_tool acc tool = Inr acc' \<Longrightarrow> list_all flat_ok acc \<Longrightarrow> list_all flat_ok acc'"
  unfolding add_tool_def
  by (auto simp: except_simps split: prod.splits intro: foldE_invariant[where P = "list_all flat_ok"] add_child_ok)

lemma flat_tools_ok:
  assumes "flat_tools request = Inr ts"
  shows "list_all flat_ok ts"
proof -
  obtain xs where "foldE add_tool [] xs = Inr ts" using assms by (auto simp: flat_tools_def except_simps)
  then show ?thesis by (rule foldE_invariant) (auto intro: add_tool_ok)
qed

text \<open>No name inside a namespace is the qualified name of another tool.\<close>

definition clear_names :: "flat_tool list \<Rightarrow> bool" where
  "clear_names ts \<longleftrightarrow> list_all (\<lambda>t. py_truthy (ft_space t) \<longrightarrow>
     list_all (\<lambda>t'. py_truthy (ft_space t') \<longrightarrow> \<not> same_key (dict_get (ft_tool t') ''name'') (ft_name t)) ts) ts"

definition matches :: "obj \<Rightarrow> flat_tool \<Rightarrow> bool" where
  "matches d t \<longleftrightarrow> same_key (dict_get (ft_tool t) ''name'') (dict_get d ''name'') \<and> py_truthy (ft_space t)"

lemma restore_none: "list_all (\<lambda>t. \<not> matches d t) ts \<Longrightarrow> foldl restore_one d ts = d"
  by (induction ts) (auto simp: restore_one_def matches_def)

lemma restore_cases:
  assumes "clear_names all" "set ts \<subseteq> set all"
  shows "foldl restore_one d ts = d \<or> (\<exists>t \<in> set ts. matches d t \<and>
     foldl restore_one d ts = AList.update ''namespace'' (ft_space t) (AList.update ''name'' (ft_name t) d))"
  using assms(2)
proof (induction ts)
  case (Cons t ts)
  show ?case
  proof (cases "matches d t")
    case False
    then have "restore_one d t = d" by (auto simp: restore_one_def matches_def)
    then show ?thesis using Cons by auto
  next
    case True
    let ?d = "AList.update ''namespace'' (ft_space t) (AList.update ''name'' (ft_name t) d)"
    have "restore_one d t = ?d" using True by (simp add: restore_one_def matches_def)
    moreover have "list_all (\<lambda>t'. \<not> matches ?d t') ts"
      using assms(1) Cons.prems True by (fastforce simp: clear_names_def list_all_iff matches_def)
    ultimately show ?thesis using restore_none True by auto
  qed
qed simp

section \<open>One call\<close>

definition replayed_args :: "(pyval \<Rightarrow> string) \<Rightarrow> (string \<Rightarrow> pyval result) \<Rightarrow> pyval list \<Rightarrow> tool_call \<Rightarrow> string" where
  "replayed_args dumps loads custom c = (if \<exists>x \<in> set custom. same_key x (PStr (tc_name c))
     then dumps (PDict [(''input'', case custom_input loads (PStr (tc_args c)) of Inr v \<Rightarrow> PStr v | Inl e \<Rightarrow> PStr (tc_args c))])
     else tc_args c)"

definition replayed_call :: "(pyval \<Rightarrow> string) \<Rightarrow> (string \<Rightarrow> pyval result) \<Rightarrow> pyval list \<Rightarrow> tool_call \<Rightarrow> obj" where
  "replayed_call dumps loads custom c = [(''id'', PStr (tc_id c)), (''type'', PStr ''function''),
     (''function'', PDict [(''name'', PStr (tc_name c)), (''arguments'', PStr (replayed_args dumps loads custom c))])]"

lemma same_key_text: "same_key x (PStr s) \<longleftrightarrow> x = PStr s"
  by (cases x) (auto simp: same_key_def)

lemma call_item_fields:
  assumes "call_item loads hex custom st tr (assembled_call c) n = Inr (d, n')" "tc_id c \<noteq> []"
  shows "map_of d ''call_id'' = Some (PStr (tc_id c))" "map_of d ''name'' = Some (PStr (tc_name c))"
    "map_of d ''namespace'' = None"
    "(map_of d ''type'' = Some (PStr ''function_call'') \<and> map_of d ''arguments'' = Some (PStr (tc_args c)) \<and>
        \<not> (\<exists>x \<in> set custom. same_key x (PStr (tc_name c)))) \<or>
     (map_of d ''type'' = Some (PStr ''custom_tool_call'') \<and> (\<exists>x \<in> set custom. same_key x (PStr (tc_name c))) \<and>
        map_of d ''input'' = Some (case custom_input loads (PStr (tc_args c)) of Inr v \<Rightarrow> PStr v | Inl e \<Rightarrow> PStr (tc_args c)))"
  using assms
  by (auto simp: call_item_def assembled_call_def Let_def custom_item_def split: if_splits sum.splits)

lemma published_replay:
  assumes pub: "published_call loads hex request st tr (assembled_call c) n = Inr (d, n')"
    and id: "tc_id c \<noteq> []" and ts: "flat_tools request = Inr ts" "clear_names ts" and cn: "custom_names request = Inr cn"
  shows "\<exists>kind. map_of d ''type'' = Some kind \<and> kind \<in> {PStr ''function_call'', PStr ''custom_tool_call''} \<and>
    chat_call dumps kind (PDict d) = Inr (replayed_call dumps loads cn c)"
proof -
  obtain d0 where d0: "call_item loads hex cn st tr (assembled_call c) n = Inr (d0, n')" "d = foldl restore_one d0 ts"
    using pub ts(1) cn by (auto simp: published_call_def restore_namespace_def except_simps)
  note f = call_item_fields[OF d0(1) id]
  have d: "map_of d k = map_of d0 k" if "k \<noteq> ''name''" "k \<noteq> ''namespace''" for k
    using restore_cases[OF ts(2) order_refl, of d0] that by (auto simp: d0(2) map_of_put)
  have name: "\<exists>ns m. getE (PDict d) ''namespace'' PNone = Inr ns \<and> itemE (PDict d) ''name'' = Inr m \<and>
      (if py_truthy ns then PStr (qual_name ns m) else m) = PStr (tc_name c)"
    using restore_cases[OF ts(2) order_refl, of d0]
  proof
    assume "foldl restore_one d0 ts = d0"
    then show ?thesis using f by (simp add: d0(2))
  next
    assume "\<exists>t \<in> set ts. matches d0 t \<and> foldl restore_one d0 ts =
      AList.update ''namespace'' (ft_space t) (AList.update ''name'' (ft_name t) d0)"
    then obtain t where t: "t \<in> set ts" "matches d0 t"
      "d = AList.update ''namespace'' (ft_space t) (AList.update ''name'' (ft_name t) d0)" by (auto simp: d0(2))
    have "dict_get (ft_tool t) ''name'' = PStr (qual_name (ft_space t) (ft_name t))"
      using flat_tools_ok[OF ts(1)] t by (auto simp: list_all_iff flat_ok_def matches_def)
    moreover have "dict_get (ft_tool t) ''name'' = PStr (tc_name c)"
      using t(2) f(2) by (simp add: matches_def dict_get_def same_key_text)
    ultimately show ?thesis using t(2) by (simp add: t(3) map_of_put matches_def)
  qed
  then obtain ns m where nm: "getE (PDict d) ''namespace'' PNone = Inr ns" "itemE (PDict d) ''name'' = Inr m"
    "(if py_truthy ns then PStr (qual_name ns m) else m) = PStr (tc_name c)" by blast
  have cid: "itemE (PDict d) ''call_id'' = Inr (PStr (tc_id c))" using d f(1) by simp
  from f(4) show ?thesis
  proof
    assume a: "map_of d0 ''type'' = Some (PStr ''function_call'') \<and> map_of d0 ''arguments'' = Some (PStr (tc_args c)) \<and>
        \<not> (\<exists>x \<in> set cn. same_key x (PStr (tc_name c)))"
    then have "getE (PDict d) ''arguments'' (PStr []) = Inr (PStr (tc_args c))" using d by simp
    then show ?thesis using a d nm cid
      by (simp add: chat_call_def replayed_call_def replayed_args_def del: getE.simps itemE.simps)
  next
    assume a: "map_of d0 ''type'' = Some (PStr ''custom_tool_call'') \<and> (\<exists>x \<in> set cn. same_key x (PStr (tc_name c))) \<and>
        map_of d0 ''input'' = Some (case custom_input loads (PStr (tc_args c)) of Inr v \<Rightarrow> PStr v | Inl e \<Rightarrow> PStr (tc_args c))"
    then have "getE (PDict d) ''input'' (PStr []) =
        Inr (case custom_input loads (PStr (tc_args c)) of Inr v \<Rightarrow> PStr v | Inl e \<Rightarrow> PStr (tc_args c))" using d by simp
    then show ?thesis using a d nm cid
      by (simp add: chat_call_def replayed_call_def replayed_args_def del: getE.simps itemE.simps)
  qed
qed

section \<open>The whole turn\<close>

lemma complete_calls_items:
  "complete_calls loads hex request st tr (out0, n) (map assembled_call cs) = Inr (out, n') \<Longrightarrow>
   \<exists>ds. out = out0 @ map Call ds \<and>
     list_all2 (\<lambda>d c. \<exists>i j. published_call loads hex request st tr (assembled_call c) i = Inr (d, j)) ds cs"
proof (induction cs arbitrary: out0 n)
  case (Cons c cs)
  then obtain d i where d: "published_call loads hex request st tr (assembled_call c) n = Inr (d, i)"
    "complete_calls loads hex request st tr (out0 @ [Call d], i) (map assembled_call cs) = Inr (out, n')"
    by (auto simp: complete_calls_def except_simps)
  from Cons.IH[OF d(2)] obtain ds where "out = (out0 @ [Call d]) @ map Call ds"
    "list_all2 (\<lambda>d c. \<exists>i j. published_call loads hex request st tr (assembled_call c) i = Inr (d, j)) ds cs" by blast
  then show ?case using d(1) by (intro exI[of _ "d # ds"]) auto
qed (simp add: complete_calls_def)

lemma add_input_call:
  assumes "published_call loads hex request st tr (assembled_call c) i = Inr (d, j)" "tc_id c \<noteq> []"
    "flat_tools request = Inr ts" "clear_names ts" "custom_names request = Inr cn"
  shows "add_input dumps ms (PDict d) = Inr (add_call (replayed_call dumps loads cn c) ms)"
proof -
  obtain kind where k: "map_of d ''type'' = Some kind" "kind \<in> {PStr ''function_call'', PStr ''custom_tool_call''}"
    "chat_call dumps kind (PDict d) = Inr (replayed_call dumps loads cn c)"
    using published_replay[OF assms] by blast
  then show ?thesis by (auto simp: add_input_def)
qed

lemma add_input_calls:
  assumes "list_all2 (\<lambda>d c. \<exists>i j. published_call loads hex request st tr (assembled_call c) i = Inr (d, j)) ds cs"
    "\<forall>c \<in> set cs. tc_id c \<noteq> []" "flat_tools request = Inr ts" "clear_names ts" "custom_names request = Inr cn"
  shows "foldE (add_input dumps) ms (map PDict ds) = Inr (foldl (\<lambda>ms c. add_call (replayed_call dumps loads cn c) ms) ms cs)"
  using assms(1,2)
proof (induction ds cs arbitrary: ms rule: list_all2_induct)
  case (Cons d ds c cs)
  then obtain i j where d: "published_call loads hex request st tr (assembled_call c) i = Inr (d, j)" by blast
  have "add_input dumps ms (PDict d) = Inr (add_call (replayed_call dumps loads cn c) ms)"
    using add_input_call[OF d _ assms(3-5)] Cons.prems by simp
  then show ?case using Cons by simp
qed simp

lemma add_calls_open:
  "foldl (\<lambda>ms c. add_call (f c) ms) (ms @ [[(''role'', PStr ''assistant''), (''content'', x), (''tool_calls'', PList ys)]]) cs =
   ms @ [[(''role'', PStr ''assistant''), (''content'', x), (''tool_calls'', PList (ys @ map (PDict \<circ> f) cs))]]"
  by (induction cs arbitrary: ys) (simp_all add: add_call_def dict_get_def)

lemma add_calls_message:
  "foldl (\<lambda>ms c. add_call (f c) ms) (ms @ [[(''role'', PStr ''assistant''), (''content'', x)]]) cs =
   ms @ [[(''role'', PStr ''assistant''), (''content'', x)] @ (if cs = [] then [] else [(''tool_calls'', PList (map (PDict \<circ> f) cs))])]"
  using add_calls_open[of f ms x _ "tl cs"] by (cases cs) (simp_all add: add_call_def dict_get_def)

lemma add_calls_fresh:
  assumes "ms = [] \<or> dict_get (last ms) ''role'' \<noteq> PStr ''assistant''" "cs \<noteq> []"
  shows "foldl (\<lambda>ms c. add_call (f c) ms) ms cs =
    ms @ [[(''role'', PStr ''assistant''), (''content'', PNone), (''tool_calls'', PList (map (PDict \<circ> f) cs))]]"
proof -
  obtain c cs' where cs: "cs = c # cs'" using assms(2) by (cases cs) auto
  have "add_call (f c) ms = ms @ [[(''role'', PStr ''assistant''), (''content'', PNone), (''tool_calls'', PList [PDict (f c)])]]"
    using assms(1) by (auto simp: add_call_def)
  then show ?thesis using add_calls_open[of f ms PNone "[PDict (f c)]" cs'] by (simp add: cs)
qed

definition replayed_turn :: "(pyval \<Rightarrow> string) \<Rightarrow> (string \<Rightarrow> pyval result) \<Rightarrow> pyval list \<Rightarrow> piece list \<Rightarrow> obj list" where
  "replayed_turn dumps loads custom ps = (let t = all_text ps @ all_refusal ps; cs = map (gathered_call ps) (call_numbers ps) in
     if t = [] \<and> cs = [] then []
     else [[(''role'', PStr ''assistant''),
            (''content'', if t = [] then PNone else PList [PDict [(''type'', PStr ''text''), (''text'', PStr t)]])] @
           (if cs = [] then [] else [(''tool_calls'', PList (map (PDict \<circ> replayed_call dumps loads custom) cs))])])"

lemma add_input_message:
  "add_input dumps ms (PDict (item_obj (new_message hex n st p))) = Inr (ms @ [[(''role'', PStr ''assistant''),
     (''content'', PList [PDict [(''type'', PStr ''text''), (''text'', part_value p)]])]])"
  by (cases p) (simp_all add: add_input_def new_message_def chat_message_def content_part_def)

lemma turn_replayed:
  assumes resp: "from_chat_response loads hex fadd now (assembled ps) request = Inr resp"
    and kind: "one_kind ps" and usage: "usages_ok fadd ps"
    and ts: "flat_tools request = Inr ts" "clear_names ts" and cn: "custom_names request = Inr cn"
    and ids: "\<forall>k \<in> set (call_numbers ps). tc_id (gathered_call ps k) \<noteq> []"
    and ms: "ms = [] \<or> dict_get (last ms) ''role'' \<noteq> PStr ''assistant''"
  shows "\<exists>items. dict_get resp ''output'' = PList items \<and>
    foldE (add_input dumps) ms items = Inr (ms @ replayed_turn dumps loads cn ps)"
proof -
  obtain s where s: "read_pieces hex fadd now request ps s" using read_all_pieces[OF kind usage] by blast
  have body: "from_chat_body loads hex fadd now (assembled ps) request = Inr resp"
    using resp by (simp add: from_chat_response_def assembled_def relabel_cases(1))
  then have fin: "last_finish ps \<noteq> []" using from_chat_unfinished[of ps loads hex fadd now request] by auto
  let ?st = "final_status (PStr (last_finish ps))"
  let ?cs = "map (gathered_call ps) (call_numbers ps)"
  have calls: "map snd (ss_calls s) = ?cs" using s by (simp add: read_pieces_def numbered_calls_def)
  obtain out n u where out: "complete_calls loads hex request ?st (last_finish ps = ''length'')
      (map (set_status ?st) (ss_out s), ss_next s) (map assembled_call ?cs) = Inr (out, n)"
    and resp': "resp = with_reason (PStr (last_finish ps)) (AList.update ''usage'' u (AList.update ''status'' (PStr ?st)
      (AList.update ''output'' (PList (map (PDict \<circ> item_obj) out)) (new_response hex now request))))"
    using body from_chat_assembled[OF s kind fin refl, of loads] calls by (auto simp: except_simps)
  obtain ds where ds: "out = map (set_status ?st) (ss_out s) @ map Call ds"
    "list_all2 (\<lambda>d c. \<exists>i j. published_call loads hex request ?st (last_finish ps = ''length'') (assembled_call c) i = Inr (d, j)) ds ?cs"
    using complete_calls_items[OF out] by blast
  have outp: "dict_get resp ''output'' = PList (map (PDict \<circ> item_obj) out)"
    unfolding resp' with_reason_def by (simp add: dict_get_def map_of_put)
  let ?f = "replayed_call dumps loads cn"
  have idc: "\<forall>c \<in> set ?cs. tc_id c \<noteq> []" using ids by simp
  have fold: "foldE (add_input dumps) ms' (map PDict ds) = Inr (foldl (\<lambda>ms c. add_call (?f c) ms) ms' ?cs)" for ms'
    by (rule add_input_calls[OF ds(2) idc ts cn])
  have items: "map (PDict \<circ> item_obj) out = map (PDict \<circ> item_obj) (map (set_status ?st) (ss_out s)) @ map PDict ds"
    using ds(1) by simp
  have "foldE (add_input dumps) ms (map (PDict \<circ> item_obj) out) = Inr (ms @ replayed_turn dumps loads cn ps)"
  proof (cases "all_text ps @ all_refusal ps = []")
    case True
    then have "ss_out s = []" using s by (auto simp: read_pieces_def text_state_def)
    then have "foldE (add_input dumps) ms (map (PDict \<circ> item_obj) out) = Inr (foldl (\<lambda>ms c. add_call (?f c) ms) ms ?cs)"
      using items fold by simp
    also have "\<dots> = Inr (ms @ replayed_turn dumps loads cn ps)"
      using True add_calls_fresh[OF ms, of ?cs ?f] by (cases "?cs = []") (simp_all add: replayed_turn_def Let_def)
    finally show ?thesis .
  next
    case False
    obtain p where p: "ss_out s = [new_message hex 1 ''in_progress'' p]" "part_value p = PStr (all_text ps @ all_refusal ps)"
    proof (cases "all_refusal ps = []")
      case True
      then have "ss_out s = [new_message hex 1 ''in_progress'' (text_part False (all_text ps))]"
        using read_pieces_text(1)[OF s] False by (simp add: text_state_def)
      then show ?thesis using that True by simp
    next
      case ref: False
      then have "all_text ps = []" using kind by (simp add: one_kind_def)
      then have "ss_out s = [new_message hex 1 ''in_progress'' (text_part True (all_refusal ps))]"
        using read_pieces_text(2)[OF s] ref by (simp add: text_state_def)
      then show ?thesis using that \<open>all_text ps = []\<close> by simp
    qed
    have "foldE (add_input dumps) ms (map (PDict \<circ> item_obj) out) =
      Inr (foldl (\<lambda>ms c. add_call (?f c) ms) (ms @ [[(''role'', PStr ''assistant''),
        (''content'', PList [PDict [(''type'', PStr ''text''), (''text'', PStr (all_text ps @ all_refusal ps))]])]]) ?cs)"
      unfolding items foldE_append p(1) list.map set_status_new comp_apply foldE.simps add_input_message p(2) bindE.simps
      by (rule fold)
    also have "\<dots> = Inr (ms @ replayed_turn dumps loads cn ps)"
      unfolding add_calls_message using False by (auto simp: replayed_turn_def Let_def)
    finally show ?thesis .
  qed
  then show ?thesis using outp by blast
qed

section \<open>A conversation\<close>

text \<open>A request with a plain, a namespaced and a custom tool, and a streamed answer that calls them.  For the
  witnesses \<open>json\<close> is a printer and a table of the texts it printed.\<close>

definition chat_demo_request :: obj where
  "chat_demo_request = [(''model'', PStr ''m''), (''tools'', PList [
     PDict [(''type'', PStr ''function''), (''name'', PStr ''f'')],
     PDict [(''type'', PStr ''namespace''), (''name'', PStr ''ns''), (''tools'', PList [PDict [(''type'', PStr ''function''), (''name'', PStr ''g'')]])],
     PDict [(''type'', PStr ''custom''), (''name'', PStr ''c'')]])]"

definition chat_pieces :: "piece list" where
  "chat_pieces = [TextPiece ''Hi'', TextPiece '' you'', CallPiece 0 ''c1'' ''ns__'' ''{'', CallPiece 1 ''c2'' ''c'' ''{}'',
     CallPiece 0 [] ''g'' ''}'', FinishPiece ''tool_calls'', UsagePiece (PDict [(''prompt_tokens'', PInt 3), (''completion_tokens'', PInt 4)])]"

definition chat_table :: "pyval list" where
  "chat_table = PDict [(''input'', PStr ''x'')] # map piece_chunk chat_pieces"

definition chat_dumps :: "pyval \<Rightarrow> string" where
  "chat_dumps v = ''{'' @ replicate (length (takeWhile (\<lambda>w. w \<noteq> v) chat_table)) (CHR ''1'') @ ''}''"

definition chat_loads :: "string \<Rightarrow> pyval result" where
  "chat_loads d = (case drop (length d - 2) chat_table of v # vs \<Rightarrow> Inr v | [] \<Rightarrow> Inl (ValueError ''Expecting value''))"

definition chat_hex :: "nat \<Rightarrow> string" where
  "chat_hex n = dec_nat n"

definition chat_tools :: "flat_tool list" where
  "chat_tools = (case flat_tools chat_demo_request of Inr ts \<Rightarrow> ts | Inl e \<Rightarrow> [])"

definition chat_demo :: string where
  "chat_demo = chat_stream chat_dumps [cr, lf] chat_pieces"

lemma chat_ok:
  "list_all (\<lambda>p. json_line chat_dumps chat_loads (piece_chunk p)) chat_pieces"
  "usages_ok (\<lambda>a b. PNone) chat_pieces" "one_kind chat_pieces"
  "custom_names chat_demo_request = Inr [PStr ''c'']"
  "flat_tools chat_demo_request = Inr chat_tools" "clear_names chat_tools"
  "list_all (\<lambda>k. tc_id (gathered_call chat_pieces k) \<noteq> []) (call_numbers chat_pieces)"
  by code_simp+

lemma chat_loads_ok: "\<forall>d. chat_loads d \<noteq> Inl TaskCancelled"
  by (simp add: chat_loads_def split: list.split)

lemma chat_answer: "is_ok (from_chat_response chat_loads chat_hex (\<lambda>a b. PNone) 7 (assembled chat_pieces) chat_demo_request)"
  by code_simp

lemma chat_agrees:
  "\<exists>es. stream_chat_response chat_loads chat_hex (\<lambda>a b. PNone) (\<lambda>e. ''boom'') 7
      [take 9 chat_demo, drop 9 chat_demo] [] None chat_demo_request = Inr (es, None)"
proof -
  have "concat [take 9 chat_demo, drop 9 chat_demo] = chat_stream chat_dumps [cr, lf] chat_pieces" "[cr, lf] \<in> {[lf], [cr, lf]}"
    by (simp_all add: chat_demo_def)
  from stream_agrees[OF this chat_ok(1,2,3,4) chat_loads_ok] show ?thesis by blast
qed

section \<open>Properties\<close>

text \<open>C0: However a chat stream is cut and however it goes wrong, the events of the Responses stream are numbered
  from zero, begin with the two opening events and end with the only terminal one; items are opened in order
  and, unless the stream failed, each is closed once in the same order; and the text of the final response is
  the concatenation of the deltas.\<close>

theorem stream_events_protocol:
  assumes "stream_chat_response loads hex fadd str_exc now chunks final ending request = Inr (es, None)"
  shows "protocol_ok es"
  by (rule stream_protocol[OF assms])

theorem stream_events_protocol_witness:
  "\<exists>es. stream_chat_response chat_loads chat_hex (\<lambda>a b. PNone) (\<lambda>e. ''boom'') 7
      [take 9 chat_demo, drop 9 chat_demo] [] None chat_demo_request = Inr (es, None) \<and> protocol_ok es"
proof -
  obtain es where "stream_chat_response chat_loads chat_hex (\<lambda>a b. PNone) (\<lambda>e. ''boom'') 7
      [take 9 chat_demo, drop 9 chat_demo] [] None chat_demo_request = Inr (es, None)"
    using chat_agrees by blast
  then show ?thesis using stream_events_protocol by blast
qed

text \<open>C0: A chat stream cut anywhere, with either line terminator, ends with the response the complete conversion
  makes of the assembled answer, with the same identifiers; where that conversion refuses the answer, the
  stream fails.  Of \<open>json\<close> it needs that the dumped chunks are lines that load back.\<close>

theorem stream_equals_complete:
  assumes "concat chunks = chat_stream dumps nl ps" "nl \<in> {[lf], [cr, lf]}"
    "list_all (\<lambda>p. json_line dumps loads (piece_chunk p)) ps"
    "usages_ok fadd ps" "one_kind ps" "custom_names request = Inr cn" "\<forall>d. loads d \<noteq> Inl TaskCancelled"
  shows "\<exists>es. stream_chat_response loads hex fadd str_exc now chunks final ending request = Inr (es, None) \<and>
    (case from_chat_response loads hex fadd now (assembled ps) request of
       Inr resp \<Rightarrow> fst (last es) = ''response.'' @ final_status (PStr (last_finish ps)) \<and>
         dict_get (snd (last es)) ''response'' = PDict resp
     | Inl x \<Rightarrow> fst (last es) = ''response.failed'')"
  by (rule stream_agrees[OF assms])

theorem stream_equals_complete_witness:
  "\<exists>es resp. stream_chat_response chat_loads chat_hex (\<lambda>a b. PNone) (\<lambda>e. ''boom'') 7
      [take 9 chat_demo, drop 9 chat_demo] [] None chat_demo_request = Inr (es, None) \<and>
    fst (last es) = ''response.completed'' \<and> dict_get (snd (last es)) ''response'' = PDict resp"
proof -
  have st: "final_status (PStr (last_finish chat_pieces)) = ''completed''" by code_simp
  obtain resp where "from_chat_response chat_loads chat_hex (\<lambda>a b. PNone) 7 (assembled chat_pieces) chat_demo_request = Inr resp"
    using chat_answer by (auto simp: is_ok_iff)
  then show ?thesis
    using stream_equals_complete[of "[take 9 chat_demo, drop 9 chat_demo]" chat_dumps "[cr, lf]" chat_pieces chat_loads
        "\<lambda>a b. PNone" chat_demo_request "[PStr ''c'']" chat_hex "\<lambda>e. ''boom''" 7 "[]" None]
      chat_ok chat_loads_ok by (auto simp: chat_demo_def st)
qed

text \<open>C0: The output items of an accepted answer, sent back as input after a turn of the user or of a tool, become
  exactly the assistant's turn: its text, and its tool calls with their original qualified names, identifiers
  and arguments, where the arguments of a custom tool are dumped again from its input.\<close>

theorem response_replays:
  assumes "from_chat_response loads hex fadd now (assembled ps) request = Inr resp"
    "one_kind ps" "usages_ok fadd ps" "flat_tools request = Inr ts" "clear_names ts" "custom_names request = Inr cn"
    "\<forall>k \<in> set (call_numbers ps). tc_id (gathered_call ps k) \<noteq> []"
    "ms = [] \<or> dict_get (last ms) ''role'' \<noteq> PStr ''assistant''"
  shows "\<exists>items. dict_get resp ''output'' = PList items \<and>
    foldE (add_input dumps) ms items = Inr (ms @ replayed_turn dumps loads cn ps)"
  by (rule turn_replayed[OF assms])

theorem response_replays_witness:
  "\<exists>resp items. from_chat_response chat_loads chat_hex (\<lambda>a b. PNone) 7 (assembled chat_pieces) chat_demo_request = Inr resp \<and>
    dict_get resp ''output'' = PList items \<and>
    foldE (add_input chat_dumps) [] items = Inr [[(''role'', PStr ''assistant''),
      (''content'', PList [PDict [(''type'', PStr ''text''), (''text'', PStr ''Hi you'')]]),
      (''tool_calls'', PList [
        PDict [(''id'', PStr ''c1''), (''type'', PStr ''function''),
          (''function'', PDict [(''name'', PStr ''ns__g''), (''arguments'', PStr ''{}'')])],
        PDict [(''id'', PStr ''c2''), (''type'', PStr ''function''),
          (''function'', PDict [(''name'', PStr ''c''), (''arguments'', PStr ''{}'')])]])]]"
proof -
  obtain resp where resp: "from_chat_response chat_loads chat_hex (\<lambda>a b. PNone) 7 (assembled chat_pieces) chat_demo_request = Inr resp"
    using chat_answer by (auto simp: is_ok_iff)
  have turn: "replayed_turn chat_dumps chat_loads [PStr ''c''] chat_pieces = [[(''role'', PStr ''assistant''),
      (''content'', PList [PDict [(''type'', PStr ''text''), (''text'', PStr ''Hi you'')]]),
      (''tool_calls'', PList [
        PDict [(''id'', PStr ''c1''), (''type'', PStr ''function''),
          (''function'', PDict [(''name'', PStr ''ns__g''), (''arguments'', PStr ''{}'')])],
        PDict [(''id'', PStr ''c2''), (''type'', PStr ''function''),
          (''function'', PDict [(''name'', PStr ''c''), (''arguments'', PStr ''{}'')])]])]]"
    by code_simp
  show ?thesis
    using response_replays[OF resp chat_ok(3,2,5,6,4), of "[]" chat_dumps] chat_ok(7) resp
    by (auto simp: list_all_iff turn)
qed

text \<open>Names that the expansion confuses: the call of \<open>b__c\<close> in the namespace \<open>a\<close> is reported as \<open>c\<close> in the
  namespace \<open>b\<close>, because the loop of \<open>_restore_namespace\<close> goes on with the name it has just restored.\<close>

lemma namespaces_confused:
  "restore_namespace [(''name'', PStr ''a__b__c'')] [(''tools'', PList [
     PDict [(''type'', PStr ''namespace''), (''name'', PStr ''a''), (''tools'', PList [PDict [(''type'', PStr ''function''), (''name'', PStr ''b__c'')]])],
     PDict [(''type'', PStr ''namespace''), (''name'', PStr ''b''), (''tools'', PList [PDict [(''type'', PStr ''function''), (''name'', PStr ''c'')]])]])]
   = Inr [(''name'', PStr ''c''), (''namespace'', PStr ''b'')]"
  by code_simp

text \<open>A chunk whose delta holds \<open>tool_calls: null\<close> fails the stream.\<close>

lemma null_tool_calls_fail:
  "add_chunk hex fadd s (choice_chunk [(''tool_calls'', PNone)] []) = (s, Some (TypeError ''not iterable''))"
  by (simp add: add_chunk_choice add_choice_def Let_def py_or_def)

end
