(* ===== verification/Download_Throttle.thy ===== *)
theory Download_Throttle imports Py_Values
begin

text \<open>
  Limits on downloads (\<open>sparkdeck/download_throttle.py\<close>): the bandwidth setting, the deadline of a capped
  transfer, the token bucket every socket read of a download worker pays from, and the rate files through
  which a running worker follows a changed setting (\<open>sparkdeck/virtual_nas.py\<close>).
  Rates are exact; a rate is \<open>None\<close> when it is infinite.  The clock is an argument, \<open>fl\<close> is \<open>float\<close> on a text.
\<close>

section \<open>Settings\<close>

definition max_bandwidth :: rat where
  "max_bandwidth = 1000000"

definition float_overflow :: "int \<Rightarrow> bool" where
  "float_overflow i \<longleftrightarrow> 2 ^ 1024 \<le> \<bar>i\<bar>"

definition number_message :: string where
  "number_message = ''max_download_bandwidth_mbps must be a number''"

fun bandwidth_number :: "pyval \<Rightarrow> pyfloat result" where
  "bandwidth_number (PInt i) = (if float_overflow i then Inl OverflowError else Inr (Finite (of_int i)))"
| "bandwidth_number (PFloat f t) = Inr f"
| "bandwidth_number v = Inl (ValueError number_message)"

definition parse_bandwidth_mbps :: "pyval \<Rightarrow> rat result" where
  "parse_bandwidth_mbps v = bindE (bandwidth_number v) (\<lambda>f. case f of
     Finite r \<Rightarrow> if r < 0 then Inl (ValueError ''max_download_bandwidth_mbps must not be negative'')
                 else if max_bandwidth < r then Inl (ValueError
                   ''max_download_bandwidth_mbps must not exceed 1000000 megabits per second'')
                 else Inr r
   | _ \<Rightarrow> Inl (ValueError ''max_download_bandwidth_mbps must be a finite number''))"

definition bandwidth_bytes_per_second :: "pyval \<Rightarrow> rat result" where
  "bandwidth_bytes_per_second v = bindE (parse_bandwidth_mbps v) (\<lambda>m. Inr (m * 1000000 / 8))"

section \<open>Deadlines\<close>

definition transfer_ceiling :: rat where
  "transfer_ceiling = 90 * 24 * 3600"

definition unknown_bytes :: int where
  "unknown_bytes = 32 * 1024 ^ 3"

fun conversion_error :: "pyexc \<Rightarrow> bool" where
  "conversion_error (TypeError s) = True"
| "conversion_error (ValueError s) = True"
| "conversion_error e = False"

definition expected_count :: "pyval \<Rightarrow> int result" where
  "expected_count v = (case py_int (py_or v (PInt 0)) of
     Inl e \<Rightarrow> if conversion_error e then Inr 0 else Inl e | Inr n \<Rightarrow> Inr n)"

definition needed_bytes :: "int \<Rightarrow> int" where
  "needed_bytes n = (if max n 0 * 4 \<noteq> 0 then max n 0 * 4 else unknown_bytes)"

definition capped_transfer_timeout :: "pyval \<Rightarrow> pyval \<Rightarrow> rat \<Rightarrow> rat \<Rightarrow> rat result" where
  "capped_transfer_timeout mbps expected dflt lowest = (case parse_bandwidth_mbps mbps of
     Inl (ValueError s) \<Rightarrow> Inr dflt
   | Inl e \<Rightarrow> Inl e
   | Inr m \<Rightarrow> if m \<le> 0 then Inr dflt else
       bindE (expected_count expected) (\<lambda>n.
       if float_overflow (needed_bytes n) then Inl OverflowError
       else Inr (min transfer_ceiling (max lowest (of_int (needed_bytes n) / (m * 1000000 / 8))))))"

section \<open>The token bucket\<close>

record bucket =
  tb_rate :: "rat option"
  tb_due :: rat
  tb_unlimited :: bool

definition new_bucket :: "rat \<Rightarrow> bucket result" where
  "new_bucket r = (if r \<le> 0 then Inl (ValueError ''token bucket rate must be positive'')
     else Inr \<lparr>tb_rate = Some r, tb_due = 0, tb_unlimited = False\<rparr>)"

fun set_rate :: "pyfloat \<Rightarrow> bucket \<Rightarrow> bucket" where
  "set_rate (Finite r) b = (if r > 0 then b\<lparr>tb_rate := Some r, tb_unlimited := False\<rparr> else b\<lparr>tb_unlimited := True\<rparr>)"
| "set_rate PosInf b = b\<lparr>tb_rate := None, tb_unlimited := False\<rparr>"
| "set_rate f b = b\<lparr>tb_unlimited := True\<rparr>"

fun cost :: "rat option \<Rightarrow> int \<Rightarrow> rat" where
  "cost (Some r) n = of_int n / r"
| "cost None n = 0"

text \<open>\<open>acquire\<close> at the time \<open>now\<close>: the bucket and the seconds the caller sleeps.\<close>

definition acquire :: "int \<Rightarrow> rat \<Rightarrow> bucket \<Rightarrow> bucket \<times> rat" where
  "acquire n now b = (if n \<le> 0 \<or> tb_unlimited b then (b, 0)
     else (let due = max now (tb_due b) + cost (tb_rate b) n in (b\<lparr>tb_due := due\<rparr>, max 0 (due - now))))"

text \<open>The rate file: \<open>None\<close> when it cannot be read.\<close>

definition apply_rate_file :: "(string \<Rightarrow> pyfloat option) \<Rightarrow> string option \<Rightarrow> bucket \<Rightarrow> bucket" where
  "apply_rate_file fl content b = (case content of None \<Rightarrow> b | Some t \<Rightarrow>
     if py_strip t = [] then set_rate (Finite 0) b
     else case fl (py_strip t) of None \<Rightarrow> b | Some f \<Rightarrow> set_rate f b)"

section \<open>Socket reads\<close>

text \<open>What the wrapped methods return: a number of bytes, a byte string, a pair with an address, or else.\<close>

datatype read_result = Count int | Bytes nat | Pair "read_result list" | Other

fun plain_count :: "read_result \<Rightarrow> int" where
  "plain_count (Count n) = n"
| "plain_count (Bytes n) = int n"
| "plain_count r = 0"

fun result_byte_count :: "read_result \<Rightarrow> int" where
  "result_byte_count (Pair (r # rs)) = plain_count r"
| "result_byte_count (Pair []) = 0"
| "result_byte_count r = plain_count r"

definition charge :: "read_result \<Rightarrow> rat \<Rightarrow> bucket \<Rightarrow> bucket \<times> rat" where
  "charge r now b = (if result_byte_count r > 0 then acquire (result_byte_count r) now b else (b, 0))"

section \<open>Shares of the cluster rate\<close>

text \<open>The workers of a node: the text of each rate file as a number, and the share of the cluster rate.\<close>

record worker =
  w_rate :: rat
  w_factor :: rat

definition rate_factor :: "rat \<Rightarrow> rat \<Rightarrow> rat" where
  "rate_factor rate cluster = (if cluster > 0 then max (min (rate / cluster) 1) (1 / 10 ^ 9) else 1)"

definition register_rate_file :: "string \<Rightarrow> rat \<Rightarrow> rat \<Rightarrow> (string, worker) dict \<Rightarrow> (string, worker) dict" where
  "register_rate_file key rate cluster ws = (if rate \<le> 0 then ws
     else AList.update key \<lparr>w_rate = rate, w_factor = rate_factor rate cluster\<rparr> ws)"

definition release_rate_file :: "string \<Rightarrow> (string, worker) dict \<Rightarrow> (string, worker) dict" where
  "release_rate_file key ws = AList.delete key ws"

definition apply_bandwidth_cap :: "rat \<Rightarrow> (string, worker) dict \<Rightarrow> (string, worker) dict" where
  "apply_bandwidth_cap cluster ws = map (\<lambda>(k, w). (k, w\<lparr>w_rate := cluster * w_factor w\<rparr>)) ws"

section \<open>Runs of a bucket\<close>

text \<open>The reads of a process and the changes of its rate, in the order the lock serialises them.  The log has
  the size of every read that had to pay and the moment the reader may go on.\<close>

datatype throttle_op = Read read_result rat | SetRate pyfloat

fun throttle :: "bucket \<Rightarrow> throttle_op list \<Rightarrow> bucket \<times> (int \<times> rat) list" where
  "throttle b [] = (b, [])"
| "throttle b (SetRate f # ops) = throttle (set_rate f b) ops"
| "throttle b (Read r now # ops) = (case charge r now b of (b', wait) \<Rightarrow> (case throttle b' ops of (b'', lg) \<Rightarrow>
     (b'', if result_byte_count r > 0 then (result_byte_count r, now + wait) # lg else lg)))"

text \<open>No rate of the run exceeds \<open>R\<close>, and the limit is never removed.\<close>

definition limited :: "rat \<Rightarrow> bucket \<Rightarrow> bool" where
  "limited R b \<longleftrightarrow> \<not> tb_unlimited b \<and> (\<exists>r. tb_rate b = Some r \<and> 0 < r \<and> r \<le> R)"

fun rate_at_most :: "rat \<Rightarrow> throttle_op \<Rightarrow> bool" where
  "rate_at_most R (SetRate (Finite r)) = (0 < r \<and> r \<le> R)"
| "rate_at_most R (SetRate f) = False"
| "rate_at_most R (Read r now) = True"

text \<open>The reservations of the log start one behind the other.\<close>

fun spaced :: "rat \<Rightarrow> rat \<Rightarrow> (int \<times> rat) list \<Rightarrow> bool" where
  "spaced R d [] = True"
| "spaced R d ((n, e) # lg) = (0 < n \<and> d + of_int n / R \<le> e \<and> spaced R e lg)"

lemma limited_set_rate: "limited R b \<Longrightarrow> rate_at_most R (SetRate f) \<Longrightarrow> limited R (set_rate f b) \<and> tb_due (set_rate f b) = tb_due b"
  by (cases f) (auto simp: limited_def)

lemma limited_charge:
  assumes "limited R b" "result_byte_count r > 0" "charge r now b = (b', wait)"
  shows "limited R b'" "tb_due b' = now + wait" "tb_due b + of_int (result_byte_count r) / R \<le> tb_due b'"
    "now + of_int (result_byte_count r) / R \<le> tb_due b'"
proof -
  let ?n = "result_byte_count r"
  obtain q where q: "tb_rate b = Some q" "0 < q" "q \<le> R" "\<not> tb_unlimited b" using assms(1) by (auto simp: limited_def)
  have b': "b' = b\<lparr>tb_due := max now (tb_due b) + of_int ?n / q\<rparr>" "wait = max 0 (max now (tb_due b) + of_int ?n / q - now)"
    using assms(2,3) q by (auto simp: charge_def acquire_def Let_def)
  have le: "of_int ?n / R \<le> of_int ?n / q" using q assms(2) by (intro divide_left_mono) auto
  have "0 \<le> of_int ?n / q" using q assms(2) by simp
  then show "tb_due b' = now + wait" using b' by simp
  show "limited R b'" using b'(1) q by (simp add: limited_def)
  show "tb_due b + of_int ?n / R \<le> tb_due b'" "now + of_int ?n / R \<le> tb_due b'"
    using le b'(1) by (auto simp: max_def)
qed

lemma throttle_spaced:
  "limited R b \<Longrightarrow> list_all (rate_at_most R) ops \<Longrightarrow> throttle b ops = (b', lg) \<Longrightarrow> spaced R (tb_due b) lg"
proof (induction b ops arbitrary: b' lg rule: throttle.induct)
  case (2 b f ops)
  then show ?case using limited_set_rate[of R b f] by simp
next
  case (3 b r now ops)
  obtain b1 wait where c: "charge r now b = (b1, wait)" by (cases "charge r now b")
  obtain b2 lg' where t: "throttle b1 ops = (b2, lg')" by (cases "throttle b1 ops")
  show ?case
  proof (cases "result_byte_count r > 0")
    case True
    note l = limited_charge[OF "3.prems"(1) True c]
    have "spaced R (tb_due b1) lg'" using "3.IH"[OF c[symmetric] l(1) _ t] "3.prems"(2) by simp
    then show ?thesis using l True "3.prems"(3) c t by auto
  next
    case False
    then have "b1 = b" using c by (simp add: charge_def)
    then have "spaced R (tb_due b) lg'" using "3.IH"[OF c[symmetric] _ _ t] "3.prems" by simp
    then show ?thesis using False "3.prems"(3) c t by auto
  qed
qed simp

definition bytes_until :: "rat \<Rightarrow> (int \<times> rat) list \<Rightarrow> rat" where
  "bytes_until t lg = of_int (sum_list (map fst (filter (\<lambda>(n, d). d \<le> t) lg)))"

definition bytes_between :: "rat \<Rightarrow> rat \<Rightarrow> (int \<times> rat) list \<Rightarrow> rat" where
  "bytes_between s t lg = of_int (sum_list (map fst (filter (\<lambda>(n, d). s < d \<and> d \<le> t) lg)))"

lemma spaced_later: "spaced R d lg \<Longrightarrow> 0 < R \<Longrightarrow> (n, e) \<in> set lg \<Longrightarrow> d < e"
proof (induction lg arbitrary: d)
  case (Cons x lg)
  obtain m f where x: "x = (m, f)" by (cases x)
  have m: "0 < (of_int m :: rat) / R" "d + of_int m / R \<le> f" using Cons.prems x by simp_all
  have "d < d + of_int m / R" using m(1) by simp
  also note m(2)
  finally have "d < f" .
  then show ?case using Cons.IH[of f] Cons.prems x by (auto intro: less_trans)
qed simp

lemma spaced_until: "spaced R d lg \<Longrightarrow> 0 < R \<Longrightarrow> d \<le> t \<Longrightarrow> bytes_until t lg \<le> R * (t - d)"
proof (induction lg arbitrary: d)
  case Nil
  then show ?case by (simp add: bytes_until_def)
next
  case (Cons x lg)
  obtain n e where x: "x = (n, e)" by (cases x)
  have n: "0 < n" "d + of_int n / R \<le> e" "spaced R e lg" using Cons.prems x by auto
  have step: "of_int n \<le> R * (e - d)" using n(2) Cons.prems(2) by (simp add: field_simps)
  show ?case
  proof (cases "e \<le> t")
    case True
    have "bytes_until t lg \<le> R * (t - e)" using Cons.IH n(3) Cons.prems(2) True by blast
    then have "of_int n + bytes_until t lg \<le> R * (e - d) + R * (t - e)" using step by (rule add_mono[rotated])
    also have "\<dots> = R * (t - d)" by (simp add: algebra_simps)
    finally show ?thesis using x True by (simp add: bytes_until_def)
  next
    case False
    have "filter (\<lambda>(n, d). d \<le> t) lg = []"
    proof (rule filter_False, rule ballI)
      fix p assume p: "p \<in> set lg"
      obtain m f where mf: "p = (m, f)" by (cases p)
      then have "e < f" using spaced_later[OF n(3) Cons.prems(2)] p by blast
      then show "\<not> (case p of (n, d) \<Rightarrow> d \<le> t)" using False mf by simp
    qed
    then show ?thesis using x False Cons.prems by (simp add: bytes_until_def)
  qed
qed

lemma spaced_between:
  "spaced R d lg \<Longrightarrow> 0 < R \<Longrightarrow> s \<le> t \<Longrightarrow> (\<forall>(n, e) \<in> set lg. of_int n \<le> M) \<Longrightarrow> 0 \<le> M \<Longrightarrow>
   bytes_between s t lg \<le> R * (t - s) + M"
proof (induction lg arbitrary: d)
  case Nil
  then show ?case by (simp add: bytes_between_def)
next
  case (Cons x lg)
  obtain n e where x: "x = (n, e)" by (cases x)
  have n: "0 < n" "spaced R e lg" using Cons.prems x by auto
  show ?case
  proof (cases "e \<le> s")
    case True
    then have "bytes_between s t (x # lg) = bytes_between s t lg" using x by (simp add: bytes_between_def)
    then show ?thesis using Cons.IH[OF n(2)] Cons.prems by auto
  next
    case False
    have later: "s < f" if "(m, f) \<in> set lg" for m f using spaced_later[OF n(2) Cons.prems(2) that] False by simp
    have eq: "filter (\<lambda>(n, d). s < d \<and> d \<le> t) lg = filter (\<lambda>(n, d). d \<le> t) lg"
      by (rule filter_cong) (use later in auto)
    show ?thesis
    proof (cases "e \<le> t")
      case True
      have "bytes_until t lg \<le> R * (t - e)" using spaced_until[OF n(2) Cons.prems(2) True] .
      also have "\<dots> \<le> R * (t - s)" using False Cons.prems(2) by (intro mult_left_mono) auto
      finally have "of_int n + bytes_until t lg \<le> M + R * (t - s)" using Cons.prems(4) x by (intro add_mono) auto
      then show ?thesis using x False True eq by (simp add: bytes_between_def bytes_until_def)
    next
      case late: False
      have "filter (\<lambda>(n, d). d \<le> t) lg = []"
      proof (rule filter_False, rule ballI)
        fix p assume p: "p \<in> set lg"
        obtain m f where mf: "p = (m, f)" by (cases p)
        then have "e < f" using spaced_later[OF n(2) Cons.prems(2)] p by blast
        then show "\<not> (case p of (n, d) \<Rightarrow> d \<le> t)" using late mf by simp
      qed
      then show ?thesis using x late eq Cons.prems by (simp add: bytes_between_def)
    qed
  qed
qed

section \<open>Properties\<close>

text \<open>A bucket that always has work uses its whole rate: while every read comes before the previous one is
  due, the log ends exactly the time later that its bytes take.\<close>

fun backlogged :: "rat \<Rightarrow> rat \<Rightarrow> throttle_op list \<Rightarrow> bool" where
  "backlogged R d [] = True"
| "backlogged R d (Read r now # ops) = (now \<le> d \<and> 0 < result_byte_count r \<and>
     backlogged R (d + of_int (result_byte_count r) / R) ops)"
| "backlogged R d (SetRate f # ops) = False"

lemma backlog_uses_rate:
  "backlogged R (tb_due b) ops \<Longrightarrow> tb_rate b = Some R \<Longrightarrow> 0 < R \<Longrightarrow> \<not> tb_unlimited b \<Longrightarrow>
   R * (tb_due (fst (throttle b ops)) - tb_due b) = of_int (sum_list (map fst (snd (throttle b ops))))"
proof (induction b ops rule: throttle.induct)
  case (3 b r now ops)
  let ?n = "result_byte_count r"
  obtain b1 wait where c: "charge r now b = (b1, wait)" by (cases "charge r now b")
  obtain b2 lg where t: "throttle b1 ops = (b2, lg)" by (cases "throttle b1 ops")
  have n: "now \<le> tb_due b" "0 < ?n" using "3.prems"(1) by simp_all
  have b1: "b1 = b\<lparr>tb_due := tb_due b + of_int ?n / R\<rparr>"
    using c n "3.prems"(2,4) by (auto simp: charge_def acquire_def Let_def max_def)
  have "R * (tb_due b2 - tb_due b1) = of_int (sum_list (map fst lg))"
    using "3.IH"[OF c[symmetric]] "3.prems" b1 t by simp
  moreover have "R * (tb_due b1 - tb_due b) = of_int ?n" using b1 "3.prems"(3) by simp
  ultimately have "R * (tb_due b2 - tb_due b) = of_int ?n + of_int (sum_list (map fst lg))"
    by (simp add: algebra_simps)
  then show ?case using c t n(2) by simp
qed simp_all

text \<open>The deadline of a capped transfer gives it four times the time its bytes take, up to the ceiling.\<close>

lemma deadline_suffices:
  assumes "parse_bandwidth_mbps mbps = Inr m" "0 < m" "capped_transfer_timeout mbps (PInt n) d lowest = Inr t" "0 < n"
  shows "t = transfer_ceiling \<or> 4 * of_int n \<le> (m * 1000000 / 8) * t"
proof -
  let ?r = "m * 1000000 / 8"
  have "needed_bytes n = n * 4" using assms(4) by (simp add: needed_bytes_def)
  then have t: "t = min transfer_ceiling (max lowest (of_int (n * 4) / ?r))"
    using assms by (simp add: capped_transfer_timeout_def expected_count_def py_or_def split: if_splits)
  show ?thesis
  proof (cases "transfer_ceiling \<le> max lowest (of_int (n * 4) / ?r)")
    case True
    then show ?thesis using t by simp
  next
    case False
    then have "of_int (n * 4) / ?r \<le> t" using t by simp
    then show ?thesis using assms(2) by (simp add: field_simps)
  qed
qed

text \<open>Changes of the cluster cap keep the shares of the workers.\<close>

lemma shares_kept:
  assumes "list_all (\<lambda>(k, w). 0 \<le> w_factor w) ws" "sum_list (map (w_factor \<circ> snd) ws) \<le> 1" "0 \<le> cluster"
  shows "sum_list (map (w_rate \<circ> snd) (apply_bandwidth_cap cluster ws)) \<le> cluster"
proof -
  have "sum_list (map (w_rate \<circ> snd) (apply_bandwidth_cap cluster ws)) = cluster * sum_list (map (w_factor \<circ> snd) ws)"
    by (induction ws) (auto simp: apply_bandwidth_cap_def algebra_simps)
  also have "\<dots> \<le> cluster * 1" using assms(2,3) by (intro mult_left_mono)
  finally show ?thesis by simp
qed

text \<open>C0: However its reads are interleaved with changes of the rate, a bucket whose rates never exceed R lets at
  most R bytes per second through in every window of time, plus the size of one read.\<close>

theorem throttle_bounds_rate:
  assumes "throttle b ops = (b', lg)" "limited R b" "list_all (rate_at_most R) ops" "0 < R" "s \<le> t"
    "\<forall>(n, e) \<in> set lg. of_int n \<le> M" "0 \<le> M"
  shows "bytes_between s t lg \<le> R * (t - s) + M"
  by (rule spaced_between[OF throttle_spaced[OF assms(2,3,1)] assms(4-7)])

theorem throttle_bounds_rate_witness:
  "throttle \<lparr>tb_rate = Some 100, tb_due = 0, tb_unlimited = False\<rparr>
     [Read (Bytes 50) 1, Read (Pair [Count 100, Other]) 1, SetRate (Finite 50), Read (Bytes 25) 5] =
     (\<lparr>tb_rate = Some 50, tb_due = 11 / 2, tb_unlimited = False\<rparr>, [(50, 3 / 2), (100, 5 / 2), (25, 11 / 2)]) \<and>
   bytes_between 1 3 [(50, 3 / 2), (100, 5 / 2), (25, 11 / 2)] \<le> 100 * (3 - 1) + 100"
proof -
  let ?b = "\<lparr>tb_rate = Some 100, tb_due = 0, tb_unlimited = False\<rparr>"
  let ?ops = "[Read (Bytes 50) 1, Read (Pair [Count 100, Other]) 1, SetRate (Finite 50), Read (Bytes 25) 5]"
  have run: "throttle ?b ?ops = (\<lparr>tb_rate = Some 50, tb_due = 11 / 2, tb_unlimited = False\<rparr>,
      [(50, 3 / 2), (100, 5 / 2), (25, 11 / 2)])"
    by (simp add: charge_def acquire_def Let_def max_def)
  have "limited 100 ?b" by (simp add: limited_def)
  from throttle_bounds_rate[OF run this, of 1 3 100] run show ?thesis by simp
qed

end
