(* ===== verification/Runtime_Environment.thy ===== *)
theory Runtime_Environment imports Py_Values
begin

text \<open>
  Environment variables of managed containers (\<open>sparkdeck/runtime_environment.py\<close>): the check of submitted
  variables and the selection of those a discovered container may carry into a recipe.
  Dictionaries come from JSON, so their keys are texts; a code point above 127 takes two bytes in UTF-8.
\<close>

section \<open>Names\<close>

definition name_start :: "char \<Rightarrow> bool" where
  "name_start c = (let n = (of_char c :: nat) in 65 \<le> n \<and> n \<le> 90 \<or> 97 \<le> n \<and> n \<le> 122 \<or> n = 95)"

fun environment_name :: "string \<Rightarrow> bool" where
  "environment_name [] = False"
| "environment_name (c # s) = (name_start c \<and> list_all (\<lambda>d. name_start d \<or> is_digit d) s)"

definition upper_char :: "char \<Rightarrow> char" where
  "upper_char c = (let n = (of_char c :: nat) in if 97 \<le> n \<and> n \<le> 122 then char_of (n - 32) else c)"

definition secret_words :: "string list" where
  "secret_words = [''TOKEN'', ''SECRET'', ''PASSWORD'', ''PASSWD'', ''API_KEY'', ''PRIVATE_KEY'', ''ACCESS_KEY'']"

text \<open>A word between underscores or the ends of the name\<close>

definition secret_name :: "string \<Rightarrow> bool" where
  "secret_name s = list_ex (\<lambda>w. contains (''_'' @ w @ ''_'') (''_'' @ map upper_char s @ ''_'')) secret_words"

definition protected_names :: "string list" where
  "protected_names = [''HF_TOKEN'', ''HUGGING_FACE_HUB_TOKEN'']"

definition capable_engines :: "string list" where
  "capable_engines = [''vllm'', ''sglang'', ''laya'', ''tensorfold'', ''ninfer'', ''strata'']"

definition tuning_names :: "string list" where
  "tuning_names = [''HF_HUB_OFFLINE'', ''NCCL_DEBUG'', ''NCCL_IB_DISABLE'', ''NCCL_IB_GID_INDEX'', ''NCCL_IB_HCA'',
     ''NCCL_NET'', ''NCCL_SOCKET_IFNAME'', ''PYTORCH_CUDA_ALLOC_CONF'', ''SPECULATIVE_CONFIG'', ''UCX_NET_DEVICES'',
     ''VLLM_ASSETS_CACHE'', ''VLLM_ATTENTION_BACKEND'', ''VLLM_CACHE_ROOT'', ''VLLM_CONFIG_ROOT'', ''VLLM_LOGGING_LEVEL'',
     ''VLLM_LOG_STATS_INTERVAL'', ''VLLM_NO_USAGE_STATS'', ''VLLM_TARGET_DEVICE'', ''VLLM_USE_V1'',
     ''VLLM_WORKER_MULTIPROC_METHOD'']"

definition strata_names :: "string list" where
  "strata_names = [''CONTEXT'', ''FAMILY'', ''GGUF_DIR'', ''GPU'', ''GPUS'', ''KV'', ''KV_STREAMING'', ''LAYER_SPLIT'',
     ''LOW_RAM'', ''MODEL'', ''RESIDENT_BUDGET_GIB'', ''SERVED_MODEL_NAME'', ''VISION'']"

definition discovered_names :: "string \<Rightarrow> string list option" where
  "discovered_names engine = (if engine \<in> {''vllm'', ''ninfer''} then Some tuning_names
     else if engine = ''strata'' then Some strata_names else None)"

section \<open>The check\<close>

definition utf8_length :: "string \<Rightarrow> int" where
  "utf8_length s = sum_list (map (\<lambda>c. if (of_char c :: nat) < 128 then 1 else 2) s)"

definition checked_name :: "string \<Rightarrow> unit result" where
  "checked_name name =
     bindE (checkE (environment_name name) (ValueError (''invalid environment variable name: '' @ repr_str name))) (\<lambda>_.
     bindE (checkE (name \<notin> set protected_names) (ValueError
       (name @ '' is managed by SparkDeck; configure Hugging Face credentials in Settings''))) (\<lambda>_.
     checkE (\<not> secret_name name) (ValueError
       (name @ '' looks secret and cannot be stored in deployment environment variables''))))"

definition checked_value :: "string \<Rightarrow> pyval \<Rightarrow> string result" where
  "checked_value name v = (case v of
     PStr s \<Rightarrow>
       bindE (checkE (CHR 0x00 \<notin> set s) (ValueError (''environment variable '' @ name @ '' cannot contain a NUL character''))) (\<lambda>_.
       bindE (checkE (CHR 0x0A \<notin> set s \<and> CHR 0x0D \<notin> set s)
         (ValueError (''environment variable '' @ name @ '' cannot contain a newline''))) (\<lambda>_. Inr s))
   | _ \<Rightarrow> Inl (ValueError (''environment variable '' @ name @ '' must have a string value'')))"

definition add_variable :: "(string, string) dict \<times> int \<Rightarrow> string \<times> pyval \<Rightarrow> ((string, string) dict \<times> int) result" where
  "add_variable acc kv = (case acc of (result, size_before) \<Rightarrow> (case kv of (name, raw) \<Rightarrow>
     bindE (checked_name name) (\<lambda>_. bindE (checked_value name raw) (\<lambda>s.
     let size_after = size_before + (utf8_length name + utf8_length s) in
     bindE (checkE (size_after \<le> 65536) (ValueError ''environment cannot exceed 64 KiB'')) (\<lambda>_.
     Inr (AList.update name s result, size_after))))))"

definition normalize_environment :: "pyval \<Rightarrow> string \<Rightarrow> (string, string) dict result" where
  "normalize_environment v engine = (if v = PNone then Inr [] else
     bindE (checkE (engine \<in> set capable_engines \<or> \<not> py_truthy v) (ValueError
       ''runtime environment variables are only supported for vLLM, SGLang, Laya, TensorFold, NInfer, and Strata'')) (\<lambda>_.
     case v of
       PDict d \<Rightarrow>
         bindE (checkE (length d \<le> 128) (ValueError ''environment cannot contain more than 128 variables'')) (\<lambda>_.
         bindE (foldE add_variable ([], 0) d) (\<lambda>(result, size_before). Inr result))
     | _ \<Rightarrow> Inl (ValueError ''environment must be an object of string values'')))"

definition as_values :: "(string, string) dict \<Rightarrow> (string \<times> pyval) list" where
  "as_values d = map (\<lambda>(k, s). (k, PStr s)) d"

definition keep_discovered :: "string \<Rightarrow> string list \<Rightarrow> (string, string) dict \<Rightarrow> string \<times> pyval \<Rightarrow> (string, string) dict" where
  "keep_discovered engine allowed result kv = (case kv of (name, raw) \<Rightarrow>
     if name \<notin> set allowed then result
     else (case normalize_environment (PDict (AList.update name raw (as_values result))) engine of
       Inl e \<Rightarrow> result | Inr result' \<Rightarrow> result'))"

definition discovered_environment :: "pyval \<Rightarrow> string \<Rightarrow> (string, string) dict" where
  "discovered_environment v engine = (case (discovered_names engine, v) of
     (Some allowed, PDict d) \<Rightarrow> foldl (keep_discovered engine allowed) [] d
   | _ \<Rightarrow> [])"

section \<open>What is accepted\<close>

definition good_variable :: "string \<times> string \<Rightarrow> bool" where
  "good_variable kv = (case kv of (k, s) \<Rightarrow> environment_name k \<and> k \<notin> set protected_names \<and> \<not> secret_name k \<and>
     CHR 0x00 \<notin> set s \<and> CHR 0x0A \<notin> set s \<and> CHR 0x0D \<notin> set s)"

definition environment_bytes :: "(string, string) dict \<Rightarrow> int" where
  "environment_bytes d = sum_list (map (\<lambda>(k, s). utf8_length k + utf8_length s) d)"

definition good_environment :: "(string, string) dict \<Rightarrow> bool" where
  "good_environment d \<longleftrightarrow> list_all good_variable d \<and> length d \<le> 128 \<and> environment_bytes d \<le> 65536"

lemma checked_value_Inr: "checked_value k v = Inr s \<longleftrightarrow>
    v = PStr s \<and> CHR 0x00 \<notin> set s \<and> CHR 0x0A \<notin> set s \<and> CHR 0x0D \<notin> set s"
  by (cases v) (auto simp: checked_value_def except_simps)

lemma add_variable_Inr: "add_variable (res, n) (k, v) = Inr (res', n') \<longleftrightarrow>
    (\<exists>s. v = PStr s \<and> good_variable (k, s) \<and> res' = AList.update k s res \<and> n' = n + (utf8_length k + utf8_length s) \<and> n' \<le> 65536)"
  by (auto simp: add_variable_def checked_name_def checked_value_Inr except_simps Let_def good_variable_def)

lemma update_new: "k \<notin> fst ` set d \<Longrightarrow> AList.update k v d = d @ [(k, v)]"
  by (induction d) auto

lemma utf8_length_nonneg: "0 \<le> utf8_length s"
  unfolding utf8_length_def by (rule sum_list_nonneg) auto

lemma environment_bytes_nonneg: "0 \<le> environment_bytes e"
  unfolding environment_bytes_def by (rule sum_list_nonneg) (auto simp: utf8_length_nonneg)

lemma environment_bytes_Cons: "environment_bytes ((k, s) # e) = utf8_length k + utf8_length s + environment_bytes e"
  by (simp add: environment_bytes_def)

lemma as_values_Cons: "as_values ((k, s) # e) = (k, PStr s) # as_values e"
  by (simp add: as_values_def)

lemma add_variables_Inr:
  "distinct (map fst (as_values res @ d)) \<Longrightarrow> n \<le> 65536 \<Longrightarrow> foldE add_variable (res, n) d = Inr (res', n') \<longleftrightarrow>
    (\<exists>e. d = as_values e \<and> list_all good_variable e \<and> res' = res @ e \<and> n' = n + environment_bytes e \<and> n' \<le> 65536)"
proof (induction d arbitrary: res n)
  case Nil
  then show ?case by (auto simp: as_values_def environment_bytes_def)
next
  case (Cons kv d)
  obtain k v where kv: "kv = (k, v)" by (cases kv)
  have new: "k \<notin> fst ` set res" using Cons.prems kv by (force simp: as_values_def)
  have dist: "distinct (map fst (as_values (res @ [(k, s)]) @ d))" for s
    using Cons.prems kv by (auto simp: as_values_def)
  show ?case
  proof
    assume "foldE add_variable (res, n) (kv # d) = Inr (res', n')"
    then obtain r1 n1 where s: "add_variable (res, n) (k, v) = Inr (r1, n1)" "foldE add_variable (r1, n1) d = Inr (res', n')"
      using kv by (auto simp: except_simps)
    then obtain t where t: "v = PStr t" "good_variable (k, t)" "r1 = res @ [(k, t)]"
      "n1 = n + (utf8_length k + utf8_length t)" "n1 \<le> 65536"
      using new by (auto simp: add_variable_Inr update_new)
    from Cons.IH[OF dist t(5), of t] s(2) t(3) obtain e where e: "d = as_values e" "list_all good_variable e" "res' = r1 @ e"
      "n' = n1 + environment_bytes e" "n' \<le> 65536" by auto
    show "\<exists>e. kv # d = as_values e \<and> list_all good_variable e \<and> res' = res @ e \<and> n' = n + environment_bytes e \<and> n' \<le> 65536"
      using e t kv by (intro exI[of _ "(k, t) # e"]) (simp add: as_values_Cons environment_bytes_Cons)
  next
    assume "\<exists>e. kv # d = as_values e \<and> list_all good_variable e \<and> res' = res @ e \<and> n' = n + environment_bytes e \<and> n' \<le> 65536"
    then obtain e where e: "kv # d = as_values e" "list_all good_variable e" "res' = res @ e" "n' = n + environment_bytes e"
       "n' \<le> 65536" by blast
    then obtain t e' where t: "e = (k, t) # e'" "v = PStr t" "d = as_values e'" using kv
      by (cases e) (auto simp: as_values_def)
    let ?n1 = "n + (utf8_length k + utf8_length t)"
    have n1: "?n1 \<le> 65536" using e(4,5) t(1) environment_bytes_nonneg[of e'] by (simp add: environment_bytes_Cons)
    have "add_variable (res, n) (k, v) = Inr (res @ [(k, t)], ?n1)"
      using e(2) t n1 new by (simp add: add_variable_Inr update_new)
    moreover have "foldE add_variable (res @ [(k, t)], ?n1) d = Inr (res', n')"
      using Cons.IH[OF dist n1, of t] e t by (simp add: environment_bytes_Cons)
    ultimately show "foldE add_variable (res, n) (kv # d) = Inr (res', n')" using kv by simp
  qed
qed

lemma length_as_values [simp]: "length (as_values d) = length d"
  by (simp add: as_values_def)

lemma keys_as_values [simp]: "map fst (as_values d) = map fst d"
  by (induction d) (auto simp: as_values_def)

text \<open>The check accepts exactly the good environments and returns them unchanged.\<close>

lemma normalize_exact:
  assumes "distinct (map fst d)" "engine \<in> set capable_engines"
  shows "normalize_environment (PDict d) engine = Inr e \<longleftrightarrow> d = as_values e \<and> good_environment e"
proof -
  have "normalize_environment (PDict d) engine = Inr e \<longleftrightarrow> length d \<le> 128 \<and> (\<exists>n. foldE add_variable ([], 0) d = Inr (e, n))"
    using assms(2) by (auto simp: normalize_environment_def except_simps)
  also have "\<dots> \<longleftrightarrow> d = as_values e \<and> good_environment e"
    using add_variables_Inr[of "[]" d 0] assms(1) by (auto simp: good_environment_def as_values_def)
  finally show ?thesis .
qed

lemma normalize_as_values:
  assumes "good_environment e" "distinct (map fst e)" "engine \<in> set capable_engines"
  shows "normalize_environment (PDict (as_values e)) engine = Inr e"
  using normalize_exact[of "as_values e" engine e] assms by simp

section \<open>Discovered variables\<close>

lemma discovered_capable: "discovered_names engine = Some allowed \<Longrightarrow> engine \<in> set capable_engines"
  by (auto simp: discovered_names_def capable_engines_def split: if_splits)

lemma keep_discovered_ok:
  assumes "discovered_names engine = Some allowed" "distinct (map fst res)" "good_environment res" "fst ` set res \<subseteq> set allowed"
    "\<forall>(k, s) \<in> set res. (k, PStr s) \<in> D" "(name, raw) \<in> D" "name \<notin> fst ` set res"
  defines "r \<equiv> keep_discovered engine allowed res (name, raw)"
  shows "distinct (map fst r) \<and> good_environment r \<and> fst ` set r \<subseteq> set allowed \<and> (\<forall>(k, s) \<in> set r. (k, PStr s) \<in> D) \<and>
    fst ` set r \<subseteq> insert name (fst ` set res)"
proof (cases "name \<in> set allowed \<and> (\<exists>e. normalize_environment (PDict (AList.update name raw (as_values res))) engine = Inr e)")
  case False
  then have "r = res" by (auto simp: r_def keep_discovered_def split: sum.split)
  then show ?thesis using assms by auto
next
  case True
  then obtain e where e: "normalize_environment (PDict (AList.update name raw (as_values res))) engine = Inr e" by blast
  have up: "AList.update name raw (as_values res) = as_values res @ [(name, raw)]"
    using assms(7) by (intro update_new) (force simp: as_values_def)
  have dist: "distinct (map fst (as_values res @ [(name, raw)]))" using assms(2,7) by simp
  from normalize_exact[OF dist discovered_capable[OF assms(1)], of e] e up
  have ee: "as_values res @ [(name, raw)] = as_values e" "good_environment e" by simp_all
  have r: "r = e" using True e by (simp add: r_def keep_discovered_def)
  have keys: "map fst e = map fst res @ [name]" using arg_cong[OF ee(1), of "map fst"] by simp
  have "(k, PStr s) \<in> D" if "(k, s) \<in> set e" for k s
  proof -
    have "(k, PStr s) \<in> set (as_values e)" using that by (force simp: as_values_def)
    then have "(k, PStr s) \<in> set (as_values res) \<or> (k, PStr s) = (name, raw)" by (auto simp: ee(1)[symmetric])
    then show ?thesis using assms(5,6) by (auto simp: as_values_def)
  qed
  moreover have "fst ` set e = insert name (fst ` set res)" using arg_cong[OF keys, of set] by simp
  ultimately show ?thesis using ee(2) keys assms(2,4,7) True by (auto simp: r)
qed

lemma discovered_ok:
  assumes "discovered_names engine = Some allowed" "distinct (map fst d)"
  shows "good_environment (discovered_environment (PDict d) engine) \<and>
    fst ` set (discovered_environment (PDict d) engine) \<subseteq> set allowed \<and>
    (\<forall>(k, s) \<in> set (discovered_environment (PDict d) engine). (k, PStr s) \<in> set d) \<and>
    distinct (map fst (discovered_environment (PDict d) engine))"
proof -
  have "let r = foldl (keep_discovered engine allowed) [] xs in distinct (map fst r) \<and> good_environment r \<and>
      fst ` set r \<subseteq> set allowed \<and> (\<forall>(k, s) \<in> set r. (k, PStr s) \<in> set d) \<and> fst ` set r \<subseteq> fst ` set xs"
    if "set xs \<subseteq> set d" "distinct (map fst xs)" for xs
    using that
  proof (induction xs rule: rev_induct)
    case Nil
    then show ?case by (simp add: good_environment_def environment_bytes_def)
  next
    case (snoc x xs)
    obtain k v where x: "x = (k, v)" by (cases x)
    let ?r = "foldl (keep_discovered engine allowed) [] xs"
    have ih: "distinct (map fst ?r)" "good_environment ?r" "fst ` set ?r \<subseteq> set allowed"
      "\<forall>(k, s) \<in> set ?r. (k, PStr s) \<in> set d" "fst ` set ?r \<subseteq> fst ` set xs" using snoc by (auto simp: Let_def)
    have new: "k \<notin> fst ` set ?r" using ih(5) snoc.prems(2) x by auto
    have "(k, v) \<in> set d" using snoc.prems(1) x by simp
    note k = keep_discovered_ok[OF assms(1) ih(1-4) this new]
    have "fst ` set (keep_discovered engine allowed ?r (k, v)) \<subseteq> insert k (fst ` set ?r)" using k by blast
    also have "\<dots> \<subseteq> fst ` set (xs @ [x])" using ih(5) x by auto
    finally show ?case using k by (simp add: Let_def x)
  qed
  from this[of d] show ?thesis using assms by (auto simp: discovered_environment_def Let_def)
qed

section \<open>Properties\<close>

text \<open>C0: The check accepts an object of variables exactly if every name is an identifier that neither is managed by
  SparkDeck nor looks secret, every value is one line of text, and the whole is within 128 variables and 64 KiB,
  and then returns it unchanged; what is kept of a discovered container is always accepted, was in the
  container, and has only the names allowed for the engine.\<close>

theorem environment_exact:
  assumes "distinct (map fst d)" "engine \<in> set capable_engines"
  shows "(normalize_environment (PDict d) engine = Inr e \<longleftrightarrow> d = as_values e \<and> good_environment e) \<and>
    (case discovered_names engine of None \<Rightarrow> discovered_environment (PDict d) engine = []
     | Some allowed \<Rightarrow>
         normalize_environment (PDict (as_values (discovered_environment (PDict d) engine))) engine
           = Inr (discovered_environment (PDict d) engine) \<and>
         set (as_values (discovered_environment (PDict d) engine)) \<subseteq> set d \<and>
         fst ` set (discovered_environment (PDict d) engine) \<subseteq> set allowed)"
proof (cases "discovered_names engine")
  case None
  then show ?thesis using normalize_exact[OF assms, of e] by (simp add: discovered_environment_def)
next
  case (Some allowed)
  note ok = discovered_ok[OF Some assms(1)]
  have "normalize_environment (PDict (as_values (discovered_environment (PDict d) engine))) engine
      = Inr (discovered_environment (PDict d) engine)"
    using ok assms(2) by (intro normalize_as_values) auto
  then show ?thesis using normalize_exact[OF assms, of e] ok Some by (auto simp: as_values_def)
qed

definition environment_demo :: "(string \<times> pyval) list" where
  "environment_demo = [(''A_TOKEN'', PStr ''s''), (''KV'', PStr ''q'')]"

theorem environment_exact_witness:
  "\<not> (\<exists>e. normalize_environment (PDict environment_demo) ''strata'' = Inr e) \<and>
   discovered_environment (PDict environment_demo) ''strata'' = [(''KV'', ''q'')] \<and>
   normalize_environment (PDict (as_values [(''KV'', ''q'')])) ''strata''
     = Inr [(''KV'', ''q'')]"
proof -
  have a: "distinct (map fst environment_demo)" "''strata'' \<in> set capable_engines" by code_simp+
  have b: "discovered_environment (PDict environment_demo) ''strata'' = [(''KV'', ''q'')]"
    by code_simp
  have c: "is_ok (normalize_environment (PDict environment_demo) ''strata'') = False" by code_simp
  have d: "discovered_names ''strata'' = Some strata_names" by code_simp
  have e: "\<not> (\<exists>e. normalize_environment (PDict environment_demo) ''strata'' = Inr e)" using c by (simp add: is_ok_iff)
  have "normalize_environment (PDict (as_values [(''KV'', ''q'')])) ''strata''
     = Inr [(''KV'', ''q'')]"
    using environment_exact[OF a, of "[]", THEN conjunct2, unfolded d b option.case] by (rule conjunct1)
  then show ?thesis by (intro conjI e b)
qed

end
