(* ===== verification/Request_Limits.thy ===== *)
theory Request_Limits imports Py_Values
begin

text \<open>
  The bound on buffered inference requests (\<open>sparkdeck/request_limits.py\<close>): which paths it covers and the
  reading of a body that arrives in chunks, with the announced length checked first.
\<close>

definition max_inference_bytes :: int where
  "max_inference_bytes = 32 * 1024 * 1024"

definition envelope_bytes :: int where
  "envelope_bytes = 64 * 1024"

text \<open>\<open>path.rstrip("/")\<close>\<close>

definition rstrip_slash :: "string \<Rightarrow> string" where
  "rstrip_slash p = rev (dropWhile (\<lambda>c. c = CHR ''/'') (rev p))"

definition is_inference_path :: "string \<Rightarrow> bool" where
  "is_inference_path p \<longleftrightarrow> rstrip_slash p \<in> {''/v1/chat/completions'', ''/v1/completions'', ''/v1/responses''} \<or>
     starts_with ''/api/agent/inference/'' p"

text \<open>The result is the body, or \<open>None\<close> when \<open>RequestBodyTooLarge\<close> is raised; the second component is the most
  bytes that were buffered.\<close>

fun read_chunks :: "int \<Rightarrow> string \<Rightarrow> string list \<Rightarrow> string option \<times> nat" where
  "read_chunks limit body [] = (Some body, length body)"
| "read_chunks limit body (c # cs) = (if limit < int (length body + length c) then (None, length body)
     else read_chunks limit (body @ c) cs)"

definition announced_too_large :: "int \<Rightarrow> string option \<Rightarrow> bool" where
  "announced_too_large limit header = (case header of None \<Rightarrow> False
     | Some t \<Rightarrow> (case int_of_text t of Inr n \<Rightarrow> limit < n | Inl e \<Rightarrow> False))"

definition read_limited_body :: "int \<Rightarrow> string option \<Rightarrow> string list \<Rightarrow> string option \<times> nat" where
  "read_limited_body limit header chunks =
     (if announced_too_large limit header then (None, 0) else read_chunks limit [] chunks)"

lemma read_chunks_exact:
  "int (length body) \<le> limit \<Longrightarrow>
   fst (read_chunks limit body cs) = (if int (length (body @ concat cs)) \<le> limit then Some (body @ concat cs) else None) \<and>
   int (snd (read_chunks limit body cs)) \<le> limit"
proof (induction limit body cs rule: read_chunks.induct)
  case (2 limit body c cs)
  then show ?case by (cases "limit < int (length body + length c)") auto
qed simp

text \<open>However the body is cut, it is returned whole if it fits and refused otherwise, and never more than the limit
  is kept.  A false announcement only refuses a body that would have fitted.\<close>

lemma body_limited:
  assumes "0 \<le> limit"
  shows "fst (read_limited_body limit header chunks) =
      (if \<not> announced_too_large limit header \<and> int (length (concat chunks)) \<le> limit then Some (concat chunks) else None)"
    "int (snd (read_limited_body limit header chunks)) \<le> limit"
  using read_chunks_exact[of "[]" limit chunks] assms by (auto simp: read_limited_body_def)

end
