(* ===== verification/Spec2Isabelle.thy ===== *)
theory Spec2Isabelle imports Prompt_Gate Admission_Properties Failover Source_Routing Model_Policies Load_Settings
  Agent_Credentials Node_Probes Workload_Ledger Usage_Cost Env_Update Fan_Daemon Stream_Transfer Nas_Properties
  Responses_Replay Download_Throttle Runtime_Environment Request_Limits
begin

text \<open>
  A verification development for SparkDeck, the control plane of a cluster of inference nodes.

  \<^bold>\<open>The program.\<close>  Every node runs an agent; one of them is the controller.  Clients send chat and
  completion requests to the controller (\<open>server.py\<close>), which routes them to a serving unit
  (\<open>manager.py\<close>), limits how many run and how many are in prompt processing (\<open>manager.py\<close>,
  \<open>prompt_gate.py\<close>), fails over between replicas, and accounts the tokens.  Deployments are
  launched from commands whose settings are read and edited, models are copied between nodes
  (\<open>virtual_nas.py\<close>), nodes are paired and probed (\<open>cluster.py\<close>), containers are claimed in a ledger
  (\<open>workload_ownership.py\<close>), the settings of services live in env files (\<open>envfile_settings.py\<close>), and a
  daemon drives the cabinet fan (\<open>Fan/fancontroller\<close>).  Paths below are relative to \<open>src/sparkdeck\<close>
  except \<open>manager.py\<close>, \<open>cluster.py\<close> (in \<open>src\<close>) and \<open>Fan\<close> (in \<open>src\<close>).

  \<^bold>\<open>Conventions.\<close>  A failing operation returns \<open>pyexc + 'a\<close>, with the exception and its message on
  the left; every raise and early return of the source is a branch.  A \<open>dict\<close> is an association list
  in insertion order (\<open>AList.update\<close>, \<open>AList.delete\<close>, \<open>map_of\<close>), an object that is shared and mutated is
  a number into an explicit heap, and a value from JSON is a \<open>pyval\<close>.  A text is a list of characters,
  so code points above 255 are outside the model.  A float is a rational and its arithmetic exact,
  except where the source treats infinities and NaN, which \<open>pyfloat\<close> keeps.  Code between two awaits is
  one uninterrupted step; what other tasks do in between is a step relation over these steps.
  Functions of libraries (\<open>json\<close>, \<open>hashlib\<close>, \<open>ipaddress\<close>, \<open>urllib.parse\<close>, \<open>math.exp\<close>, float on a text) are
  parameters, and what a theorem needs of one is a named hypothesis with a witness.  Writes to disk
  succeed: the paths that restore the old value after a failed write are left out.

  \<^bold>\<open>Foundations.\<close>
  \<^item> \<open>SD_Prelude\<close>: exceptions, results and their combinators, dictionaries, the collections
    \<open>dict_simps\<close> and \<open>except_simps\<close>, list lemmas.
  \<^item> \<open>Py_Values\<close>: the Python values of JSON with truth value, \<open>str\<close>, \<open>int\<close>, comparison, and the methods
    of strings the sources use.
  \<^item> \<open>Fifo_Slots\<close>: the locale \<open>fifo_slots\<close>, the contract of a FIFO admission controller (settling grants
    waiters from the front while a slot is free); interpreted by the prompt gate and by the admission
    queue.
  \<^item> \<open>Load_Counter\<close>: the locale \<open>load_counter\<close>, counters that are raised for the least loaded owner and
    lowered on release; interpreted by the cluster members and by the policy slots.

  \<^bold>\<open>Admission.\<close>
  \<^item> \<open>Prompt_Gate\<close> (\<open>prompt_gate.py\<close>): gate, leases, \<open>acquire\<close>, \<open>run\<close>, the detection of the first output,
    streamed responses, the registry.  \<open>gate_step\<close> interleaves the segments of all requests; the
    properties are accounting, FIFO service, and that a stream releases its lease exactly once.
  \<^item> \<open>Inference_Admission\<close>, \<open>Admission_Invariant\<close>, \<open>Admission_Steps\<close>, \<open>Nudger\<close>, \<open>Admission_System\<close>,
    \<open>Admission_Properties\<close> (\<open>manager.py\<close>, \<open>_acquire_inference_slot\<close> to \<open>_inference_nudger_tick\<close>): the state
    objects of the targets on a heap, every operation, the invariant \<open>adm_ok\<close> with one lifting lemma
    (\<open>local_step_ok\<close>), the step relation \<open>adm_step\<close>, and the properties of its reachable states.  The
    recovery of a throttled target needs as many quiet ticks as slots are missing (\<open>quiet_ticks\<close>).

  \<^bold>\<open>Routing.\<close>
  \<^item> \<open>Prefix_Affinity\<close> (\<open>prefix_affinity.py\<close>): keys of a conversation and the bounded table of hints.
  \<^item> \<open>Cluster_Routing\<close> (\<open>manager.py\<close>, \<open>_cluster_members_sorted\<close> to \<open>_prefer_cluster_affinity\<close>): availability,
    balanced choice, route order, affinity.
  \<^item> \<open>Failover\<close> (\<open>manager.py\<close>, \<open>proxy_cluster_inference\<close> and what it calls): failure classes, one pass over the
    candidates, the relay that may change the replica before its first event, and the ride-through
    loop.  The loop \<open>ride\<close> takes fuel: with a window of \<open>w\<close> seconds and pauses of at least half a second
    it ends within \<open>2 * w + 2\<close> passes, and \<open>ride_through_safe\<close> proves that this fuel never runs out.
  \<^item> \<open>Source_Routing\<close> (\<open>manager.py\<close>, source-IP rules): validation, persistence, lookup and the pinned
    candidates.
  \<^item> \<open>Model_Policies\<close> (\<open>service.py\<close>, model routing policies): persistence, choice and slot release.

  \<^bold>\<open>Commands and settings.\<close>
  \<^item> \<open>Shell_Scan\<close> (\<open>manager.py\<close>, the six \<open>_shell_has_\<close> scanners): the locales \<open>bare_scanner\<close> and \<open>shell_scanner\<close>
    state the common loop once; each scanner is an interpretation, and four are proved equal to a
    condition on the reference reading \<open>lexemes\<close>.
  \<^item> \<open>Launch_Args\<close>, \<open>Load_Settings\<close> (\<open>manager.py\<close>): credential redaction, options of a command, the settings
    read from SGLang, NInfer and vLLM commands.
  \<^item> \<open>Env_File\<close>, \<open>Env_Reading\<close>, \<open>Env_Update\<close> (\<open>envfile_settings.py\<close>): lines, entries, update checks and the
    rewriting of the addressed lines.

  \<^bold>\<open>Nodes and ownership.\<close>
  \<^item> \<open>Agent_Credentials\<close> (\<open>cluster.py\<close>, \<open>AgentCredentials\<close>): pairing and join codes, claim, authorization.
  \<^item> \<open>Node_Registry\<close>, \<open>Node_Probes\<close> (\<open>cluster.py\<close>, \<open>NodeRegistry\<close>): the registry as a map from ids to nodes, and
    status probes that run concurrently with lifecycle actions; \<open>probe_step\<close> interleaves them.
  \<^item> \<open>Workload_Ledger\<close> (\<open>workload_ownership.py\<close>): claims as the content of a file that every operation reads
    and writes back.

  \<^bold>\<open>Accounting.\<close>
  \<^item> \<open>Usage_Rows\<close>, \<open>Usage_Cost\<close> (\<open>manager.py\<close>): routing rules of usage, aliases and merge groups, the rows with
    their cache estimates, prices and decode speeds.  \<open>resolve_routing\<close> follows the rules; its termination
    measure is the number of names not seen yet.

  \<^bold>\<open>Fan.\<close>
  \<^item> \<open>Fan_Control\<close>, \<open>Fan_Daemon\<close> (\<open>Fan/fancontroller\<close>): the control algorithms, the control file, one poll, and
    the serial link with its interleavings.

  \<^bold>\<open>Virtual NAS\<close> (\<open>virtual_nas.py\<close>).
  \<^item> \<open>Nas_Ids\<close>: identities of models and files, byte counts and free-space requirements.
  \<^item> \<open>File_Stream\<close>, \<open>Stream_Transfer\<close>: the frames of an export, the reader over arbitrarily cut chunks, the
    receiver with its checks on a staged tree; the receiver recurses on the remaining input.  Whatever is
    accepted stays inside the repository textually; \<open>links_escape\<close> shows that this does not bind
    the links once they are resolved.
  \<^item> \<open>Nas_Jobs\<close>: the job record and the saved queue.
  \<^item> \<open>Nas_Requests\<close>: the admission of transfers and downloads with all checks.
  \<^item> \<open>Nas_Queue\<close>: the next job and the cascade of cancellations as the loop over a stack.
  \<^item> \<open>Nas_System\<close>, \<open>Nas_Safety\<close>, \<open>Nas_Properties\<close>: the dispatcher (it terminates, since each round takes a
    queued job), start and end of runs, the step relation \<open>nas_step\<close>, its invariant \<open>nas_ok\<close>, and the
    properties of reachable states.

  \<^bold>\<open>Interaction.\<close>  A request passes the source rules (\<open>Source_Routing\<close>) or the policies (\<open>Model_Policies\<close>), which
  choose a deployment; the route order of its members (\<open>Cluster_Routing\<close>, with the hints of
  \<open>Prefix_Affinity\<close>) feeds the failover loop (\<open>Failover\<close>); on the serving node the request waits in the
  admission queue (\<open>Inference_Admission\<close>) and in the prompt gate (\<open>Prompt_Gate\<close>); its tokens end in the usage
  rows (\<open>Usage_Rows\<close>, \<open>Usage_Cost\<close>).  The availability of members is what the node probes observed
  (\<open>Node_Probes\<close>).  The theories import each other along these uses.

  \<^bold>\<open>Not modelled.\<close>  The HTTP and MCP servers declare routes that forward to the operations above.  The
  lifecycle and discovery of containers, the throttled image pull, the updater, image patches, the
  disk manager, embeddings, benchmarks and the runtime adapters drive external programs (Docker, ssh,
  git, systemd, tc) and format their output.  The storage is SQL on SQLite, the catalog, onboarding and
  RouterOS are clients of HTTP interfaces.  Of the deployment service only the routing policies are
  modelled, of the virtual NAS not the walks of cache directories and the worker processes, and of the
  manager not the live telemetry of requests and its exchange between nodes.  The desktop application
  of the fan and the decision server wrap third-party libraries.
\<close>

end
